(* ===== verification/Prelude.thy ===== *)
theory Prelude
  imports
    Main
    "HOL-Library.Word"
    "HOL-Library.List_Lexorder"
    "HOL-Library.Char_ord"
    "HOL-Library.Sublist"
begin

text \<open>
  Shared ground of the development: the fact collections, Go's error results, Go's fixed-width
  integers, and generic facts on association lists that several components use.

  \<^item> \<open>error\<close> is a Go \<^verbatim>\<open>error\<close> value. The message of \<^verbatim>\<open>fmt.Errorf\<close> is kept, its formatted
    arguments are dropped. \<open>Inl e\<close> is a non-nil error, \<open>Inr x\<close> a nil error with result \<open>x\<close>.
  \<^item> \<^verbatim>\<open>int64\<close> and \<^verbatim>\<open>int32\<close> are \<open>int\<close> with the two's complement wrap-around \<open>i64\<close> and \<open>i32\<close>
    written out after each arithmetic operation; \<^verbatim>\<open>uint64\<close> is \<open>64 word\<close>, whose \<open>+\<close> wraps
    and whose order is the unsigned one. \<open>i64_sint\<close> ties the first to the second.
\<close>

named_theorems golib_simps \<open>equations of the Go standard library models\<close>
named_theorems store_simps \<open>equations of the store: transactions, keys, reads after writes\<close>
named_theorems engine_simps \<open>equations of the consensus engine\<close>

type_synonym uint64 = "64 word"

section \<open>Error results\<close>

datatype error =
    KeyNotFound         \<comment> \<open>\<^verbatim>\<open>badger.ErrKeyNotFound\<close>\<close>
  | BadgerErr           \<comment> \<open>any other failure reported by Badger\<close>
  | JsonErr             \<comment> \<open>a failure of \<^verbatim>\<open>json.Unmarshal\<close> or \<^verbatim>\<open>fmt.Sscanf\<close>\<close>
  | Errorf string       \<comment> \<open>\<^verbatim>\<open>fmt.Errorf\<close>, arguments dropped\<close>

type_synonym 'a res = "error + 'a"

definition is_ok :: "'a res \<Rightarrow> bool" where
  "is_ok r = (case r of Inl _ \<Rightarrow> False | Inr _ \<Rightarrow> True)"

lemma is_ok_simps [simp]: "is_ok (Inr x)" "\<not> is_ok (Inl e)"
  by (simp_all add: is_ok_def)

lemma is_okE: "is_ok r \<Longrightarrow> (\<And>x. r = Inr x \<Longrightarrow> P) \<Longrightarrow> P"
  by (cases r) auto

lemma not_is_okE: "\<not> is_ok r \<Longrightarrow> (\<And>e. r = Inl e \<Longrightarrow> P) \<Longrightarrow> P"
  by (cases r) auto

section \<open>Fixed-width integers\<close>

definition i64 :: "int \<Rightarrow> int" where
  "i64 x = (x + 2 ^ 63) mod 2 ^ 64 - 2 ^ 63"

definition i32 :: "int \<Rightarrow> int" where
  "i32 x = (x + 2 ^ 31) mod 2 ^ 32 - 2 ^ 31"

definition in_i64 :: "int \<Rightarrow> bool" where
  "in_i64 x \<longleftrightarrow> - (2 ^ 63) \<le> x \<and> x < 2 ^ 63"

definition in_i32 :: "int \<Rightarrow> bool" where
  "in_i32 x \<longleftrightarrow> - (2 ^ 31) \<le> x \<and> x < 2 ^ 31"

lemma i64_in_range [simp]: "in_i64 (i64 x)"
  by (simp add: in_i64_def i64_def)

lemma i64_id: "in_i64 x \<Longrightarrow> i64 x = x"
  by (simp add: in_i64_def i64_def)

lemma i64_idem [simp]: "i64 (i64 x) = i64 x"
  by (simp add: i64_id)

lemma i64_iff: "i64 x = x \<longleftrightarrow> in_i64 x"
  by (metis i64_id i64_in_range)

lemma i32_in_range [simp]: "in_i32 (i32 x)"
  by (simp add: in_i32_def i32_def)

lemma i32_id: "in_i32 x \<Longrightarrow> i32 x = x"
  by (simp add: in_i32_def i32_def)

text \<open>The wrap-around is that of a 64-bit two's complement register.\<close>

lemma i64_sint: "i64 x = sint (word_of_int x :: 64 word)"
  by (simp add: i64_def sint_sbintrunc' signed_take_bit_eq_take_bit_shift take_bit_eq_mod)

lemma i64_cong: "i64 x = x - 2 ^ 64 * ((x + 2 ^ 63) div 2 ^ 64)"
  by (simp add: i64_def minus_mult_div_eq_mod [symmetric])

lemma i64_sum_nonneg:
  assumes "0 \<le> a" "a < 2 ^ 63" "0 \<le> b" "b < 2 ^ 63" "0 \<le> i64 (a + b)"
  shows "i64 (a + b) = a + b"
proof -
  obtain k where k: "i64 (a + b) = a + b - 2 ^ 64 * k" using i64_cong by blast
  moreover have "i64 (a + b) < 2 ^ 63" using i64_in_range [of "a + b"] by (simp add: in_i64_def)
  ultimately have "k = 0" using assms by simp
  with k show ?thesis by simp
qed

text \<open>Go's integer division truncates towards zero; the divisor is tested by the callers.\<close>

definition go_div :: "int \<Rightarrow> int \<Rightarrow> int" where
  "go_div a b = sgn a * sgn b * (\<bar>a\<bar> div \<bar>b\<bar>)"

lemma go_div_nonneg: "0 \<le> a \<Longrightarrow> 0 < b \<Longrightarrow> go_div a b = a div b"
  by (cases "a = 0") (auto simp: go_div_def)

text \<open>The next \<^verbatim>\<open>uint64\<close> is one larger unless it wraps to zero.\<close>

lemma unat_succ: "w + 1 \<noteq> 0 \<Longrightarrow> unat (w + (1 :: uint64)) = Suc (unat w)"
  by (metis add.commute unatSuc)

lemma u64_succ: "w + 1 \<noteq> 0 \<Longrightarrow> w < w + (1 :: uint64)"
  by (simp add: word_less_nat_alt unat_succ)

section \<open>Association lists kept in key order\<close>

text \<open>A key-value store as the list of its entries in ascending key order.\<close>

fun kv_set :: "'k::linorder \<Rightarrow> 'v \<Rightarrow> ('k \<times> 'v) list \<Rightarrow> ('k \<times> 'v) list" where
  "kv_set k v [] = [(k, v)]"
| "kv_set k v ((a, b) # d) =
     (if k < a then (k, v) # (a, b) # d
      else if k = a then (k, v) # d
      else (a, b) # kv_set k v d)"

definition kv_del :: "'k \<Rightarrow> ('k \<times> 'v) list \<Rightarrow> ('k \<times> 'v) list" where
  "kv_del k d = filter (\<lambda>e. fst e \<noteq> k) d"

definition kv_sorted :: "('k::linorder \<times> 'v) list \<Rightarrow> bool" where
  "kv_sorted d \<longleftrightarrow> sorted_wrt (<) (map fst d)"

lemma kv_sorted_Nil [simp]: "kv_sorted []"
  by (simp add: kv_sorted_def)

lemma kv_sorted_Cons: "kv_sorted ((k, v) # d) \<longleftrightarrow> (\<forall>e \<in> set d. k < fst e) \<and> kv_sorted d"
  by (auto simp: kv_sorted_def)

lemma fst_set_kv_set: "fst ` set (kv_set k v d) = insert k (fst ` set d)"
  by (induction k v d rule: kv_set.induct) auto

lemma kv_sorted_set [simp]: "kv_sorted d \<Longrightarrow> kv_sorted (kv_set k v d)"
proof (induction k v d rule: kv_set.induct)
  case (1 k v)
  show ?case by (simp add: kv_sorted_Cons)
next
  case (2 k v a b d)
  have *: "\<And>e. e \<in> set (kv_set k v d) \<Longrightarrow> fst e = k \<or> fst e \<in> fst ` set d"
    using fst_set_kv_set [of k v d] by force
  show ?case
    using 2 * by (auto simp: kv_sorted_Cons) force+
qed

lemma kv_sorted_del [simp]: "kv_sorted d \<Longrightarrow> kv_sorted (kv_del k d)"
  by (induction d) (auto simp: kv_del_def kv_sorted_def)

lemma kv_sorted_filter: "kv_sorted d \<Longrightarrow> kv_sorted (filter P d)"
  by (induction d) (auto simp: kv_sorted_def)

lemma kv_sorted_distinct: "kv_sorted d \<Longrightarrow> distinct (map fst d)"
  by (induction d) (auto simp: kv_sorted_def)

lemma kv_list_of_map:
  assumes "distinct (map fst d)"
  shows "map (\<lambda>k. (k, the (map_of d k))) (map fst d) = d"
proof -
  have "map (\<lambda>e. (fst e, the (map_of d (fst e)))) d = d"
    using assms by (intro map_idI) (auto dest: map_of_is_SomeI)
  then show ?thesis by (simp add: comp_def)
qed

text \<open>A store in key order is determined by what its keys look up.\<close>

lemma kv_sorted_ext:
  assumes "kv_sorted d" "kv_sorted d'" "map_of d = map_of d'"
  shows "d = d'"
proof -
  have "fst ` set d = fst ` set d'" using assms(3) by (metis dom_map_of_conv_image_fst)
  then have "map fst d = map fst d'"
    using assms(1,2) by (intro strict_sorted_equal) (auto simp: kv_sorted_def)
  then show ?thesis
    using kv_list_of_map [OF kv_sorted_distinct [OF assms(1)]] kv_list_of_map [OF kv_sorted_distinct [OF assms(2)]] assms(3)
    by metis
qed

lemma map_of_kv_set [simp]: "map_of (kv_set k v d) = (map_of d)(k \<mapsto> v)"
  by (induction k v d rule: kv_set.induct) auto

lemma map_of_kv_del: "map_of (kv_del k d) = (map_of d)(k := None)"
  by (induction d) (auto simp: kv_del_def)

lemma set_kv_set:
  "kv_sorted d \<Longrightarrow> set (kv_set k v d) = insert (k, v) {e \<in> set d. fst e \<noteq> k}"
proof (induction k v d rule: kv_set.induct)
  case (1 k v)
  show ?case by simp
next
  case (2 k v a b d)
  then show ?case by (auto simp: kv_sorted_Cons)
qed

text \<open>The interface the components rely on, and its interpretation on these functions.\<close>

locale kv_store =
  fixes get :: "'d \<Rightarrow> 'k \<Rightarrow> 'v option"
    and set_key :: "'k \<Rightarrow> 'v \<Rightarrow> 'd \<Rightarrow> 'd"
    and del_key :: "'k \<Rightarrow> 'd \<Rightarrow> 'd"
    and invar :: "'d \<Rightarrow> bool"
  assumes get_set: "get (set_key k v d) k' = (if k' = k then Some v else get d k')"
    and get_del: "get (del_key k d) k' = (if k' = k then None else get d k')"
    and invar_set: "invar d \<Longrightarrow> invar (set_key k v d)"
    and invar_del: "invar d \<Longrightarrow> invar (del_key k d)"
begin

lemma get_set_same: "get (set_key k v d) k = Some v"
  by (simp add: get_set)

lemma get_set_other: "k' \<noteq> k \<Longrightarrow> get (set_key k v d) k' = get d k'"
  by (simp add: get_set)

lemma get_after_sets:
  "get (fold (\<lambda>(k, v). set_key k v) ps d) k' =
     (case map_of (rev ps) k' of Some v \<Rightarrow> Some v | None \<Rightarrow> get d k')"
  by (induction ps arbitrary: d) (auto simp: get_set map_add_def split: option.splits)

lemma invar_sets: "invar d \<Longrightarrow> invar (fold (\<lambda>(k, v). set_key k v) ps d)"
  by (induction ps arbitrary: d) (auto simp: invar_set)

end

interpretation kvl: kv_store map_of "kv_set :: 'k::linorder \<Rightarrow> 'v \<Rightarrow> _" kv_del kv_sorted
  by unfold_locales (auto simp: map_of_kv_del)

text \<open>
  Sums over the entries of a store: overwriting a key replaces its contribution. The supply
  theorems of the ledger are instances.
\<close>

definition kv_sum :: "('k \<Rightarrow> 'v \<Rightarrow> int) \<Rightarrow> ('k \<times> 'v) list \<Rightarrow> int" where
  "kv_sum f d = sum_list (map (\<lambda>(k, v). f k v) d)"

definition opt_val :: "('k \<Rightarrow> 'v \<Rightarrow> int) \<Rightarrow> 'k \<Rightarrow> 'v option \<Rightarrow> int" where
  "opt_val f k o' = (case o' of None \<Rightarrow> 0 | Some v \<Rightarrow> f k v)"

lemma kv_sum_Nil [simp]: "kv_sum f [] = 0"
  and kv_sum_Cons [simp]: "kv_sum f ((k, v) # d) = f k v + kv_sum f d"
  by (simp_all add: kv_sum_def)

lemma opt_val_simps [simp]: "opt_val f k None = 0" "opt_val f k (Some v) = f k v"
  by (simp_all add: opt_val_def)

lemma map_of_below: "kv_sorted d \<Longrightarrow> (\<forall>e \<in> set d. k < fst e) \<Longrightarrow> map_of d k = None"
  by (induction d) (auto simp: kv_sorted_def)

lemma kv_sum_set:
  "kv_sorted d \<Longrightarrow> kv_sum f (kv_set k v d) = kv_sum f d + f k v - opt_val f k (map_of d k)"
proof (induction k v d rule: kv_set.induct)
  case (1 k v)
  show ?case by simp
next
  case (2 k v a b d)
  have "k < a \<Longrightarrow> map_of ((a, b) # d) k = None"
    using "2.prems" by (intro map_of_below) (auto simp: kv_sorted_Cons)
  moreover have "k = a \<Longrightarrow> map_of d k = None"
    using "2.prems" by (intro map_of_below) (auto simp: kv_sorted_Cons)
  ultimately show ?case
    using 2 by (auto simp: kv_sorted_Cons)
qed

lemma kv_sum_cong:
  "(\<And>k v. (k, v) \<in> set d \<Longrightarrow> f k v = g k v) \<Longrightarrow> kv_sum f d = kv_sum g d"
  unfolding kv_sum_def by (metis (mono_tags, lifting) case_prod_conv map_cong old.prod.exhaust)

end
