(* ===== verification/GoLib.thy ===== *)
theory GoLib
  imports Prelude
begin

text \<open>
  The parts of Go's standard library the sources call: \<^verbatim>\<open>strings\<close>, \<^verbatim>\<open>strconv\<close>/\<^verbatim>\<open>fmt\<close> decimal
  formatting and scanning, \<^verbatim>\<open>encoding/hex\<close> and the string escaping of \<^verbatim>\<open>encoding/json\<close>.
  A Go string is a list of bytes (\<open>char\<close>). The case functions act on the ASCII letters; bytes from
  0x80 on are left alone, so the models agree with Go on ASCII strings (addresses, hashes, numbers
  and keywords of this program are ASCII).
\<close>

section \<open>Package strings\<close>

definition lower_char :: "char \<Rightarrow> char" where
  "lower_char c = (if CHR ''A'' \<le> c \<and> c \<le> CHR ''Z'' then char_of (of_char c + 32 :: nat) else c)"

definition ToLower :: "string \<Rightarrow> string" where
  "ToLower s = map lower_char s"

definition is_space :: "char \<Rightarrow> bool" where
  "is_space c \<longleftrightarrow> c \<in> {CHR 0x09, CHR 0x0A, CHR 0x0B, CHR 0x0C, CHR 0x0D, CHR 0x20}"

definition TrimSpace :: "string \<Rightarrow> string" where
  "TrimSpace s = rev (dropWhile is_space (rev (dropWhile is_space s)))"

definition HasPrefix :: "string \<Rightarrow> string \<Rightarrow> bool" where
  "HasPrefix s p = prefix p s"

definition TrimPrefix :: "string \<Rightarrow> string \<Rightarrow> string" where
  "TrimPrefix s p = (if prefix p s then drop (length p) s else s)"

definition EqualFold :: "string \<Rightarrow> string \<Rightarrow> bool" where
  "EqualFold s t \<longleftrightarrow> ToLower s = ToLower t"

lemma of_char_lower_char:
  "(of_char (lower_char c) :: nat) =
     (if 65 \<le> (of_char c :: nat) \<and> (of_char c :: nat) \<le> 90 then of_char c + 32 else of_char c)"
  by (auto simp: lower_char_def less_eq_char_def)

lemma lower_char_idem [simp]: "lower_char (lower_char c) = lower_char c"
proof -
  have "(of_char (lower_char (lower_char c)) :: nat) = of_char (lower_char c)"
    by (auto simp: of_char_lower_char)
  then show ?thesis by simp
qed

lemma is_space_iff: "is_space c \<longleftrightarrow> (of_char c :: nat) \<in> {9, 10, 11, 12, 13, 32}"
proof -
  have *: "(of_char c :: nat) = of_char d \<longleftrightarrow> c = d" for d :: char
    by simp
  show ?thesis
    unfolding is_space_def
    using * [of "CHR 0x09"] * [of "CHR 0x0A"] * [of "CHR 0x0B"] * [of "CHR 0x0C"]
      * [of "CHR 0x0D"] * [of "CHR 0x20"]
    by simp
qed

lemma is_space_lower_char [simp]: "is_space (lower_char c) = is_space c"
  by (auto simp: is_space_iff of_char_lower_char)

lemma ToLower_idem [simp]: "ToLower (ToLower s) = ToLower s"
  by (simp add: ToLower_def)

lemma ToLower_Nil [simp]: "ToLower [] = []"
  and ToLower_eq_Nil [simp]: "ToLower s = [] \<longleftrightarrow> s = []"
  and ToLower_append: "ToLower (s @ t) = ToLower s @ ToLower t"
  by (auto simp: ToLower_def)

lemma dropWhile_space_lower:
  "dropWhile is_space (ToLower s) = ToLower (dropWhile is_space s)"
  by (induction s) (auto simp: ToLower_def)

lemma rev_ToLower: "rev (ToLower s) = ToLower (rev s)"
  by (simp add: ToLower_def rev_map)

lemma TrimSpace_ToLower: "TrimSpace (ToLower s) = ToLower (TrimSpace s)"
  by (simp add: TrimSpace_def dropWhile_space_lower rev_ToLower)

lemma dropWhile_idem [simp]: "dropWhile P (dropWhile P s) = dropWhile P s"
  by (induction s) auto

lemma dropWhile_rev_dropWhile:
  assumes "dropWhile P s = s"
  shows "dropWhile P (rev (dropWhile P (rev s))) = rev (dropWhile P (rev s))"
proof -
  let ?t = "rev (dropWhile P (rev s))"
  have "\<exists>u. s = ?t @ u"
    by (metis rev_append rev_rev_ident takeWhile_dropWhile_id)
  then obtain u where u: "s = ?t @ u" ..
  show ?thesis
  proof (cases ?t)
    case Nil
    then show ?thesis by (simp only: dropWhile.simps)
  next
    case (Cons x xs)
    with u have s: "s = x # xs @ u" by simp
    with assms have "\<not> P x"
      by (metis append_Cons dropWhile_eq_Cons_conv)
    with Cons show ?thesis by simp
  qed
qed

lemma TrimSpace_idem [simp]: "TrimSpace (TrimSpace s) = TrimSpace s"
  using dropWhile_rev_dropWhile [of is_space "dropWhile is_space s"]
  by (simp add: TrimSpace_def)

lemma EqualFold_refl [simp]: "EqualFold s s"
  and EqualFold_sym: "EqualFold s t \<Longrightarrow> EqualFold t s"
  and EqualFold_trans: "EqualFold s t \<Longrightarrow> EqualFold t u \<Longrightarrow> EqualFold s u"
  and EqualFold_lower [simp]: "EqualFold (ToLower s) t = EqualFold s t"
    "EqualFold s (ToLower t) = EqualFold s t"
  by (simp_all add: EqualFold_def)

section \<open>Decimal formatting and scanning\<close>

definition digit_char :: "nat \<Rightarrow> char" where
  "digit_char d = char_of (48 + d)"

definition is_digit :: "char \<Rightarrow> bool" where
  "is_digit c \<longleftrightarrow> CHR ''0'' \<le> c \<and> c \<le> CHR ''9''"

definition digit_val :: "char \<Rightarrow> nat" where
  "digit_val c = of_char c - 48"

fun show_nat :: "nat \<Rightarrow> string" where
  "show_nat n = (if n < 10 then [digit_char n] else show_nat (n div 10) @ [digit_char (n mod 10)])"

declare show_nat.simps [simp del]

definition show_int :: "int \<Rightarrow> string" where
  "show_int i = (if i < 0 then ''-'' @ show_nat (nat (- i)) else show_nat (nat i))"

definition show_u64 :: "uint64 \<Rightarrow> string" where
  "show_u64 w = show_nat (unat w)"

text \<open>\<^verbatim>\<open>%020d\<close>: left padding with zeros to twenty columns.\<close>

definition show_pad20 :: "uint64 \<Rightarrow> string" where
  "show_pad20 w = (let s = show_u64 w in replicate (20 - length s) (CHR ''0'') @ s)"

definition parse_nat :: "string \<Rightarrow> nat" where
  "parse_nat s = foldl (\<lambda>n c. 10 * n + digit_val c) 0 s"

text \<open>
  \<^verbatim>\<open>fmt.Sscanf(s, "%d", &height)\<close> for a \<^verbatim>\<open>uint64\<close>: leading blanks are skipped, at least one digit
  is required, the digit run is converted and an overflow is an error; the rest is ignored.
\<close>

definition Sscanf_u64 :: "string \<Rightarrow> uint64 res" where
  "Sscanf_u64 s =
     (let t = takeWhile is_digit (dropWhile (\<lambda>c. c \<in> {CHR '' '', CHR 0x09, CHR 0x0D}) s) in
      if t = [] then Inl JsonErr
      else if parse_nat t < 2 ^ 64 then Inr (word_of_nat (parse_nat t)) else Inl JsonErr)"

lemma of_char_digit_char: "d < 10 \<Longrightarrow> (of_char (digit_char d) :: nat) = 48 + d"
  by (simp add: digit_char_def)

lemma is_digit_digit_char [simp]: "d < 10 \<Longrightarrow> is_digit (digit_char d)"
  by (simp add: is_digit_def less_eq_char_def of_char_digit_char)

lemma digit_val_digit_char [simp]: "d < 10 \<Longrightarrow> digit_val (digit_char d) = d"
  by (simp add: digit_val_def of_char_digit_char)

lemma show_nat_digits: "c \<in> set (show_nat n) \<Longrightarrow> is_digit c"
proof (induction n rule: show_nat.induct)
  case (1 n)
  show ?case
  proof (cases "n < 10")
    case True
    with "1.prems" show ?thesis by (simp add: show_nat.simps [of n])
  next
    case False
    with 1 show ?thesis by (auto simp: show_nat.simps [of n])
  qed
qed

lemma show_nat_not_Nil [simp]: "show_nat n \<noteq> []"
  by (simp add: show_nat.simps [of n])

lemma parse_nat_snoc: "parse_nat (s @ [c]) = 10 * parse_nat s + digit_val c"
  by (simp add: parse_nat_def)

lemma parse_show_nat [simp]: "parse_nat (show_nat n) = n"
proof (induction n rule: show_nat.induct)
  case (1 n)
  show ?case
  proof (cases "n < 10")
    case True
    then show ?thesis by (simp add: show_nat.simps [of n] parse_nat_def)
  next
    case False
    with 1 show ?thesis by (simp add: show_nat.simps [of n] parse_nat_snoc)
  qed
qed

lemma show_nat_inj [simp]: "show_nat m = show_nat n \<longleftrightarrow> m = n"
  by (metis parse_show_nat)

lemma show_u64_inj [simp]: "show_u64 v = show_u64 w \<longleftrightarrow> v = w"
  by (simp add: show_u64_def word_unat_eq_iff)

lemma parse_nat_zeros: "parse_nat (replicate k (CHR ''0'') @ s) = parse_nat s"
  by (induction k) (simp_all add: parse_nat_def digit_val_def)

lemma show_pad20_inj [simp]: "show_pad20 v = show_pad20 w \<longleftrightarrow> v = w"
proof
  assume "show_pad20 v = show_pad20 w"
  then have "parse_nat (show_pad20 v) = parse_nat (show_pad20 w)" by simp
  then show "v = w"
    by (simp add: show_pad20_def Let_def parse_nat_zeros show_u64_def word_unat_eq_iff)
qed simp

lemma takeWhile_digits_show: "takeWhile is_digit (show_nat n) = show_nat n"
  by (simp add: show_nat_digits takeWhile_eq_all_conv)

lemma is_digit_not_blank: "is_digit c \<Longrightarrow> c \<notin> {CHR '' '', CHR 0x09, CHR 0x0D}"
  by (auto simp: is_digit_def less_eq_char_def)

lemma dropWhile_blank_show:
  "dropWhile (\<lambda>c. c \<in> {CHR '' '', CHR 0x09, CHR 0x0D}) (show_nat n) = show_nat n"
proof (cases "show_nat n")
  case (Cons c s)
  then have "is_digit c" using show_nat_digits [of c n] by simp
  then show ?thesis
    unfolding Cons using is_digit_not_blank [of c] by simp
qed simp

text \<open>Scanning what \<^verbatim>\<open>%d\<close> printed gives the number back.\<close>

lemma Sscanf_show_u64 [simp]: "Sscanf_u64 (show_u64 w) = Inr w"
proof -
  have "unat w < 2 ^ LENGTH(64)" by (rule unsigned_less)
  then show ?thesis
    unfolding Sscanf_u64_def show_u64_def dropWhile_blank_show takeWhile_digits_show by simp
qed

lemma show_int_chars: "c \<in> set (show_int i) \<Longrightarrow> c = CHR ''-'' \<or> is_digit c"
  by (auto simp: show_int_def show_nat_digits split: if_splits)

lemma show_int_inj [simp]: "show_int i = show_int j \<longleftrightarrow> i = j"
proof
  have *: "''-'' @ show_nat m \<noteq> show_nat n" for m n
  proof
    assume eq: "''-'' @ show_nat m = show_nat n"
    have "CHR ''-'' \<in> set (''-'' @ show_nat m)" by simp
    then have "is_digit (CHR ''-'')" unfolding eq by (rule show_nat_digits)
    then show False by (simp add: is_digit_def less_eq_char_def)
  qed
  assume "show_int i = show_int j"
  then show "i = j"
    using * * [symmetric] by (auto simp: show_int_def split: if_splits)
qed simp

text \<open>A number is read up to the first character that cannot belong to it.\<close>

lemma takeWhile_until: "(\<And>c. c \<in> set s \<Longrightarrow> P c) \<Longrightarrow> \<not> P x \<Longrightarrow> takeWhile P (s @ x # u) = s"
  by (simp add: takeWhile_append2)

lemma split_at_delim:
  assumes "s @ x # u = t @ x # v" "\<And>c. c \<in> set s \<Longrightarrow> P c" "\<And>c. c \<in> set t \<Longrightarrow> P c" "\<not> P x"
  shows "s = t \<and> u = v"
proof -
  have "takeWhile P (s @ x # u) = s" using assms(2,4) by (intro takeWhile_until) auto
  moreover have "takeWhile P (t @ x # v) = t" using assms(3,4) by (intro takeWhile_until) auto
  ultimately have "s = t" using assms(1) by simp
  with assms(1) show ?thesis by simp
qed

definition num_char :: "char \<Rightarrow> bool" where
  "num_char c \<longleftrightarrow> c = CHR ''-'' \<or> is_digit c"

lemma num_char_delims: "\<not> num_char (CHR '','')" "\<not> num_char (CHR ''}'')" "\<not> num_char (CHR ''|'')"
  by (simp_all add: num_char_def is_digit_def less_eq_char_def)

lemma show_int_until: "show_int i @ x # u = show_int j @ x # v \<Longrightarrow> \<not> num_char x \<Longrightarrow> i = j \<and> u = v"
  using split_at_delim [of "show_int i" x u "show_int j" v num_char] show_int_chars
  by (auto simp: num_char_def)

lemma show_u64_until: "show_u64 i @ x # u = show_u64 j @ x # v \<Longrightarrow> \<not> num_char x \<Longrightarrow> i = j \<and> u = v"
  using split_at_delim [of "show_u64 i" x u "show_u64 j" v num_char] show_nat_digits
  by (auto simp: num_char_def show_u64_def word_unat_eq_iff)

end
