(* ===== verification/Genesis.thy ===== *)
theory Genesis
  imports GoLib
begin

text \<open>
  Package \<^verbatim>\<open>internal/genesis\<close>: the genesis document, its default and its validation. The receiver of
  \<^verbatim>\<open>Validate\<close> is a pointer whose fields the method normalises, so the model returns the document
  beside the error. \<open>LoadFile\<close> takes the outcome of reading and decoding the file as an argument.
\<close>

record Bucket =
  bkt_Name :: string
  bkt_Cap :: int
  bkt_Minted :: int

record AccountSeed =
  seed_Address :: string
  seed_Balance :: int
  seed_Staked :: int

record Genesis =
  gen_ChainID :: string
  gen_NumericChainID :: int
  gen_GenesisTime :: int
  gen_TotalMaxSupply :: int
  gen_Buckets :: "Bucket list"
  gen_Accounts :: "AccountSeed list"
  gen_MinValidatorStake :: int
  gen_MinFullnodeStake :: int
  gen_ChainSigningAddress :: string

definition TotalMaxSupply :: int where
  "TotalMaxSupply = 1000000000"

definition EASTChainID :: int where
  "EASTChainID = 172026"

definition mk_bucket :: "string \<Rightarrow> int \<Rightarrow> Bucket" where
  "mk_bucket n c = \<lparr>bkt_Name = n, bkt_Cap = c, bkt_Minted = 0\<rparr>"

definition DefaultBuckets :: "Bucket list" where
  "DefaultBuckets =
    [mk_bucket ''mining'' 300000000, mk_bucket ''staking'' 80000000,
     mk_bucket ''validator'' 80000000, mk_bucket ''campaign'' 40000000,
     mk_bucket ''liquidity'' 150000000, mk_bucket ''treasury'' 100000000,
     mk_bucket ''emergency'' 70000000, mk_bucket ''marketing'' 70000000,
     mk_bucket ''team'' 60000000, mk_bucket ''founder'' 50000000]"

text \<open>\<open>now\<close> is the reading of \<^verbatim>\<open>time.Now().UnixMilli()\<close>.\<close>

definition Default :: "int \<Rightarrow> Genesis" where
  "Default now =
    \<lparr>gen_ChainID = ''eastchain-1'', gen_NumericChainID = EASTChainID, gen_GenesisTime = now,
     gen_TotalMaxSupply = TotalMaxSupply, gen_Buckets = DefaultBuckets, gen_Accounts = [],
     gen_MinValidatorStake = 0, gen_MinFullnodeStake = 0, gen_ChainSigningAddress = []\<rparr>"

text \<open>The loop over the buckets, with the running \<^verbatim>\<open>int64\<close> sum of the caps.\<close>

fun sum_caps :: "Bucket list \<Rightarrow> int \<Rightarrow> int res" where
  "sum_caps [] acc = Inr acc"
| "sum_caps (b # bs) acc =
     (if bkt_Cap b < 0 \<or> bkt_Minted b < 0 then Inl (Errorf ''bucket has negative cap/minted'')
      else if bkt_Minted b > bkt_Cap b then Inl (Errorf ''bucket minted > cap'')
      else sum_caps bs (i64 (acc + bkt_Cap b)))"

definition Validate :: "Genesis \<Rightarrow> unit res \<times> Genesis" where
  "Validate g0 =
     (let g = (if gen_NumericChainID g0 = 0 then g0\<lparr>gen_NumericChainID := EASTChainID\<rparr> else g0) in
      if gen_NumericChainID g \<noteq> EASTChainID then (Inl (Errorf ''numeric_chain_id''), g)
      else case sum_caps (gen_Buckets g) 0 of
        Inl e \<Rightarrow> (Inl e, g)
      | Inr s \<Rightarrow>
          if s \<noteq> gen_TotalMaxSupply g then (Inl (Errorf ''bucket caps sum''), g)
          else if gen_TotalMaxSupply g \<noteq> TotalMaxSupply then (Inl (Errorf ''total_max_supply''), g)
          else
            let g1 = (if gen_MinValidatorStake g < 0 then g\<lparr>gen_MinValidatorStake := 0\<rparr> else g);
                g2 = (if gen_MinFullnodeStake g1 < 0 then g1\<lparr>gen_MinFullnodeStake := 0\<rparr> else g1)
            in if gen_MinFullnodeStake g2 > gen_MinValidatorStake g2
               then (Inl (Errorf ''min_fullnode_stake cannot exceed min_validator_stake''), g2)
               else (Inr (), g2))"

definition LoadFile :: "Genesis res \<Rightarrow> Genesis res" where
  "LoadFile decoded =
     (case decoded of Inl e \<Rightarrow> Inl e
      | Inr g \<Rightarrow> (case Validate g of (Inl e, _) \<Rightarrow> Inl e | (Inr _, g') \<Rightarrow> Inr g'))"

section \<open>What validation establishes\<close>

definition bucket_ok :: "Bucket \<Rightarrow> bool" where
  "bucket_ok b \<longleftrightarrow> 0 \<le> bkt_Minted b \<and> bkt_Minted b \<le> bkt_Cap b"

lemma sum_caps_Inr:
  "sum_caps bs acc = Inr s \<Longrightarrow>
     list_all bucket_ok bs \<and> (\<exists>k. s = acc + sum_list (map bkt_Cap bs) - 2 ^ 64 * k)"
proof (induction bs acc rule: sum_caps.induct)
  case (1 acc)
  then show ?case by (auto intro: exI [of _ 0])
next
  case (2 b bs acc)
  then have ok: "bucket_ok b" and rec: "sum_caps bs (i64 (acc + bkt_Cap b)) = Inr s"
    by (auto simp: bucket_ok_def split: if_splits)
  from 2 rec obtain k where "list_all bucket_ok bs"
    and k: "s = i64 (acc + bkt_Cap b) + sum_list (map bkt_Cap bs) - 2 ^ 64 * k"
    by (auto split: if_splits)
  moreover obtain j where "i64 (acc + bkt_Cap b) = acc + bkt_Cap b - 2 ^ 64 * j"
    using i64_cong by blast
  ultimately show ?case using ok
    by (auto intro!: exI [of _ "k + j"] simp: algebra_simps)
qed

lemma sum_caps_exact:
  "list_all bucket_ok bs \<Longrightarrow> 0 \<le> acc \<Longrightarrow> acc + sum_list (map bkt_Cap bs) < 2 ^ 63 \<Longrightarrow>
     sum_caps bs acc = Inr (acc + sum_list (map bkt_Cap bs))"
proof (induction bs arbitrary: acc)
  case Nil
  then show ?case by simp
next
  case (Cons b bs)
  have nn: "0 \<le> sum_list (map bkt_Cap bs)"
    using Cons.prems(1) by (intro sum_list_nonneg) (auto simp: list_all_iff bucket_ok_def)
  have b: "0 \<le> bkt_Minted b" "bkt_Minted b \<le> bkt_Cap b"
    using Cons.prems(1) by (auto simp: bucket_ok_def)
  with Cons.prems nn have "in_i64 (acc + bkt_Cap b)"
    by (simp add: in_i64_def)
  then show ?case
    using Cons b by (simp add: i64_id add.assoc)
qed

lemma Validate_Inr:
  assumes "Validate g = (Inr (), g')"
  shows "gen_NumericChainID g' = EASTChainID" "gen_TotalMaxSupply g' = TotalMaxSupply"
    "gen_Buckets g' = gen_Buckets g" "gen_Accounts g' = gen_Accounts g"
    "sum_caps (gen_Buckets g) 0 = Inr TotalMaxSupply"
    "0 \<le> gen_MinFullnodeStake g'" "gen_MinFullnodeStake g' \<le> gen_MinValidatorStake g'"
  using assms by (auto simp: Validate_def Let_def split: if_splits sum.splits)

text \<open>
  A genesis document that passes \<^verbatim>\<open>Validate\<close> has the EAST chain id and the fixed maximum supply,
  every bucket has \<open>0 \<le> minted \<le> cap\<close>, the stakes are ordered, and the caps add up to the maximum
  supply modulo \<open>2 ^ 64\<close> (exactly, when their sum fits an \<^verbatim>\<open>int64\<close>).
\<close>

theorem Validate_sound:
  assumes "Validate g = (Inr (), g')"
  shows "gen_NumericChainID g' = EASTChainID \<and> gen_TotalMaxSupply g' = TotalMaxSupply
    \<and> list_all bucket_ok (gen_Buckets g')
    \<and> 0 \<le> gen_MinFullnodeStake g' \<and> gen_MinFullnodeStake g' \<le> gen_MinValidatorStake g'
    \<and> (\<exists>k. sum_list (map bkt_Cap (gen_Buckets g')) = TotalMaxSupply + 2 ^ 64 * k)
    \<and> (sum_list (map bkt_Cap (gen_Buckets g')) < 2 ^ 63 \<longrightarrow>
         sum_list (map bkt_Cap (gen_Buckets g')) = TotalMaxSupply)"
proof -
  note v = Validate_Inr [OF assms]
  from sum_caps_Inr [OF v(5)] obtain k where
    ok: "list_all bucket_ok (gen_Buckets g)"
    and k: "TotalMaxSupply = 0 + sum_list (map bkt_Cap (gen_Buckets g)) - 2 ^ 64 * k"
    by blast
  have "sum_list (map bkt_Cap (gen_Buckets g)) = TotalMaxSupply"
    if "sum_list (map bkt_Cap (gen_Buckets g)) < 2 ^ 63"
    using sum_caps_exact [OF ok, of 0] that v(5) by simp
  moreover have "\<exists>k. sum_list (map bkt_Cap (gen_Buckets g)) = TotalMaxSupply + 2 ^ 64 * k"
    using k by (auto intro!: exI [of _ k])
  ultimately show ?thesis using v ok by simp
qed

lemma Validate_Default: "Validate (Default now) = (Inr (), Default now)"
  by (simp add: Validate_def Default_def DefaultBuckets_def mk_bucket_def i64_def
      TotalMaxSupply_def)

theorem Validate_sound_witness:
  "gen_TotalMaxSupply (Default 0) = TotalMaxSupply
    \<and> sum_list (map bkt_Cap (gen_Buckets (Default 0))) = TotalMaxSupply"
  using Validate_sound [OF Validate_Default [of 0]]
  by (simp add: Default_def DefaultBuckets_def mk_bucket_def TotalMaxSupply_def)

text \<open>
  The bucket sum is taken in wrapping \<^verbatim>\<open>int64\<close> arithmetic. A document whose caps really add up to
  \<open>2 ^ 64\<close> more than the maximum supply passes validation.
\<close>

definition wrap_genesis :: Genesis where
  "wrap_genesis = (Default 0)\<lparr>gen_Buckets :=
     [mk_bucket ''a'' (2 ^ 62), mk_bucket ''b'' (2 ^ 62), mk_bucket ''c'' (2 ^ 62),
      mk_bucket ''d'' (2 ^ 62), mk_bucket ''mining'' TotalMaxSupply]\<rparr>"

theorem Validate_accepts_wrapped_caps:
  "fst (Validate wrap_genesis) = Inr ()
    \<and> sum_list (map bkt_Cap (gen_Buckets wrap_genesis)) = TotalMaxSupply + 2 ^ 64"
  by (simp add: wrap_genesis_def Validate_def Default_def mk_bucket_def i64_def TotalMaxSupply_def)

end
