(* ===== verification/Hashing.thy ===== *)
theory Hashing
  imports GoLib
begin

text \<open>
  \<^verbatim>\<open>encoding/hex\<close>, \<^verbatim>\<open>crypto/sha256\<close> and the string escaping of \<^verbatim>\<open>encoding/json\<close>, as the sources
  use them: transaction hashes, block hashes, Merkle digests and the JSON text a transaction hash
  is taken over. SHA-256 is the FIPS 180-4 function on bytes; the proofs use that a digest has 32
  bytes and never evaluate the compression function.
\<close>

unbundle bit_operations_syntax

section \<open>Package encoding/hex\<close>

definition hex_char :: "nat \<Rightarrow> char" where
  "hex_char d = (if d < 10 then char_of (48 + d) else char_of (87 + d))"

definition hex_val :: "char \<Rightarrow> nat option" where
  "hex_val c = (let n = of_char c :: nat in
     if 48 \<le> n \<and> n \<le> 57 then Some (n - 48)
     else if 97 \<le> n \<and> n \<le> 102 then Some (n - 87)
     else if 65 \<le> n \<and> n \<le> 70 then Some (n - 55)
     else None)"

fun EncodeToString :: "string \<Rightarrow> string" where
  "EncodeToString [] = []"
| "EncodeToString (c # s) =
     hex_char (of_char c div 16) # hex_char (of_char c mod 16) # EncodeToString s"

fun DecodeString :: "string \<Rightarrow> string res" where
  "DecodeString [] = Inr []"
| "DecodeString [_] = Inl (Errorf ''encoding/hex: odd length hex string'')"
| "DecodeString (a # b # s) =
     (case (hex_val a, hex_val b) of
        (Some x, Some y) \<Rightarrow>
          (case DecodeString s of Inl e \<Rightarrow> Inl e | Inr t \<Rightarrow> Inr (char_of (16 * x + y) # t))
      | _ \<Rightarrow> Inl (Errorf ''encoding/hex: invalid byte''))"

lemma of_char_hex_char: "d < 16 \<Longrightarrow> (of_char (hex_char d) :: nat) = (if d < 10 then 48 + d else 87 + d)"
  by (simp add: hex_char_def)

lemma hex_val_hex_char [simp]: "d < 16 \<Longrightarrow> hex_val (hex_char d) = Some d"
  by (simp add: hex_val_def of_char_hex_char Let_def)

lemma of_char_less_256: "(of_char c :: nat) < 256"
  by (metis of_char_mod_256 mod_less_divisor zero_less_numeral)

lemma of_char_nibbles [simp]:
  "(of_char c :: nat) div 16 < 16" "(of_char c :: nat) mod 16 < 16"
  using of_char_less_256 [of c] by arith+

lemma Decode_Encode [simp]: "DecodeString (EncodeToString s) = Inr s"
  by (induction s) simp_all

lemma EncodeToString_inj [simp]: "EncodeToString s = EncodeToString t \<longleftrightarrow> s = t"
  by (metis Decode_Encode sum.inject(2))

lemma length_EncodeToString [simp]: "length (EncodeToString s) = 2 * length s"
  by (induction s) simp_all

lemma lower_char_hex [simp]: "d < 16 \<Longrightarrow> lower_char (hex_char d) = hex_char d"
proof -
  assume "d < 16"
  then have "(of_char (lower_char (hex_char d)) :: nat) = of_char (hex_char d)"
    by (auto simp: of_char_lower_char of_char_hex_char)
  then show ?thesis by simp
qed

lemma ToLower_EncodeToString [simp]: "ToLower (EncodeToString s) = EncodeToString s"
  by (induction s) (simp_all add: ToLower_def)

section \<open>Package crypto/sha256\<close>

type_synonym u32 = "32 word"

text \<open>
  The constants are the first 32 bits of the fractional parts of the cube roots of the first 64
  primes, and of the square roots of the first 8; \<open>int_root\<close> is the integer root, found bit by bit.
\<close>

definition int_root :: "nat \<Rightarrow> int \<Rightarrow> int" where
  "int_root e n = foldl (\<lambda>r i. if (r + 2 ^ i) ^ e \<le> n then r + 2 ^ i else r) 0 (rev [0..<36])"

definition sha_primes :: "nat list" where
  "sha_primes = filter (\<lambda>n. list_all (\<lambda>k. n mod k \<noteq> 0) [2..<n]) [2..<312]"

definition sha_K :: "u32 list" where
  "sha_K = map (\<lambda>p. word_of_int (int_root 3 (int p * 2 ^ 96))) sha_primes"

definition sha_H0 :: "u32 list" where
  "sha_H0 = map (\<lambda>p. word_of_int (int_root 2 (p * 2 ^ 64))) [2, 3, 5, 7, 11, 13, 17, 19]"

definition rotr :: "nat \<Rightarrow> u32 \<Rightarrow> u32" where
  "rotr n x = drop_bit n x OR push_bit (32 - n) x"

definition big_sigma0 :: "u32 \<Rightarrow> u32" where
  "big_sigma0 x = rotr 2 x XOR rotr 13 x XOR rotr 22 x"

definition big_sigma1 :: "u32 \<Rightarrow> u32" where
  "big_sigma1 x = rotr 6 x XOR rotr 11 x XOR rotr 25 x"

definition small_sigma0 :: "u32 \<Rightarrow> u32" where
  "small_sigma0 x = rotr 7 x XOR rotr 18 x XOR drop_bit 3 x"

definition small_sigma1 :: "u32 \<Rightarrow> u32" where
  "small_sigma1 x = rotr 17 x XOR rotr 19 x XOR drop_bit 10 x"

definition sha_Ch :: "u32 \<Rightarrow> u32 \<Rightarrow> u32 \<Rightarrow> u32" where
  "sha_Ch x y z = (x AND y) XOR (NOT x AND z)"

definition sha_Maj :: "u32 \<Rightarrow> u32 \<Rightarrow> u32 \<Rightarrow> u32" where
  "sha_Maj x y z = (x AND y) XOR (x AND z) XOR (y AND z)"

text \<open>The message schedule, newest word first: from sixteen words to sixty-four.\<close>

fun sha_schedule :: "nat \<Rightarrow> u32 list \<Rightarrow> u32 list" where
  "sha_schedule 0 w = rev w"
| "sha_schedule (Suc n) w =
     sha_schedule n ((small_sigma1 (w ! 1) + w ! 6 + small_sigma0 (w ! 14) + w ! 15) # w)"

definition sha_round :: "u32 list \<Rightarrow> u32 \<times> u32 \<Rightarrow> u32 list" where
  "sha_round st kw =
     (let a = st ! 0; b = st ! 1; c = st ! 2; d = st ! 3; e = st ! 4; f = st ! 5; g = st ! 6; h = st ! 7;
          t1 = h + big_sigma1 e + sha_Ch e f g + fst kw + snd kw;
          t2 = big_sigma0 a + sha_Maj a b c
      in [t1 + t2, a, b, c, d + t1, e, f, g])"

definition sha_block :: "u32 list \<Rightarrow> u32 list \<Rightarrow> u32 list" where
  "sha_block H blk = map2 (+) H (foldl sha_round H (zip sha_K (sha_schedule 48 (rev blk))))"

definition word_of_bytes :: "string \<Rightarrow> u32" where
  "word_of_bytes s = foldl (\<lambda>w c. push_bit 8 w OR word_of_nat (of_char c)) 0 s"

definition bytes_of_word :: "u32 \<Rightarrow> string" where
  "bytes_of_word w = map (\<lambda>i. char_of (unat (drop_bit i w AND 0xff))) [24, 16, 8, 0]"

definition sha_pad :: "string \<Rightarrow> string" where
  "sha_pad s =
     (let n = length s; bits = 8 * n
      in s @ [CHR 0x80] @ replicate ((119 - n mod 64) mod 64) (CHR 0x00)
           @ map (\<lambda>i. char_of (bits div 2 ^ i)) [56, 48, 40, 32, 24, 16, 8, 0])"

function chunks :: "nat \<Rightarrow> 'a list \<Rightarrow> 'a list list" where
  "chunks n xs = (if xs = [] \<or> n = 0 then [] else take n xs # chunks n (drop n xs))"
  by pat_completeness auto
termination
  by (relation "measure (\<lambda>(n, xs). length xs)") auto

declare chunks.simps [simp del]

definition sha256 :: "string \<Rightarrow> string" where
  "sha256 s =
     concat (map bytes_of_word
       (foldl (\<lambda>H blk. sha_block H (map word_of_bytes (chunks 4 blk))) sha_H0 (chunks 64 (sha_pad s))))"

lemma length_sha_round [simp]: "length (sha_round st kw) = 8"
  by (simp add: sha_round_def Let_def)

lemma length_foldl_sha_round: "length st = 8 \<Longrightarrow> length (foldl sha_round st ks) = 8"
  by (induction ks arbitrary: st) simp_all

lemma length_sha_block [simp]: "length H = 8 \<Longrightarrow> length (sha_block H blk) = 8"
  by (simp add: sha_block_def length_foldl_sha_round)

lemma length_foldl_sha_block:
  "length H = 8 \<Longrightarrow> length (foldl (\<lambda>H blk. sha_block H (f blk)) H bs) = 8"
  by (induction bs arbitrary: H) simp_all

lemma length_concat_bytes: "length (concat (map bytes_of_word ws)) = 4 * length ws"
  by (induction ws) (simp_all add: bytes_of_word_def)

lemma length_sha256 [simp]: "length (sha256 s) = 32"
  unfolding sha256_def length_concat_bytes
  by (subst length_foldl_sha_block) (simp_all add: sha_H0_def)

text \<open>Two different texts with the same digest.\<close>

definition collision :: "string \<Rightarrow> string \<Rightarrow> bool" where
  "collision x y \<longleftrightarrow> x \<noteq> y \<and> sha256 x = sha256 y"

section \<open>Strings in encoding/json\<close>

text \<open>The length of the well-formed UTF-8 sequence at the head of a string, 0 when there is none.\<close>

definition utf8_len :: "string \<Rightarrow> nat" where
  "utf8_len s =
     (let b = (\<lambda>i. if i < length s then of_char (s ! i) else 0) :: nat \<Rightarrow> nat;
          cont = (\<lambda>i. 0x80 \<le> b i \<and> b i \<le> 0xBF)
      in if 0xC2 \<le> b 0 \<and> b 0 \<le> 0xDF \<and> cont 1 then 2
         else if b 0 = 0xE0 \<and> 0xA0 \<le> b 1 \<and> b 1 \<le> 0xBF \<and> cont 2 then 3
         else if ((0xE1 \<le> b 0 \<and> b 0 \<le> 0xEC) \<or> b 0 = 0xEE \<or> b 0 = 0xEF) \<and> cont 1 \<and> cont 2 then 3
         else if b 0 = 0xED \<and> 0x80 \<le> b 1 \<and> b 1 \<le> 0x9F \<and> cont 2 then 3
         else if b 0 = 0xF0 \<and> 0x90 \<le> b 1 \<and> b 1 \<le> 0xBF \<and> cont 2 \<and> cont 3 then 4
         else if 0xF1 \<le> b 0 \<and> b 0 \<le> 0xF3 \<and> cont 1 \<and> cont 2 \<and> cont 3 then 4
         else if b 0 = 0xF4 \<and> 0x80 \<le> b 1 \<and> b 1 \<le> 0x8F \<and> cont 2 \<and> cont 3 then 4
         else 0)"

definition json_ascii :: "char \<Rightarrow> string" where
  "json_ascii c =
     (if c = CHR 0x22 then [CHR 0x5C, CHR 0x22]
      else if c = CHR 0x5C then [CHR 0x5C, CHR 0x5C]
      else if c = CHR 0x08 then [CHR 0x5C, CHR ''b'']
      else if c = CHR 0x0C then [CHR 0x5C, CHR ''f'']
      else if c = CHR 0x0A then [CHR 0x5C, CHR ''n'']
      else if c = CHR 0x0D then [CHR 0x5C, CHR ''r'']
      else if c = CHR 0x09 then [CHR 0x5C, CHR ''t'']
      else if (of_char c :: nat) < 0x20 \<or> c = CHR ''<'' \<or> c = CHR ''>'' \<or> c = CHR ''&''
      then [CHR 0x5C, CHR ''u'', CHR ''0'', CHR ''0'',
            hex_char (of_char c div 16), hex_char (of_char c mod 16)]
      else [c])"

function json_escape :: "string \<Rightarrow> string" where
  "json_escape [] = []"
| "json_escape (c # s) =
     (if (of_char c :: nat) < 0x80 then json_ascii c @ json_escape s
      else let n = utf8_len (c # s) in
        if n = 0 then [CHR 0x5C, CHR ''u'', CHR ''f'', CHR ''f'', CHR ''f'', CHR ''d''] @ json_escape s
        else if take 3 (c # s) = [CHR 0xE2, CHR 0x80, CHR 0xA8]
        then [CHR 0x5C, CHR ''u'', CHR ''2'', CHR ''0'', CHR ''2'', CHR ''8''] @ json_escape (drop 2 s)
        else if take 3 (c # s) = [CHR 0xE2, CHR 0x80, CHR 0xA9]
        then [CHR 0x5C, CHR ''u'', CHR ''2'', CHR ''0'', CHR ''2'', CHR ''9''] @ json_escape (drop 2 s)
        else take n (c # s) @ json_escape (drop (n - 1) s))"
  by pat_completeness auto
termination
  by (relation "measure length") auto

definition json_string :: "string \<Rightarrow> string" where
  "json_string s = [CHR 0x22] @ json_escape s @ [CHR 0x22]"

definition is_ascii :: "string \<Rightarrow> bool" where
  "is_ascii s \<longleftrightarrow> (\<forall>c \<in> set s. (of_char c :: nat) < 128)"

text \<open>The escaped form of an ASCII string is self-delimiting: it can be read off up to its closing quote.\<close>

lemma is_ascii_Cons [simp]: "is_ascii (c # s) \<longleftrightarrow> (of_char c :: nat) < 128 \<and> is_ascii s"
  and is_ascii_Nil [simp]: "is_ascii []"
  by (auto simp: is_ascii_def)

lemma json_ascii_not_Nil: "json_ascii c \<noteq> []"
  by (simp add: json_ascii_def)

lemma json_ascii_hd: "hd (json_ascii c) \<noteq> CHR 0x22"
  by (simp add: json_ascii_def)

lemma hex_char_inj: "d < 16 \<Longrightarrow> e < 16 \<Longrightarrow> hex_char d = hex_char e \<longleftrightarrow> d = e"
  by (metis hex_val_hex_char option.inject)

lemma char_eq_by_nibbles:
  "(of_char c :: nat) div 16 = of_char d div 16 \<Longrightarrow> (of_char c :: nat) mod 16 = of_char d mod 16 \<Longrightarrow> c = d"
  by (metis div_mult_mod_eq of_char_eq_iff)

lemma json_ascii_prefix_code:
  assumes "json_ascii c @ u = json_ascii d @ v"
  shows "c = d \<and> u = v"
proof -
  have n: "hex_char (of_char c div 16) = hex_char (of_char d div 16) \<Longrightarrow>
     hex_char (of_char c mod 16) = hex_char (of_char d mod 16) \<Longrightarrow> c = d"
    by (auto simp: hex_char_inj intro: char_eq_by_nibbles)
  show ?thesis
    using assms n unfolding json_ascii_def by (auto split: if_splits)
qed

lemma json_escape_until_quote:
  "is_ascii s \<Longrightarrow> is_ascii t \<Longrightarrow> json_escape s @ CHR 0x22 # u = json_escape t @ CHR 0x22 # v \<Longrightarrow> s = t \<and> u = v"
proof (induction s arbitrary: t)
  case Nil
  then show ?case
    using json_ascii_hd [of "hd t"] json_ascii_not_Nil [of "hd t"]
    by (cases t) (auto simp: neq_Nil_conv)
next
  case (Cons c s)
  show ?case
  proof (cases t)
    case Nil
    with Cons.prems show ?thesis
      using json_ascii_hd [of c] json_ascii_not_Nil [of c] by (auto simp: neq_Nil_conv)
  next
    case (Cons d t')
    with Cons.prems have "json_ascii c @ (json_escape s @ CHR 0x22 # u) = json_ascii d @ (json_escape t' @ CHR 0x22 # v)"
      by simp
    then show ?thesis
      using json_ascii_prefix_code Cons Cons.prems Cons.IH by (metis is_ascii_Cons)
  qed
qed

lemma json_string_prefix_code:
  "is_ascii s \<Longrightarrow> is_ascii t \<Longrightarrow> json_string s @ u = json_string t @ v \<Longrightarrow> s = t \<and> u = v"
  using json_escape_until_quote [of s t u v] by (simp add: json_string_def)

end
