(* ===== verification/Crypto.thy ===== *)
theory Crypto
  imports Hashing
begin

text \<open>
  Package \<^verbatim>\<open>internal/crypto\<close>: the signed messages and EIP-191 signatures. The elliptic-curve and
  Keccak routines belong to go-ethereum, which is not part of the repository: they are the fields
  of a record \<open>Geth\<close> that every definition using them takes as its first argument. \<open>geth_laws\<close>
  states the documented behaviour the round trips rely on (hex coding, 65-byte signatures with
  recovery id 0 or 1 that recover the signer's public key). Keys and public keys are opaque strings.
\<close>

record Geth =
  hexutil_Decode :: "string \<Rightarrow> string res"
  hexutil_Encode :: "string \<Rightarrow> string"
  Keccak256 :: "string \<Rightarrow> string"
  SigToPub :: "string \<Rightarrow> string \<Rightarrow> string res"
  PubkeyToAddressHex :: "string \<Rightarrow> string"
  HexToECDSA :: "string \<Rightarrow> string res"
  PublicKey :: "string \<Rightarrow> string"
  Sign :: "string \<Rightarrow> string \<Rightarrow> string res"
  IsHexAddress :: "string \<Rightarrow> bool"

definition geth_laws :: "Geth \<Rightarrow> bool" where
  "geth_laws E \<longleftrightarrow>
     (\<forall>b. hexutil_Decode E (hexutil_Encode E b) = Inr b)
   \<and> (\<forall>h k sig. Sign E h k = Inr sig \<longrightarrow>
        length sig = 65 \<and> sig ! 64 \<in> {CHR 0x00, CHR 0x01} \<and> SigToPub E h sig = Inr (PublicKey E k))"

section \<open>Signed messages\<close>

definition BuildChainSigningMessage :: "uint64 \<Rightarrow> string \<Rightarrow> string" where
  "BuildChainSigningMessage height blockHash =
     ''EASTCHAIN_BLOCK|'' @ show_u64 height @ ''|'' @ blockHash"

definition BuildProposalMessage :: "string \<Rightarrow> uint64 \<Rightarrow> string \<Rightarrow> string" where
  "BuildProposalMessage proposalID height blockHash =
     ''EASTCHAIN_PROPOSAL|'' @ proposalID @ ''|'' @ show_u64 height @ ''|'' @ blockHash"

definition BuildTxMessage :: "string \<Rightarrow> string" where
  "BuildTxMessage txHash = ''EASTCHAIN_TX|'' @ txHash"

definition BuildHeartbeatMessage :: "string \<Rightarrow> string \<Rightarrow> int \<Rightarrow> string" where
  "BuildHeartbeatMessage address nodeID unixMs =
     ''EASTCHAIN_HEARTBEAT|'' @ address @ ''|'' @ nodeID @ ''|'' @ show_int unixMs"

definition BuildValidatorRegisterMessage :: "string \<Rightarrow> int \<Rightarrow> string" where
  "BuildValidatorRegisterMessage address unixMs =
     ''EASTCHAIN_VALIDATOR_REGISTER|'' @ address @ ''|'' @ show_int unixMs"

definition BuildMintMessage :: "string \<Rightarrow> string \<Rightarrow> int \<Rightarrow> uint64 \<Rightarrow> int \<Rightarrow> string" where
  "BuildMintMessage bucket beneficiary amount nonce epochID =
     ''EASTCHAIN_MINT|'' @ bucket @ ''|'' @ beneficiary @ ''|'' @ show_int amount @ ''|''
       @ show_u64 nonce @ ''|'' @ show_int epochID"

section \<open>EIP-191 signatures\<close>

definition eip191_hash :: "Geth \<Rightarrow> string \<Rightarrow> string" where
  "eip191_hash E message =
     Keccak256 E ([CHR 0x19] @ ''Ethereum Signed Message:'' @ [CHR 0x0A]
       @ show_nat (length message) @ message)"

definition RecoverAddress :: "Geth \<Rightarrow> string \<Rightarrow> string \<Rightarrow> string res" where
  "RecoverAddress E message signatureHex =
     (case hexutil_Decode E signatureHex of
        Inl _ \<Rightarrow> Inl (Errorf ''invalid signature hex'')
      | Inr sig0 \<Rightarrow>
          if length sig0 \<noteq> 65 then Inl (Errorf ''signature must be 65 bytes'')
          else
            let v = of_char (sig0 ! 64) :: nat;
                sig = (if 27 \<le> v then sig0[64 := char_of (v - 27)] else sig0)
            in case SigToPub E (eip191_hash E message) sig of
                 Inl _ \<Rightarrow> Inl (Errorf ''recover public key'')
               | Inr pub \<Rightarrow> Inr (PubkeyToAddressHex E pub))"

definition VerifyEIP191 :: "Geth \<Rightarrow> string \<Rightarrow> string \<Rightarrow> string \<Rightarrow> bool res" where
  "VerifyEIP191 E message signatureHex expectedAddress =
     (case RecoverAddress E message signatureHex of
        Inl e \<Rightarrow> Inl e
      | Inr recovered \<Rightarrow> Inr (EqualFold recovered expectedAddress))"

definition SignEIP191 :: "Geth \<Rightarrow> string \<Rightarrow> string \<Rightarrow> string res" where
  "SignEIP191 E message privateKeyHex =
     (case HexToECDSA E (TrimPrefix privateKeyHex ''0x'') of
        Inl _ \<Rightarrow> Inl (Errorf ''invalid private key'')
      | Inr key \<Rightarrow>
          (case Sign E (eip191_hash E message) key of
             Inl e \<Rightarrow> Inl e
           | Inr sig \<Rightarrow>
               Inr (hexutil_Encode E (sig[64 := char_of (of_char (sig ! 64) + 27 :: nat)]))))"

definition AddressFromPrivateKey :: "Geth \<Rightarrow> string \<Rightarrow> string res" where
  "AddressFromPrivateKey E privateKeyHex =
     (case HexToECDSA E (TrimPrefix privateKeyHex ''0x'') of
        Inl e \<Rightarrow> Inl e
      | Inr key \<Rightarrow> Inr (PubkeyToAddressHex E (PublicKey E key)))"

definition IsValidAddress :: "Geth \<Rightarrow> string \<Rightarrow> bool" where
  "IsValidAddress E addr = IsHexAddress E addr"

text \<open>A signature check as the callers read it: no error and a match.\<close>

definition sig_ok :: "Geth \<Rightarrow> string \<Rightarrow> string \<Rightarrow> string \<Rightarrow> bool" where
  "sig_ok E message sig addr \<longleftrightarrow> VerifyEIP191 E message sig addr = Inr True"

section \<open>Signing and verifying are inverse\<close>

lemma VerifyEIP191_EqualFold:
  "EqualFold a b \<Longrightarrow> VerifyEIP191 E m s a = VerifyEIP191 E m s b"
  by (auto simp: VerifyEIP191_def EqualFold_def split: sum.splits)

lemma signed_verifies:
  assumes "geth_laws E"
    and "SignEIP191 E m k = Inr s" and "AddressFromPrivateKey E k = Inr a" and "EqualFold a b"
  shows "VerifyEIP191 E m s b = Inr True"
proof -
  let ?h = "eip191_hash E m"
  obtain key sig where key: "HexToECDSA E (TrimPrefix k ''0x'') = Inr key"
    and sig: "Sign E ?h key = Inr sig"
    and s: "s = hexutil_Encode E (sig[64 := char_of (of_char (sig ! 64) + 27 :: nat)])"
    using assms(2) by (auto simp: SignEIP191_def split: sum.splits)
  from assms(1) sig have len: "length sig = 65" and v: "sig ! 64 \<in> {CHR 0x00, CHR 0x01}"
    and pub: "SigToPub E ?h sig = Inr (PublicKey E key)"
    and hexdec: "\<And>x. hexutil_Decode E (hexutil_Encode E x) = Inr x"
    unfolding geth_laws_def by blast+
  have "(of_char (sig ! 64) :: nat) \<le> 1" using v by auto
  then have undo: "27 \<le> (of_char (char_of (of_char (sig ! 64) + 27 :: nat)) :: nat)"
    "char_of ((of_char (char_of (of_char (sig ! 64) + 27 :: nat)) :: nat) - 27) = sig ! 64"
    by simp_all
  have "RecoverAddress E m s = Inr (PubkeyToAddressHex E (PublicKey E key))"
    using len pub undo by (simp add: RecoverAddress_def s hexdec Let_def)
  moreover have "a = PubkeyToAddressHex E (PublicKey E key)"
    using assms(3) key by (simp add: AddressFromPrivateKey_def)
  ultimately show ?thesis
    using assms(4) by (simp add: VerifyEIP191_def)
qed

text \<open>
  A signature produced by \<^verbatim>\<open>SignEIP191\<close> verifies against the address derived from the same key,
  whatever the letter case the address is written in: the \<open>+27\<close> on the recovery byte is undone.
\<close>

theorem sign_verify:
  assumes "geth_laws E"
    and "SignEIP191 E m k = Inr s" and "AddressFromPrivateKey E k = Inr a" and "EqualFold a b"
  shows "VerifyEIP191 E m s b = Inr True"
  using assms by (rule signed_verifies)

text \<open>
  A concrete stand-in for go-ethereum that satisfies the laws: the identity as hex coding and a
  65-byte signature that carries nothing but the recovery byte.
\<close>

definition toy_geth :: Geth where
  "toy_geth =
     \<lparr>hexutil_Decode = Inr, hexutil_Encode = (\<lambda>b. b), Keccak256 = (\<lambda>s. s),
      SigToPub = (\<lambda>h s. Inr ''pub''), PubkeyToAddressHex = (\<lambda>p. ''0xAb''),
      HexToECDSA = Inr, PublicKey = (\<lambda>k. ''pub''),
      Sign = (\<lambda>h k. Inr (replicate 65 (CHR 0x00))), IsHexAddress = (\<lambda>a. True)\<rparr>"

lemma toy_geth_laws: "geth_laws toy_geth"
  by (simp add: geth_laws_def toy_geth_def)

lemma toy_geth_sign:
  "SignEIP191 toy_geth m k = Inr ((replicate 65 (CHR 0x00))[64 := CHR 0x1B])"
  "AddressFromPrivateKey toy_geth k = Inr ''0xAb''"
  by (simp_all add: SignEIP191_def AddressFromPrivateKey_def toy_geth_def char_of_def bit_iff_odd)

theorem sign_verify_witness:
  "VerifyEIP191 toy_geth ''m'' ((replicate 65 (CHR 0x00))[64 := CHR 0x1B]) ''0xab'' = Inr True"
  by (rule sign_verify [OF toy_geth_laws toy_geth_sign])
    (simp add: EqualFold_def ToLower_def lower_char_def less_eq_char_def char_of_def bit_iff_odd)

end
