(* ===== verification/Tx.thy ===== *)
theory Tx
  imports Crypto
begin

text \<open>
  Package \<^verbatim>\<open>internal/tx\<close>: the transaction, its hash, the claim payload and the stateless checks of
  \<^verbatim>\<open>ValidateBasic\<close>. \<open>TxType\<close> is the string the source uses. \<^verbatim>\<open>Payload any\<close> is \<open>None\<close> for nil, a
  Go struct, or a decoded JSON value; \<open>JInt\<close> is a number that prints as an integer, \<open>JFrac\<close> any
  other number. \<^verbatim>\<open>ValidateBasic\<close> fills in a missing timestamp, so it returns the transaction too.
  \<open>oracle\<close> is the environment variable \<^verbatim>\<open>MINING_ORACLE_ADDRESS\<close> and \<open>now\<close> the clock reading.
\<close>

type_synonym TxType = string

abbreviation TxTransfer :: TxType where "TxTransfer \<equiv> ''transfer''"
abbreviation TxRequestUnstake :: TxType where "TxRequestUnstake \<equiv> ''request_unstake''"
abbreviation TxClaimUnstake :: TxType where "TxClaimUnstake \<equiv> ''claim_unstake''"
abbreviation TxStake :: TxType where "TxStake \<equiv> ''stake''"
abbreviation TxClaimMining :: TxType where "TxClaimMining \<equiv> ''claim_mining''"

definition SubunitsPerEAST :: int where
  "SubunitsPerEAST = 1000000"

datatype Json =
    JNull | JBool bool | JInt int | JFrac | JStr string | JArr "Json list" | JObj "(string \<times> Json) list"

record ClaimMiningPayload =
  cmp_Bucket :: string
  cmp_EpochID :: int
  cmp_OracleSignature :: string

datatype Payload = PStruct ClaimMiningPayload | PJson Json

record Transaction =
  tx_Type :: TxType
  tx_From :: string
  tx_To :: string
  tx_Amount :: int
  tx_Nonce :: uint64
  tx_Timestamp :: int
  tx_Signature :: string
  tx_Payload :: "Payload option"

section \<open>The transaction hash\<close>

definition hash_preimage :: "Transaction \<Rightarrow> string" where
  "hash_preimage t =
     [CHR ''{''] @ json_string ''type'' @ '':'' @ json_string (tx_Type t)
     @ '','' @ json_string ''from'' @ '':'' @ json_string (tx_From t)
     @ '','' @ json_string ''to'' @ '':'' @ json_string (tx_To t)
     @ '','' @ json_string ''amount'' @ '':'' @ show_int (tx_Amount t)
     @ '','' @ json_string ''nonce'' @ '':'' @ show_u64 (tx_Nonce t)
     @ '','' @ json_string ''timestamp'' @ '':'' @ show_int (tx_Timestamp t)
     @ [CHR ''}'']"

definition Hash :: "Transaction \<Rightarrow> string" where
  "Hash t = EncodeToString (sha256 (hash_preimage t))"

section \<open>The claim payload\<close>

definition zero_payload :: ClaimMiningPayload where
  "zero_payload = \<lparr>cmp_Bucket = [], cmp_EpochID = 0, cmp_OracleSignature = []\<rparr>"

text \<open>\<^verbatim>\<open>json.Unmarshal\<close> into a string or \<^verbatim>\<open>int64\<close> field: null leaves the field as it is.\<close>

fun json_into_string :: "Json \<Rightarrow> string \<Rightarrow> string res" where
  "json_into_string JNull old = Inr old"
| "json_into_string (JStr s) old = Inr s"
| "json_into_string _ old = Inl JsonErr"

fun json_into_int64 :: "Json \<Rightarrow> int \<Rightarrow> int res" where
  "json_into_int64 JNull old = Inr old"
| "json_into_int64 (JInt i) old = (if in_i64 i then Inr i else Inl JsonErr)"
| "json_into_int64 _ old = Inl JsonErr"

text \<open>One member of the object: an exact field name is preferred to a case-insensitive match, which
  for these three field names is the same as the case-insensitive match alone.\<close>

definition set_payload_field :: "string \<Rightarrow> Json \<Rightarrow> ClaimMiningPayload \<Rightarrow> ClaimMiningPayload res" where
  "set_payload_field k v p =
     (if EqualFold k ''bucket'' then
        (case json_into_string v (cmp_Bucket p) of Inl e \<Rightarrow> Inl e | Inr s \<Rightarrow> Inr (p\<lparr>cmp_Bucket := s\<rparr>))
      else if EqualFold k ''epoch_id'' then
        (case json_into_int64 v (cmp_EpochID p) of Inl e \<Rightarrow> Inl e | Inr i \<Rightarrow> Inr (p\<lparr>cmp_EpochID := i\<rparr>))
      else if EqualFold k ''oracle_signature'' then
        (case json_into_string v (cmp_OracleSignature p) of
           Inl e \<Rightarrow> Inl e | Inr s \<Rightarrow> Inr (p\<lparr>cmp_OracleSignature := s\<rparr>))
      else Inr p)"

fun set_payload_fields :: "(string \<times> Json) list \<Rightarrow> ClaimMiningPayload \<Rightarrow> ClaimMiningPayload res" where
  "set_payload_fields [] p = Inr p"
| "set_payload_fields ((k, v) # kvs) p =
     (case set_payload_field k v p of Inl e \<Rightarrow> Inl e | Inr p' \<Rightarrow> set_payload_fields kvs p')"

text \<open>Marshalling a map writes its members in key order; unmarshalling reads them in that order.\<close>

fun payload_of_json :: "Json \<Rightarrow> ClaimMiningPayload res" where
  "payload_of_json JNull = Inr zero_payload"
| "payload_of_json (JObj kvs) = set_payload_fields (sort_key fst kvs) zero_payload"
| "payload_of_json _ = Inl JsonErr"

fun decode_payload :: "Payload \<Rightarrow> ClaimMiningPayload res" where
  "decode_payload (PStruct p) = Inr p"
| "decode_payload (PJson j) = payload_of_json j"

definition ParseClaimMiningPayload :: "Transaction \<Rightarrow> ClaimMiningPayload res" where
  "ParseClaimMiningPayload t =
     (case tx_Payload t of
        None \<Rightarrow> Inl (Errorf ''claim_mining requires payload'')
      | Some pl \<Rightarrow>
          (case decode_payload pl of
             Inl _ \<Rightarrow> Inl (Errorf ''invalid claim_mining payload'')
           | Inr p0 \<Rightarrow>
               let p = (if cmp_Bucket p0 = [] then p0\<lparr>cmp_Bucket := ''mining''\<rparr> else p0) in
               if \<not> EqualFold (cmp_Bucket p) ''mining''
               then Inl (Errorf ''claim_mining bucket must be mining'')
               else
                 let p' = p\<lparr>cmp_Bucket := ''mining''\<rparr> in
                 if cmp_OracleSignature p' = [] then Inl (Errorf ''oracle_signature required'')
                 else Inr p'))"

definition MiningOracleAddress :: "string \<Rightarrow> string" where
  "MiningOracleAddress oracle = TrimSpace oracle"

section \<open>Stateless validation\<close>

definition VerifySignature :: "Geth \<Rightarrow> Transaction \<Rightarrow> unit res" where
  "VerifySignature E t =
     (if tx_Signature t = [] then Inl (Errorf ''signature required'')
      else case VerifyEIP191 E (BuildTxMessage (Hash t)) (tx_Signature t) (tx_From t) of
             Inl _ \<Rightarrow> Inl (Errorf ''signature verification failed'')
           | Inr ok \<Rightarrow> if \<not> ok then Inl (Errorf ''signature does not match from address'') else Inr ())"

definition validate_claim :: "Geth \<Rightarrow> string \<Rightarrow> Transaction \<Rightarrow> unit res" where
  "validate_claim E oracle t =
     (if tx_Amount t \<le> 0 then Inl (Errorf ''claim_mining amount must be > 0 (human EAST)'')
      else if tx_Amount t > 1000000 then Inl (Errorf ''claim_mining amount exceeds per-claim max'')
      else case ParseClaimMiningPayload t of
             Inl e \<Rightarrow> Inl e
           | Inr p \<Rightarrow>
               let orc = MiningOracleAddress oracle in
               if orc = [] then Inl (Errorf ''claim_mining disabled'')
               else case VerifyEIP191 E
                      (BuildMintMessage (cmp_Bucket p) (tx_From t) (tx_Amount t) (tx_Nonce t) (cmp_EpochID p))
                      (cmp_OracleSignature p) orc of
                    Inl _ \<Rightarrow> Inl (Errorf ''oracle signature verification failed'')
                  | Inr ok \<Rightarrow> if \<not> ok then Inl (Errorf ''oracle signature does not match'') else Inr ())"

definition ValidateBasic :: "Geth \<Rightarrow> string \<Rightarrow> int \<Rightarrow> Transaction \<Rightarrow> unit res \<times> Transaction" where
  "ValidateBasic E oracle now t0 =
     (if tx_From t0 = [] then (Inl (Errorf ''from address required''), t0)
      else if tx_Amount t0 < 0 then (Inl (Errorf ''amount cannot be negative''), t0)
      else
        let t = (if tx_Timestamp t0 = 0 then t0\<lparr>tx_Timestamp := now\<rparr> else t0);
            checked =
              (if tx_Type t = TxTransfer then
                 if tx_To t = [] then Inl (Errorf ''to address required for transfer'')
                 else if tx_Amount t \<le> 0 then Inl (Errorf ''transfer amount must be > 0'')
                 else Inr ()
               else if tx_Type t \<in> {TxRequestUnstake, TxClaimUnstake, TxStake} then
                 if tx_Amount t \<le> 0 then Inl (Errorf ''amount must be > 0'') else Inr ()
               else if tx_Type t = TxClaimMining then validate_claim E oracle t
               else Inl (Errorf ''unknown tx type''))
        in case checked of
             Inl e \<Rightarrow> (Inl e, t)
           | Inr _ \<Rightarrow> (VerifySignature E t, t))"

text \<open>\<open>decoded\<close> is the outcome of \<^verbatim>\<open>json.Unmarshal\<close> on the input bytes.\<close>

definition Decode :: "Geth \<Rightarrow> string \<Rightarrow> int \<Rightarrow> Transaction res \<Rightarrow> Transaction res" where
  "Decode E oracle now decoded =
     (case decoded of
        Inl e \<Rightarrow> Inl e
      | Inr t \<Rightarrow> (case ValidateBasic E oracle now t of (Inl e, _) \<Rightarrow> Inl e | (Inr _, t') \<Rightarrow> Inr t'))"

section \<open>What a validated transaction satisfies\<close>

lemma VerifySignature_ok:
  "VerifySignature E t = Inr () \<longleftrightarrow>
     tx_Signature t \<noteq> [] \<and> sig_ok E (BuildTxMessage (Hash t)) (tx_Signature t) (tx_From t)"
  by (auto simp: VerifySignature_def sig_ok_def split: sum.splits if_splits)

lemma ParseClaimMiningPayload_ok:
  "ParseClaimMiningPayload t = Inr p \<Longrightarrow> cmp_Bucket p = ''mining'' \<and> cmp_OracleSignature p \<noteq> []"
  by (auto simp: ParseClaimMiningPayload_def Let_def split: option.splits sum.splits if_splits)

lemma ParseClaimMiningPayload_timestamp [simp]:
  "ParseClaimMiningPayload (t\<lparr>tx_Timestamp := x\<rparr>) = ParseClaimMiningPayload t"
  by (simp add: ParseClaimMiningPayload_def)

lemma validate_claim_ok:
  "validate_claim E oracle t = Inr () \<longleftrightarrow>
     0 < tx_Amount t \<and> tx_Amount t \<le> 1000000 \<and> MiningOracleAddress oracle \<noteq> []
     \<and> (\<exists>p. ParseClaimMiningPayload t = Inr p
          \<and> sig_ok E (BuildMintMessage (cmp_Bucket p) (tx_From t) (tx_Amount t) (tx_Nonce t) (cmp_EpochID p))
              (cmp_OracleSignature p) (MiningOracleAddress oracle))"
  by (auto simp: validate_claim_def sig_ok_def Let_def split: sum.splits if_splits)

definition known_type :: "Transaction \<Rightarrow> bool" where
  "known_type t \<longleftrightarrow>
     tx_Type t \<in> {TxTransfer, TxRequestUnstake, TxClaimUnstake, TxStake, TxClaimMining}"

lemma ValidateBasic_ok:
  assumes "ValidateBasic E oracle now t = (Inr (), t')"
  shows "t' = (if tx_Timestamp t = 0 then t\<lparr>tx_Timestamp := now\<rparr> else t)"
    "tx_From t' \<noteq> []" "0 < tx_Amount t'" "known_type t'"
    "tx_Type t' = TxTransfer \<Longrightarrow> tx_To t' \<noteq> []"
    "tx_Type t' = TxClaimMining \<Longrightarrow> validate_claim E oracle t' = Inr ()"
    "VerifySignature E t' = Inr ()"
proof -
  let ?t = "if tx_Timestamp t = 0 then t\<lparr>tx_Timestamp := now\<rparr> else t"
  have f: "tx_From ?t = tx_From t" "tx_Amount ?t = tx_Amount t" by auto
  from assms show t': "t' = ?t"
    by (auto simp: ValidateBasic_def Let_def split: if_splits sum.splits)
  note u = assms [unfolded ValidateBasic_def Let_def]
  show "tx_From t' \<noteq> []" "VerifySignature E t' = Inr ()" "0 < tx_Amount t'" "known_type t'"
    "tx_Type t' = TxTransfer \<Longrightarrow> tx_To t' \<noteq> []"
    "tx_Type t' = TxClaimMining \<Longrightarrow> validate_claim E oracle t' = Inr ()"
    unfolding t' known_type_def using u f
    by (auto simp: validate_claim_ok split: if_splits sum.splits)
qed

text \<open>
  C23: a transaction that \<^verbatim>\<open>ValidateBasic\<close> accepts has a known type, a sender, a positive amount and a
  valid sender signature over its hash; a transfer has a recipient; a mining claim is at most
  1,000,000 EAST, has a well-formed payload for the mining bucket, and carries a signature of the
  configured oracle over exactly this beneficiary, amount, nonce and epoch.
\<close>

theorem ValidateBasic_sound:
  assumes "ValidateBasic E oracle now t = (Inr (), t')"
  shows "known_type t' \<and> tx_From t' \<noteq> [] \<and> 0 < tx_Amount t'
    \<and> sig_ok E (BuildTxMessage (Hash t')) (tx_Signature t') (tx_From t')
    \<and> (tx_Type t' = TxTransfer \<longrightarrow> tx_To t' \<noteq> [])
    \<and> (tx_Type t' = TxClaimMining \<longrightarrow>
        tx_Amount t' \<le> 1000000 \<and> MiningOracleAddress oracle \<noteq> []
        \<and> (\<exists>p. ParseClaimMiningPayload t' = Inr p \<and> cmp_Bucket p = ''mining''
             \<and> sig_ok E (BuildMintMessage ''mining'' (tx_From t') (tx_Amount t') (tx_Nonce t') (cmp_EpochID p))
                 (cmp_OracleSignature p) (MiningOracleAddress oracle)))"
proof -
  note v = ValidateBasic_ok [OF assms]
  have "tx_Type t' = TxClaimMining \<longrightarrow>
        tx_Amount t' \<le> 1000000 \<and> MiningOracleAddress oracle \<noteq> []
        \<and> (\<exists>p. ParseClaimMiningPayload t' = Inr p \<and> cmp_Bucket p = ''mining''
             \<and> sig_ok E (BuildMintMessage ''mining'' (tx_From t') (tx_Amount t') (tx_Nonce t') (cmp_EpochID p))
                 (cmp_OracleSignature p) (MiningOracleAddress oracle))"
  proof
    assume "tx_Type t' = TxClaimMining"
    then have c: "validate_claim E oracle t' = Inr ()" by (rule v(6))
    from c [unfolded validate_claim_ok] obtain p where
      p: "ParseClaimMiningPayload t' = Inr p" and
      rest: "tx_Amount t' \<le> 1000000" "MiningOracleAddress oracle \<noteq> []"
        "sig_ok E (BuildMintMessage (cmp_Bucket p) (tx_From t') (tx_Amount t') (tx_Nonce t') (cmp_EpochID p))
              (cmp_OracleSignature p) (MiningOracleAddress oracle)"
      by blast
    from ParseClaimMiningPayload_ok [OF p] have "cmp_Bucket p = ''mining''" by simp
    with p rest show "tx_Amount t' \<le> 1000000 \<and> MiningOracleAddress oracle \<noteq> []
        \<and> (\<exists>p. ParseClaimMiningPayload t' = Inr p \<and> cmp_Bucket p = ''mining''
             \<and> sig_ok E (BuildMintMessage ''mining'' (tx_From t') (tx_Amount t') (tx_Nonce t') (cmp_EpochID p))
                 (cmp_OracleSignature p) (MiningOracleAddress oracle))"
      by auto
  qed
  moreover have "sig_ok E (BuildTxMessage (Hash t')) (tx_Signature t') (tx_From t')"
    using v(7) by (simp add: VerifySignature_ok)
  ultimately show ?thesis using v by blast
qed

text \<open>A claim that passes, with the stand-in signature scheme of \<open>Crypto\<close>.\<close>

definition toy_sig :: string where
  "toy_sig = (replicate 65 (CHR 0x00))[64 := CHR 0x1B]"

definition toy_claim :: Transaction where
  "toy_claim =
     \<lparr>tx_Type = TxClaimMining, tx_From = ''0xAb'', tx_To = [], tx_Amount = 5, tx_Nonce = 1,
      tx_Timestamp = 7, tx_Signature = toy_sig,
      tx_Payload = Some (PJson (JObj [(''epoch_id'', JInt 3), (''oracle_signature'', JStr toy_sig)]))\<rparr>"

lemma toy_sig_ok [simp]: "VerifyEIP191 toy_geth m toy_sig ''0xAb'' = Inr True"
  by (simp add: VerifyEIP191_def RecoverAddress_def toy_geth_def toy_sig_def Let_def)

lemma toy_sig_not_Nil [simp]: "toy_sig \<noteq> []"
  by (simp add: toy_sig_def)

lemma toy_claim_payload:
  "ParseClaimMiningPayload toy_claim =
     Inr \<lparr>cmp_Bucket = ''mining'', cmp_EpochID = 3, cmp_OracleSignature = toy_sig\<rparr>"
proof -
  have s: "sort_key fst [(''epoch_id'', JInt 3), (''oracle_signature'', JStr toy_sig)]
      = [(''epoch_id'', JInt 3), (''oracle_signature'', JStr toy_sig)]"
    by (simp add: less_char_def)
  have f: "EqualFold ''epoch_id'' ''bucket'' = False" "EqualFold ''oracle_signature'' ''bucket'' = False"
    "EqualFold ''oracle_signature'' ''epoch_id'' = False" "EqualFold ''mining'' ''mining'' = True"
    by (simp_all add: EqualFold_def ToLower_def)
  show ?thesis
    by (simp add: ParseClaimMiningPayload_def toy_claim_def s set_payload_field_def f in_i64_def
        zero_payload_def Let_def)
qed

lemma toy_claim_valid: "ValidateBasic toy_geth ''0xAb'' 9 toy_claim = (Inr (), toy_claim)"
proof -
  have o: "MiningOracleAddress ''0xAb'' = ''0xAb''"
    by (simp add: MiningOracleAddress_def TrimSpace_def is_space_def)
  have "validate_claim toy_geth ''0xAb'' toy_claim = Inr ()"
    by (simp add: validate_claim_def toy_claim_payload o) (simp add: toy_claim_def)
  moreover have "VerifySignature toy_geth toy_claim = Inr ()"
    by (simp add: VerifySignature_def) (simp add: toy_claim_def)
  ultimately show ?thesis
    by (simp add: ValidateBasic_def Let_def) (simp add: toy_claim_def)
qed

theorem ValidateBasic_sound_witness:
  "known_type toy_claim \<and> tx_Amount toy_claim \<le> 1000000"
  using ValidateBasic_sound [OF toy_claim_valid] by (simp add: toy_claim_def)

section \<open>What the hash commits to\<close>

lemma hash_fields_code:
  assumes eq: "json_string a @ xp @ json_string b @ xq @ json_string c @ xr @ show_int n @ CHR '','' # xv
      @ show_u64 m @ CHR '','' # xw @ show_int l @ [CHR ''}'']
    = json_string a' @ xp @ json_string b' @ xq @ json_string c' @ xr @ show_int n' @ CHR '','' # xv
      @ show_u64 m' @ CHR '','' # xw @ show_int l' @ [CHR ''}'']"
    and ascii: "is_ascii a" "is_ascii b" "is_ascii c" "is_ascii a'" "is_ascii b'" "is_ascii c'"
  shows "a = a' \<and> b = b' \<and> c = c' \<and> n = n' \<and> m = m' \<and> l = l'"
proof -
  note p = json_string_prefix_code and d = num_char_delims
  from p [OF ascii(1,4) eq] have a: "a = a'" and 1: "json_string b @ xq @ json_string c @ xr @ show_int n @ CHR '','' # xv
      @ show_u64 m @ CHR '','' # xw @ show_int l @ [CHR ''}'']
    = json_string b' @ xq @ json_string c' @ xr @ show_int n' @ CHR '','' # xv
      @ show_u64 m' @ CHR '','' # xw @ show_int l' @ [CHR ''}'']" by simp_all
  from p [OF ascii(2,5) 1] have b: "b = b'" and 2: "json_string c @ xr @ show_int n @ CHR '','' # xv
      @ show_u64 m @ CHR '','' # xw @ show_int l @ [CHR ''}'']
    = json_string c' @ xr @ show_int n' @ CHR '','' # xv
      @ show_u64 m' @ CHR '','' # xw @ show_int l' @ [CHR ''}'']" by simp_all
  from p [OF ascii(3,6) 2] have c: "c = c'" and 3: "show_int n @ CHR '','' # xv
      @ show_u64 m @ CHR '','' # xw @ show_int l @ [CHR ''}'']
    = show_int n' @ CHR '','' # xv @ show_u64 m' @ CHR '','' # xw @ show_int l' @ [CHR ''}'']" by simp_all
  from show_int_until [OF 3 d(1)] have n: "n = n'" and 4: "show_u64 m @ CHR '','' # xw @ show_int l @ [CHR ''}'']
    = show_u64 m' @ CHR '','' # xw @ show_int l' @ [CHR ''}'']" by simp_all
  from show_u64_until [OF 4 d(1)] have m: "m = m'" and 5: "show_int l @ [CHR ''}''] = show_int l' @ [CHR ''}'']" by simp_all
  from show_int_until [OF 5 d(2)] a b c n m show ?thesis by simp
qed

text \<open>
  The bytes a transaction hash is taken over determine the type, sender, recipient, amount, nonce
  and timestamp (for ASCII strings): no two transactions that differ in one of them are hashed from
  the same text. Signature and payload are not part of it.
\<close>

theorem hash_preimage_inj:
  assumes "hash_preimage s = hash_preimage t"
    and "list_all is_ascii [tx_Type s, tx_From s, tx_To s, tx_Type t, tx_From t, tx_To t]"
  shows "tx_Type s = tx_Type t \<and> tx_From s = tx_From t \<and> tx_To s = tx_To t \<and> tx_Amount s = tx_Amount t
    \<and> tx_Nonce s = tx_Nonce t \<and> tx_Timestamp s = tx_Timestamp t"
  using assms unfolding hash_preimage_def
  by (intro hash_fields_code [where xp = "'','' @ json_string ''from'' @ '':''"
     and xq = "'','' @ json_string ''to'' @ '':''" and xr = "'','' @ json_string ''amount'' @ '':''"
     and xv = "json_string ''nonce'' @ '':''" and xw = "json_string ''timestamp'' @ '':''"])
   simp_all
theorem hash_preimage_inj_witness:
  "tx_Amount toy_claim = tx_Amount (toy_claim\<lparr>tx_Signature := [], tx_Payload := None\<rparr>)"
  using hash_preimage_inj [of toy_claim "toy_claim\<lparr>tx_Signature := [], tx_Payload := None\<rparr>"]
  by (simp add: hash_preimage_def toy_claim_def is_ascii_def)

end
