(* ===== verification/State.thy ===== *)
theory State
  imports Genesis Tx
begin

text \<open>
  Package \<^verbatim>\<open>internal/state\<close>, file \<^verbatim>\<open>state.go\<close>: the local store.

  Badger is a third-party key-value store. Its contents are the list of entries in ascending key
  order (the order its iterators use). Whether an access fails is a parameter carried by the store:
  \<open>getFault k\<close> and \<open>setFault k\<close> say that reading or writing \<open>k\<close> fails, \<open>commitFault\<close> that the
  commit of a read-write transaction fails. \<^verbatim>\<open>db.Update\<close> runs its body on a private view and
  installs that view only when the body and the commit succeed. Stored records are typed values in
  place of their JSON text; reading a record of another type is a decoding error.
\<close>

record Account =
  acc_Balance :: int
  acc_Staked :: int
  acc_PendingUnstake :: int
  acc_Nonce :: uint64

record BlockHeader =
  hdr_Height :: uint64
  hdr_Hash :: string
  hdr_PrevHash :: string
  hdr_StateRoot :: string
  hdr_TxHashes :: "string list"
  hdr_Timestamp :: int
  hdr_Proposer :: string
  hdr_TxCount :: int
  hdr_Signature :: string
  hdr_LastCommitRound :: int
  hdr_LastCommitVotes :: int
  hdr_LastCommitHash :: string

record StoredTx =
  stx_Transaction :: Transaction
  stx_Height :: uint64
  stx_Hash :: string

record ValidatorSetRecord =
  vsr_Addresses :: "string list"
  vsr_UpdatedAt :: int
  vsr_Epoch :: uint64

record JailRecord =
  jail_Address :: string
  jail_Reason :: string
  jail_JailedAt :: int
  jail_Until :: int
  jail_Evidence :: string

datatype NodeTier = TierLight | TierFull

record HeartbeatRecord =
  hb_Address :: string
  hb_NodeID :: string
  hb_Tier :: NodeTier
  hb_LastSeen :: int
  hb_EpochID :: int
  hb_Count :: int
  hb_FirstSeen :: int

text \<open>The summary of the genesis document stored under \<^verbatim>\<open>meta:genesis\<close>.\<close>

record GenesisMeta =
  gm_chain_id :: string
  gm_numeric_chain_id :: int
  gm_genesis_time :: int
  gm_total_max_supply :: int
  gm_min_validator_stake :: int
  gm_chain_signing_address :: string

datatype Value =
    AccountV Account | BucketV Bucket | BlockV BlockHeader | TxV StoredTx | TxsV "StoredTx list"
  | ValSetV ValidatorSetRecord | JailV JailRecord | HeartbeatV HeartbeatRecord
  | GenesisV GenesisMeta | RawV string

type_synonym DB = "(string \<times> Value) list"

record Store =
  db :: DB
  getFault :: "string \<Rightarrow> bool"
  setFault :: "string \<Rightarrow> bool"
  commitFault :: bool
  totalMaxSupply :: int
  minValidatorStake :: int
  chainSigningAddr :: string
  numericChainID :: int

definition zero_account :: Account where
  "zero_account = \<lparr>acc_Balance = 0, acc_Staked = 0, acc_PendingUnstake = 0, acc_Nonce = 0\<rparr>"

section \<open>Badger transactions\<close>

definition txn_Get :: "Store \<Rightarrow> DB \<Rightarrow> string \<Rightarrow> Value res" where
  "txn_Get s d k =
     (if getFault s k then Inl BadgerErr
      else case map_of d k of None \<Rightarrow> Inl KeyNotFound | Some v \<Rightarrow> Inr v)"

definition txn_Set :: "Store \<Rightarrow> DB \<Rightarrow> string \<Rightarrow> Value \<Rightarrow> DB res" where
  "txn_Set s d k v = (if setFault s k then Inl BadgerErr else Inr (kv_set k v d))"

definition txn_Delete :: "Store \<Rightarrow> DB \<Rightarrow> string \<Rightarrow> DB res" where
  "txn_Delete s d k = (if setFault s k then Inl BadgerErr else Inr (kv_del k d))"

definition db_Update :: "Store \<Rightarrow> (DB \<Rightarrow> DB res) \<Rightarrow> unit res \<times> Store" where
  "db_Update s body =
     (case body (db s) of
        Inl e \<Rightarrow> (Inl e, s)
      | Inr d \<Rightarrow> if commitFault s then (Inl BadgerErr, s) else (Inr (), s\<lparr>db := d\<rparr>))"

definition iter_prefix :: "string \<Rightarrow> DB \<Rightarrow> DB" where
  "iter_prefix p d = filter (\<lambda>e. prefix p (fst e)) d"

text \<open>A sequence of writes that stops at the first failure.\<close>

fun txn_Set_all :: "Store \<Rightarrow> DB \<Rightarrow> (string \<times> Value) list \<Rightarrow> DB res" where
  "txn_Set_all s d [] = Inr d"
| "txn_Set_all s d ((k, v) # kvs) =
     (case txn_Set s d k v of Inl e \<Rightarrow> Inl e | Inr d' \<Rightarrow> txn_Set_all s d' kvs)"

text \<open>Reading every value an iterator yields, with a decoder, stopping at the first failure.\<close>

fun iter_values :: "Store \<Rightarrow> (Value \<Rightarrow> 'a res) \<Rightarrow> DB \<Rightarrow> 'a list res" where
  "iter_values s dec [] = Inr []"
| "iter_values s dec ((k, v) # es) =
     (if getFault s k then Inl BadgerErr
      else case dec v of Inl e \<Rightarrow> Inl e
           | Inr x \<Rightarrow> (case iter_values s dec es of Inl e \<Rightarrow> Inl e | Inr xs \<Rightarrow> Inr (x # xs)))"

fun as_Account :: "Value \<Rightarrow> Account res" where
  "as_Account (AccountV a) = Inr a" | "as_Account _ = Inl JsonErr"

fun as_Bucket :: "Value \<Rightarrow> Bucket res" where
  "as_Bucket (BucketV b) = Inr b" | "as_Bucket _ = Inl JsonErr"

fun as_Block :: "Value \<Rightarrow> BlockHeader res" where
  "as_Block (BlockV h) = Inr h" | "as_Block _ = Inl JsonErr"

fun as_StoredTx :: "Value \<Rightarrow> StoredTx res" where
  "as_StoredTx (TxV t) = Inr t" | "as_StoredTx _ = Inl JsonErr"

fun as_StoredTxs :: "Value \<Rightarrow> StoredTx list res" where
  "as_StoredTxs (TxsV ts) = Inr ts" | "as_StoredTxs _ = Inl JsonErr"

section \<open>Keys\<close>

definition normalizeAddr :: "string \<Rightarrow> string" where
  "normalizeAddr addr = ToLower (TrimSpace addr)"

definition accountKey :: "string \<Rightarrow> string" where
  "accountKey addr = ''acc:'' @ normalizeAddr addr"

definition bucketKey :: "string \<Rightarrow> string" where
  "bucketKey name = ''bucket:'' @ name"

definition blockKey :: "uint64 \<Rightarrow> string" where
  "blockKey height = ''blk:'' @ show_pad20 height"

definition metaKey :: "string \<Rightarrow> string" where
  "metaKey key = ''meta:'' @ key"

definition blockTxsKey :: "uint64 \<Rightarrow> string" where
  "blockTxsKey height = ''blktxs:'' @ show_pad20 height"

definition txIndexKey :: "string \<Rightarrow> string" where
  "txIndexKey hash = ''tx:'' @ ToLower (TrimPrefix (TrimSpace hash) ''0x'')"

section \<open>Genesis\<close>

definition genesis_meta :: "Genesis \<Rightarrow> GenesisMeta" where
  "genesis_meta g =
     \<lparr>gm_chain_id = gen_ChainID g, gm_numeric_chain_id = gen_NumericChainID g,
      gm_genesis_time = gen_GenesisTime g, gm_total_max_supply = gen_TotalMaxSupply g,
      gm_min_validator_stake = gen_MinValidatorStake g,
      gm_chain_signing_address = gen_ChainSigningAddress g\<rparr>"

definition genesis_writes :: "Genesis \<Rightarrow> (string \<times> Value) list" where
  "genesis_writes g =
     map (\<lambda>b. (bucketKey (bkt_Name b), BucketV b)) (gen_Buckets g)
   @ map (\<lambda>a. (accountKey (seed_Address a),
                AccountV (zero_account\<lparr>acc_Balance := seed_Balance a, acc_Staked := seed_Staked a\<rparr>)))
       (gen_Accounts g)
   @ [(metaKey ''genesis'', GenesisV (genesis_meta g)), (metaKey ''genesis_hash'', RawV ''applied''),
      (metaKey ''latest_height'', RawV ''0'')]"

definition set_params :: "Genesis \<Rightarrow> Store \<Rightarrow> Store" where
  "set_params g s =
     s\<lparr>totalMaxSupply := gen_TotalMaxSupply g, minValidatorStake := gen_MinValidatorStake g,
       chainSigningAddr := gen_ChainSigningAddress g, numericChainID := gen_NumericChainID g\<rparr>"

definition InitGenesis :: "Store \<Rightarrow> Genesis \<Rightarrow> unit res \<times> Store" where
  "InitGenesis s g0 =
     (case Validate g0 of
        (Inl e, _) \<Rightarrow> (Inl e, s)
      | (Inr _, g) \<Rightarrow>
          (case txn_Get s (db s) (metaKey ''genesis_hash'') of
             Inr _ \<Rightarrow> db_Update (set_params g s) Inr
           | Inl _ \<Rightarrow>
               (case txn_Set_all s (db s) (genesis_writes g) of
                  Inl e \<Rightarrow> (Inl e, s)
                | Inr d \<Rightarrow> db_Update (set_params g s) (\<lambda>_. Inr d))))"

section \<open>Accounts and buckets\<close>

definition GetAccount :: "Store \<Rightarrow> string \<Rightarrow> Account res" where
  "GetAccount s addr =
     (case txn_Get s (db s) (accountKey addr) of
        Inl KeyNotFound \<Rightarrow> Inr zero_account
      | Inl e \<Rightarrow> Inl e
      | Inr v \<Rightarrow> as_Account v)"

definition getAccountTxn :: "Store \<Rightarrow> DB \<Rightarrow> string \<Rightarrow> Account res" where
  "getAccountTxn s d addr =
     (let norm = normalizeAddr addr;
          item = (case txn_Get s d (accountKey norm) of
                    Inl KeyNotFound \<Rightarrow>
                      if norm \<noteq> addr then txn_Get s d (''acc:'' @ addr) else Inl KeyNotFound
                  | r \<Rightarrow> r)
      in case item of
           Inl KeyNotFound \<Rightarrow> Inr zero_account
         | Inl e \<Rightarrow> Inl e
         | Inr v \<Rightarrow> as_Account v)"

definition setAccountTxn :: "Store \<Rightarrow> DB \<Rightarrow> string \<Rightarrow> Account \<Rightarrow> DB res" where
  "setAccountTxn s d addr acc = txn_Set s d (accountKey addr) (AccountV acc)"

definition GetBucket :: "Store \<Rightarrow> string \<Rightarrow> Bucket res" where
  "GetBucket s name =
     (case txn_Get s (db s) (bucketKey name) of Inl e \<Rightarrow> Inl e | Inr v \<Rightarrow> as_Bucket v)"

definition mintFromBucketTxn :: "Store \<Rightarrow> DB \<Rightarrow> string \<Rightarrow> int \<Rightarrow> DB res" where
  "mintFromBucketTxn s d name amount =
     (if amount \<le> 0 then Inl (Errorf ''mint amount must be > 0'')
      else case txn_Get s d (bucketKey name) of
        Inl _ \<Rightarrow> Inl (Errorf ''bucket not found'')
      | Inr v \<Rightarrow>
          (case as_Bucket v of
             Inl e \<Rightarrow> Inl e
           | Inr b \<Rightarrow>
               if i64 (bkt_Minted b + amount) > bkt_Cap b then Inl (Errorf ''bucket would exceed cap'')
               else txn_Set s d (bucketKey name)
                      (BucketV (b\<lparr>bkt_Minted := i64 (bkt_Minted b + amount)\<rparr>))))"

definition MintFromBucket :: "Store \<Rightarrow> string \<Rightarrow> int \<Rightarrow> unit res \<times> Store" where
  "MintFromBucket s name amount = db_Update s (\<lambda>d. mintFromBucketTxn s d name amount)"

definition BucketRemaining :: "Store \<Rightarrow> string \<Rightarrow> int res" where
  "BucketRemaining s name =
     (case GetBucket s name of
        Inl e \<Rightarrow> Inl e
      | Inr b \<Rightarrow> let rem = i64 (bkt_Cap b - bkt_Minted b) in if rem < 0 then Inr 0 else Inr rem)"

definition ListBuckets :: "Store \<Rightarrow> Bucket list res" where
  "ListBuckets s = iter_values s as_Bucket (iter_prefix ''bucket:'' (db s))"

section \<open>Applying a transaction\<close>

definition applyTransfer :: "Store \<Rightarrow> DB \<Rightarrow> Account \<Rightarrow> Transaction \<Rightarrow> DB res" where
  "applyTransfer s d fromAcc t =
     (if acc_Balance fromAcc < tx_Amount t then Inl (Errorf ''insufficient balance'')
      else
        let fromAcc' = fromAcc\<lparr>acc_Balance := i64 (acc_Balance fromAcc - tx_Amount t), acc_Nonce := tx_Nonce t\<rparr>
        in case getAccountTxn s d (tx_To t) of
             Inl e \<Rightarrow> Inl e
           | Inr toAcc \<Rightarrow>
               let toAcc' = toAcc\<lparr>acc_Balance := i64 (acc_Balance toAcc + tx_Amount t)\<rparr>
               in case setAccountTxn s d (tx_From t) fromAcc' of
                    Inl e \<Rightarrow> Inl e
                  | Inr d' \<Rightarrow> setAccountTxn s d' (tx_To t) toAcc')"

definition applyStake :: "Store \<Rightarrow> DB \<Rightarrow> Account \<Rightarrow> Transaction \<Rightarrow> DB res" where
  "applyStake s d fromAcc t =
     (if acc_Balance fromAcc < tx_Amount t then Inl (Errorf ''insufficient balance to stake'')
      else setAccountTxn s d (tx_From t)
        (fromAcc\<lparr>acc_Balance := i64 (acc_Balance fromAcc - tx_Amount t),
                 acc_Staked := i64 (acc_Staked fromAcc + tx_Amount t), acc_Nonce := tx_Nonce t\<rparr>))"

definition applyRequestUnstake :: "Store \<Rightarrow> DB \<Rightarrow> Account \<Rightarrow> Transaction \<Rightarrow> DB res" where
  "applyRequestUnstake s d fromAcc t =
     (if acc_Staked fromAcc < tx_Amount t then Inl (Errorf ''insufficient staked amount'')
      else setAccountTxn s d (tx_From t)
        (fromAcc\<lparr>acc_Staked := i64 (acc_Staked fromAcc - tx_Amount t),
                 acc_PendingUnstake := i64 (acc_PendingUnstake fromAcc + tx_Amount t),
                 acc_Nonce := tx_Nonce t\<rparr>))"

definition applyClaimUnstake :: "Store \<Rightarrow> DB \<Rightarrow> Account \<Rightarrow> Transaction \<Rightarrow> DB res" where
  "applyClaimUnstake s d fromAcc t =
     (if acc_PendingUnstake fromAcc < tx_Amount t then Inl (Errorf ''insufficient pending unstake'')
      else setAccountTxn s d (tx_From t)
        (fromAcc\<lparr>acc_PendingUnstake := i64 (acc_PendingUnstake fromAcc - tx_Amount t),
                 acc_Balance := i64 (acc_Balance fromAcc + tx_Amount t), acc_Nonce := tx_Nonce t\<rparr>))"

definition applyClaimMining :: "Store \<Rightarrow> DB \<Rightarrow> Account \<Rightarrow> Transaction \<Rightarrow> DB res" where
  "applyClaimMining s d fromAcc t =
     (case ParseClaimMiningPayload t of
        Inl e \<Rightarrow> Inl e
      | Inr p \<Rightarrow>
          (case mintFromBucketTxn s d (cmp_Bucket p) (tx_Amount t) of
             Inl e \<Rightarrow> Inl e
           | Inr d' \<Rightarrow>
               let credit = i64 (tx_Amount t * SubunitsPerEAST) in
               if tx_Amount t > 0 \<and> go_div credit (tx_Amount t) \<noteq> SubunitsPerEAST
               then Inl (Errorf ''claim_mining amount overflow converting to subunits'')
               else setAccountTxn s d' (tx_From t)
                 (fromAcc\<lparr>acc_Balance := i64 (acc_Balance fromAcc + credit), acc_Nonce := tx_Nonce t\<rparr>)))"

definition applyTxBody :: "Store \<Rightarrow> Transaction \<Rightarrow> DB \<Rightarrow> DB res" where
  "applyTxBody s t d =
     (case getAccountTxn s d (tx_From t) of
        Inl e \<Rightarrow> Inl e
      | Inr fromAcc \<Rightarrow>
          if tx_Nonce t > 0 \<and> tx_Nonce t \<le> acc_Nonce fromAcc then Inl (Errorf ''invalid nonce'')
          else if tx_Type t = TxTransfer then applyTransfer s d fromAcc t
          else if tx_Type t = TxStake then applyStake s d fromAcc t
          else if tx_Type t = TxRequestUnstake then applyRequestUnstake s d fromAcc t
          else if tx_Type t = TxClaimUnstake then applyClaimUnstake s d fromAcc t
          else if tx_Type t = TxClaimMining then applyClaimMining s d fromAcc t
          else Inl (Errorf ''unsupported tx type''))"

definition ApplyTx :: "Store \<Rightarrow> Transaction \<Rightarrow> unit res \<times> Store" where
  "ApplyTx s t = db_Update s (applyTxBody s t)"

section \<open>Blocks\<close>

definition SaveBlock :: "Store \<Rightarrow> BlockHeader \<Rightarrow> unit res \<times> Store" where
  "SaveBlock s h =
     db_Update s (\<lambda>d. txn_Set_all s d
       [(blockKey (hdr_Height h), BlockV h),
        (metaKey ''latest_height'', RawV (show_u64 (hdr_Height h)))])"

definition GetLatestHeight :: "Store \<Rightarrow> uint64 res" where
  "GetLatestHeight s =
     (case txn_Get s (db s) (metaKey ''latest_height'') of
        Inl KeyNotFound \<Rightarrow> Inr 0
      | Inl e \<Rightarrow> Inl e
      | Inr (RawV str) \<Rightarrow> Sscanf_u64 str
      | Inr _ \<Rightarrow> Inl JsonErr)"

definition GetBlock :: "Store \<Rightarrow> uint64 \<Rightarrow> BlockHeader res" where
  "GetBlock s height =
     (case txn_Get s (db s) (blockKey height) of Inl e \<Rightarrow> Inl e | Inr v \<Rightarrow> as_Block v)"

text \<open>The list of pointers may contain nil, which is skipped.\<close>

definition stored_tx :: "uint64 \<Rightarrow> Transaction \<Rightarrow> StoredTx" where
  "stored_tx height t = \<lparr>stx_Transaction = t, stx_Height = height, stx_Hash = ''0x'' @ Hash t\<rparr>"

definition stored_bodies :: "uint64 \<Rightarrow> Transaction option list \<Rightarrow> StoredTx list" where
  "stored_bodies height txs = map (stored_tx height) (List.map_filter id txs)"

definition SaveBlockWithTxs :: "Store \<Rightarrow> BlockHeader \<Rightarrow> Transaction option list \<Rightarrow> unit res \<times> Store" where
  "SaveBlockWithTxs s h txs =
     (let bodies = stored_bodies (hdr_Height h) txs in
      db_Update s (\<lambda>d. txn_Set_all s d
        ([(blockKey (hdr_Height h), BlockV h),
          (metaKey ''latest_height'', RawV (show_u64 (hdr_Height h)))]
         @ map (\<lambda>st. (txIndexKey (stx_Hash st), TxV st)) bodies
         @ [(blockTxsKey (hdr_Height h), TxsV bodies)])))"

definition GetBlockTransactions :: "Store \<Rightarrow> uint64 \<Rightarrow> StoredTx list res" where
  "GetBlockTransactions s height =
     (case txn_Get s (db s) (blockTxsKey height) of
        Inl KeyNotFound \<Rightarrow> Inr []
      | Inl e \<Rightarrow> Inl e
      | Inr v \<Rightarrow> as_StoredTxs v)"

definition GetTransaction :: "Store \<Rightarrow> string \<Rightarrow> StoredTx res" where
  "GetTransaction s hash =
     (case txn_Get s (db s) (txIndexKey hash) of Inl e \<Rightarrow> Inl e | Inr v \<Rightarrow> as_StoredTx v)"

text \<open>The height scanned back from a block key; a failed scan leaves the variable at zero.\<close>

definition height_of_key :: "string \<Rightarrow> uint64" where
  "height_of_key k = (case Sscanf_u64 (drop 4 k) of Inr h \<Rightarrow> h | Inl _ \<Rightarrow> 0)"

fun prune_loop :: "Store \<Rightarrow> uint64 \<Rightarrow> string list \<Rightarrow> DB \<Rightarrow> DB res" where
  "prune_loop s cutoff [] d = Inr d"
| "prune_loop s cutoff (k # ks) d =
     (if height_of_key k < cutoff
      then case txn_Delete s d k of Inl e \<Rightarrow> Inl e | Inr d' \<Rightarrow> prune_loop s cutoff ks d'
      else prune_loop s cutoff ks d)"

definition PruneOldBlocks :: "Store \<Rightarrow> int \<Rightarrow> unit res \<times> Store" where
  "PruneOldBlocks s keep =
     (if keep \<le> 0 then (Inr (), s)
      else case GetLatestHeight s of
        Inl e \<Rightarrow> (Inl e, s)
      | Inr latest \<Rightarrow>
          if latest \<le> word_of_int keep then (Inr (), s)
          else db_Update s (\<lambda>d. prune_loop s (latest - word_of_int keep)
                 (map fst (iter_prefix ''blk:'' d)) d))"

section \<open>Seeding\<close>

definition SeedAccount :: "Store \<Rightarrow> string \<Rightarrow> int \<Rightarrow> int \<Rightarrow> int \<Rightarrow> string \<Rightarrow> unit res \<times> Store" where
  "SeedAccount s addr balance staked pendingUnstake mode =
     db_Update s (\<lambda>d.
       case getAccountTxn s d addr of
         Inl e \<Rightarrow> Inl e
       | Inr acc \<Rightarrow>
           let m = ToLower (TrimSpace mode);
               acc' =
                 (if m \<in> {''balance_only'', ''balance''} then acc\<lparr>acc_Balance := balance\<rparr>
                  else if m \<in> {''merge_max'', ''merge''} then
                    acc\<lparr>acc_Balance := (if balance > acc_Balance acc then balance else acc_Balance acc),
                        acc_Staked := (if staked > acc_Staked acc then staked else acc_Staked acc),
                        acc_PendingUnstake :=
                          (if pendingUnstake > acc_PendingUnstake acc then pendingUnstake
                           else acc_PendingUnstake acc)\<rparr>
                  else acc\<lparr>acc_Balance := balance, acc_Staked := staked,
                            acc_PendingUnstake := pendingUnstake\<rparr>)
           in setAccountTxn s d addr acc')"

definition SeedBalance :: "Store \<Rightarrow> string \<Rightarrow> int \<Rightarrow> unit res \<times> Store" where
  "SeedBalance s addr balance = SeedAccount s addr balance 0 0 ''balance_only''"

end
