(* ===== verification/Ledger.thy ===== *)
theory Ledger
  imports State
begin

text \<open>
  The ledger invariant of the store and what \<^verbatim>\<open>ApplyTx\<close> does to it: atomicity, functional behaviour
  of every transaction type, conservation of the supply, bucket caps, and nonces.
\<close>

section \<open>Reads, writes and keys\<close>

lemma normalizeAddr_idem [simp]: "normalizeAddr (normalizeAddr a) = normalizeAddr a"
  by (simp add: normalizeAddr_def TrimSpace_ToLower)

lemmas key_defs = accountKey_def bucketKey_def blockKey_def metaKey_def blockTxsKey_def txIndexKey_def

lemma accountKey_eq [simp]: "accountKey a = accountKey b \<longleftrightarrow> normalizeAddr a = normalizeAddr b"
  by (simp add: accountKey_def)

lemma accountKey_norm [simp]: "accountKey (normalizeAddr a) = accountKey a"
  by (simp add: accountKey_def)

lemma bucketKey_eq [simp]: "bucketKey a = bucketKey b \<longleftrightarrow> a = b"
  and blockKey_eq [simp]: "blockKey g = blockKey h \<longleftrightarrow> g = h"
  and blockTxsKey_eq [simp]: "blockTxsKey g = blockTxsKey h \<longleftrightarrow> g = h"
  and metaKey_eq [simp]: "metaKey p = metaKey q \<longleftrightarrow> p = q"
  by (simp_all add: key_defs)

lemma key_spaces [simp]:
  "accountKey a \<noteq> bucketKey b" "bucketKey b \<noteq> accountKey a"
  "accountKey a \<noteq> blockKey h" "blockKey h \<noteq> accountKey a"
  "accountKey a \<noteq> metaKey m" "metaKey m \<noteq> accountKey a"
  "bucketKey b \<noteq> blockKey h" "blockKey h \<noteq> bucketKey b"
  "bucketKey b \<noteq> metaKey m" "metaKey m \<noteq> bucketKey b"
  "blockKey h \<noteq> metaKey m" "metaKey m \<noteq> blockKey h"
  "blockTxsKey g \<noteq> blockKey h" "blockKey h \<noteq> blockTxsKey g"
  "blockTxsKey g \<noteq> metaKey m" "metaKey m \<noteq> blockTxsKey g"
  "txIndexKey x \<noteq> blockKey h" "blockKey h \<noteq> txIndexKey x"
  "txIndexKey x \<noteq> metaKey m" "metaKey m \<noteq> txIndexKey x"
  "txIndexKey x \<noteq> blockTxsKey g" "blockTxsKey g \<noteq> txIndexKey x"
  by (simp_all add: key_defs)

lemma key_prefixes [simp]:
  "prefix ''acc:'' (accountKey a)" "\<not> prefix ''acc:'' (bucketKey b)"
  "\<not> prefix ''acc:'' (blockKey h)" "\<not> prefix ''acc:'' (metaKey m)"
  "\<not> prefix ''acc:'' (blockTxsKey h)" "\<not> prefix ''acc:'' (txIndexKey x)"
  "prefix ''bucket:'' (bucketKey b)" "\<not> prefix ''bucket:'' (accountKey a)"
  "\<not> prefix ''bucket:'' (blockKey h)" "\<not> prefix ''bucket:'' (metaKey m)"
  "\<not> prefix ''bucket:'' (blockTxsKey h)" "\<not> prefix ''bucket:'' (txIndexKey x)"
  "prefix ''blk:'' (blockKey h)" "\<not> prefix ''blk:'' (accountKey a)"
  "\<not> prefix ''blk:'' (bucketKey b)" "\<not> prefix ''blk:'' (metaKey m)"
  "\<not> prefix ''blk:'' (blockTxsKey h)" "\<not> prefix ''blk:'' (txIndexKey x)"
  by (simp_all add: key_defs)

lemma txn_Set_Inr [simp]: "txn_Set s d k v = Inr d' \<longleftrightarrow> \<not> setFault s k \<and> d' = kv_set k v d"
  by (auto simp: txn_Set_def)

lemma txn_Get_Inr: "txn_Get s d k = Inr v \<longleftrightarrow> \<not> getFault s k \<and> map_of d k = Some v"
  by (auto simp: txn_Get_def split: option.splits)

lemma txn_Get_KeyNotFound: "txn_Get s d k = Inl KeyNotFound \<longleftrightarrow> \<not> getFault s k \<and> map_of d k = None"
  by (auto simp: txn_Get_def split: option.splits)

lemma setAccountTxn_Inr:
  "setAccountTxn s d a x = Inr d' \<longleftrightarrow>
     \<not> setFault s (accountKey a) \<and> d' = kv_set (accountKey a) (AccountV x) d"
  by (simp add: setAccountTxn_def)

text \<open>The writes of a transaction body as a fold, and the parts of the store an update keeps.\<close>

lemma txn_Set_all_Inr:
  "txn_Set_all s d kvs = Inr d' \<longleftrightarrow>
     (\<forall>e \<in> set kvs. \<not> setFault s (fst e)) \<and> d' = fold (\<lambda>(k, v). kv_set k v) kvs d"
proof (induction kvs arbitrary: d)
  case (Cons e kvs)
  then show ?case by (cases e) (simp add: txn_Set_def)
qed auto

lemma db_Update_Inr:
  "db_Update s f = (Inr (), s') \<longleftrightarrow> \<not> commitFault s \<and> (\<exists>d. f (db s) = Inr d \<and> s' = s\<lparr>db := d\<rparr>)"
  by (auto simp: db_Update_def split: sum.splits)

lemma db_Update_Inl: "db_Update s f = (Inl e, s') \<Longrightarrow> s' = s"
  by (auto simp: db_Update_def split: sum.splits if_splits)

definition healthy :: "Store \<Rightarrow> bool" where
  "healthy s \<longleftrightarrow> (\<forall>k. \<not> getFault s k \<and> \<not> setFault s k) \<and> \<not> commitFault s"

lemma healthy_simps [simp]:
  "healthy s \<Longrightarrow> \<not> getFault s k" "healthy s \<Longrightarrow> \<not> setFault s k" "healthy s \<Longrightarrow> \<not> commitFault s"
  "healthy (s\<lparr>db := d\<rparr>) = healthy s"
  by (simp_all add: healthy_def)

section \<open>Well-formed stores\<close>

definition acc_ok :: "Account \<Rightarrow> bool" where
  "acc_ok a \<longleftrightarrow> 0 \<le> acc_Balance a \<and> 0 \<le> acc_Staked a \<and> 0 \<le> acc_PendingUnstake a
     \<and> in_i64 (acc_Balance a) \<and> in_i64 (acc_Staked a) \<and> in_i64 (acc_PendingUnstake a)"

definition wf_entry :: "string \<Rightarrow> Value \<Rightarrow> bool" where
  "wf_entry k v \<longleftrightarrow>
     (prefix ''acc:'' k \<longrightarrow>
        normalizeAddr (drop 4 k) = drop 4 k \<and> (case v of AccountV a \<Rightarrow> acc_ok a | _ \<Rightarrow> False))
   \<and> (prefix ''bucket:'' k \<longrightarrow>
        (case v of BucketV b \<Rightarrow> bucket_ok b \<and> in_i64 (bkt_Cap b) | _ \<Rightarrow> False))
   \<and> (prefix ''blk:'' k \<longrightarrow> (case v of BlockV h \<Rightarrow> k = blockKey (hdr_Height h) | _ \<Rightarrow> False))
   \<and> (k = metaKey ''latest_height'' \<longrightarrow>
        (case v of RawV str \<Rightarrow> is_ok (Sscanf_u64 str) | _ \<Rightarrow> False))"

definition wf_db :: "DB \<Rightarrow> bool" where
  "wf_db d \<longleftrightarrow> kv_sorted d \<and> (\<forall>e \<in> set d. wf_entry (fst e) (snd e))"

lemma wf_db_set: "wf_db d \<Longrightarrow> wf_entry k v \<Longrightarrow> wf_db (kv_set k v d)"
  by (auto simp: wf_db_def set_kv_set)

lemma wf_db_sets:
  "wf_db d \<Longrightarrow> (\<And>e. e \<in> set kvs \<Longrightarrow> wf_entry (fst e) (snd e)) \<Longrightarrow>
     wf_db (fold (\<lambda>(k, v). kv_set k v) kvs d)"
  by (induction kvs arbitrary: d) (auto simp: wf_db_set split: prod.splits)

lemma wf_db_lookup: "wf_db d \<Longrightarrow> map_of d k = Some v \<Longrightarrow> wf_entry k v"
  unfolding wf_db_def using map_of_SomeD by fastforce

lemma wf_db_sorted [simp]: "wf_db d \<Longrightarrow> kv_sorted d"
  by (simp add: wf_db_def)

lemma wf_entry_account [simp]: "wf_entry (accountKey a) v \<longleftrightarrow> (case v of AccountV x \<Rightarrow> acc_ok x | _ \<Rightarrow> False)"
  by (auto simp: wf_entry_def) (auto simp: key_defs)

lemma wf_entry_bucket [simp]:
  "wf_entry (bucketKey n) v \<longleftrightarrow> (case v of BucketV b \<Rightarrow> bucket_ok b \<and> in_i64 (bkt_Cap b) | _ \<Rightarrow> False)"
  by (auto simp: wf_entry_def)

lemma wf_entry_block [simp]: "wf_entry (blockKey h) v \<longleftrightarrow> (case v of BlockV b \<Rightarrow> hdr_Height b = h | _ \<Rightarrow> False)"
  by (auto simp: wf_entry_def split: Value.splits)

lemma wf_entry_height [simp]: "wf_entry (metaKey ''latest_height'') (RawV (show_u64 h))"
  by (simp add: wf_entry_def)

lemma acc_ok_zero [simp]: "acc_ok zero_account"
  by (simp add: acc_ok_def zero_account_def in_i64_def)

text \<open>The account of an address as the store holds it: zeros when there is no entry.\<close>

definition acct :: "DB \<Rightarrow> string \<Rightarrow> Account" where
  "acct d a = (case map_of d (accountKey a) of Some (AccountV x) \<Rightarrow> x | _ \<Rightarrow> zero_account)"

lemma acct_ok: "wf_db d \<Longrightarrow> acc_ok (acct d a)"
  by (auto simp: acct_def dest!: wf_db_lookup split: option.splits Value.splits)

lemma acct_cases:
  assumes "wf_db d"
  obtains (absent) "map_of d (accountKey a) = None" "acct d a = zero_account"
  | (present) "map_of d (accountKey a) = Some (AccountV (acct d a))"
proof (cases "map_of d (accountKey a)")
  case None
  then show ?thesis by (intro absent) (simp_all add: acct_def)
next
  case (Some v)
  with wf_db_lookup [OF assms Some] show ?thesis
    by (intro present) (auto simp: acct_def split: Value.splits)
qed

lemma acct_set [simp]:
  "acct (kv_set (accountKey a) (AccountV x) d) b = (if normalizeAddr b = normalizeAddr a then x else acct d b)"
  by (simp add: acct_def)

lemma acct_set_bucket [simp]: "acct (kv_set (bucketKey n) v d) b = acct d b"
  and acct_set_block [simp]: "acct (kv_set (blockKey h) v d) b = acct d b"
  and acct_set_meta [simp]: "acct (kv_set (metaKey m) v d) b = acct d b"
  by (simp_all add: acct_def)

lemma acct_norm [simp]: "acct d (normalizeAddr a) = acct d a"
  by (simp add: acct_def)

lemma no_legacy_key:
  assumes "wf_db d" "normalizeAddr a \<noteq> a"
  shows "map_of d (''acc:'' @ a) = None"
proof (rule ccontr)
  assume "map_of d (''acc:'' @ a) \<noteq> None"
  then obtain v where "map_of d (''acc:'' @ a) = Some v" by auto
  with assms(1) have "wf_entry (''acc:'' @ a) v" by (rule wf_db_lookup)
  with assms(2) show False by (simp add: wf_entry_def)
qed

lemma getAccountTxn_wf:
  assumes "wf_db d" "getAccountTxn s d a = Inr x"
  shows "x = acct d a"
proof (cases "map_of d (accountKey a)")
  case None
  with assms no_legacy_key [OF assms(1), of a] show ?thesis
    by (auto simp: getAccountTxn_def Let_def txn_Get_def acct_def split: if_splits)
next
  case (Some v)
  with assms show ?thesis
    by (cases v) (auto simp: getAccountTxn_def Let_def txn_Get_def acct_def split: if_splits)
qed

lemma getAccountTxn_healthy:
  assumes "wf_db d" "healthy s"
  shows "getAccountTxn s d a = Inr (acct d a)"
proof (cases "map_of d (accountKey a)")
  case None
  with assms no_legacy_key [OF assms(1), of a] show ?thesis
    by (auto simp: getAccountTxn_def Let_def txn_Get_def acct_def)
next
  case (Some v)
  with wf_db_lookup [OF assms(1) Some] assms show ?thesis
    by (auto simp: getAccountTxn_def Let_def txn_Get_def acct_def split: Value.splits)
qed

lemma GetAccount_wf: "wf_db (db s) \<Longrightarrow> GetAccount s a = Inr x \<Longrightarrow> x = acct (db s) a"
  by (auto simp: GetAccount_def txn_Get_def acct_def split: if_splits option.splits Value.splits
      dest!: wf_db_lookup)

lemma GetAccount_healthy: "wf_db (db s) \<Longrightarrow> healthy s \<Longrightarrow> GetAccount s a = Inr (acct (db s) a)"
  by (auto simp: GetAccount_def txn_Get_def acct_def split: option.splits Value.splits
      dest!: wf_db_lookup)

section \<open>Supply\<close>

fun account_total :: "Account \<Rightarrow> int" where
  "account_total a = acc_Balance a + acc_Staked a + acc_PendingUnstake a"

definition hold_entry :: "string \<Rightarrow> Value \<Rightarrow> int" where
  "hold_entry k v =
     (if prefix ''acc:'' k then (case v of AccountV a \<Rightarrow> account_total a | _ \<Rightarrow> 0) else 0)"

definition mint_entry :: "string \<Rightarrow> Value \<Rightarrow> int" where
  "mint_entry k v = (if prefix ''bucket:'' k then (case v of BucketV b \<Rightarrow> bkt_Minted b | _ \<Rightarrow> 0) else 0)"

definition cap_entry :: "string \<Rightarrow> Value \<Rightarrow> int" where
  "cap_entry k v = (if prefix ''bucket:'' k then (case v of BucketV b \<Rightarrow> bkt_Cap b | _ \<Rightarrow> 0) else 0)"

text \<open>All subunits held in accounts; all EAST minted from buckets; all bucket caps.\<close>

definition holdings :: "DB \<Rightarrow> int" where "holdings d = kv_sum hold_entry d"
definition minted :: "DB \<Rightarrow> int" where "minted d = kv_sum mint_entry d"
definition caps :: "DB \<Rightarrow> int" where "caps d = kv_sum cap_entry d"

lemma entry_simps [simp]:
  "hold_entry (accountKey a) (AccountV x) = account_total x"
  "mint_entry (accountKey a) v = 0" "cap_entry (accountKey a) v = 0"
  "hold_entry (bucketKey n) v = 0"
  "mint_entry (bucketKey n) (BucketV b) = bkt_Minted b"
  "cap_entry (bucketKey n) (BucketV b) = bkt_Cap b"
  by (simp_all add: hold_entry_def mint_entry_def cap_entry_def)

lemma opt_val_zero: "(\<And>v. f k v = 0) \<Longrightarrow> opt_val f k x = 0"
  by (cases x) simp_all

lemma supply_set_account:
  assumes "wf_db d"
  shows "holdings (kv_set (accountKey a) (AccountV x) d) = holdings d + account_total x - account_total (acct d a)"
    and "minted (kv_set (accountKey a) (AccountV x) d) = minted d"
    and "caps (kv_set (accountKey a) (AccountV x) d) = caps d"
proof -
  have "opt_val hold_entry (accountKey a) (map_of d (accountKey a)) = account_total (acct d a)"
    by (rule acct_cases [OF assms, of a]) (simp_all add: zero_account_def)
  with assms show "holdings (kv_set (accountKey a) (AccountV x) d) = holdings d + account_total x - account_total (acct d a)"
    by (simp add: holdings_def kv_sum_set del: account_total.simps)
  show "minted (kv_set (accountKey a) (AccountV x) d) = minted d"
    "caps (kv_set (accountKey a) (AccountV x) d) = caps d"
    using assms by (simp_all add: minted_def caps_def kv_sum_set opt_val_zero)
qed

lemma supply_set_bucket:
  assumes "wf_db d" "map_of d (bucketKey n) = Some (BucketV b)"
  shows "holdings (kv_set (bucketKey n) (BucketV b') d) = holdings d"
    and "minted (kv_set (bucketKey n) (BucketV b') d) = minted d + bkt_Minted b' - bkt_Minted b"
    and "caps (kv_set (bucketKey n) (BucketV b') d) = caps d + bkt_Cap b' - bkt_Cap b"
  using assms by (simp_all add: holdings_def minted_def caps_def kv_sum_set opt_val_zero)

lemma kv_sum_nonneg: "(\<And>k v. (k, v) \<in> set d \<Longrightarrow> 0 \<le> f k v) \<Longrightarrow> 0 \<le> kv_sum f d"
  by (induction d) auto

lemma kv_sum_mono:
  "(\<And>k v. (k, v) \<in> set d \<Longrightarrow> f k v \<le> g k v) \<Longrightarrow> kv_sum f d \<le> kv_sum g d"
  by (induction d) (auto simp: add_mono)

lemma kv_sum_member:
  "(\<And>k v. (k, v) \<in> set d \<Longrightarrow> 0 \<le> f k v) \<Longrightarrow> (k, v) \<in> set d \<Longrightarrow> f k v \<le> kv_sum f d"
proof (induction d)
  case (Cons e d)
  obtain k' v' where e: "e = (k', v')" by (cases e)
  show ?case
  proof (cases "e = (k, v)")
    case True
    then show ?thesis using Cons.prems kv_sum_nonneg [of d f] by simp
  next
    case False
    then show ?thesis using Cons e by force
  qed
qed simp

lemma hold_entry_nonneg: "wf_entry k v \<Longrightarrow> 0 \<le> hold_entry k v"
  by (auto simp: hold_entry_def wf_entry_def acc_ok_def split: Value.splits)

lemma account_total_le_holdings: "wf_db d \<Longrightarrow> account_total (acct d a) \<le> holdings d"
proof -
  assume wf: "wf_db d"
  have nn: "\<And>k v. (k, v) \<in> set d \<Longrightarrow> 0 \<le> hold_entry k v"
    using wf by (intro hold_entry_nonneg) (auto simp: wf_db_def)
  show ?thesis
  proof (rule acct_cases [OF wf, of a])
    assume "acct d a = zero_account"
    then show ?thesis using kv_sum_nonneg [of d hold_entry] nn
      by (simp add: zero_account_def holdings_def)
  next
    assume "map_of d (accountKey a) = Some (AccountV (acct d a))"
    then have "(accountKey a, AccountV (acct d a)) \<in> set d" by (rule map_of_SomeD)
    then show ?thesis using kv_sum_member [of d hold_entry, OF nn] by (force simp: holdings_def)
  qed
qed

lemma holdings_nonneg: "wf_db d \<Longrightarrow> 0 \<le> holdings d"
  unfolding holdings_def by (intro kv_sum_nonneg hold_entry_nonneg) (auto simp: wf_db_def)

lemma mint_entry_le_cap: "wf_entry k v \<Longrightarrow> mint_entry k v \<le> cap_entry k v"
  by (cases v) (auto simp: mint_entry_def cap_entry_def wf_entry_def bucket_ok_def)

lemma minted_le_caps: "wf_db d \<Longrightarrow> minted d \<le> caps d"
  unfolding minted_def caps_def by (intro kv_sum_mono mint_entry_le_cap) (auto simp: wf_db_def)

end
