(* ===== verification/Supply.thy ===== *)
theory Supply
  imports Ledger
begin

text \<open>
  \<^verbatim>\<open>ApplyTx\<close> and the supply: every transaction type moves funds inside the ledger, a mining claim
  creates exactly the subunits it takes from its bucket, and no bucket passes its cap.
\<close>

section \<open>The overflow test of a mining claim is exact\<close>

lemma mul_overflow_check:
  assumes "0 < a" "in_i64 a"
  shows "go_div (i64 (a * m)) a = m \<and> 0 < m \<longleftrightarrow> in_i64 (a * m) \<and> 0 < m"
proof (intro iffI conjI; (elim conjE)?)
  assume m: "in_i64 (a * m)" "0 < m"
  then have "go_div (a * m) a = m"
    using assms by (subst go_div_nonneg) auto
  then show "go_div (i64 (a * m)) a = m" using m by (simp add: i64_id)
next
  assume eq: "go_div (i64 (a * m)) a = m" and m: "0 < m"
  define c where "c = i64 (a * m)"
  obtain k where k: "c = a * m - 2 ^ 64 * k" unfolding c_def using i64_cong by blast
  have "0 < c"
  proof (rule ccontr)
    assume "\<not> 0 < c"
    then have "go_div c a \<le> 0"
      using assms by (auto simp: go_div_def sgn_if pos_imp_zdiv_nonneg_iff)
    with eq m c_def show False by simp
  qed
  with eq assms c_def have "c div a = m" by (simp add: go_div_nonneg)
  then have "c = a * m + c mod a" using mult_div_mod_eq [of a c] by simp
  then have "a * m \<le> c" "c < a * m + a"
    using assms(1) pos_mod_bound [of a c] pos_mod_sign [of a c] by linarith+
  with k assms have "- (2 ^ 63) < 2 ^ 64 * k" "2 ^ 64 * k \<le> 0" by (auto simp: in_i64_def)
  then have "k = 0" by simp
  with k have "c = a * m" by simp
  then show "in_i64 (a * m)" unfolding c_def by (metis i64_in_range)
qed

section \<open>The effect of a transaction body\<close>

definition credit_of :: "Transaction \<Rightarrow> int" where
  "credit_of t = (if tx_Type t = TxClaimMining then tx_Amount t else 0)"

text \<open>A transfer whose recipient is, after normalisation, the sender itself.\<close>

definition self_transfer :: "Transaction \<Rightarrow> bool" where
  "self_transfer t \<longleftrightarrow> tx_Type t = TxTransfer \<and> normalizeAddr (tx_From t) = normalizeAddr (tx_To t)"

text \<open>
  The ledger invariant: the store is well formed, the subunits held are the genesis allocation \<open>G\<close>
  plus a million for every EAST minted, and the bucket caps add up to the maximum supply. With
  \<open>G\<close> below eight quintillion subunits no balance can leave the \<^verbatim>\<open>int64\<close> range.
\<close>

definition ledger_inv :: "int \<Rightarrow> DB \<Rightarrow> bool" where
  "ledger_inv G d \<longleftrightarrow> wf_db d \<and> holdings d = G + SubunitsPerEAST * minted d \<and> caps d = TotalMaxSupply
     \<and> G \<le> 8000000000000000000"

lemma ledger_inv_bounds:
  assumes "ledger_inv G d"
  shows "minted d \<le> TotalMaxSupply" "holdings d < 2 ^ 63" "0 \<le> holdings d"
proof -
  show m: "minted d \<le> TotalMaxSupply"
    using assms minted_le_caps [of d] by (simp add: ledger_inv_def)
  then show "holdings d < 2 ^ 63"
    using assms by (simp add: ledger_inv_def SubunitsPerEAST_def TotalMaxSupply_def)
  show "0 \<le> holdings d"
    using assms by (intro holdings_nonneg) (simp add: ledger_inv_def)
qed

lemma cap_entry_nonneg: "wf_entry k v \<Longrightarrow> 0 \<le> cap_entry k v"
  by (cases v) (auto simp: cap_entry_def wf_entry_def bucket_ok_def)

lemma bucket_cap_le_caps:
  assumes "wf_db d" "map_of d (bucketKey n) = Some (BucketV b)"
  shows "bkt_Cap b \<le> caps d"
proof -
  have "\<And>k v. (k, v) \<in> set d \<Longrightarrow> 0 \<le> cap_entry k v"
    using assms(1) by (intro cap_entry_nonneg) (auto simp: wf_db_def)
  then show ?thesis
    using kv_sum_member [of d cap_entry "bucketKey n" "BucketV b"] map_of_SomeD [OF assms(2)]
    by (simp add: caps_def)
qed

lemma mintFromBucketTxn_Inr:
  assumes wf: "wf_db d" and cap: "caps d = TotalMaxSupply" and a: "in_i64 (a * SubunitsPerEAST)"
    and run: "mintFromBucketTxn s d n a = Inr d'"
  obtains b where "map_of d (bucketKey n) = Some (BucketV b)" "0 < a" "bkt_Minted b + a \<le> bkt_Cap b"
    "d' = kv_set (bucketKey n) (BucketV (b\<lparr>bkt_Minted := bkt_Minted b + a\<rparr>)) d"
proof -
  from run obtain b where b: "map_of d (bucketKey n) = Some (BucketV b)" and pos: "0 < a"
    and le: "i64 (bkt_Minted b + a) \<le> bkt_Cap b"
    and d': "d' = kv_set (bucketKey n) (BucketV (b\<lparr>bkt_Minted := i64 (bkt_Minted b + a)\<rparr>)) d"
    unfolding mintFromBucketTxn_def txn_Get_def
    by (auto split: if_splits option.splits sum.splits elim: as_Bucket.elims)
  have ok: "bucket_ok b" and "bkt_Cap b \<le> TotalMaxSupply"
    using wf_db_lookup [OF wf b] bucket_cap_le_caps [OF wf b] cap by auto
  then have small: "0 \<le> bkt_Minted b" "bkt_Minted b \<le> 1000000000" "bkt_Cap b \<le> 1000000000"
    by (auto simp: bucket_ok_def TotalMaxSupply_def)
  then have "in_i64 (bkt_Minted b + a)"
    using a pos by (auto simp: in_i64_def SubunitsPerEAST_def)
  then show ?thesis using that b pos le d' by (simp add: i64_id)
qed

lemma acct_range:
  assumes "ledger_inv G d"
  shows "0 \<le> acc_Balance (acct d a)" "0 \<le> acc_Staked (acct d a)" "0 \<le> acc_PendingUnstake (acct d a)"
    "acc_Balance (acct d a) + acc_Staked (acct d a) + acc_PendingUnstake (acct d a) < 2 ^ 63"
proof -
  have wf: "wf_db d" using assms by (simp add: ledger_inv_def)
  show "0 \<le> acc_Balance (acct d a)" "0 \<le> acc_Staked (acct d a)" "0 \<le> acc_PendingUnstake (acct d a)"
    using acct_ok [OF wf, of a] by (simp_all add: acc_ok_def)
  show "acc_Balance (acct d a) + acc_Staked (acct d a) + acc_PendingUnstake (acct d a) < 2 ^ 63"
    using account_total_le_holdings [OF wf, of a] ledger_inv_bounds(2) [OF assms] by simp
qed

text \<open>Moving funds between the three fields of one account.\<close>

lemma ledger_inv_same_account:
  assumes "ledger_inv G d" "acc_ok x" "account_total x = account_total (acct d a)"
  shows "ledger_inv G (kv_set (accountKey a) (AccountV x) d)
    \<and> minted (kv_set (accountKey a) (AccountV x) d) = minted d"
  using assms by (auto simp: ledger_inv_def wf_db_set supply_set_account simp del: account_total.simps)

lemma ledger_inv_stake:
  assumes inv: "ledger_inv G d" and pos: "0 < tx_Amount t"
    and run: "applyStake s d (acct d (tx_From t)) t = Inr d'"
  shows "ledger_inv G d' \<and> minted d' = minted d"
proof -
  let ?x = "(acct d (tx_From t))\<lparr>acc_Balance := i64 (acc_Balance (acct d (tx_From t)) - tx_Amount t),
    acc_Staked := i64 (acc_Staked (acct d (tx_From t)) + tx_Amount t), acc_Nonce := tx_Nonce t\<rparr>"
  from run have le: "tx_Amount t \<le> acc_Balance (acct d (tx_From t))"
    and d': "d' = kv_set (accountKey (tx_From t)) (AccountV ?x) d"
    by (auto simp: applyStake_def setAccountTxn_Inr split: if_splits)
  have "acc_ok ?x \<and> account_total ?x = account_total (acct d (tx_From t))"
    using acct_range [OF inv, of "tx_From t"] pos le by (simp add: i64_id in_i64_def acc_ok_def)
  then show ?thesis unfolding d' by (intro ledger_inv_same_account [OF inv]) simp_all
qed

lemma ledger_inv_request_unstake:
  assumes inv: "ledger_inv G d" and pos: "0 < tx_Amount t"
    and run: "applyRequestUnstake s d (acct d (tx_From t)) t = Inr d'"
  shows "ledger_inv G d' \<and> minted d' = minted d"
proof -
  let ?x = "(acct d (tx_From t))\<lparr>acc_Staked := i64 (acc_Staked (acct d (tx_From t)) - tx_Amount t),
    acc_PendingUnstake := i64 (acc_PendingUnstake (acct d (tx_From t)) + tx_Amount t), acc_Nonce := tx_Nonce t\<rparr>"
  from run have le: "tx_Amount t \<le> acc_Staked (acct d (tx_From t))"
    and d': "d' = kv_set (accountKey (tx_From t)) (AccountV ?x) d"
    by (auto simp: applyRequestUnstake_def setAccountTxn_Inr split: if_splits)
  have "acc_ok ?x \<and> account_total ?x = account_total (acct d (tx_From t))"
    using acct_range [OF inv, of "tx_From t"] pos le by (simp add: i64_id in_i64_def acc_ok_def)
  then show ?thesis unfolding d' by (intro ledger_inv_same_account [OF inv]) simp_all
qed

lemma ledger_inv_claim_unstake:
  assumes inv: "ledger_inv G d" and pos: "0 < tx_Amount t"
    and run: "applyClaimUnstake s d (acct d (tx_From t)) t = Inr d'"
  shows "ledger_inv G d' \<and> minted d' = minted d"
proof -
  let ?x = "(acct d (tx_From t))\<lparr>
    acc_PendingUnstake := i64 (acc_PendingUnstake (acct d (tx_From t)) - tx_Amount t),
    acc_Balance := i64 (acc_Balance (acct d (tx_From t)) + tx_Amount t), acc_Nonce := tx_Nonce t\<rparr>"
  from run have le: "tx_Amount t \<le> acc_PendingUnstake (acct d (tx_From t))"
    and d': "d' = kv_set (accountKey (tx_From t)) (AccountV ?x) d"
    by (auto simp: applyClaimUnstake_def setAccountTxn_Inr split: if_splits)
  have "acc_ok ?x \<and> account_total ?x = account_total (acct d (tx_From t))"
    using acct_range [OF inv, of "tx_From t"] pos le by (simp add: i64_id in_i64_def acc_ok_def)
  then show ?thesis unfolding d' by (intro ledger_inv_same_account [OF inv]) simp_all
qed

text \<open>Moving funds between two different accounts.\<close>

lemma applyTransfer_Inr:
  assumes wf: "wf_db d" and run: "applyTransfer s d fa t = Inr d'"
  shows "tx_Amount t \<le> acc_Balance fa"
    "d' = kv_set (accountKey (tx_To t))
       (AccountV ((acct d (tx_To t))\<lparr>acc_Balance := i64 (acc_Balance (acct d (tx_To t)) + tx_Amount t)\<rparr>))
       (kv_set (accountKey (tx_From t))
         (AccountV (fa\<lparr>acc_Balance := i64 (acc_Balance fa - tx_Amount t), acc_Nonce := tx_Nonce t\<rparr>)) d)"
  using run getAccountTxn_wf [OF wf]
  by (auto simp: applyTransfer_def Let_def setAccountTxn_Inr split: if_splits sum.splits)

lemma ledger_inv_transfer:
  assumes inv: "ledger_inv G d" and pos: "0 < tx_Amount t"
    and ne: "normalizeAddr (tx_From t) \<noteq> normalizeAddr (tx_To t)"
    and run: "applyTransfer s d (acct d (tx_From t)) t = Inr d'"
  shows "ledger_inv G d' \<and> minted d' = minted d"
proof -
  have wf: "wf_db d" using inv by (simp add: ledger_inv_def)
  let ?f = "acct d (tx_From t)" and ?r = "acct d (tx_To t)"
  let ?f' = "?f\<lparr>acc_Balance := i64 (acc_Balance ?f - tx_Amount t), acc_Nonce := tx_Nonce t\<rparr>"
  let ?r' = "?r\<lparr>acc_Balance := i64 (acc_Balance ?r + tx_Amount t)\<rparr>"
  define d1 where "d1 = kv_set (accountKey (tx_From t)) (AccountV ?f') d"
  note le = applyTransfer_Inr(1) [OF wf run]
  have d': "d' = kv_set (accountKey (tx_To t)) (AccountV ?r') d1"
    using applyTransfer_Inr(2) [OF wf run] by (simp add: d1_def)
  have f': "acc_ok ?f'" "account_total ?f' = account_total ?f - tx_Amount t"
    using acct_range [OF inv, of "tx_From t"] pos le by (auto simp: i64_id in_i64_def acc_ok_def)
  have wf1: "wf_db d1" using wf f'(1) by (simp add: d1_def wf_db_set)
  have h1: "holdings d1 = holdings d - tx_Amount t" "minted d1 = minted d" "caps d1 = caps d"
    using f'(2) supply_set_account [OF wf] by (simp_all add: d1_def del: account_total.simps)
  have r1: "acct d1 (tx_To t) = ?r" using ne by (simp add: d1_def)
  have "account_total ?r + tx_Amount t < 2 ^ 63"
    using account_total_le_holdings [OF wf1, of "tx_To t"] h1(1) ledger_inv_bounds(2) [OF inv]
    unfolding r1 by linarith
  then have r': "acc_ok ?r'" "account_total ?r' = account_total ?r + tx_Amount t"
    using acct_range [OF inv, of "tx_To t"] pos by (auto simp: i64_id in_i64_def acc_ok_def)
  show ?thesis
    using inv wf_db_set [OF wf1] r' h1 supply_set_account [OF wf1, of "tx_To t" ?r'] r1
    unfolding d' ledger_inv_def by (simp del: account_total.simps)
qed

text \<open>A mining claim: what leaves the bucket arrives in the account.\<close>

lemma ledger_inv_claim_mining:
  assumes inv: "ledger_inv G d" and pos: "0 < tx_Amount t" and rng: "in_i64 (tx_Amount t)"
    and run: "applyClaimMining s d (acct d (tx_From t)) t = Inr d'"
  shows "ledger_inv G d' \<and> minted d' = minted d + tx_Amount t"
proof -
  have wf: "wf_db d" and caps: "caps d = TotalMaxSupply" using inv by (auto simp: ledger_inv_def)
  let ?a = "tx_Amount t" and ?f = "acct d (tx_From t)"
  let ?f' = "?f\<lparr>acc_Balance := i64 (acc_Balance ?f + i64 (?a * SubunitsPerEAST)), acc_Nonce := tx_Nonce t\<rparr>"
  from run obtain p where p: "ParseClaimMiningPayload t = Inr p"
    by (auto simp: applyClaimMining_def split: sum.splits)
  from run p obtain d1 where mint: "mintFromBucketTxn s d (cmp_Bucket p) ?a = Inr d1"
    by (auto simp: applyClaimMining_def split: sum.splits)
  from run p mint pos have chk: "go_div (i64 (?a * SubunitsPerEAST)) ?a = SubunitsPerEAST"
    and d': "d' = kv_set (accountKey (tx_From t)) (AccountV ?f') d1"
    by (auto simp: applyClaimMining_def Let_def setAccountTxn_Inr split: if_splits)
  have cr: "in_i64 (?a * SubunitsPerEAST)"
    using mul_overflow_check [OF pos rng, of SubunitsPerEAST] chk by (simp add: SubunitsPerEAST_def)
  from mintFromBucketTxn_Inr [OF wf caps cr mint] obtain b where
    b: "map_of d (bucketKey (cmp_Bucket p)) = Some (BucketV b)" and cap: "bkt_Minted b + ?a \<le> bkt_Cap b"
    and d1: "d1 = kv_set (bucketKey (cmp_Bucket p)) (BucketV (b\<lparr>bkt_Minted := bkt_Minted b + ?a\<rparr>)) d" .
  have wf1: "wf_db d1"
    using wf_db_lookup [OF wf b] wf cap pos by (simp add: d1 wf_db_set bucket_ok_def)
  have h1: "holdings d1 = holdings d" "minted d1 = minted d + ?a" "caps d1 = caps d" "acct d1 (tx_From t) = ?f"
    using supply_set_bucket [OF wf b] by (simp_all add: d1)
  have "minted d1 \<le> TotalMaxSupply" using minted_le_caps [OF wf1] h1(3) caps by simp
  then have "holdings d + ?a * SubunitsPerEAST < 2 ^ 63"
    using inv h1(2) by (simp add: ledger_inv_def SubunitsPerEAST_def TotalMaxSupply_def)
  then have "account_total ?f + ?a * SubunitsPerEAST < 2 ^ 63"
    using account_total_le_holdings [OF wf, of "tx_From t"] by linarith
  then have f': "acc_ok ?f'" "account_total ?f' = account_total ?f + ?a * SubunitsPerEAST"
    using acct_range [OF inv, of "tx_From t"] pos cr by (auto simp: i64_id in_i64_def acc_ok_def SubunitsPerEAST_def)
  show ?thesis
    using inv wf_db_set [OF wf1] f' h1 supply_set_account [OF wf1, of "tx_From t" ?f']
    unfolding d' ledger_inv_def by (simp del: account_total.simps add: algebra_simps)
qed

section \<open>ApplyTx\<close>

lemma ledger_inv_wf: "ledger_inv G d \<Longrightarrow> wf_db d"
  by (simp add: ledger_inv_def)

lemma applyTxBody_Inr:
  assumes "wf_db d" "applyTxBody s t d = Inr d'"
  shows "tx_Nonce t = 0 \<or> acc_Nonce (acct d (tx_From t)) < tx_Nonce t"
    and "tx_Type t = TxTransfer \<Longrightarrow> applyTransfer s d (acct d (tx_From t)) t = Inr d'"
    and "tx_Type t = TxStake \<Longrightarrow> applyStake s d (acct d (tx_From t)) t = Inr d'"
    and "tx_Type t = TxRequestUnstake \<Longrightarrow> applyRequestUnstake s d (acct d (tx_From t)) t = Inr d'"
    and "tx_Type t = TxClaimUnstake \<Longrightarrow> applyClaimUnstake s d (acct d (tx_From t)) t = Inr d'"
    and "tx_Type t = TxClaimMining \<Longrightarrow> applyClaimMining s d (acct d (tx_From t)) t = Inr d'"
    and "known_type t"
proof -
  from assms(2) obtain fa where g: "getAccountTxn s d (tx_From t) = Inr fa"
    by (auto simp: applyTxBody_def split: sum.splits)
  then have fa: "fa = acct d (tx_From t)" by (rule getAccountTxn_wf [OF assms(1)])
  note u = assms(2) [unfolded applyTxBody_def g fa sum.case]
  show "tx_Nonce t = 0 \<or> acc_Nonce (acct d (tx_From t)) < tx_Nonce t"
    using u by (auto simp: word_gt_0 split: if_splits)
  show "tx_Type t = TxTransfer \<Longrightarrow> applyTransfer s d (acct d (tx_From t)) t = Inr d'"
    "tx_Type t = TxStake \<Longrightarrow> applyStake s d (acct d (tx_From t)) t = Inr d'"
    "tx_Type t = TxRequestUnstake \<Longrightarrow> applyRequestUnstake s d (acct d (tx_From t)) t = Inr d'"
    "tx_Type t = TxClaimUnstake \<Longrightarrow> applyClaimUnstake s d (acct d (tx_From t)) t = Inr d'"
    "tx_Type t = TxClaimMining \<Longrightarrow> applyClaimMining s d (acct d (tx_From t)) t = Inr d'"
    "known_type t"
    using u by (auto simp: known_type_def split: if_splits)
qed

lemma ledger_inv_body:
  assumes inv: "ledger_inv G d" and amt: "0 < tx_Amount t" "in_i64 (tx_Amount t)"
    and ns: "\<not> self_transfer t" and run: "applyTxBody s t d = Inr d'"
  shows "ledger_inv G d' \<and> minted d' = minted d + credit_of t"
proof -
  note b = applyTxBody_Inr [OF ledger_inv_wf [OF inv] run]
  from b(7) consider "tx_Type t = TxTransfer" | "tx_Type t = TxStake" | "tx_Type t = TxRequestUnstake"
    | "tx_Type t = TxClaimUnstake" | "tx_Type t = TxClaimMining"
    by (auto simp: known_type_def)
  then show ?thesis
  proof cases
    case 1
    then have "normalizeAddr (tx_From t) \<noteq> normalizeAddr (tx_To t)"
      using ns by (simp add: self_transfer_def)
    from ledger_inv_transfer [OF inv amt(1) this b(2) [OF 1]] 1 show ?thesis by (simp add: credit_of_def)
  next
    case 2
    from ledger_inv_stake [OF inv amt(1) b(3) [OF 2]] 2 show ?thesis by (simp add: credit_of_def)
  next
    case 3
    from ledger_inv_request_unstake [OF inv amt(1) b(4) [OF 3]] 3 show ?thesis by (simp add: credit_of_def)
  next
    case 4
    from ledger_inv_claim_unstake [OF inv amt(1) b(5) [OF 4]] 4 show ?thesis by (simp add: credit_of_def)
  next
    case 5
    from ledger_inv_claim_mining [OF inv amt b(6) [OF 5]] 5 show ?thesis by (simp add: credit_of_def)
  qed
qed

lemma ApplyTx_Inr:
  "ApplyTx s t = (Inr (), s') \<longleftrightarrow> \<not> commitFault s \<and> (\<exists>d. applyTxBody s t (db s) = Inr d \<and> s' = s\<lparr>db := d\<rparr>)"
  by (simp add: ApplyTx_def db_Update_Inr)

lemma ApplyTx_Inl: "ApplyTx s t = (Inl e, s') \<Longrightarrow> s' = s"
  unfolding ApplyTx_def by (rule db_Update_Inl)

text \<open>
  C1: applying any transaction with a positive amount that is not a transfer to oneself keeps the ledger
  invariant: funds only move, except that a successful mining claim mints its amount from the bucket
  and credits exactly one million subunits per EAST. A failed application changes nothing at all.
\<close>

theorem ApplyTx_conserves_supply:
  assumes "ledger_inv G (db s)" and "0 < tx_Amount t" and "in_i64 (tx_Amount t)"
    and "\<not> self_transfer t" and "ApplyTx s t = (r, s')"
  shows "ledger_inv G (db s')
    \<and> minted (db s') = minted (db s) + (if is_ok r then credit_of t else 0)
    \<and> holdings (db s') = holdings (db s) + SubunitsPerEAST * (if is_ok r then credit_of t else 0)
    \<and> (\<not> is_ok r \<longrightarrow> s' = s)"
proof (cases r)
  case (Inl e)
  with assms show ?thesis using ApplyTx_Inl [of s t e s'] by simp
next
  case (Inr u)
  then obtain d where d: "applyTxBody s t (db s) = Inr d" "s' = s\<lparr>db := d\<rparr>"
    using assms(5) ApplyTx_Inr [of s t s'] by auto
  from ledger_inv_body [OF assms(1-4) d(1)] assms(1) d(2) Inr show ?thesis
    by (simp add: ledger_inv_def algebra_simps)
qed

text \<open>A store with one funded account and one bucket, used by the closed instances below.\<close>

definition demo_account :: Account where
  "demo_account = \<lparr>acc_Balance = 1000, acc_Staked = 50, acc_PendingUnstake = 7, acc_Nonce = 3\<rparr>"

definition demo_store :: Store where
  "demo_store =
     \<lparr>db = [(''acc:0xab'', AccountV demo_account),
            (''bucket:mining'', BucketV (mk_bucket ''mining'' 1000000000))],
      getFault = (\<lambda>_. False), setFault = (\<lambda>_. False), commitFault = False,
      totalMaxSupply = TotalMaxSupply, minValidatorStake = 0, chainSigningAddr = [],
      numericChainID = EASTChainID\<rparr>"

definition demo_tx :: "TxType \<Rightarrow> string \<Rightarrow> int \<Rightarrow> uint64 \<Rightarrow> Transaction" where
  "demo_tx ty rcpt amount nonce =
     \<lparr>tx_Type = ty, tx_From = ''0xAb'', tx_To = rcpt, tx_Amount = amount, tx_Nonce = nonce,
      tx_Timestamp = 1, tx_Signature = toy_sig, tx_Payload = None\<rparr>"

lemma demo_healthy [simp]: "healthy demo_store"
  by (simp add: healthy_def demo_store_def)

lemma norm_demo [simp]:
  "normalizeAddr ''0xAb'' = ''0xab''" "normalizeAddr ''0xab'' = ''0xab''" "normalizeAddr ''0xcd'' = ''0xcd''"
  by (simp_all add: normalizeAddr_def ToLower_def TrimSpace_def is_space_def lower_char_def less_eq_char_def
      char_of_def bit_iff_odd)

lemma demo_ledger_inv: "ledger_inv 1057 (db demo_store)"
  by (simp add: ledger_inv_def demo_store_def wf_db_def kv_sorted_def wf_entry_def metaKey_def mk_bucket_def
      demo_account_def acc_ok_def bucket_ok_def in_i64_def holdings_def minted_def caps_def hold_entry_def
      mint_entry_def cap_entry_def TotalMaxSupply_def less_char_def)

lemma demo_acct [simp]: "acct (db demo_store) ''0xAb'' = demo_account" "acct (db demo_store) ''0xcd'' = zero_account"
  by (simp_all add: acct_def accountKey_def) (simp_all add: demo_store_def)

theorem ApplyTx_conserves_supply_witness:
  "holdings (db (snd (ApplyTx demo_store (demo_tx TxStake [] 10 4)))) = holdings (db demo_store)"
  using ApplyTx_conserves_supply [OF demo_ledger_inv, of "demo_tx TxStake [] 10 4",
      OF _ _ _ surjective_pairing]
  by (simp add: demo_tx_def self_transfer_def credit_of_def in_i64_def)

section \<open>Functional behaviour on healthy stores\<close>

definition nonce_ok :: "DB \<Rightarrow> Transaction \<Rightarrow> bool" where
  "nonce_ok d t \<longleftrightarrow> tx_Nonce t = 0 \<or> acc_Nonce (acct d (tx_From t)) < tx_Nonce t"

lemma applyTxBody_healthy:
  assumes "wf_db d" "healthy s" "nonce_ok d t"
  shows "tx_Type t = TxTransfer \<Longrightarrow> applyTxBody s t d = applyTransfer s d (acct d (tx_From t)) t"
    and "tx_Type t = TxStake \<Longrightarrow> applyTxBody s t d = applyStake s d (acct d (tx_From t)) t"
    and "tx_Type t = TxRequestUnstake \<Longrightarrow> applyTxBody s t d = applyRequestUnstake s d (acct d (tx_From t)) t"
    and "tx_Type t = TxClaimUnstake \<Longrightarrow> applyTxBody s t d = applyClaimUnstake s d (acct d (tx_From t)) t"
    and "tx_Type t = TxClaimMining \<Longrightarrow> applyTxBody s t d = applyClaimMining s d (acct d (tx_From t)) t"
  using assms by (auto simp: applyTxBody_def getAccountTxn_healthy nonce_ok_def word_gt_0)

lemma ApplyTx_bad_nonce:
  assumes "wf_db (db s)" "healthy s" "\<not> nonce_ok (db s) t"
  shows "ApplyTx s t = (Inl (Errorf ''invalid nonce''), s)"
  using assms
  by (auto simp: ApplyTx_def db_Update_def applyTxBody_def getAccountTxn_healthy nonce_ok_def word_gt_0)

lemma applyTransfer_healthy:
  assumes "wf_db d" "healthy s" "tx_Amount t \<le> acc_Balance fa"
  shows "applyTransfer s d fa t = Inr (kv_set (accountKey (tx_To t))
       (AccountV ((acct d (tx_To t))\<lparr>acc_Balance := i64 (acc_Balance (acct d (tx_To t)) + tx_Amount t)\<rparr>))
       (kv_set (accountKey (tx_From t))
         (AccountV (fa\<lparr>acc_Balance := i64 (acc_Balance fa - tx_Amount t), acc_Nonce := tx_Nonce t\<rparr>)) d))"
  using assms by (simp add: applyTransfer_def Let_def getAccountTxn_healthy setAccountTxn_def txn_Set_def)

text \<open>
  On a healthy store a transfer between different accounts with a good nonce and enough balance
  succeeds; it debits the sender, sets the sender's nonce, credits the recipient, and leaves every
  other account as it was. With too little balance it fails and nothing changes.
\<close>

theorem ApplyTx_transfer:
  assumes inv: "ledger_inv G (db s)" and h: "healthy s" and ty: "tx_Type t = TxTransfer"
    and pos: "0 < tx_Amount t" and non: "nonce_ok (db s) t" and ns: "\<not> self_transfer t"
  shows "if acc_Balance (acct (db s) (tx_From t)) < tx_Amount t
    then ApplyTx s t = (Inl (Errorf ''insufficient balance''), s)
    else \<exists>s'. ApplyTx s t = (Inr (), s')
      \<and> acct (db s') (tx_From t) = (acct (db s) (tx_From t))
          \<lparr>acc_Balance := acc_Balance (acct (db s) (tx_From t)) - tx_Amount t, acc_Nonce := tx_Nonce t\<rparr>
      \<and> acct (db s') (tx_To t) = (acct (db s) (tx_To t))
          \<lparr>acc_Balance := acc_Balance (acct (db s) (tx_To t)) + tx_Amount t\<rparr>
      \<and> (\<forall>a. normalizeAddr a \<notin> {normalizeAddr (tx_From t), normalizeAddr (tx_To t)} \<longrightarrow>
           acct (db s') a = acct (db s) a)"
proof (cases "acc_Balance (acct (db s) (tx_From t)) < tx_Amount t")
  case True
  with applyTxBody_healthy(1) [OF ledger_inv_wf [OF inv] h non ty] show ?thesis
    by (simp add: ApplyTx_def db_Update_def applyTransfer_def)
next
  case False
  note wf = ledger_inv_wf [OF inv]
  let ?f = "acct (db s) (tx_From t)" and ?r = "acct (db s) (tx_To t)"
  have ne: "normalizeAddr (tx_From t) \<noteq> normalizeAddr (tx_To t)" using ns ty by (simp add: self_transfer_def)
  have run: "applyTxBody s t (db s) = applyTransfer s (db s) ?f t"
    by (rule applyTxBody_healthy(1) [OF wf h non ty])
  then obtain d where d: "applyTransfer s (db s) ?f t = Inr d"
    using applyTransfer_healthy [OF wf h, of t ?f] False by auto
  have "acc_ok (acct d (tx_To t))"
    using ledger_inv_transfer [OF inv pos ne d] by (auto intro: acct_ok ledger_inv_wf)
  then have r0: "0 \<le> i64 (acc_Balance ?r + tx_Amount t)"
    using applyTransfer_Inr(2) [OF wf d] by (simp add: acc_ok_def)
  have rng: "0 \<le> acc_Balance ?r" "acc_Balance ?r < 2 ^ 63" "0 \<le> acc_Balance ?f" "acc_Balance ?f < 2 ^ 63"
    using acct_range [OF inv, of "tx_To t"] acct_range [OF inv, of "tx_From t"] by linarith+
  have i: "i64 (acc_Balance ?f - tx_Amount t) = acc_Balance ?f - tx_Amount t"
    "i64 (acc_Balance ?r + tx_Amount t) = acc_Balance ?r + tx_Amount t"
    using rng False pos r0 i64_sum_nonneg [of "acc_Balance ?r" "tx_Amount t"] by (auto simp: i64_id in_i64_def)
  from d h run have "ApplyTx s t = (Inr (), s\<lparr>db := d\<rparr>)" by (simp add: ApplyTx_Inr)
  then show ?thesis
    using False ne applyTransfer_Inr(2) [OF wf d] i by auto
qed

theorem ApplyTx_transfer_witness:
  "acc_Balance (acct (db (snd (ApplyTx demo_store (demo_tx TxTransfer ''0xcd'' 10 4)))) ''0xcd'') = 10"
  using ApplyTx_transfer [OF demo_ledger_inv demo_healthy, of "demo_tx TxTransfer ''0xcd'' 10 4"]
  by (auto simp: demo_tx_def self_transfer_def nonce_ok_def demo_account_def zero_account_def)

text \<open>
  A transfer whose recipient is the sender (up to letter case and surrounding blanks) creates money.
  The recipient's account is read before the debit is written, so the second write overwrites the
  debit: the balance grows by the amount and the nonce stays what it was, so it can be repeated.
\<close>

theorem self_transfer_mints:
  assumes inv: "ledger_inv G (db s)" and h: "healthy s" and st: "self_transfer t"
    and non: "nonce_ok (db s) t" and bal: "tx_Amount t \<le> acc_Balance (acct (db s) (tx_From t))"
    and rng: "in_i64 (acc_Balance (acct (db s) (tx_From t)) + tx_Amount t)"
  shows "\<exists>s'. ApplyTx s t = (Inr (), s')
    \<and> holdings (db s') = holdings (db s) + tx_Amount t
    \<and> acc_Balance (acct (db s') (tx_From t)) = acc_Balance (acct (db s) (tx_From t)) + tx_Amount t
    \<and> acc_Nonce (acct (db s') (tx_From t)) = acc_Nonce (acct (db s) (tx_From t))"
proof -
  note wf = ledger_inv_wf [OF inv]
  let ?f = "acct (db s) (tx_From t)"
  let ?f' = "?f\<lparr>acc_Balance := i64 (acc_Balance ?f - tx_Amount t), acc_Nonce := tx_Nonce t\<rparr>"
  let ?x = "?f\<lparr>acc_Balance := acc_Balance ?f + tx_Amount t\<rparr>"
  have ty: "tx_Type t = TxTransfer" and eq: "normalizeAddr (tx_From t) = normalizeAddr (tx_To t)"
    using st by (auto simp: self_transfer_def)
  have same: "accountKey (tx_To t) = accountKey (tx_From t)" "acct (db s) (tx_To t) = ?f"
    using eq by (simp_all add: acct_def accountKey_def)
  define d where "d = kv_set (accountKey (tx_From t)) (AccountV ?x)
      (kv_set (accountKey (tx_From t)) (AccountV ?f') (db s))"
  have run: "applyTxBody s t (db s) = Inr d"
    using applyTxBody_healthy(1) [OF wf h non ty] applyTransfer_healthy [OF wf h bal] rng same
    by (simp add: d_def i64_id)
  have k: "kv_sorted (kv_set (accountKey (tx_From t)) (AccountV ?f') (db s))" using wf by simp
  have "holdings d = holdings (db s) + account_total ?x - account_total ?f"
    using supply_set_account(1) [OF wf, of "tx_From t" ?f'] kv_sum_set [OF k, of hold_entry]
    by (simp add: d_def holdings_def)
  then show ?thesis
    using run h by (auto simp: ApplyTx_Inr d_def intro!: exI [of _ "s\<lparr>db := d\<rparr>"])
qed

theorem self_transfer_mints_witness:
  "holdings (db (snd (ApplyTx demo_store (demo_tx TxTransfer ''0xab'' 500 4)))) = holdings (db demo_store) + 500"
  using self_transfer_mints [OF demo_ledger_inv demo_healthy, of "demo_tx TxTransfer ''0xab'' 500 4"]
  by (auto simp: demo_tx_def self_transfer_def nonce_ok_def demo_account_def in_i64_def)

end
