(* ===== verification/Replay.thy ===== *)
theory Replay
  imports Supply
begin

text \<open>
  Nonces: a transaction with a non-zero nonce can be applied at most once. The nonce of an account
  never falls along any sequence of transactions with non-zero nonces, whoever sends them, so the
  replay test of \<^verbatim>\<open>ApplyTx\<close> keeps rejecting. A zero nonce passes that test and resets the counter.
\<close>

section \<open>How a transaction changes the nonces\<close>

lemma applyStake_set:
  "applyStake s d fa t = Inr d' \<Longrightarrow> \<exists>x. d' = kv_set (accountKey (tx_From t)) (AccountV x) d \<and> acc_Nonce x = tx_Nonce t"
  by (auto simp: applyStake_def setAccountTxn_Inr split: if_splits)

lemma applyRequestUnstake_set:
  "applyRequestUnstake s d fa t = Inr d' \<Longrightarrow>
     \<exists>x. d' = kv_set (accountKey (tx_From t)) (AccountV x) d \<and> acc_Nonce x = tx_Nonce t"
  by (auto simp: applyRequestUnstake_def setAccountTxn_Inr split: if_splits)

lemma applyClaimUnstake_set:
  "applyClaimUnstake s d fa t = Inr d' \<Longrightarrow>
     \<exists>x. d' = kv_set (accountKey (tx_From t)) (AccountV x) d \<and> acc_Nonce x = tx_Nonce t"
  by (auto simp: applyClaimUnstake_def setAccountTxn_Inr split: if_splits)

lemma mintFromBucketTxn_set:
  "mintFromBucketTxn s d n a = Inr d' \<Longrightarrow> \<exists>v. d' = kv_set (bucketKey n) v d"
  by (auto simp: mintFromBucketTxn_def split: if_splits sum.splits)

lemma applyClaimMining_set:
  assumes "applyClaimMining s d fa t = Inr d'"
  shows "\<exists>n v x. d' = kv_set (accountKey (tx_From t)) (AccountV x) (kv_set (bucketKey n) v d) \<and> acc_Nonce x = tx_Nonce t"
proof -
  from assms obtain p where p: "ParseClaimMiningPayload t = Inr p"
    by (auto simp: applyClaimMining_def split: sum.splits)
  from assms p obtain d1 where m: "mintFromBucketTxn s d (cmp_Bucket p) (tx_Amount t) = Inr d1"
    by (auto simp: applyClaimMining_def split: sum.splits)
  from assms p m have r: "\<exists>x. d' = kv_set (accountKey (tx_From t)) (AccountV x) d1 \<and> acc_Nonce x = tx_Nonce t"
    by (auto simp: applyClaimMining_def Let_def setAccountTxn_Inr split: if_splits)
  from mintFromBucketTxn_set [OF m] r show ?thesis by auto
qed

lemma applyTxBody_nonce:
  assumes wf: "wf_db d" and run: "applyTxBody s t d = Inr d'"
  shows "acc_Nonce (acct d' a) =
     (if normalizeAddr a = normalizeAddr (tx_From t) \<and> \<not> self_transfer t then tx_Nonce t
      else acc_Nonce (acct d a))"
proof -
  note b = applyTxBody_Inr [OF wf run]
  from b(7) consider "tx_Type t = TxTransfer" | "tx_Type t = TxStake" | "tx_Type t = TxRequestUnstake"
    | "tx_Type t = TxClaimUnstake" | "tx_Type t = TxClaimMining"
    by (auto simp: known_type_def)
  then show ?thesis
  proof cases
    case 1
    have same: "acct d (tx_To t) = acct d a" if "normalizeAddr a = normalizeAddr (tx_To t)"
      using that by (metis acct_norm)
    from applyTransfer_Inr(2) [OF wf b(2) [OF 1]] 1 same show ?thesis
      by (auto simp: self_transfer_def)
  next
    case 2
    from applyStake_set [OF b(3) [OF 2]] 2 show ?thesis by (auto simp: self_transfer_def)
  next
    case 3
    from applyRequestUnstake_set [OF b(4) [OF 3]] 3 show ?thesis by (auto simp: self_transfer_def)
  next
    case 4
    from applyClaimUnstake_set [OF b(5) [OF 4]] 4 show ?thesis by (auto simp: self_transfer_def)
  next
    case 5
    from applyClaimMining_set [OF b(6) [OF 5]] 5 show ?thesis by (auto simp: self_transfer_def)
  qed
qed

lemma ApplyTx_nonce:
  assumes "wf_db (db s)" "ApplyTx s t = (Inr (), s')"
  shows "acc_Nonce (acct (db s') a) =
     (if normalizeAddr a = normalizeAddr (tx_From t) \<and> \<not> self_transfer t then tx_Nonce t
      else acc_Nonce (acct (db s) a))"
  using assms applyTxBody_nonce by (auto simp: ApplyTx_Inr)

section \<open>Sequences of transactions\<close>

text \<open>A caller's loop over transactions that goes on after a failure.\<close>

fun apply_all :: "Store \<Rightarrow> Transaction list \<Rightarrow> Store" where
  "apply_all s [] = s"
| "apply_all s (t # ts) = apply_all (snd (ApplyTx s t)) ts"

definition good_tx :: "Transaction \<Rightarrow> bool" where
  "good_tx t \<longleftrightarrow> 0 < tx_Amount t \<and> in_i64 (tx_Amount t) \<and> \<not> self_transfer t \<and> tx_Nonce t \<noteq> 0"

lemma ApplyTx_step:
  assumes inv: "ledger_inv G (db s)" and h: "healthy s" and g: "good_tx t"
  shows "ledger_inv G (db (snd (ApplyTx s t)))" "healthy (snd (ApplyTx s t))"
    "acc_Nonce (acct (db s) a) \<le> acc_Nonce (acct (db (snd (ApplyTx s t))) a)"
proof -
  obtain r s' where run: "ApplyTx s t = (r, s')" by (cases "ApplyTx s t")
  have "ledger_inv G (db s') \<and> healthy s' \<and> acc_Nonce (acct (db s) a) \<le> acc_Nonce (acct (db s') a)"
  proof (cases r)
    case (Inl e)
    with run ApplyTx_Inl [of s t e s'] inv h show ?thesis by simp
  next
    case (Inr u)
    with run have ok: "ApplyTx s t = (Inr (), s')" by simp
    then obtain d where d: "applyTxBody s t (db s) = Inr d" "s' = s\<lparr>db := d\<rparr>" by (auto simp: ApplyTx_Inr)
    have "ledger_inv G d" using ledger_inv_body [OF inv _ _ _ d(1)] g by (simp add: good_tx_def)
    moreover have "acc_Nonce (acct (db s) (tx_From t)) < tx_Nonce t"
      using applyTxBody_Inr(1) [OF ledger_inv_wf [OF inv] d(1)] g by (simp add: good_tx_def)
    moreover have "normalizeAddr a = normalizeAddr (tx_From t) \<Longrightarrow> acct (db s) a = acct (db s) (tx_From t)"
      by (metis acct_norm)
    ultimately show ?thesis
      using ApplyTx_nonce [OF ledger_inv_wf [OF inv] ok, of a] d(2) h by auto
  qed
  with run show "ledger_inv G (db (snd (ApplyTx s t)))" "healthy (snd (ApplyTx s t))"
    "acc_Nonce (acct (db s) a) \<le> acc_Nonce (acct (db (snd (ApplyTx s t))) a)" by simp_all
qed

lemma apply_all_step:
  assumes "ledger_inv G (db s)" "healthy s" "list_all good_tx ts"
  shows "ledger_inv G (db (apply_all s ts)) \<and> healthy (apply_all s ts)
    \<and> acc_Nonce (acct (db s) a) \<le> acc_Nonce (acct (db (apply_all s ts)) a)"
  using assms
proof (induction ts arbitrary: s)
  case (Cons t ts)
  from Cons.prems have t: "good_tx t" "list_all good_tx ts" by auto
  note step = ApplyTx_step [OF Cons.prems(1,2) t(1)]
  from Cons.IH [OF step(1,2) t(2)] step(3) [of a] show ?case
    by (auto intro: order_trans)
qed simp

text \<open>
  C22: no replay. Once a transaction with a non-zero nonce has been applied, applying it again is
  rejected as \<^verbatim>\<open>invalid nonce\<close> and changes nothing, no matter how many other transactions of any
  sender were applied or rejected in between. All of them have non-zero nonces and positive amounts, and none is a
  transfer to oneself.
\<close>

theorem ApplyTx_no_replay:
  assumes inv: "ledger_inv G (db s)" and h: "healthy s" and t: "good_tx t" and ts: "list_all good_tx ts"
    and ok: "ApplyTx s t = (Inr (), s')"
  shows "ApplyTx (apply_all s' ts) t = (Inl (Errorf ''invalid nonce''), apply_all s' ts)"
proof -
  from ApplyTx_step(1,2) [OF inv h t] ok have s': "ledger_inv G (db s')" "healthy s'" by simp_all
  note a = apply_all_step [OF s' ts, of "tx_From t"]
  have "acc_Nonce (acct (db s') (tx_From t)) = tx_Nonce t"
    using ApplyTx_nonce [OF ledger_inv_wf [OF inv] ok] t by (simp add: good_tx_def)
  with a t have "\<not> nonce_ok (db (apply_all s' ts)) t" by (auto simp: nonce_ok_def good_tx_def)
  with a show ?thesis by (intro ApplyTx_bad_nonce) (auto intro: ledger_inv_wf)
qed

lemma demo_transfer_ok: "\<exists>s'. ApplyTx demo_store (demo_tx TxTransfer ''0xcd'' 10 4) = (Inr (), s')"
  using applyTxBody_healthy(1) [OF ledger_inv_wf [OF demo_ledger_inv] demo_healthy, of "demo_tx TxTransfer ''0xcd'' 10 4"]
    applyTransfer_healthy [OF ledger_inv_wf [OF demo_ledger_inv] demo_healthy, of "demo_tx TxTransfer ''0xcd'' 10 4" demo_account]
  by (auto simp: ApplyTx_Inr demo_tx_def nonce_ok_def demo_account_def)

theorem ApplyTx_no_replay_witness:
  "fst (ApplyTx (snd (ApplyTx demo_store (demo_tx TxTransfer ''0xcd'' 10 4))) (demo_tx TxTransfer ''0xcd'' 10 4))
     = Inl (Errorf ''invalid nonce'')"
proof -
  obtain s' where s': "ApplyTx demo_store (demo_tx TxTransfer ''0xcd'' 10 4) = (Inr (), s')"
    using demo_transfer_ok by blast
  have "good_tx (demo_tx TxTransfer ''0xcd'' 10 4)"
    by (simp add: good_tx_def demo_tx_def self_transfer_def in_i64_def)
  from ApplyTx_no_replay [OF demo_ledger_inv demo_healthy this _ s', of "[]"] s' show ?thesis by simp
qed

text \<open>
  A zero nonce defeats the replay test. A stake with nonce 0 succeeds whenever the balance
  covers it, whatever the account's nonce is, and sets the account's nonce back to 0, so it can
  be applied again and every earlier transaction of the account passes the nonce test again.
\<close>

theorem zero_nonce_resets:
  assumes wf: "wf_db (db s)" and h: "healthy s" and ty: "tx_Type t = TxStake" and z: "tx_Nonce t = 0"
    and bal: "tx_Amount t \<le> acc_Balance (acct (db s) (tx_From t))"
  shows "\<exists>s'. ApplyTx s t = (Inr (), s') \<and> acc_Nonce (acct (db s') (tx_From t)) = 0
    \<and> (\<forall>u. tx_From u = tx_From t \<longrightarrow> nonce_ok (db s') u)"
proof -
  have no: "nonce_ok (db s) t" using z by (simp add: nonce_ok_def)
  obtain d where d: "applyTxBody s t (db s) = Inr d"
    using applyTxBody_healthy(2) [OF wf h no ty] bal h
    by (auto simp: applyStake_def setAccountTxn_def txn_Set_def)
  then have ok: "ApplyTx s t = (Inr (), s\<lparr>db := d\<rparr>)" using h by (simp add: ApplyTx_Inr)
  have "acc_Nonce (acct d (tx_From t)) = 0"
    using ApplyTx_nonce [OF wf ok, of "tx_From t"] ty z by (simp add: self_transfer_def)
  with ok show ?thesis by (auto simp: nonce_ok_def word_gt_0)
qed

theorem zero_nonce_resets_witness:
  "acc_Nonce (acct (db demo_store) ''0xAb'') = 3
   \<and> acc_Nonce (acct (db (snd (ApplyTx demo_store (demo_tx TxStake [] 10 0)))) ''0xAb'') = 0"
  using zero_nonce_resets [OF ledger_inv_wf [OF demo_ledger_inv] demo_healthy, of "demo_tx TxStake [] 10 0"]
  by (auto simp: demo_tx_def demo_account_def)

end
