(* ===== verification/Blocks.thy ===== *)
theory Blocks
  imports Supply
begin

text \<open>
  Genesis and block storage: what \<^verbatim>\<open>InitGenesis\<close> writes, the round trips of saved blocks and
  transactions, and what \<^verbatim>\<open>PruneOldBlocks\<close> deletes. None of the block operations touches the ledger.
\<close>

section \<open>Genesis\<close>

lemma kv_sum_sets:
  "kv_sorted d \<Longrightarrow> distinct (map fst kvs) \<Longrightarrow> (\<And>k. k \<in> fst ` set kvs \<Longrightarrow> map_of d k = None) \<Longrightarrow>
     kv_sum f (fold (\<lambda>(k, v). kv_set k v) kvs d) = kv_sum f d + sum_list (map (\<lambda>(k, v). f k v) kvs)"
proof (induction kvs arbitrary: d)
  case (Cons e kvs)
  obtain k v where e: "e = (k, v)" by (cases e)
  have "kv_sum f (fold (\<lambda>(k, v). kv_set k v) kvs (kv_set k v d)) =
      kv_sum f (kv_set k v d) + sum_list (map (\<lambda>(k, v). f k v) kvs)"
    using Cons.prems e by (intro Cons.IH) auto
  moreover have "map_of d k = None" using Cons.prems(3) [of k] e by simp
  ultimately show ?case using Cons.prems(1) e by (simp add: kv_sum_set)
qed simp

definition seed_total :: "AccountSeed \<Rightarrow> int" where
  "seed_total a = seed_Balance a + seed_Staked a"

definition seed_account :: "AccountSeed \<Rightarrow> Account" where
  "seed_account a = zero_account\<lparr>acc_Balance := seed_Balance a, acc_Staked := seed_Staked a\<rparr>"

definition seeds_ok :: "Genesis \<Rightarrow> bool" where
  "seeds_ok g \<longleftrightarrow> list_all (\<lambda>a. acc_ok (seed_account a)) (gen_Accounts g)
     \<and> distinct (map (\<lambda>a. normalizeAddr (seed_Address a)) (gen_Accounts g))
     \<and> distinct (map bkt_Name (gen_Buckets g)) \<and> list_all (\<lambda>b. in_i64 (bkt_Cap b)) (gen_Buckets g)
     \<and> sum_list (map bkt_Cap (gen_Buckets g)) < 2 ^ 63"

text \<open>The subunits handed out by the document beyond what its buckets already count as minted.\<close>

definition genesis_allocation :: "Genesis \<Rightarrow> int" where
  "genesis_allocation g = sum_list (map seed_total (gen_Accounts g))
     - SubunitsPerEAST * sum_list (map bkt_Minted (gen_Buckets g))"

lemma genesis_writes_eq:
  "genesis_writes g =
     map (\<lambda>b. (bucketKey (bkt_Name b), BucketV b)) (gen_Buckets g)
   @ map (\<lambda>a. (accountKey (seed_Address a), AccountV (seed_account a))) (gen_Accounts g)
   @ [(metaKey ''genesis'', GenesisV (genesis_meta g)), (metaKey ''genesis_hash'', RawV ''applied''),
      (metaKey ''latest_height'', RawV ''0'')]"
  by (simp add: genesis_writes_def seed_account_def)

lemma genesis_keys_distinct: "seeds_ok g \<Longrightarrow> distinct (map fst (genesis_writes g))"
  by (auto simp: genesis_writes_eq seeds_ok_def distinct_map inj_on_def comp_def)

lemma show_zero: "''0'' = show_u64 0"
  by (simp add: show_u64_def show_nat.simps digit_char_def char_of_def bit_iff_odd)

lemma genesis_entries_wf:
  assumes "seeds_ok g" "list_all bucket_ok (gen_Buckets g)" "e \<in> set (genesis_writes g)"
  shows "wf_entry (fst e) (snd e)"
proof -
  have "wf_entry (metaKey ''latest_height'') (RawV ''0'')" unfolding show_zero by simp
  moreover have "wf_entry (metaKey ''genesis'') v" "wf_entry (metaKey ''genesis_hash'') v" for v
    by (simp_all add: wf_entry_def)
  ultimately show ?thesis
    using assms by (auto simp: genesis_writes_eq seeds_ok_def list_all_iff)
qed

lemma entry_meta [simp]: "hold_entry (metaKey m) v = 0" "mint_entry (metaKey m) v = 0" "cap_entry (metaKey m) v = 0"
  by (simp_all add: hold_entry_def mint_entry_def cap_entry_def)

lemma genesis_sums:
  "sum_list (map (\<lambda>(k, v). hold_entry k v) (genesis_writes g)) = sum_list (map seed_total (gen_Accounts g))"
  "sum_list (map (\<lambda>(k, v). mint_entry k v) (genesis_writes g)) = sum_list (map bkt_Minted (gen_Buckets g))"
  "sum_list (map (\<lambda>(k, v). cap_entry k v) (genesis_writes g)) = sum_list (map bkt_Cap (gen_Buckets g))"
proof -
  have t: "seed_total = (\<lambda>a. seed_Balance a + seed_Staked a)" by (rule ext) (simp add: seed_total_def)
  show "sum_list (map (\<lambda>(k, v). hold_entry k v) (genesis_writes g)) = sum_list (map seed_total (gen_Accounts g))"
    "sum_list (map (\<lambda>(k, v). mint_entry k v) (genesis_writes g)) = sum_list (map bkt_Minted (gen_Buckets g))"
    "sum_list (map (\<lambda>(k, v). cap_entry k v) (genesis_writes g)) = sum_list (map bkt_Cap (gen_Buckets g))"
    by (simp_all add: genesis_writes_eq comp_def seed_account_def t zero_account_def)
qed

lemma set_params_simps [simp]:
  "db (set_params g s) = db s" "getFault (set_params g s) = getFault s" "setFault (set_params g s) = setFault s"
  "commitFault (set_params g s) = commitFault s" "healthy (set_params g s) = healthy s"
  unfolding set_params_def healthy_def by simp_all

lemma InitGenesis_fresh:
  assumes "Validate g = (Inr (), g')" "db s = []" "healthy s"
  shows "InitGenesis s g = (Inr (), (set_params g' s)\<lparr>db := fold (\<lambda>(k, v). kv_set k v) (genesis_writes g') []\<rparr>)"
proof -
  have "txn_Set_all s [] (genesis_writes g') = Inr (fold (\<lambda>(k, v). kv_set k v) (genesis_writes g') [])"
    using assms(3) by (simp add: txn_Set_all_Inr)
  then show ?thesis
    using assms by (simp add: InitGenesis_def txn_Get_def db_Update_def)
qed

text \<open>
  C31: on an empty healthy store, a validated document with distinct names and addresses, non-negative seeds, caps that do
  not overflow and an allocation of at most \<open>8 * 10 ^ 18\<close> is applied; the ledger invariant holds afterwards with the document's
  allocation, every seeded account and every bucket can be read back, the height is 0, and applying
  any further document leaves the data as it is.
\<close>

theorem InitGenesis_establishes:
  assumes v: "Validate g = (Inr (), g')" and e: "db s = []" and h: "healthy s" and ok: "seeds_ok g'"
    and G: "genesis_allocation g' \<le> 8000000000000000000"
  shows "\<exists>s'. InitGenesis s g = (Inr (), s') \<and> ledger_inv (genesis_allocation g') (db s')
    \<and> (\<forall>a \<in> set (gen_Accounts g'). GetAccount s' (seed_Address a) = Inr (seed_account a))
    \<and> (\<forall>b \<in> set (gen_Buckets g'). GetBucket s' (bkt_Name b) = Inr b)
    \<and> GetLatestHeight s' = Inr 0
    \<and> (\<forall>g2. db (snd (InitGenesis s' g2)) = db s')"
proof -
  let ?w = "genesis_writes g'"
  define d where "d = fold (\<lambda>(k, v). kv_set k v) ?w []"
  define s' where "s' = (set_params g' s)\<lparr>db := d\<rparr>"
  have run: "InitGenesis s g = (Inr (), s')" using InitGenesis_fresh [OF v e h] by (simp add: s'_def d_def)
  have s': "db s' = d" "healthy s'" using h by (simp_all add: s'_def)
  note vi = Validate_Inr [OF v]
  have bok: "list_all bucket_ok (gen_Buckets g')" using sum_caps_Inr [OF vi(5)] vi(3) by simp
  have caps: "sum_list (map bkt_Cap (gen_Buckets g')) = TotalMaxSupply"
    using sum_caps_exact [OF bok, of 0] ok vi(3,5) by (simp add: seeds_ok_def)
  note dist = genesis_keys_distinct [OF ok]
  have sums: "kv_sum f d = sum_list (map (\<lambda>(k, v). f k v) ?w)" for f
    unfolding d_def by (subst kv_sum_sets [OF _ dist]) simp_all
  have wf: "wf_db d" unfolding d_def
    by (rule wf_db_sets) (auto simp: wf_db_def intro: genesis_entries_wf [OF ok bok])
  have inv: "ledger_inv (genesis_allocation g') d"
    using wf G caps by (simp add: ledger_inv_def holdings_def minted_def caps_def sums genesis_sums genesis_allocation_def)
  have look: "map_of d k = Some w" if "(k, w) \<in> set ?w" for k w
  proof -
    have "map_of (rev ?w) k = Some w" using dist that by (intro map_of_is_SomeI) (auto simp: rev_map [symmetric])
    then show ?thesis unfolding d_def kvl.get_after_sets by simp
  qed
  have acc: "GetAccount s' (seed_Address a) = Inr (seed_account a)" if "a \<in> set (gen_Accounts g')" for a
    using look [of "accountKey (seed_Address a)" "AccountV (seed_account a)"] that s'
    by (simp add: GetAccount_def txn_Get_def genesis_writes_eq)
  have bkt: "GetBucket s' (bkt_Name b) = Inr b" if "b \<in> set (gen_Buckets g')" for b
    using look [of "bucketKey (bkt_Name b)" "BucketV b"] that s'
    by (simp add: GetBucket_def txn_Get_def genesis_writes_eq)
  have hgt: "GetLatestHeight s' = Inr 0"
    using look [of "metaKey ''latest_height''" "RawV ''0''"] s' show_zero
    by (simp add: GetLatestHeight_def txn_Get_def genesis_writes_eq)
  have "map_of d (metaKey ''genesis_hash'') = Some (RawV ''applied'')"
    by (rule look) (simp add: genesis_writes_eq)
  then have again: "db (snd (InitGenesis s' g2)) = db s'" for g2
    using s' by (auto simp: InitGenesis_def txn_Get_def db_Update_def split: prod.splits sum.splits)
  show ?thesis using run inv acc bkt hgt again s' by blast
qed

definition demo_genesis :: Genesis where
  "demo_genesis = (Default 0)\<lparr>gen_Accounts := [\<lparr>seed_Address = ''0xAb'', seed_Balance = 70, seed_Staked = 30\<rparr>]\<rparr>"

definition empty_store :: Store where
  "empty_store = demo_store\<lparr>db := []\<rparr>"

lemma demo_genesis_ok:
  "Validate demo_genesis = (Inr (), demo_genesis)" "seeds_ok demo_genesis" "genesis_allocation demo_genesis = 100"
  by (simp_all add: demo_genesis_def Validate_def Default_def DefaultBuckets_def mk_bucket_def i64_def TotalMaxSupply_def
      seeds_ok_def seed_account_def acc_ok_def zero_account_def in_i64_def genesis_allocation_def seed_total_def)

lemma empty_store_simps [simp]: "db empty_store = []" "healthy empty_store"
  by (simp_all add: empty_store_def)

theorem InitGenesis_establishes_witness:
  "fst (InitGenesis empty_store demo_genesis) = Inr ()
    \<and> ledger_inv 100 (db (snd (InitGenesis empty_store demo_genesis)))"
  using InitGenesis_establishes [OF demo_genesis_ok(1) empty_store_simps demo_genesis_ok(2)] demo_genesis_ok(3)
  by auto

section \<open>Writes outside the ledger\<close>

definition ledger_key :: "string \<Rightarrow> bool" where
  "ledger_key k \<longleftrightarrow> prefix ''acc:'' k \<or> prefix ''bucket:'' k"

lemma ledger_key_simps [simp]:
  "\<not> ledger_key (blockKey h)" "\<not> ledger_key (metaKey m)" "\<not> ledger_key (blockTxsKey h)" "\<not> ledger_key (txIndexKey x)"
  "ledger_key (accountKey a)" "ledger_key (bucketKey n)"
  by (simp_all add: ledger_key_def)

lemma entry_other:
  "\<not> ledger_key k \<Longrightarrow> hold_entry k v = 0" "\<not> ledger_key k \<Longrightarrow> mint_entry k v = 0" "\<not> ledger_key k \<Longrightarrow> cap_entry k v = 0"
  by (simp_all add: ledger_key_def hold_entry_def mint_entry_def cap_entry_def)

lemma ledger_inv_set_other:
  assumes "ledger_inv G d" "\<not> ledger_key k" "wf_entry k v"
  shows "ledger_inv G (kv_set k v d)"
proof -
  note wf = ledger_inv_wf [OF assms(1)]
  note o = entry_other [OF assms(2)]
  have "holdings (kv_set k v d) = holdings d" "minted (kv_set k v d) = minted d" "caps (kv_set k v d) = caps d"
    using wf o by (simp_all add: holdings_def minted_def caps_def kv_sum_set opt_val_zero)
  with assms wf wf_db_set [OF wf assms(3)] show ?thesis by (simp add: ledger_inv_def)
qed

lemma ledger_inv_sets_other:
  "ledger_inv G d \<Longrightarrow> (\<And>k v. (k, v) \<in> set kvs \<Longrightarrow> \<not> ledger_key k \<and> wf_entry k v) \<Longrightarrow>
     ledger_inv G (fold (\<lambda>(k, v). kv_set k v) kvs d)"
proof (induction kvs arbitrary: d)
  case (Cons e kvs)
  obtain k v where e: "e = (k, v)" by (cases e)
  have "ledger_inv G (kv_set k v d)" using Cons.prems e by (intro ledger_inv_set_other) auto
  then have "ledger_inv G (fold (\<lambda>(k, v). kv_set k v) kvs (kv_set k v d))"
    by (rule Cons.IH) (use Cons.prems in auto)
  with e show ?case by simp
qed simp

lemma kv_sum_filter: "(\<And>k v. (k, v) \<in> set d \<Longrightarrow> \<not> P (k, v) \<Longrightarrow> f k v = 0) \<Longrightarrow> kv_sum f (filter P d) = kv_sum f d"
  by (induction d) auto

lemma ledger_inv_filter_other:
  assumes "ledger_inv G d" "\<And>e. e \<in> set d \<Longrightarrow> \<not> P e \<Longrightarrow> \<not> ledger_key (fst e)"
  shows "ledger_inv G (filter P d)"
proof -
  have "kv_sum f (filter P d) = kv_sum f d" if "\<And>k v. \<not> ledger_key k \<Longrightarrow> f k v = 0" for f
    using assms(2) that by (intro kv_sum_filter) force
  note this [of hold_entry] this [of mint_entry] this [of cap_entry]
  moreover have "wf_db (filter P d)"
    using ledger_inv_wf [OF assms(1)] by (auto simp: wf_db_def kv_sorted_filter)
  ultimately show ?thesis
    using assms(1) entry_other by (simp add: ledger_inv_def holdings_def minted_def caps_def)
qed

lemma wf_entry_index [simp]: "wf_entry (txIndexKey x) v" "wf_entry (blockTxsKey h) v"
  by (auto simp: wf_entry_def)

section \<open>Saving and loading blocks\<close>

lemma is_space_hex: "n < 16 \<Longrightarrow> \<not> is_space (hex_char n)"
  by (simp add: is_space_iff of_char_hex_char)

lemma EncodeToString_chars: "c \<in> set (EncodeToString s) \<Longrightarrow> \<exists>n < 16. c = hex_char n"
  by (induction s) (auto intro: of_char_nibbles)

lemma dropWhile_none: "(\<And>c. c \<in> set s \<Longrightarrow> \<not> P c) \<Longrightarrow> dropWhile P s = s"
  by (cases s) auto

lemma TrimSpace_none: "(\<And>c. c \<in> set s \<Longrightarrow> \<not> is_space c) \<Longrightarrow> TrimSpace s = s"
  using dropWhile_none [of s is_space] dropWhile_none [of "rev s" is_space] by (simp add: TrimSpace_def)

lemma Hash_no_space: "c \<in> set (''0x'' @ Hash t) \<Longrightarrow> \<not> is_space c"
proof -
  assume "c \<in> set (''0x'' @ Hash t)"
  then consider "c = CHR ''0''" | "c = CHR ''x''" | "c \<in> set (Hash t)" by auto
  then show ?thesis
  proof cases
    case 3
    then show ?thesis unfolding Hash_def using EncodeToString_chars is_space_hex by blast
  qed (simp_all add: is_space_def)
qed

lemma txIndexKey_Hash: "txIndexKey (''0x'' @ Hash t) = ''tx:'' @ Hash t"
proof -
  have "TrimSpace (''0x'' @ Hash t) = ''0x'' @ Hash t" by (rule TrimSpace_none [OF Hash_no_space])
  then show ?thesis unfolding txIndexKey_def TrimPrefix_def by (simp add: Hash_def)
qed

definition block_writes :: "BlockHeader \<Rightarrow> Transaction option list \<Rightarrow> (string \<times> Value) list" where
  "block_writes h txs =
     (let bodies = stored_bodies (hdr_Height h) txs in
      [(blockKey (hdr_Height h), BlockV h), (metaKey ''latest_height'', RawV (show_u64 (hdr_Height h)))]
      @ map (\<lambda>st. (txIndexKey (stx_Hash st), TxV st)) bodies @ [(blockTxsKey (hdr_Height h), TxsV bodies)])"

lemma SaveBlockWithTxs_run:
  assumes "healthy s"
  shows "SaveBlockWithTxs s h txs = (Inr (), s\<lparr>db := fold (\<lambda>(k, v). kv_set k v) (block_writes h txs) (db s)\<rparr>)"
proof -
  have "txn_Set_all s d (block_writes h txs) = Inr (fold (\<lambda>(k, v). kv_set k v) (block_writes h txs) d)" for d
    using assms by (simp add: txn_Set_all_Inr)
  then show ?thesis using assms unfolding SaveBlockWithTxs_def Let_def block_writes_def by (simp add: db_Update_def)
qed

lemma map_of_rev_last: "map_of (rev (xs @ [(k, v)])) k = Some v"
  by simp

lemma tx_index_lookup:
  assumes "t \<in> set ts" "inj_on Hash (set ts)"
  shows "map_of (rev (map (\<lambda>st. (txIndexKey (stx_Hash st), TxV st)) (map (stored_tx n) ts))) (''tx:'' @ Hash t)
    = Some (TxV (stored_tx n t))"
proof -
  let ?l = "map (\<lambda>st. (txIndexKey (stx_Hash st), TxV st)) (map (stored_tx n) ts)"
  have key: "txIndexKey (stx_Hash (stored_tx n u)) = ''tx:'' @ Hash u" for u
    using txIndexKey_Hash [of u] by (simp add: stored_tx_def)
  have "map_of (rev ?l) (''tx:'' @ Hash t) \<noteq> None"
    using assms(1) key by (auto simp: map_of_eq_None_iff image_iff)
  then obtain w where w: "map_of (rev ?l) (''tx:'' @ Hash t) = Some w" by auto
  then have "(''tx:'' @ Hash t, w) \<in> set ?l" using map_of_SomeD by fastforce
  then obtain u where "u \<in> set ts" "Hash u = Hash t" "w = TxV (stored_tx n u)" using key by auto
  with assms w show ?thesis by (metis inj_onD)
qed

lemma block_writes_other:
  assumes "k \<noteq> blockKey (hdr_Height h)" "k \<noteq> metaKey ''latest_height''" "\<not> prefix ''tx:'' k"
    "k \<noteq> blockTxsKey (hdr_Height h)"
  shows "map_of (rev (block_writes h txs)) k = None"
  using assms by (auto simp: block_writes_def Let_def map_of_eq_None_iff txIndexKey_def)

lemma block_writes_hit:
  "map_of (rev (block_writes h txs)) (blockKey (hdr_Height h)) = Some (BlockV h)"
  "map_of (rev (block_writes h txs)) (metaKey ''latest_height'') = Some (RawV (show_u64 (hdr_Height h)))"
  "map_of (rev (block_writes h txs)) (blockTxsKey (hdr_Height h)) = Some (TxsV (stored_bodies (hdr_Height h) txs))"
  by (auto simp: block_writes_def Let_def map_add_def map_of_eq_None_iff split: option.splits
      dest!: map_of_SomeD)

lemma block_writes_tx:
  assumes "Some t \<in> set txs" "inj_on Hash {u. Some u \<in> set txs}"
  shows "map_of (rev (block_writes h txs)) (''tx:'' @ Hash t) = Some (TxV (stored_tx (hdr_Height h) t))"
proof -
  let ?ts = "List.map_filter id txs"
  have ts: "set ?ts = {u. Some u \<in> set txs}" by (force simp: map_filter_def)
  have "map_of (rev (map (\<lambda>st. (txIndexKey (stx_Hash st), TxV st)) (stored_bodies (hdr_Height h) txs))) (''tx:'' @ Hash t)
     = Some (TxV (stored_tx (hdr_Height h) t))"
    unfolding stored_bodies_def using assms by (intro tx_index_lookup) (simp_all add: ts)
  then show ?thesis by (simp add: block_writes_def Let_def map_add_def key_defs)
qed

text \<open>
  C32: saving a block with its transactions on a healthy store succeeds; the header, the new height,
  the transaction list and every transaction by its hash (when different transactions have different
  hashes) can be read back, and accounts, buckets and the blocks of other heights are as before.
\<close>

theorem SaveBlockWithTxs_roundtrip:
  assumes h: "healthy s" and inj: "inj_on Hash {u. Some u \<in> set txs}"
  shows "\<exists>s'. SaveBlockWithTxs s h txs = (Inr (), s')
    \<and> GetBlock s' (hdr_Height h) = Inr h \<and> GetLatestHeight s' = Inr (hdr_Height h)
    \<and> GetBlockTransactions s' (hdr_Height h) = Inr (stored_bodies (hdr_Height h) txs)
    \<and> (\<forall>t. Some t \<in> set txs \<longrightarrow> GetTransaction s' (''0x'' @ Hash t) = Inr (stored_tx (hdr_Height h) t))
    \<and> (\<forall>n. n \<noteq> hdr_Height h \<longrightarrow> GetBlock s' n = GetBlock s n)
    \<and> (\<forall>a. GetAccount s' a = GetAccount s a) \<and> (\<forall>b. GetBucket s' b = GetBucket s b)"
proof -
  let ?w = "block_writes h txs"
  define s' where "s' = s\<lparr>db := fold (\<lambda>(k, v). kv_set k v) ?w (db s)\<rparr>"
  have s': "\<And>k. \<not> getFault s' k" using h by (simp add: s'_def)
  have look: "map_of (db s') k = (case map_of (rev ?w) k of Some v \<Rightarrow> Some v | None \<Rightarrow> map_of (db s) k)" for k
    by (simp add: s'_def kvl.get_after_sets)
  have other: "map_of (db s') k = map_of (db s) k"
    if "k \<noteq> blockKey (hdr_Height h)" "k \<noteq> metaKey ''latest_height''" "\<not> prefix ''tx:'' k"
      "k \<noteq> blockTxsKey (hdr_Height h)" for k
    using look block_writes_other [OF that] by simp
  have pre: "\<not> prefix ''tx:'' (accountKey a)" "\<not> prefix ''tx:'' (bucketKey b)" "\<not> prefix ''tx:'' (blockKey n)"
    "accountKey a \<noteq> blockTxsKey m" "bucketKey b \<noteq> blockTxsKey m" for a b n m
    by (simp_all add: key_defs)
  have g: "getFault s' = getFault s" by (simp add: s'_def)
  have tx: "GetTransaction s' (''0x'' @ Hash t) = Inr (stored_tx (hdr_Height h) t)" if "Some t \<in> set txs" for t
    using look [of "''tx:'' @ Hash t"] block_writes_tx [OF that inj] s' txIndexKey_Hash [of t]
    by (simp add: GetTransaction_def txn_Get_def)
  have "GetBlock s' (hdr_Height h) = Inr h" "GetLatestHeight s' = Inr (hdr_Height h)"
    "GetBlockTransactions s' (hdr_Height h) = Inr (stored_bodies (hdr_Height h) txs)"
    using look s' by (simp_all add: block_writes_hit GetBlock_def GetLatestHeight_def GetBlockTransactions_def txn_Get_def)
  moreover have "GetBlock s' n = GetBlock s n" if "n \<noteq> hdr_Height h" for n
    using that other pre g by (simp add: GetBlock_def txn_Get_def)
  moreover have "GetAccount s' a = GetAccount s a" "GetBucket s' b = GetBucket s b" for a b
    using other pre g by (simp_all add: GetAccount_def GetBucket_def txn_Get_def)
  ultimately show ?thesis using SaveBlockWithTxs_run [OF h, of h txs] tx unfolding s'_def [symmetric] by blast
qed

definition demo_header :: BlockHeader where
  "demo_header = \<lparr>hdr_Height = 7, hdr_Hash = ''0xh'', hdr_PrevHash = [], hdr_StateRoot = [], hdr_TxHashes = [],
     hdr_Timestamp = 1, hdr_Proposer = ''0xab'', hdr_TxCount = 1, hdr_Signature = [], hdr_LastCommitRound = 0,
     hdr_LastCommitVotes = 0, hdr_LastCommitHash = []\<rparr>"

theorem SaveBlockWithTxs_roundtrip_witness:
  "GetBlock (snd (SaveBlockWithTxs demo_store demo_header [None, Some (demo_tx TxStake [] 10 4)])) 7 = Inr demo_header"
  using SaveBlockWithTxs_roundtrip [OF demo_healthy, of "[None, Some (demo_tx TxStake [] 10 4)]" demo_header]
  by (auto simp: demo_header_def inj_on_def)

section \<open>Pruning\<close>

lemma takeWhile_digits_pad: "takeWhile is_digit (show_pad20 h) = show_pad20 h"
  by (auto simp: show_pad20_def Let_def show_u64_def takeWhile_eq_all_conv show_nat_digits is_digit_def less_eq_char_def
      dest: show_nat_digits)

lemma show_pad20_digits: "c \<in> set (show_pad20 h) \<Longrightarrow> is_digit c"
  using takeWhile_digits_pad by (metis set_takeWhileD)

lemma Sscanf_pad20 [simp]: "Sscanf_u64 (show_pad20 h) = Inr h"
proof -
  have nb: "dropWhile (\<lambda>c. c \<in> {CHR '' '', CHR 0x09, CHR 0x0D}) (show_pad20 h) = show_pad20 h"
    using show_pad20_digits is_digit_not_blank by (intro dropWhile_none) blast
  have ne: "show_pad20 h \<noteq> []" by (simp add: show_pad20_def Let_def show_u64_def)
  have v: "parse_nat (show_pad20 h) = unat h" by (simp add: show_pad20_def Let_def parse_nat_zeros show_u64_def)
  have "unat h < 2 ^ LENGTH(64)" by (rule unsigned_less)
  then show ?thesis
    unfolding Sscanf_u64_def nb takeWhile_digits_pad using ne v by simp
qed

lemma height_of_blockKey [simp]: "height_of_key (blockKey h) = h"
  by (simp add: height_of_key_def blockKey_def)

lemma prune_loop_healthy:
  "healthy s \<Longrightarrow> prune_loop s c ks d =
     Inr (filter (\<lambda>e. \<not> (fst e \<in> set ks \<and> height_of_key (fst e) < c)) d)"
proof (induction ks arbitrary: d)
  case (Cons k ks)
  then show ?case by (auto simp: txn_Delete_def kv_del_def intro!: filter_cong)
qed simp

lemma map_of_filter_keys: "map_of (filter (\<lambda>e. P (fst e)) d) k = (if P k then map_of d k else None)"
  by (induction d) auto

definition prune_keeps :: "uint64 \<Rightarrow> string \<Rightarrow> bool" where
  "prune_keeps c k \<longleftrightarrow> \<not> (prefix ''blk:'' k \<and> height_of_key k < c)"

lemma prune_body:
  assumes "healthy s"
  shows "prune_loop s c (map fst (iter_prefix ''blk:'' d)) d = Inr (filter (\<lambda>e. prune_keeps c (fst e)) d)"
  using assms
  by (auto simp: prune_loop_healthy iter_prefix_def prune_keeps_def intro!: filter_cong)

text \<open>
  Pruning with \<open>keep > 0\<close> deletes exactly the headers below \<open>latest - keep\<close> once the chain is
  longer than \<open>keep\<close> (so \<open>keep + 1\<close> headers stay), and nothing otherwise. Accounts, buckets, the
  height, the block transaction lists and the transaction index are never touched.
\<close>

theorem PruneOldBlocks_exact:
  assumes h: "healthy s" and inv: "ledger_inv G (db s)" and k: "0 < keep" "keep < 2 ^ 63"
    and l: "GetLatestHeight s = Inr latest"
  shows "\<exists>s'. PruneOldBlocks s keep = (Inr (), s') \<and> ledger_inv G (db s')
    \<and> (\<forall>n. GetBlock s' n = (if keep < uint latest \<and> uint n < uint latest - keep then Inl KeyNotFound else GetBlock s n))
    \<and> (\<forall>n. GetBlockTransactions s' n = GetBlockTransactions s n) \<and> (\<forall>x. GetTransaction s' x = GetTransaction s x)
    \<and> (\<forall>a. GetAccount s' a = GetAccount s a) \<and> GetLatestHeight s' = Inr latest"
proof (cases "latest \<le> word_of_int keep")
  case True
  have "uint (word_of_int keep :: uint64) = keep" using k by (simp add: uint_word_of_int)
  with True have "\<not> keep < uint latest" by (simp add: word_le_def)
  with True k l inv show ?thesis by (simp add: PruneOldBlocks_def)
next
  case False
  have uk: "uint (word_of_int keep :: uint64) = keep" using k by (simp add: uint_word_of_int)
  with False have gt: "keep < uint latest" by (simp add: word_le_def)
  let ?c = "latest - word_of_int keep"
  have uc: "uint ?c = uint latest - keep" using False uk by (simp add: uint_minus_simple_alt [THEN iffD1] word_le_def)
  define d where "d = filter (\<lambda>e. prune_keeps ?c (fst e)) (db s)"
  have run: "PruneOldBlocks s keep = (Inr (), s\<lparr>db := d\<rparr>)"
    using False k l h prune_body [OF h] by (simp add: PruneOldBlocks_def db_Update_def d_def)
  have look: "map_of d x = (if prune_keeps ?c x then map_of (db s) x else None)" for x
    unfolding d_def by (rule map_of_filter_keys)
  have pk: "prune_keeps ?c (blockKey n) \<longleftrightarrow> \<not> uint n < uint latest - keep" "prune_keeps ?c (blockTxsKey n)"
    "prune_keeps ?c (txIndexKey x)" "prune_keeps ?c (accountKey a)" "prune_keeps ?c (metaKey m)" for n x a m
    using uc by (simp_all add: prune_keeps_def word_less_def)
  have "ledger_inv G d" unfolding d_def
    using inv by (rule ledger_inv_filter_other) (auto simp: prune_keeps_def ledger_key_def prefix_def)
  moreover have "GetBlock (s\<lparr>db := d\<rparr>) n = (if keep < uint latest \<and> uint n < uint latest - keep then Inl KeyNotFound else GetBlock s n)" for n
    using h gt by (simp add: GetBlock_def txn_Get_def look pk)
  moreover have "GetLatestHeight (s\<lparr>db := d\<rparr>) = Inr latest"
    using l h by (simp add: GetLatestHeight_def txn_Get_def look pk)
  moreover have "GetBlockTransactions (s\<lparr>db := d\<rparr>) n = GetBlockTransactions s n" "GetTransaction (s\<lparr>db := d\<rparr>) x = GetTransaction s x"
    "GetAccount (s\<lparr>db := d\<rparr>) a = GetAccount s a" for n x a
    by (simp_all add: GetBlockTransactions_def GetTransaction_def GetAccount_def txn_Get_def look pk)
  ultimately show ?thesis using run by simp
qed

definition prune_store :: Store where
  "prune_store = demo_store\<lparr>db := kv_set (metaKey ''latest_height'') (RawV (show_u64 5))
     (kv_set (blockKey 1) (BlockV (demo_header\<lparr>hdr_Height := 1\<rparr>)) (db demo_store))\<rparr>"

lemma prune_store_ok:
  "healthy prune_store" "ledger_inv 1057 (db prune_store)" "GetLatestHeight prune_store = Inr 5"
  "GetBlock prune_store 1 = Inr (demo_header\<lparr>hdr_Height := 1\<rparr>)"
  by (auto simp: prune_store_def GetLatestHeight_def GetBlock_def txn_Get_def
      intro!: ledger_inv_set_other demo_ledger_inv)

theorem PruneOldBlocks_exact_witness:
  "is_ok (GetBlock prune_store 1) \<and> GetBlock (snd (PruneOldBlocks prune_store 2)) 1 = Inl KeyNotFound"
  using PruneOldBlocks_exact [OF prune_store_ok(1,2) _ _ prune_store_ok(3), of 2] prune_store_ok(4) by auto

end
