(* ===== verification/Validators.thy ===== *)
theory Validators
  imports Ledger "HOL-Library.Multiset"
begin

text \<open>
  Package \<^verbatim>\<open>internal/state\<close>, file \<^verbatim>\<open>validators.go\<close>: the persisted validator set and the jail.
  \<open>now\<close> stands for a reading of \<^verbatim>\<open>time.Now().UnixMilli()\<close>; durations are in milliseconds.
  \<^verbatim>\<open>IsJailed\<close> deletes an expired record, so it returns the store.
\<close>

definition validatorSetKey :: string where
  "validatorSetKey = metaKey ''validator_set''"

definition jailKey :: "string \<Rightarrow> string" where
  "jailKey addr = ''jail:'' @ ToLower addr"

fun as_ValSet :: "Value \<Rightarrow> ValidatorSetRecord res" where
  "as_ValSet (ValSetV r) = Inr r" | "as_ValSet _ = Inl JsonErr"

fun as_Jail :: "Value \<Rightarrow> JailRecord res" where
  "as_Jail (JailV r) = Inr r" | "as_Jail _ = Inl JsonErr"

section \<open>The exchange sort\<close>

text \<open>The two nested loops with their swap, as the source has them.\<close>

function exch_inner :: "nat \<Rightarrow> nat \<Rightarrow> 'a::linorder list \<Rightarrow> 'a list" where
  "exch_inner i j xs =
     (if j < length xs
      then exch_inner i (j + 1) (if xs ! j < xs ! i then xs[i := xs ! j, j := xs ! i] else xs)
      else xs)"
  by pat_completeness auto
termination
  by (relation "measure (\<lambda>(i, j, xs). length xs - j)") auto

declare exch_inner.simps [simp del]

lemma length_exch_inner [simp]: "length (exch_inner i j xs) = length xs"
proof (induction i j xs rule: exch_inner.induct)
  case (1 i j xs)
  show ?case by (subst exch_inner.simps) (use 1 in auto)
qed

function exch_outer :: "nat \<Rightarrow> 'a::linorder list \<Rightarrow> 'a list" where
  "exch_outer i xs = (if i < length xs then exch_outer (i + 1) (exch_inner i (i + 1) xs) else xs)"
  by pat_completeness auto
termination
  by (relation "measure (\<lambda>(i, xs). length xs - i)") auto

declare exch_outer.simps [simp del]

text \<open>Blank and repeated addresses are dropped while the list is built, the first occurrence stays.\<close>

fun collect_addrs :: "string list \<Rightarrow> string list \<Rightarrow> string list" where
  "collect_addrs [] acc = acc"
| "collect_addrs (a # addrs) acc =
     (let n = ToLower (TrimSpace a) in
      if n = [] \<or> n \<in> set acc then collect_addrs addrs acc else collect_addrs addrs (acc @ [n]))"

section \<open>The validator set\<close>

definition GetValidatorSet :: "Store \<Rightarrow> ValidatorSetRecord option res" where
  "GetValidatorSet s =
     (case txn_Get s (db s) validatorSetKey of
        Inl KeyNotFound \<Rightarrow> Inr None
      | Inl e \<Rightarrow> Inl e
      | Inr v \<Rightarrow> (case as_ValSet v of Inl e \<Rightarrow> Inl e | Inr r \<Rightarrow> Inr (Some r)))"

definition SaveValidatorSet :: "Store \<Rightarrow> int \<Rightarrow> string list \<Rightarrow> ValidatorSetRecord res \<times> Store" where
  "SaveValidatorSet s now addrs =
     (let list = exch_outer 0 (collect_addrs addrs []);
          epoch = (case GetValidatorSet s of Inr (Some prev) \<Rightarrow> vsr_Epoch prev + 1 | _ \<Rightarrow> 1);
          rec = \<lparr>vsr_Addresses = list, vsr_UpdatedAt = now, vsr_Epoch = epoch\<rparr>
      in case db_Update s (\<lambda>d. txn_Set s d validatorSetKey (ValSetV rec)) of
           (Inl e, s') \<Rightarrow> (Inl e, s')
         | (Inr _, s') \<Rightarrow> (Inr rec, s'))"

section \<open>The jail\<close>

text \<open>The clock is read twice: \<open>now\<close> for \<^verbatim>\<open>JailedAt\<close>, \<open>now2\<close> for the end of the term.\<close>

definition JailValidator ::
  "Store \<Rightarrow> int \<Rightarrow> int \<Rightarrow> string \<Rightarrow> string \<Rightarrow> string \<Rightarrow> int \<Rightarrow> unit res \<times> Store" where
  "JailValidator s now now2 addr0 reason evidence duration =
     (let addr = ToLower (TrimSpace addr0) in
      if addr = [] then (Inl (Errorf ''address required''), s)
      else
        let until = (if duration > 0 then i64 (now2 + duration) else 0);
            rec = \<lparr>jail_Address = addr, jail_Reason = reason, jail_JailedAt = now, jail_Until = until,
                   jail_Evidence = evidence\<rparr>
        in db_Update s (\<lambda>d. txn_Set s d (jailKey addr) (JailV rec)))"

definition UnjailValidator :: "Store \<Rightarrow> string \<Rightarrow> unit res \<times> Store" where
  "UnjailValidator s addr0 =
     (let addr = ToLower (TrimSpace addr0) in db_Update s (\<lambda>d. txn_Delete s d (jailKey addr)))"

definition IsJailed :: "Store \<Rightarrow> int \<Rightarrow> string \<Rightarrow> (bool \<times> JailRecord option) res \<times> Store" where
  "IsJailed s now addr0 =
     (let addr = ToLower (TrimSpace addr0);
          found = (case txn_Get s (db s) (jailKey addr) of Inl e \<Rightarrow> Inl e | Inr v \<Rightarrow> as_Jail v)
      in case found of
           Inl KeyNotFound \<Rightarrow> (Inr (False, None), s)
         | Inl e \<Rightarrow> (Inl e, s)
         | Inr rec \<Rightarrow>
             if jail_Until rec > 0 \<and> now > jail_Until rec
             then (Inr (False, None), snd (UnjailValidator s addr))
             else (Inr (True, Some rec), s))"

fun list_jailed :: "Store \<Rightarrow> int \<Rightarrow> nat \<Rightarrow> DB \<Rightarrow> JailRecord list \<Rightarrow> JailRecord list res" where
  "list_jailed s now limit [] out = Inr out"
| "list_jailed s now limit ((k, v) # es) out =
     (if getFault s k then Inl BadgerErr
      else case as_Jail v of
             Inl e \<Rightarrow> Inl e
           | Inr rec \<Rightarrow>
               if jail_Until rec > 0 \<and> now > jail_Until rec then list_jailed s now limit es out
               else if length (out @ [rec]) \<ge> limit then Inr (out @ [rec])
               else list_jailed s now limit es (out @ [rec]))"

definition ListJailed :: "Store \<Rightarrow> int \<Rightarrow> int \<Rightarrow> JailRecord list res" where
  "ListJailed s now limit =
     (let lim = (if limit \<le> 0 \<or> limit > 500 then 100 else limit)
      in list_jailed s now (nat lim) (iter_prefix ''jail:'' (db s)) [])"

section \<open>The exchange sort sorts\<close>

lemma mset_exch_inner [simp]: "i < j \<Longrightarrow> mset (exch_inner i j xs) = mset xs"
proof (induction i j xs rule: exch_inner.induct)
  case (1 i j xs)
  show ?case
  proof (cases "j < length xs")
    case True
    have "mset (if xs ! j < xs ! i then xs[i := xs ! j, j := xs ! i] else xs) = mset xs"
      using True "1.prems" by (simp add: mset_swap)
    with 1 True show ?thesis by (subst exch_inner.simps) simp
  next
    case False
    then show ?thesis by (subst exch_inner.simps) simp
  qed
qed

text \<open>The inner loop leaves the positions before \<open>i\<close> alone and brings a minimum of the rest to \<open>i\<close>.\<close>

lemma exch_inner_spec:
  assumes "i < j" "i < length xs" "\<And>k. i < k \<Longrightarrow> k < j \<Longrightarrow> k < length xs \<Longrightarrow> xs ! i \<le> xs ! k"
  shows "(\<forall>k < i. exch_inner i j xs ! k = xs ! k)
    \<and> (\<forall>k. i < k \<longrightarrow> k < length xs \<longrightarrow> exch_inner i j xs ! i \<le> exch_inner i j xs ! k)"
  using assms
proof (induction i j xs rule: exch_inner.induct)
  case (1 i j xs)
  show ?case
  proof (cases "j < length xs")
    case True
    let ?ys = "if xs ! j < xs ! i then xs[i := xs ! j, j := xs ! i] else xs"
    have ys: "?ys ! i \<le> ?ys ! k" if "i < k" "k < j + 1" "k < length ?ys" for k
    proof (cases "k = j")
      case False
      moreover have "k < length xs" using that(3) by (simp split: if_splits)
      ultimately have "xs ! i \<le> xs ! k" using that "1.prems"(3) [of k] by auto
      then show ?thesis using that(1,2) "1.prems"(1,2) True False by (auto intro: order_trans [OF less_imp_le])
    qed (use True "1.prems" in auto)
    have "(\<forall>k < i. exch_inner i (j + 1) ?ys ! k = ?ys ! k)
      \<and> (\<forall>k. i < k \<longrightarrow> k < length ?ys \<longrightarrow> exch_inner i (j + 1) ?ys ! i \<le> exch_inner i (j + 1) ?ys ! k)"
      using "1.prems"(1,2) ys by (intro "1.IH" [OF True]) auto
    moreover have "exch_inner i j xs = exch_inner i (j + 1) ?ys" using True by (subst exch_inner.simps) simp
    moreover have "?ys ! k = xs ! k" if "k < i" for k using that "1.prems"(1) by auto
    ultimately show ?thesis by simp
  next
    case False
    then have "exch_inner i j xs = xs" by (subst exch_inner.simps) simp
    with "1.prems" False show ?thesis by auto
  qed
qed

lemma exch_outer_spec:
  assumes "\<And>p q. p < i \<Longrightarrow> p < q \<Longrightarrow> q < length xs \<Longrightarrow> xs ! p \<le> xs ! q"
  shows "mset (exch_outer i xs) = mset xs \<and> sorted (exch_outer i xs)"
  using assms
proof (induction i xs rule: exch_outer.induct)
  case (1 i xs)
  show ?case
  proof (cases "i < length xs")
    case True
    let ?ys = "exch_inner i (i + 1) xs"
    have sp: "\<forall>k < i. ?ys ! k = xs ! k" "\<forall>k. i < k \<longrightarrow> k < length xs \<longrightarrow> ?ys ! i \<le> ?ys ! k"
      using exch_inner_spec [of i "i + 1" xs] True by auto
    have low: "xs ! p \<le> ?ys ! q" if "p < i" "p < q" "q < length xs" for p q
    proof (cases "q < i")
      case False
      have "mset (drop i ?ys) = mset (drop i xs)"
      proof -
        have "take i ?ys = take i xs" using sp(1) True by (intro nth_equalityI) auto
        then show ?thesis
          using mset_exch_inner [of i "i + 1" xs]
          by (metis add_left_cancel append_take_drop_id less_add_one mset_append)
      qed
      moreover have "drop i ?ys ! (q - i) = ?ys ! q" "q - i < length (drop i ?ys)" using False that by auto
      ultimately have "?ys ! q \<in> set (drop i xs)" by (metis nth_mem set_mset_mset)
      then obtain m where "m < length (drop i xs)" "?ys ! q = drop i xs ! m" by (metis in_set_conv_nth)
      then obtain k where "i \<le> k" "k < length xs" "?ys ! q = xs ! k" by (intro that [of "i + m"]) auto
      with "1.prems" [of p k] that show ?thesis by simp
    qed (use sp that "1.prems" [of p q] in auto)
    have "mset (exch_outer (i + 1) ?ys) = mset ?ys \<and> sorted (exch_outer (i + 1) ?ys)"
    proof (rule "1.IH" [OF True])
      fix p q assume "p < i + 1" "p < q" "q < length ?ys"
      then show "?ys ! p \<le> ?ys ! q" using sp low [of p q] by (cases "p = i") auto
    qed
    then show ?thesis using True by (subst (1 2) exch_outer.simps) simp
  next
    case False
    then have "sorted xs" using "1.prems" by (auto simp: sorted_iff_nth_mono_less)
    with False show ?thesis by (subst (1 2) exch_outer.simps) simp
  qed
qed

lemma exch_outer_sort: "exch_outer 0 xs = sort xs"
  using exch_outer_spec [of 0 xs] by (metis not_less_zero properties_for_sort)

section \<open>The persisted set\<close>

text \<open>The roster of a list of addresses: normalised, without blanks and repetitions, ascending.\<close>

definition roster :: "string list \<Rightarrow> string list" where
  "roster addrs = sorted_list_of_set {n \<in> normalizeAddr ` set addrs. n \<noteq> []}"

lemma collect_addrs_spec:
  "distinct acc \<Longrightarrow> distinct (collect_addrs addrs acc)
     \<and> set (collect_addrs addrs acc) = set acc \<union> {n \<in> normalizeAddr ` set addrs. n \<noteq> []}"
  by (induction addrs acc rule: collect_addrs.induct) (auto simp: Let_def normalizeAddr_def)

lemma exch_collect_roster: "exch_outer 0 (collect_addrs addrs []) = roster addrs"
proof -
  note c = collect_addrs_spec [of "[]" addrs, simplified]
  then have "sort (collect_addrs addrs []) = sorted_list_of_set (set (collect_addrs addrs []))"
    by (metis distinct_remdups_id sorted_list_of_set_sort_remdups)
  with c show ?thesis by (simp add: exch_outer_sort roster_def)
qed

lemma roster_props [simp]:
  "sorted (roster addrs)" "distinct (roster addrs)" "set (roster addrs) = {n \<in> normalizeAddr ` set addrs. n \<noteq> []}"
  by (simp_all add: roster_def)

lemma roster_roster [simp]: "roster (roster addrs) = roster addrs"
proof -
  have "{n \<in> normalizeAddr ` set (roster addrs). n \<noteq> []} = {n \<in> normalizeAddr ` set addrs. n \<noteq> []}" (is "?l = ?r")
  proof (intro equalityI subsetI)
    fix n assume "n \<in> ?l" then show "n \<in> ?r" by auto
  next
    fix n assume n: "n \<in> ?r"
    then have "n \<in> set (roster addrs)" "normalizeAddr n = n" by auto
    with n show "n \<in> ?l" by (metis (mono_tags, lifting) imageI mem_Collect_eq)
  qed
  then show ?thesis by (simp add: roster_def)
qed

text \<open>
  Saving a validator set on a healthy store records the normalised addresses, each once, in
  ascending order (the nested exchange loops sort), with an epoch one above the previous record's;
  the record can be read back, and no other key of the store changes.
\<close>

theorem SaveValidatorSet_roundtrip:
  assumes h: "healthy s"
  shows "\<exists>r s'. SaveValidatorSet s now addrs = (Inr r, s') \<and> GetValidatorSet s' = Inr (Some r)
    \<and> vsr_Addresses r = roster addrs
    \<and> vsr_Epoch r = (case GetValidatorSet s of Inr (Some p) \<Rightarrow> vsr_Epoch p + 1 | _ \<Rightarrow> 1)
    \<and> (\<forall>k. k \<noteq> validatorSetKey \<longrightarrow> map_of (db s') k = map_of (db s) k)"
  using h by (simp add: SaveValidatorSet_def Let_def db_Update_def txn_Set_def GetValidatorSet_def txn_Get_def exch_collect_roster)

section \<open>Jail terms\<close>

definition jailed_at :: "DB \<Rightarrow> int \<Rightarrow> string \<Rightarrow> bool" where
  "jailed_at d now a =
     (case map_of d (jailKey (normalizeAddr a)) of
        Some (JailV r) \<Rightarrow> \<not> (jail_Until r > 0 \<and> now > jail_Until r) | _ \<Rightarrow> False)"

text \<open>Only jail records are stored under the jail keys.\<close>

definition jail_typed :: "DB \<Rightarrow> bool" where
  "jail_typed d \<longleftrightarrow> (\<forall>a v. map_of d (jailKey a) = Some v \<longrightarrow> (\<exists>r. v = JailV r))"

lemma jail_typedD: "map_of d (jailKey a) = Some v \<Longrightarrow> jail_typed d \<Longrightarrow> \<exists>r. v = JailV r"
  by (auto simp: jail_typed_def)

lemma jailKey_simps [simp]:
  "jailKey a \<noteq> accountKey b" "accountKey b \<noteq> jailKey a" "jailKey a \<noteq> metaKey m" "metaKey m \<noteq> jailKey a"
  "jailKey (normalizeAddr a) = jailKey (normalizeAddr b) \<longleftrightarrow> normalizeAddr a = normalizeAddr b"
  by (simp_all add: jailKey_def accountKey_def metaKey_def normalizeAddr_def)

lemma norm_eq: "ToLower (TrimSpace a) = normalizeAddr a"
  by (simp add: normalizeAddr_def)

lemma IsJailed_healthy:
  assumes h: "healthy s" and ty: "jail_typed (db s)"
  obtains r s' where "IsJailed s now a = (Inr (jailed_at (db s) now a, r), s')" "healthy s'"
    "db s' = db s \<or> (db s' = kv_del (jailKey (normalizeAddr a)) (db s) \<and> \<not> jailed_at (db s) now a)"
    "s' = s\<lparr>db := db s'\<rparr>"
proof (cases "map_of (db s) (jailKey (normalizeAddr a))")
  case None
  then have "IsJailed s now a = (Inr (jailed_at (db s) now a, None), s)"
    using h by (simp add: IsJailed_def Let_def txn_Get_def jailed_at_def norm_eq)
  then show thesis by (rule that) (use h in simp_all)
next
  case (Some v)
  with ty obtain r where v: "v = JailV r" by (auto simp: jail_typed_def)
  show thesis
  proof (cases "jail_Until r > 0 \<and> now > jail_Until r")
    case True
    have "IsJailed s now a = (Inr (jailed_at (db s) now a, None), s\<lparr>db := kv_del (jailKey (normalizeAddr a)) (db s)\<rparr>)"
      using h Some v True
      by (simp add: IsJailed_def Let_def txn_Get_def jailed_at_def norm_eq UnjailValidator_def db_Update_def txn_Delete_def)
    then show thesis by (rule that) (use h Some v True in \<open>simp_all add: jailed_at_def\<close>)
  next
    case False
    then have "IsJailed s now a = (Inr (jailed_at (db s) now a, Some r), s)"
      using h Some v by (auto simp: IsJailed_def Let_def txn_Get_def jailed_at_def norm_eq)
    then show thesis by (rule that) (use h in simp_all)
  qed
qed

text \<open>
  A jailed validator is reported as jailed, under every spelling of its address, exactly until its
  term is over; lifting the jail ends it at once; and neither operation changes the status of any
  other address.
\<close>

theorem jail_lifecycle:
  assumes h: "healthy s" and ty: "jail_typed (db s)" and a: "normalizeAddr a \<noteq> []"
    and du: "0 < dur" and rng: "0 < now2" "in_i64 (now2 + dur)"
  shows "\<exists>s1 s2. JailValidator s now now2 a reason ev dur = (Inr (), s1) \<and> UnjailValidator s1 a = (Inr (), s2)
    \<and> (\<forall>b t. normalizeAddr b = normalizeAddr a \<longrightarrow>
         (\<exists>r. fst (IsJailed s1 t b) = Inr (t \<le> now2 + dur, r)) \<and> fst (IsJailed s2 t b) = Inr (False, None))
    \<and> (\<forall>b t. normalizeAddr b \<noteq> normalizeAddr a \<longrightarrow>
         fst (IsJailed s1 t b) = fst (IsJailed s t b) \<and> fst (IsJailed s2 t b) = fst (IsJailed s t b))"
proof -
  let ?k = "jailKey (normalizeAddr a)"
  define r where "r = \<lparr>jail_Address = normalizeAddr a, jail_Reason = reason, jail_JailedAt = now,
    jail_Until = now2 + dur, jail_Evidence = ev\<rparr>"
  define s1 where "s1 = s\<lparr>db := kv_set ?k (JailV r) (db s)\<rparr>"
  define s2 where "s2 = s\<lparr>db := kv_del ?k (db s1)\<rparr>"
  have j: "JailValidator s now now2 a reason ev dur = (Inr (), s1)"
    using a h du rng by (simp add: JailValidator_def Let_def norm_eq db_Update_def txn_Set_def s1_def r_def i64_id)
  have u: "UnjailValidator s1 a = (Inr (), s2)"
    using h by (simp add: UnjailValidator_def norm_eq db_Update_def txn_Delete_def s1_def s2_def)
  have unf: "fst (IsJailed x t b) = (case map_of (db x) (jailKey (normalizeAddr b)) of
      None \<Rightarrow> Inr (False, None) | Some v \<Rightarrow> (case as_Jail v of Inl e \<Rightarrow> Inl e | Inr rec \<Rightarrow>
        Inr (if jail_Until rec > 0 \<and> t > jail_Until rec then (False, None) else (True, Some rec))))"
    if "healthy x" "jail_typed (db x)" for x t b
    using that by (auto simp: IsJailed_def Let_def norm_eq txn_Get_def dest!: jail_typedD split: option.splits)
  have jt: "jail_typed (db s1)" "jail_typed (db s2)"
    using ty by (auto simp: jail_typed_def s1_def s2_def map_of_kv_del)
  have hs: "healthy s1" "healthy s2" using h by (simp_all add: s1_def s2_def)
  have "\<exists>r. fst (IsJailed s1 t b) = Inr (t \<le> now2 + dur, r)" "fst (IsJailed s2 t b) = Inr (False, None)"
    if "normalizeAddr b = normalizeAddr a" for b t
    using that rng du unfolding unf [OF hs(1) jt(1)] unf [OF hs(2) jt(2)]
    by (auto simp: s1_def s2_def r_def map_of_kv_del)
  moreover have "fst (IsJailed s1 t b) = fst (IsJailed s t b)" "fst (IsJailed s2 t b) = fst (IsJailed s t b)"
    if "normalizeAddr b \<noteq> normalizeAddr a" for b t
    using that unfolding unf [OF hs(1) jt(1)] unf [OF hs(2) jt(2)] unf [OF h ty]
    by (simp_all add: s1_def s2_def map_of_kv_del)
  ultimately show ?thesis using j u by blast
qed

text \<open>A healthy store with no entries.\<close>

definition fresh_store :: Store where
  "fresh_store = \<lparr>db = [], getFault = (\<lambda>_. False), setFault = (\<lambda>_. False), commitFault = False,
     totalMaxSupply = 0, minValidatorStake = 0, chainSigningAddr = [], numericChainID = 0\<rparr>"

lemma fresh_store_simps [simp]: "healthy fresh_store" "db fresh_store = []" "jail_typed (db fresh_store)"
  by (simp_all add: fresh_store_def healthy_def jail_typed_def)

theorem SaveValidatorSet_roundtrip_witness:
  "\<exists>r s'. SaveValidatorSet fresh_store 5 [''0xab''] = (Inr r, s') \<and> GetValidatorSet s' = Inr (Some r)"
  using SaveValidatorSet_roundtrip [OF fresh_store_simps(1), of 5 "[''0xab'']"] by blast

theorem jail_lifecycle_witness:
  "\<exists>s1. JailValidator fresh_store 5 5 ''x'' [] [] 10 = (Inr (), s1)
    \<and> (\<exists>r. fst (IsJailed s1 15 ''x'') = Inr (True, r)) \<and> (\<exists>r. fst (IsJailed s1 16 ''x'') = Inr (False, r))"
proof -
  have n: "normalizeAddr ''x'' \<noteq> []" by (simp add: normalizeAddr_def TrimSpace_def is_space_def)
  obtain s1 s2 where "JailValidator fresh_store 5 5 ''x'' [] [] 10 = (Inr (), s1)"
    and "\<forall>b t. normalizeAddr b = normalizeAddr ''x'' \<longrightarrow>
         (\<exists>r. fst (IsJailed s1 t b) = Inr (t \<le> 5 + 10, r)) \<and> fst (IsJailed s2 t b) = Inr (False, None)"
    using jail_lifecycle [OF fresh_store_simps(1,3) n, of 10 5 5 "[]" "[]"] by (auto simp: in_i64_def)
  moreover from this(2) have "\<exists>r. fst (IsJailed s1 15 ''x'') = Inr (15 \<le> (5 + 10 :: int), r)"
    "\<exists>r. fst (IsJailed s1 16 ''x'') = Inr (16 \<le> (5 + 10 :: int), r)" by blast+
  ultimately show ?thesis by auto
qed

end
