(* ===== verification/Leader.thy ===== *)
theory Leader
  imports Validators
begin

text \<open>
  Package \<^verbatim>\<open>internal/consensus\<close>, files \<^verbatim>\<open>leader.go\<close> and \<^verbatim>\<open>jail.go\<close>: the round-robin leader schedule. The
  store pointer of the schedule is shared with the rest of the node, so the store is an argument
  and \<open>ls_store\<close> says whether the pointer has been wired. Asking for the eligible validators may
  delete expired jail records, so these queries return the store. \<open>now\<close> is the clock reading used
  by the jail checks of one query.
\<close>

record LeaderSchedule =
  ls_validators :: "string list"
  ls_localAddr :: string
  ls_store :: bool

definition NewLeaderSchedule :: "string \<Rightarrow> LeaderSchedule" where
  "NewLeaderSchedule localAddr =
     \<lparr>ls_validators = [], ls_localAddr = ToLower (TrimSpace localAddr), ls_store = False\<rparr>"

definition SetStore :: "LeaderSchedule \<Rightarrow> LeaderSchedule" where
  "SetStore l = l\<lparr>ls_store := True\<rparr>"

definition SetLocalAddress :: "LeaderSchedule \<Rightarrow> string \<Rightarrow> LeaderSchedule" where
  "SetLocalAddress l addr = l\<lparr>ls_localAddr := ToLower (TrimSpace addr)\<rparr>"

section \<open>Eligibility\<close>

fun eligible_loop :: "Store \<Rightarrow> int \<Rightarrow> int \<Rightarrow> string list \<Rightarrow> string list \<times> Store" where
  "eligible_loop s now minStake [] = ([], s)"
| "eligible_loop s now minStake (addr # addrs) =
     (case IsJailed s now addr of
        (Inr (True, _), s') \<Rightarrow> eligible_loop s' now minStake addrs
      | (_, s') \<Rightarrow>
          (case GetAccount s' addr of
             Inl _ \<Rightarrow> eligible_loop s' now minStake addrs
           | Inr acc \<Rightarrow>
               if minStake > 0 \<and> acc_Staked acc < minStake then eligible_loop s' now minStake addrs
               else (let (out, s'') = eligible_loop s' now minStake addrs in (addr # out, s''))))"

definition eligibleValidatorsLocked :: "LeaderSchedule \<Rightarrow> Store \<Rightarrow> int \<Rightarrow> string list \<times> Store" where
  "eligibleValidatorsLocked l s now =
     (if \<not> ls_store l then (ls_validators l, s)
      else eligible_loop s now (minValidatorStake s) (ls_validators l))"

section \<open>The validator set\<close>

definition norm_addrs :: "string list \<Rightarrow> string list" where
  "norm_addrs addrs = filter (\<lambda>a. a \<noteq> []) (map (\<lambda>a. ToLower (TrimSpace a)) addrs)"

text \<open>The keys of a map in no particular order, then sorted: the list of the set in order.\<close>

definition SetValidators :: "LeaderSchedule \<Rightarrow> Store \<Rightarrow> int \<Rightarrow> string list \<Rightarrow> LeaderSchedule \<times> Store" where
  "SetValidators l s now addrs =
     (let list = sort (remdups (norm_addrs addrs));
          l' = l\<lparr>ls_validators := list\<rparr>
      in if ls_store l \<and> list \<noteq> [] then (l', snd (SaveValidatorSet s now list)) else (l', s))"

definition LoadFromStore :: "LeaderSchedule \<Rightarrow> Store \<Rightarrow> bool \<times> LeaderSchedule" where
  "LoadFromStore l s =
     (if \<not> ls_store l then (False, l)
      else case GetValidatorSet s of
        Inr (Some rec) \<Rightarrow>
          if vsr_Addresses rec = [] then (False, l)
          else (True, l\<lparr>ls_validators := sort (vsr_Addresses rec)\<rparr>)
      | _ \<Rightarrow> (False, l))"

definition IsEligible :: "LeaderSchedule \<Rightarrow> Store \<Rightarrow> string \<Rightarrow> bool res" where
  "IsEligible l s addr =
     (if \<not> ls_store l then Inl (Errorf ''leader schedule has no store wired'')
      else case GetAccount s addr of
        Inl e \<Rightarrow> Inl e
      | Inr acc \<Rightarrow> Inr (acc_Staked acc \<ge> minValidatorStake s))"

definition AddValidator :: "LeaderSchedule \<Rightarrow> string \<Rightarrow> LeaderSchedule" where
  "AddValidator l addr0 =
     (let addr = ToLower (TrimSpace addr0) in
      if addr = [] then l
      else if addr \<in> set (ls_validators l) then l
      else l\<lparr>ls_validators := sort (ls_validators l @ [addr])\<rparr>)"

definition RemoveValidator :: "LeaderSchedule \<Rightarrow> string \<Rightarrow> LeaderSchedule" where
  "RemoveValidator l addr0 =
     (let addr = ToLower (TrimSpace addr0)
      in l\<lparr>ls_validators := filter (\<lambda>v. v \<noteq> addr) (ls_validators l)\<rparr>)"

definition Count :: "LeaderSchedule \<Rightarrow> nat" where
  "Count l = length (ls_validators l)"

section \<open>Rotation\<close>

definition pick_leader :: "string \<Rightarrow> string list \<Rightarrow> uint64 \<Rightarrow> string" where
  "pick_leader localAddr eligible height =
     (let n = length eligible in
      if n = 0 then localAddr
      else if n = 1 then eligible ! 0
      else eligible ! unat (height mod word_of_nat n))"

definition LeaderForHeight :: "LeaderSchedule \<Rightarrow> Store \<Rightarrow> int \<Rightarrow> uint64 \<Rightarrow> string \<times> Store" where
  "LeaderForHeight l s now height =
     (let (eligible, s') = eligibleValidatorsLocked l s now
      in (pick_leader (ls_localAddr l) eligible height, s'))"

definition IsLocalLeader :: "LeaderSchedule \<Rightarrow> Store \<Rightarrow> int \<Rightarrow> uint64 \<Rightarrow> bool \<times> Store" where
  "IsLocalLeader l s now height =
     (let (leader, s1) = LeaderForHeight l s now height;
          (eligible, s2) = eligibleValidatorsLocked l s1 now
      in if ls_localAddr l = [] then (length eligible = 0, s2)
         else (EqualFold leader (ls_localAddr l), s2))"

record LeaderStats =
  st_mode :: string
  st_validator_count :: nat
  st_registered_validators :: "string list"
  st_eligible_validators :: "string list"
  st_local_address :: string
  st_next_height :: uint64
  st_next_leader :: string
  st_is_local_leader :: bool

definition Stats :: "LeaderSchedule \<Rightarrow> Store \<Rightarrow> int \<Rightarrow> uint64 \<Rightarrow> LeaderStats \<times> Store" where
  "Stats l s now nextHeight =
     (let (eligible, s') = eligibleValidatorsLocked l s now;
          n = length eligible;
          mode = (if n = 1 then ''single'' else if n \<ge> 2 then ''round_robin'' else ''solo'');
          leader = (if n > 0 then eligible ! (if n = 1 then 0 else unat (nextHeight mod word_of_nat n))
                    else ls_localAddr l)
      in (\<lparr>st_mode = mode, st_validator_count = n, st_registered_validators = ls_validators l,
           st_eligible_validators = eligible, st_local_address = ls_localAddr l,
           st_next_height = nextHeight, st_next_leader = leader,
           st_is_local_leader = (n = 0 \<or> ls_localAddr l = [] \<or> EqualFold leader (ls_localAddr l))\<rparr>, s'))"

section \<open>Jailing for equivocation\<close>

definition DefaultJailDuration :: int where
  "DefaultJailDuration = 24 * 60 * 60 * 1000"

definition JailOnEquivocation ::
  "Store option \<Rightarrow> int \<Rightarrow> int \<Rightarrow> string \<Rightarrow> uint64 \<Rightarrow> int \<Rightarrow> string \<Rightarrow> string \<Rightarrow> unit res \<times> Store option" where
  "JailOnEquivocation st now now2 voter height round hashA hashB =
     (case st of
        None \<Rightarrow> (Inl (Errorf ''nil store''), None)
      | Some s \<Rightarrow>
          let evidence = ''equivocation height='' @ show_u64 height @ '' round='' @ show_int round
                @ '' hash_a='' @ hashA @ '' hash_b='' @ hashB;
              (r, s') = JailValidator s now now2 voter ''equivocation'' evidence DefaultJailDuration
          in (r, Some s'))"

section \<open>Who is eligible\<close>

definition is_eligible :: "DB \<Rightarrow> int \<Rightarrow> int \<Rightarrow> string \<Rightarrow> bool" where
  "is_eligible d minStake now a \<longleftrightarrow>
     \<not> jailed_at d now a \<and> (minStake \<le> 0 \<or> minStake \<le> acc_Staked (acct d a))"

text \<open>\<open>swept now s s'\<close>: the stores differ at most in jail records that have expired by \<open>now\<close>.\<close>

definition swept :: "int \<Rightarrow> Store \<Rightarrow> Store \<Rightarrow> bool" where
  "swept now s s' \<longleftrightarrow> s' = s\<lparr>db := db s'\<rparr> \<and> (wf_db (db s) \<longrightarrow> wf_db (db s'))
     \<and> (jail_typed (db s) \<longrightarrow> jail_typed (db s'))
     \<and> (\<forall>k. \<not> prefix ''jail:'' k \<longrightarrow> map_of (db s') k = map_of (db s) k)
     \<and> (\<forall>a t. now \<le> t \<longrightarrow> jailed_at (db s') t a = jailed_at (db s) t a)"

lemma swept_refl [simp]: "swept now s s"
  by (simp add: swept_def)

lemma swept_trans: "swept now s s' \<Longrightarrow> swept now s' s'' \<Longrightarrow> swept now s s''"
  unfolding swept_def by (intro conjI) (metis (no_types, lifting) Store.surjective Store.update_convs(1))+

lemma swept_eligible: "swept now s s' \<Longrightarrow> is_eligible (db s') m now a = is_eligible (db s) m now a"
  by (simp add: swept_def is_eligible_def acct_def accountKey_def)

lemma swept_healthy: "swept now s s' \<Longrightarrow> healthy s \<Longrightarrow> healthy s'"
  unfolding swept_def by (metis healthy_simps(4))

lemma swept_min: "swept now s s' \<Longrightarrow> minValidatorStake s' = minValidatorStake s"
  unfolding swept_def by (metis Store.select_convs(6) Store.surjective Store.update_convs(1))

lemma swept_wf: "swept now s s' \<Longrightarrow> wf_db (db s) \<Longrightarrow> wf_db (db s')"
  and swept_typed: "swept now s s' \<Longrightarrow> jail_typed (db s) \<Longrightarrow> jail_typed (db s')"
  and swept_acct: "swept now s s' \<Longrightarrow> acct (db s') a = acct (db s) a"
  unfolding swept_def acct_def accountKey_def by auto

lemma swept_store: "swept now s s' \<Longrightarrow> s' = s\<lparr>db := db s'\<rparr>"
  and swept_other: "swept now s s' \<Longrightarrow> \<not> prefix ''jail:'' k \<Longrightarrow> map_of (db s') k = map_of (db s) k"
  unfolding swept_def by blast+

lemma wf_db_del: "wf_db d \<Longrightarrow> wf_db (kv_del k d)"
  by (auto simp: wf_db_def kv_del_def kv_sorted_filter)

lemma jail_typed_del: "jail_typed d \<Longrightarrow> jail_typed (kv_del k d)"
  by (auto simp: jail_typed_def map_of_kv_del)

lemma jailed_at_mono: "\<not> jailed_at d now a \<Longrightarrow> now \<le> t \<Longrightarrow> \<not> jailed_at d t a"
  by (auto simp: jailed_at_def split: option.splits Value.splits)

lemma jailed_at_del:
  "jailed_at (kv_del (jailKey (normalizeAddr a)) d) t b =
     (normalizeAddr b \<noteq> normalizeAddr a \<and> jailed_at d t b)"
  by (simp add: jailed_at_def map_of_kv_del)

lemma jailed_at_norm: "normalizeAddr a = normalizeAddr b \<Longrightarrow> jailed_at d t a = jailed_at d t b"
  by (simp add: jailed_at_def)

lemma IsJailed_swept:
  assumes "healthy s" "jail_typed (db s)"
  obtains r s' where "IsJailed s now a = (Inr (jailed_at (db s) now a, r), s')" "swept now s s'"
proof -
  from IsJailed_healthy [OF assms, of now a] obtain r s' where
    run: "IsJailed s now a = (Inr (jailed_at (db s) now a, r), s')" and
    d: "db s' = db s \<or> (db s' = kv_del (jailKey (normalizeAddr a)) (db s) \<and> \<not> jailed_at (db s) now a)"
    and st: "s' = s\<lparr>db := db s'\<rparr>" by metis
  have "swept now s s'"
    using d
  proof
    assume "db s' = db s"
    with st show ?thesis by simp
  next
    assume del: "db s' = kv_del (jailKey (normalizeAddr a)) (db s) \<and> \<not> jailed_at (db s) now a"
    then have "jailed_at (db s') t b = jailed_at (db s) t b" if "now \<le> t" for t b
      using jailed_at_mono [of "db s" now a t] jailed_at_norm [of b a "db s" t] that
      by (auto simp: jailed_at_del)
    moreover have "map_of (db s') k = map_of (db s) k" if "\<not> prefix ''jail:'' k" for k
      using del that by (auto simp: map_of_kv_del jailKey_def)
    ultimately show ?thesis
      using st del wf_db_del jail_typed_del by (auto simp: swept_def)
  qed
  with run show thesis by (rule that)
qed

text \<open>The loop visits every validator: its effect on the store is that of the jail checks.\<close>

lemma eligible_loop_store:
  "snd (eligible_loop s now m (a # vs)) = snd (eligible_loop (snd (IsJailed s now a)) now m vs)"
  by (cases "IsJailed s now a") (auto simp: case_prod_beta split: sum.split bool.split)

lemma eligible_loop_spec:
  assumes "healthy s" "jail_typed (db s)" "wf_db (db s)"
  shows "fst (eligible_loop s now m vs) = filter (is_eligible (db s) m now) vs \<and> swept now s (snd (eligible_loop s now m vs))"
  using assms
proof (induction vs arbitrary: s)
  case (Cons a vs)
  obtain r s' where j: "IsJailed s now a = (Inr (jailed_at (db s) now a, r), s')" and sw: "swept now s s'"
    using IsJailed_swept [OF Cons.prems(1,2)] by metis
  have h': "healthy s'" "jail_typed (db s')" "wf_db (db s')"
    using Cons.prems by (auto intro: swept_healthy [OF sw] swept_typed [OF sw] swept_wf [OF sw])
  note IH = Cons.IH [OF h']
  have acc: "GetAccount s' a = Inr (acct (db s) a)"
    using GetAccount_healthy [OF h'(3,1)] swept_acct [OF sw] by simp
  have el: "is_eligible (db s') m now = is_eligible (db s) m now"
    using swept_eligible [OF sw] by (rule ext)
  obtain out s'' where rec: "eligible_loop s' now m vs = (out, s'')" by (cases "eligible_loop s' now m vs")
  have o: "out = filter (is_eligible (db s) m now) vs" "swept now s s''"
    using IH rec el swept_trans [OF sw] by auto
  show ?case
    by (cases "jailed_at (db s) now a") (auto simp: j acc rec o is_eligible_def [of "db s" m now a])
qed simp

lemma eligible_spec:
  assumes "healthy s" "jail_typed (db s)" "wf_db (db s)" "ls_store l"
  shows "fst (eligibleValidatorsLocked l s now) = filter (is_eligible (db s) (minValidatorStake s) now) (ls_validators l)"
    "swept now s (snd (eligibleValidatorsLocked l s now))"
  using eligible_loop_spec [OF assms(1-3)] assms(4) by (simp_all add: eligibleValidatorsLocked_def)

section \<open>The rotation\<close>

lemma pick_leader_eq:
  assumes "0 < length es" "length es < 2 ^ 64"
  shows "pick_leader la es h = es ! (unat h mod length es)"
proof -
  have "unat (word_of_nat (length es) :: uint64) = length es"
    using assms(2) by (simp add: unsigned_of_nat take_bit_nat_eq_self)
  then have "unat (h mod word_of_nat (length es)) = unat h mod length es" by (simp add: unat_mod)
  with assms(1) show ?thesis by (cases "length es = 1") (auto simp: pick_leader_def Let_def)
qed

lemma LeaderForHeight_spec:
  assumes "healthy s" "jail_typed (db s)" "wf_db (db s)" "ls_store l"
  shows "fst (LeaderForHeight l s now h) =
     pick_leader (ls_localAddr l) (filter (is_eligible (db s) (minValidatorStake s) now) (ls_validators l)) h"
  using eligible_spec(1) [OF assms, of now] by (auto simp: LeaderForHeight_def split: prod.splits)

lemma IsLocalLeader_spec:
  assumes "healthy s" "jail_typed (db s)" "wf_db (db s)" "ls_store l"
  shows "fst (IsLocalLeader l s now h) \<longleftrightarrow>
     (let es = filter (is_eligible (db s) (minValidatorStake s) now) (ls_validators l) in
      if ls_localAddr l = [] then es = [] else EqualFold (pick_leader (ls_localAddr l) es h) (ls_localAddr l))"
proof -
  let ?s1 = "snd (LeaderForHeight l s now h)"
  have sw: "swept now s ?s1"
    using eligible_spec(2) [OF assms, of now] by (auto simp: LeaderForHeight_def split: prod.splits)
  then have s1: "healthy ?s1" "jail_typed (db ?s1)" "wf_db (db ?s1)"
    using assms by (auto intro: swept_healthy [OF sw] swept_typed [OF sw] swept_wf [OF sw])
  have "is_eligible (db ?s1) (minValidatorStake ?s1) now = is_eligible (db s) (minValidatorStake s) now"
    using swept_eligible [OF sw] swept_min [OF sw] by auto
  then have "fst (eligibleValidatorsLocked l ?s1 now) = filter (is_eligible (db s) (minValidatorStake s) now) (ls_validators l)"
    using eligible_spec(1) [OF s1 assms(4)] by simp
  with LeaderForHeight_spec [OF assms, of now h] show ?thesis
    by (auto simp: IsLocalLeader_def Let_def split: prod.splits)
qed

text \<open>
  With at least one eligible validator there is one leader per height, and it is one of the
  eligible ones: registered, not jailed, and staked at least the minimum. Two nodes that hold the
  same roster and the same view of the store both regard themselves as leader of a height only if
  they have the same address, and a node without an address never does.
\<close>

theorem leader_unique:
  assumes s: "healthy s" "jail_typed (db s)" "wf_db (db s)"
    and l: "ls_store l" "ls_store l'" "ls_validators l = ls_validators l'" "length (ls_validators l) < 2 ^ 64"
    and some: "\<exists>v \<in> set (ls_validators l). is_eligible (db s) (minValidatorStake s) now v"
  shows "fst (LeaderForHeight l s now h) \<in> set (ls_validators l)
    \<and> is_eligible (db s) (minValidatorStake s) now (fst (LeaderForHeight l s now h))
    \<and> fst (LeaderForHeight l s now h) = fst (LeaderForHeight l' s now h)
    \<and> (fst (IsLocalLeader l s now h) \<and> fst (IsLocalLeader l' s now h) \<longrightarrow>
         ls_localAddr l \<noteq> [] \<and> EqualFold (ls_localAddr l) (ls_localAddr l'))"
proof -
  let ?es = "filter (is_eligible (db s) (minValidatorStake s) now) (ls_validators l)"
  have ne: "?es \<noteq> []" using some by (auto simp: filter_empty_conv)
  have len: "0 < length ?es" "length ?es < 2 ^ 64"
    using ne l(4) length_filter_le [of "is_eligible (db s) (minValidatorStake s) now" "ls_validators l"]
    by (auto simp del: length_filter_le)
  note p = pick_leader_eq [OF len]
  have "unat h mod length ?es < length ?es" using len(1) by simp
  then have "?es ! (unat h mod length ?es) \<in> set ?es" by (rule nth_mem)
  then have "fst (LeaderForHeight l s now h) \<in> set ?es"
    using LeaderForHeight_spec [OF s l(1)] p by simp
  moreover have "fst (LeaderForHeight l s now h) = fst (LeaderForHeight l' s now h)"
    using LeaderForHeight_spec [OF s l(1)] LeaderForHeight_spec [OF s l(2)] p l(3) by simp
  moreover have "ls_localAddr l \<noteq> [] \<and> EqualFold (ls_localAddr l) (ls_localAddr l')"
    if "fst (IsLocalLeader l s now h)" "fst (IsLocalLeader l' s now h)"
    using that IsLocalLeader_spec [OF s l(1), of now h] IsLocalLeader_spec [OF s l(2), of now h] ne p l(3)
    by (auto simp: Let_def EqualFold_def split: if_splits)
  ultimately show ?thesis by auto
qed

lemma mod_shift:
  assumes "r < n" "i < n" "j < n"
  shows "(r + i) mod n = j \<longleftrightarrow> i = (j + n - r) mod (n :: nat)"
proof -
  have 1: "(r + i) mod n = (if r + i < n then r + i else r + i - n)"
    using assms by (simp add: le_mod_geq)
  have 2: "(j + n - r) mod n = (if r \<le> j then j - r else j + n - r)"
  proof (cases "r \<le> j")
    case True
    then have "(j + n - r) mod n = ((j - r) + n) mod n" by simp
    also have "\<dots> = j - r" using assms by simp
    finally show ?thesis using True by simp
  qed (use assms in simp)
  show ?thesis unfolding 1 2 using assms by auto
qed

text \<open>
  C33: the rotation is fair. While the set of \<open>n\<close> eligible validators stays the same, every one of them
  leads exactly one of any \<open>n\<close> consecutive heights.
\<close>

theorem leader_fair:
  assumes s: "healthy s" "jail_typed (db s)" "wf_db (db s)"
    and l: "ls_store l" "distinct (ls_validators l)"
    and v: "v \<in> set (ls_validators l)" "is_eligible (db s) (minValidatorStake s) now v"
    and n: "n = length (filter (is_eligible (db s) (minValidatorStake s) now) (ls_validators l))"
    and b: "unat h + n < 2 ^ 64"
  shows "\<exists>!i. i < n \<and> fst (LeaderForHeight l s now (h + word_of_nat i)) = v"
proof -
  let ?es = "filter (is_eligible (db s) (minValidatorStake s) now) (ls_validators l)"
  have ves: "v \<in> set ?es" using v by simp
  then have n0: "0 < n" using n length_pos_if_in_set [of v ?es] by simp
  have un: "unat (h + word_of_nat i) = unat h + i" if "i < n" for i
  proof -
    have "unat (word_of_nat i :: uint64) = i" using that b by (simp add: unsigned_of_nat take_bit_nat_eq_self)
    then show ?thesis using that b by (subst unat_add_lem [THEN iffD1]) auto
  qed
  have lead: "fst (LeaderForHeight l s now (h + word_of_nat i)) = ?es ! ((unat h + i) mod n)" if "i < n" for i
    using LeaderForHeight_spec [OF s l(1)] pick_leader_eq [of ?es] un [OF that] n0 n b by auto
  obtain j where j: "j < n" "?es ! j = v" using ves n by (metis in_set_conv_nth)
  have inj: "?es ! p = ?es ! q \<longleftrightarrow> p = q" if "p < n" "q < n" for p q
    using that n l(2) by (simp add: nth_eq_iff_index_eq)
  have mods: "(unat h + i) mod n = j \<longleftrightarrow> i = (j + n - unat h mod n) mod n" if "i < n" for i
    using mod_shift [of "unat h mod n" n i j] n0 j(1) that by (simp add: mod_add_left_eq)
  let ?i = "(j + n - unat h mod n) mod n"
  show ?thesis
  proof (rule ex1I [of _ ?i])
    show "?i < n \<and> fst (LeaderForHeight l s now (h + word_of_nat ?i)) = v"
      using lead [of ?i] mods [of ?i] j n0 by simp
  next
    fix i assume i: "i < n \<and> fst (LeaderForHeight l s now (h + word_of_nat i)) = v"
    then have "?es ! ((unat h + i) mod n) = ?es ! j" using lead [of i] j by simp
    with inj [of "(unat h + i) mod n" j] n0 j(1) mods [of i] i show "i = ?i" by simp
  qed
qed

section \<open>The roster\<close>

text \<open>The invariant of a schedule: its validators are normalised, not blank, distinct and ascending.\<close>

definition leader_wf :: "LeaderSchedule \<Rightarrow> bool" where
  "leader_wf l \<longleftrightarrow> sorted (ls_validators l) \<and> distinct (ls_validators l)
     \<and> (\<forall>v \<in> set (ls_validators l). v \<noteq> [] \<and> normalizeAddr v = v)"

lemma leader_wf_roster: "leader_wf l \<longleftrightarrow> roster (ls_validators l) = ls_validators l"
proof
  assume "leader_wf l"
  then have "{n \<in> normalizeAddr ` set (ls_validators l). n \<noteq> []} = set (ls_validators l)"
    by (force simp: leader_wf_def)
  with \<open>leader_wf l\<close> show "roster (ls_validators l) = ls_validators l"
    by (simp add: roster_def leader_wf_def sorted_list_of_set.idem_if_sorted_distinct)
next
  assume eq: "roster (ls_validators l) = ls_validators l"
  have "sorted (roster (ls_validators l))" "distinct (roster (ls_validators l))"
    "\<forall>v \<in> set (roster (ls_validators l)). v \<noteq> [] \<and> normalizeAddr v = v" by auto
  then show "leader_wf l" unfolding leader_wf_def eq by blast
qed

lemma SetValidators_roster: "ls_validators (fst (SetValidators l s now addrs)) = roster addrs"
proof -
  have "set (norm_addrs addrs) = {n \<in> normalizeAddr ` set addrs. n \<noteq> []}"
    by (auto simp: norm_addrs_def norm_eq)
  then show ?thesis
    by (auto simp: SetValidators_def Let_def roster_def sorted_list_of_set_sort_remdups [symmetric])
qed

text \<open>
  Every operation on the schedule keeps the roster normalised, free of duplicates and sorted;
  \<^verbatim>\<open>SetValidators\<close> depends only on the set of addresses it is given, not on their order, spelling or
  repetitions, so nodes told about the same validators derive the same schedule; and a set that was
  saved is what a restarted node loads.
\<close>

theorem roster_invariant:
  assumes "leader_wf l" and "healthy s" and "ls_store l" and "ls_store l2"
  shows "leader_wf (fst (SetValidators l s now addrs)) \<and> leader_wf (AddValidator l a) \<and> leader_wf (RemoveValidator l a)
    \<and> (normalizeAddr ` set addrs = normalizeAddr ` set addrs2 \<longrightarrow>
         ls_validators (fst (SetValidators l s now addrs)) = ls_validators (fst (SetValidators l2 s2 now2 addrs2)))
    \<and> (roster addrs \<noteq> [] \<longrightarrow>
         LoadFromStore l2 (snd (SetValidators l s now addrs)) = (True, l2\<lparr>ls_validators := roster addrs\<rparr>))"
proof -
  have "leader_wf (fst (SetValidators l s now addrs))"
    unfolding leader_wf_roster SetValidators_roster by simp
  moreover have "leader_wf (AddValidator l a)"
    using assms(1) by (auto simp: leader_wf_def AddValidator_def Let_def norm_eq)
  moreover have "leader_wf (RemoveValidator l a)"
    using assms(1) by (auto simp: leader_wf_def RemoveValidator_def Let_def sorted_wrt_filter)
  moreover have "roster addrs = roster addrs2" if "normalizeAddr ` set addrs = normalizeAddr ` set addrs2"
    using that by (simp add: roster_def)
  moreover have "LoadFromStore l2 (snd (SetValidators l s now addrs)) = (True, l2\<lparr>ls_validators := roster addrs\<rparr>)"
    if ne: "roster addrs \<noteq> []"
  proof -
    have list: "sort (remdups (norm_addrs addrs)) = roster addrs"
      using SetValidators_roster [of l s now addrs] by (simp add: SetValidators_def Let_def split: if_splits)
    have "GetValidatorSet (snd (SaveValidatorSet s now (roster addrs)))
       = Inr (Some (case fst (SaveValidatorSet s now (roster addrs)) of Inr r \<Rightarrow> r | Inl _ \<Rightarrow> undefined))
      \<and> vsr_Addresses (case fst (SaveValidatorSet s now (roster addrs)) of Inr r \<Rightarrow> r | Inl _ \<Rightarrow> undefined) = roster addrs"
      using assms(2) by (simp add: SaveValidatorSet_def Let_def db_Update_def txn_Set_def GetValidatorSet_def txn_Get_def
          exch_collect_roster)
    then show ?thesis
      using ne assms(3,4) list by (simp add: SetValidators_def Let_def LoadFromStore_def sorted_sort_id)
  qed
  ultimately show ?thesis unfolding SetValidators_roster by blast
qed

text \<open>A schedule with three validators on an empty store without a minimum stake.\<close>

definition demo_schedule :: LeaderSchedule where
  "demo_schedule = \<lparr>ls_validators = [''a'', ''b'', ''c''], ls_localAddr = ''b'', ls_store = True\<rparr>"

lemma demo_schedule_simps [simp]:
  "ls_store demo_schedule" "ls_validators demo_schedule = [''a'', ''b'', ''c'']" "ls_localAddr demo_schedule = ''b''"
  by (simp_all add: demo_schedule_def)

lemma demo_eligible [simp]: "is_eligible [] (minValidatorStake fresh_store) now v"
  by (simp add: is_eligible_def jailed_at_def) (simp add: fresh_store_def)

lemma wf_fresh [simp]: "wf_db (db fresh_store)"
  by (simp add: wf_db_def)

theorem leader_unique_witness:
  "fst (LeaderForHeight demo_schedule fresh_store 0 7) \<in> {''a'', ''b'', ''c''}"
  using leader_unique [OF fresh_store_simps(1,3) wf_fresh, of demo_schedule demo_schedule 0 7] by auto

theorem leader_fair_witness:
  "\<exists>!i. i < 3 \<and> fst (LeaderForHeight demo_schedule fresh_store 0 (5 + word_of_nat i)) = ''c''"
  using leader_fair [OF fresh_store_simps(1,3) wf_fresh, of demo_schedule "''c''" 0 3 5] by simp

lemma demo_norm: "normalizeAddr [c] = [lower_char c]" if "\<not> is_space c"
  using that by (simp add: normalizeAddr_def TrimSpace_def ToLower_def)

theorem roster_invariant_witness:
  "leader_wf (AddValidator demo_schedule ''x'')"
proof -
  have "leader_wf demo_schedule"
    by (simp add: leader_wf_def demo_norm is_space_def lower_char_def less_eq_char_def)
  from roster_invariant [OF this fresh_store_simps(1), of demo_schedule 0 "[]" "''x''" "[]" fresh_store 0]
  show ?thesis by simp
qed

text \<open>
  The statistics disagree with the scheduler. A node without an address reports itself as the
  local leader whenever validators are eligible, while \<^verbatim>\<open>IsLocalLeader\<close> refuses.
\<close>

theorem Stats_disagrees:
  "let l = demo_schedule\<lparr>ls_localAddr := []\<rparr> in
     st_is_local_leader (fst (Stats l fresh_store now h)) \<and> \<not> fst (IsLocalLeader l fresh_store now h)"
proof -
  let ?l = "demo_schedule\<lparr>ls_localAddr := []\<rparr>"
  have "\<not> fst (IsLocalLeader ?l fresh_store now h)"
    using IsLocalLeader_spec [OF fresh_store_simps(1,3) wf_fresh, of ?l now h] by simp
  moreover have "st_is_local_leader (fst (Stats ?l fresh_store now h))"
    by (simp add: Stats_def Let_def split: prod.splits)
  ultimately show ?thesis by simp
qed

end
