(* ===== verification/Vote.thy ===== *)
theory Vote
  imports State
begin

text \<open>
  Package \<^verbatim>\<open>internal/consensus\<close>, file \<^verbatim>\<open>vote.go\<close>: votes, proposals, their signed messages and the quorum
  size. A pointer that may be nil is an \<open>option\<close>; the transactions of a proposal are pointers.
\<close>

type_synonym VoteType = string

abbreviation VotePrevote :: VoteType where "VotePrevote \<equiv> ''prevote''"
abbreviation VotePrecommit :: VoteType where "VotePrecommit \<equiv> ''precommit''"

record Vote =
  v_Type :: VoteType
  v_Height :: uint64
  v_Round :: int
  v_BlockHash :: string
  v_Voter :: string
  v_Timestamp :: int
  v_Signature :: string

record Proposal =
  p_Height :: uint64
  p_Round :: int
  p_BlockHash :: string
  p_PrevHash :: string
  p_MerkleRoot :: string
  p_Timestamp :: int
  p_Proposer :: string
  p_TxHashes :: "string list"
  p_Txs :: "Transaction option list"
  p_POLRound :: int
  p_Signature :: string

record CommitCertificate =
  cc_Height :: uint64
  cc_Round :: int
  cc_BlockHash :: string
  cc_Votes :: "Vote list"

definition BuildVoteMessage :: "VoteType \<Rightarrow> uint64 \<Rightarrow> int \<Rightarrow> string \<Rightarrow> string" where
  "BuildVoteMessage voteType height round blockHash0 =
     (let blockHash = (if blockHash0 = [] then ''NIL'' else blockHash0)
      in ''EASTCHAIN_VOTE|'' @ voteType @ ''|'' @ show_u64 height @ ''|'' @ show_int round @ ''|'' @ blockHash)"

definition BuildProposalBFTMessage :: "uint64 \<Rightarrow> int \<Rightarrow> string \<Rightarrow> string \<Rightarrow> string" where
  "BuildProposalBFTMessage height round blockHash prevHash =
     ''EASTCHAIN_BFT_PROPOSAL|'' @ show_u64 height @ ''|'' @ show_int round @ ''|'' @ blockHash @ ''|'' @ prevHash"

definition SignVote ::
  "Geth \<Rightarrow> VoteType \<Rightarrow> uint64 \<Rightarrow> int \<Rightarrow> string \<Rightarrow> string \<Rightarrow> string \<Rightarrow> int \<Rightarrow> Vote res" where
  "SignVote E voteType height round blockHash voterAddr privKeyHex ts =
     (case SignEIP191 E (BuildVoteMessage voteType height round blockHash) privKeyHex of
        Inl e \<Rightarrow> Inl e
      | Inr sig \<Rightarrow> Inr \<lparr>v_Type = voteType, v_Height = height, v_Round = round, v_BlockHash = blockHash,
          v_Voter = ToLower voterAddr, v_Timestamp = ts, v_Signature = sig\<rparr>)"

definition VerifyVote :: "Geth \<Rightarrow> Vote option \<Rightarrow> unit res" where
  "VerifyVote E vo =
     (case vo of
        None \<Rightarrow> Inl (Errorf ''nil vote'')
      | Some v \<Rightarrow>
          if v_Type v \<noteq> VotePrevote \<and> v_Type v \<noteq> VotePrecommit then Inl (Errorf ''invalid vote type'')
          else if v_Voter v = [] \<or> v_Signature v = [] then Inl (Errorf ''vote missing voter or signature'')
          else case VerifyEIP191 E (BuildVoteMessage (v_Type v) (v_Height v) (v_Round v) (v_BlockHash v))
                      (v_Signature v) (v_Voter v) of
                 Inl _ \<Rightarrow> Inl (Errorf ''vote sig verify'')
               | Inr ok \<Rightarrow> if \<not> ok then Inl (Errorf ''vote signature does not match voter'') else Inr ())"

definition SignProposalBFT :: "Geth \<Rightarrow> Proposal \<Rightarrow> string \<Rightarrow> unit res \<times> Proposal" where
  "SignProposalBFT E p privKeyHex =
     (case SignEIP191 E (BuildProposalBFTMessage (p_Height p) (p_Round p) (p_BlockHash p) (p_PrevHash p)) privKeyHex of
        Inl e \<Rightarrow> (Inl e, p)
      | Inr sig \<Rightarrow> (Inr (), p\<lparr>p_Signature := sig\<rparr>))"

definition VerifyProposalBFT :: "Geth \<Rightarrow> Proposal option \<Rightarrow> unit res" where
  "VerifyProposalBFT E po =
     (case po of
        None \<Rightarrow> Inl (Errorf ''nil proposal'')
      | Some p \<Rightarrow>
          if p_Proposer p = [] \<or> p_Signature p = [] then Inl (Errorf ''proposal missing proposer or signature'')
          else case VerifyEIP191 E (BuildProposalBFTMessage (p_Height p) (p_Round p) (p_BlockHash p) (p_PrevHash p))
                      (p_Signature p) (p_Proposer p) of
                 Inl _ \<Rightarrow> Inl (Errorf ''proposal sig verify'')
               | Inr ok \<Rightarrow> if \<not> ok then Inl (Errorf ''proposal signature does not match proposer'') else Inr ())"

text \<open>\<^verbatim>\<open>int\<close> is 64 bits wide; the multiplication wraps for absurdly large \<open>n\<close>.\<close>

definition QuorumSize :: "int \<Rightarrow> int" where
  "QuorumSize n = (if n \<le> 0 then 0 else if n = 1 then 1 else i64 (go_div (i64 (2 * n)) 3 + 1))"

section \<open>Quorums intersect\<close>

text \<open>
  What the voting argument needs of a quorum rule: more than two thirds, and not more than all.
\<close>

locale quorum_rule =
  fixes q :: "nat \<Rightarrow> nat" and bound :: nat
  assumes two_thirds: "0 < n \<Longrightarrow> n < bound \<Longrightarrow> 2 * n < 3 * q n"
    and attainable: "n < bound \<Longrightarrow> q n \<le> n"
    and tolerant: "n < bound \<Longrightarrow> 3 * f < n \<Longrightarrow> q n \<le> n - f"
begin

lemma intersect:
  assumes "finite V" "0 < card V" "card V < bound" "A \<subseteq> V" "B \<subseteq> V" "q (card V) \<le> card A" "q (card V) \<le> card B"
  shows "card V < 3 * card (A \<inter> B)"
proof -
  have fin: "finite A" "finite B" using assms by (auto intro: finite_subset)
  have "card A + card B = card (A \<union> B) + card (A \<inter> B)" using fin by (rule card_Un_Int)
  moreover have "card (A \<union> B) \<le> card V" using assms by (intro card_mono) auto
  ultimately show ?thesis using two_thirds [OF assms(2,3)] assms(6,7) by linarith
qed

text \<open>With fewer than a third of the members faulty, two quorums share a member that is not.\<close>

lemma honest_member:
  assumes "finite V" "card V < bound" "A \<subseteq> V" "B \<subseteq> V" "q (card V) \<le> card A" "q (card V) \<le> card B"
    and "F \<subseteq> V" "3 * card F < card V"
  shows "\<exists>v \<in> A \<inter> B. v \<notin> F"
proof (rule ccontr)
  assume "\<not> (\<exists>v \<in> A \<inter> B. v \<notin> F)"
  then have "A \<inter> B \<subseteq> F" by blast
  then have "card (A \<inter> B) \<le> card F" using assms by (intro card_mono) (auto intro: finite_subset)
  moreover have "0 < card V" using assms(8) by simp
  ultimately show False using intersect [of V A B] assms by linarith
qed

lemma honest_quorum:
  assumes "finite V" "card V < bound" "F \<subseteq> V" "3 * card F < card V"
  shows "q (card V) \<le> card (V - F)"
  using tolerant [OF assms(2,4)] assms by (simp add: card_Diff_subset finite_subset)

end

definition quorum_nat :: "nat \<Rightarrow> nat" where
  "quorum_nat n = nat (QuorumSize (int n))"

lemma QuorumSize_eq: "0 < n \<Longrightarrow> n < 2 ^ 62 \<Longrightarrow> QuorumSize n = (2 * n) div 3 + 1"
proof -
  assume n: "0 < n" "n < (2 :: int) ^ 62"
  have "i64 (2 * n) = 2 * n" using n by (simp add: i64_id in_i64_def)
  moreover have "i64 ((2 * n) div 3 + 1) = (2 * n) div 3 + 1"
    using n by (intro i64_id) (simp add: in_i64_def)
  ultimately show ?thesis using n by (simp add: QuorumSize_def go_div_nonneg)
qed

lemma quorum_nat_eq: "0 < n \<Longrightarrow> n < 2 ^ 62 \<Longrightarrow> quorum_nat n = (2 * n) div 3 + 1"
proof -
  assume n: "0 < n" "n < (2 :: nat) ^ 62"
  then have "QuorumSize (int n) = int ((2 * n) div 3 + 1)"
    by (subst QuorumSize_eq) (simp_all add: zdiv_int)
  then show ?thesis by (simp add: quorum_nat_def)
qed

interpretation quorum: quorum_rule quorum_nat "2 ^ 62"
proof
  fix n :: nat assume "0 < n" "n < 2 ^ 62"
  then show "2 * n < 3 * quorum_nat n" by (simp add: quorum_nat_eq)
next
  fix n :: nat assume "n < 2 ^ 62"
  then show "quorum_nat n \<le> n"
    by (cases "n = 0") (simp add: quorum_nat_def QuorumSize_def, simp add: quorum_nat_eq)
next
  fix n f :: nat assume "n < 2 ^ 62" "3 * f < n"
  then show "quorum_nat n \<le> n - f" by (simp add: quorum_nat_eq)
qed

text \<open>
  Two sets of validators that each reach \<^verbatim>\<open>QuorumSize\<close> have a member in common that is not faulty,
  as long as fewer than a third are faulty; and the validators that are not faulty reach it alone.
\<close>

theorem QuorumSize_intersection:
  assumes "finite V" and "card V < 2 ^ 62" and "A \<subseteq> V" and "B \<subseteq> V"
    and "QuorumSize (int (card V)) \<le> int (card A)" and "QuorumSize (int (card V)) \<le> int (card B)"
    and "F \<subseteq> V" and "3 * card F < card V"
  shows "(\<exists>v \<in> A \<inter> B. v \<notin> F) \<and> QuorumSize (int (card V)) \<le> int (card (V - F))"
proof -
  have q: "quorum_nat (card V) \<le> card X \<longleftrightarrow> QuorumSize (int (card V)) \<le> int (card X)" for X :: "'a set"
    by (auto simp: quorum_nat_def)
  show ?thesis
    using quorum.honest_member [OF assms(1-4)] quorum.honest_quorum [OF assms(1,2,7,8)] assms(5-8)
    unfolding q by blast
qed

theorem QuorumSize_intersection_witness:
  "\<exists>v \<in> {1, 2, 3} \<inter> {2, 3, 4}. v \<notin> {3 :: nat}"
  using QuorumSize_intersection [of "{1, 2, 3, 4 :: nat}" "{1, 2, 3}" "{2, 3, 4}" "{3}"]
  by (simp add: QuorumSize_def i64_def go_div_def)

section \<open>What a vote signature commits to\<close>

lemma voteType_until:
  assumes "t @ CHR ''|'' # u = t' @ CHR ''|'' # v" "t \<in> {VotePrevote, VotePrecommit}" "t' \<in> {VotePrevote, VotePrecommit}"
  shows "t = t' \<and> u = v"
  using assms by auto

lemma vote_message_inj:
  assumes eq: "BuildVoteMessage t h r b = BuildVoteMessage t' h' r' b'"
    and ty: "t \<in> {VotePrevote, VotePrecommit}" "t' \<in> {VotePrevote, VotePrecommit}"
  shows "t = t' \<and> h = h' \<and> r = r' \<and> (b = b' \<or> {b, b'} = {[], ''NIL''})"
proof -
  let ?b = "if b = [] then ''NIL'' else b" and ?b' = "if b' = [] then ''NIL'' else b'"
  from eq have 1: "t @ CHR ''|'' # show_u64 h @ CHR ''|'' # show_int r @ CHR ''|'' # ?b
      = t' @ CHR ''|'' # show_u64 h' @ CHR ''|'' # show_int r' @ CHR ''|'' # ?b'"
    by (simp add: BuildVoteMessage_def Let_def)
  from voteType_until [OF 1 ty] have t: "t = t'"
    and 2: "show_u64 h @ CHR ''|'' # show_int r @ CHR ''|'' # ?b = show_u64 h' @ CHR ''|'' # show_int r' @ CHR ''|'' # ?b'"
    by simp_all
  from show_u64_until [OF 2 num_char_delims(3)] have h: "h = h'"
    and 3: "show_int r @ CHR ''|'' # ?b = show_int r' @ CHR ''|'' # ?b'" by simp_all
  from show_int_until [OF 3 num_char_delims(3)] have r: "r = r'" and b: "?b = ?b'" by simp_all
  from b have "b = b' \<or> {b, b'} = {[], ''NIL''}" by (auto split: if_splits)
  with t h r show ?thesis by blast
qed

text \<open>
  The message a validator signs determines the kind of vote, the height, the round and the block
  hash (up to the empty hash, which is written \<open>NIL\<close>): a signature cannot be used for another vote.
\<close>

theorem BuildVoteMessage_inj:
  assumes eq: "BuildVoteMessage t h r b = BuildVoteMessage t' h' r' b'"
    and ty: "t \<in> {VotePrevote, VotePrecommit}" "t' \<in> {VotePrevote, VotePrecommit}"
  shows "t = t' \<and> h = h' \<and> r = r' \<and> (b = b' \<or> {b, b'} = {[], ''NIL''})"
  by (rule vote_message_inj [OF assms])

theorem BuildVoteMessage_inj_witness:
  "BuildVoteMessage VotePrevote 1 0 [] = BuildVoteMessage VotePrevote 1 0 ''NIL''
    \<and> BuildVoteMessage VotePrevote 1 0 ''x'' \<noteq> BuildVoteMessage VotePrecommit 1 0 ''x''"
proof -
  have eq: "BuildVoteMessage VotePrevote 1 0 [] = BuildVoteMessage VotePrevote 1 0 ''NIL''"
    by (simp add: BuildVoteMessage_def)
  from BuildVoteMessage_inj [OF eq] BuildVoteMessage_inj [of VotePrevote 1 0 "''x''" VotePrecommit 1 0 "''x''"] eq
  show ?thesis by auto
qed

text \<open>
  A vote made by \<^verbatim>\<open>SignVote\<close> and a proposal signed by \<^verbatim>\<open>SignProposalBFT\<close> with the key of the address
  they name pass verification.
\<close>

theorem SignVote_verifies:
  assumes E: "geth_laws E" and ad: "AddressFromPrivateKey E k = Inr a" "a \<noteq> []"
    and ne: "\<And>m sig. SignEIP191 E m k = Inr sig \<Longrightarrow> sig \<noteq> []"
    and ty: "t \<in> {VotePrevote, VotePrecommit}"
    and sv: "SignVote E t h r b a k ts = Inr v"
    and sp: "p_Proposer p = a" "SignProposalBFT E p k = (Inr (), p')"
  shows "VerifyVote E (Some v) = Inr () \<and> VerifyProposalBFT E (Some p') = Inr ()"
proof -
  from sv obtain sig where s1: "SignEIP191 E (BuildVoteMessage t h r b) k = Inr sig"
    and v: "v = \<lparr>v_Type = t, v_Height = h, v_Round = r, v_BlockHash = b, v_Voter = ToLower a, v_Timestamp = ts,
       v_Signature = sig\<rparr>"
    by (auto simp: SignVote_def split: sum.splits)
  from sp(2) obtain sig2 where s2: "SignEIP191 E (BuildProposalBFTMessage (p_Height p) (p_Round p) (p_BlockHash p) (p_PrevHash p)) k = Inr sig2"
    and p': "p' = p\<lparr>p_Signature := sig2\<rparr>"
    by (auto simp: SignProposalBFT_def split: sum.splits)
  have "VerifyVote E (Some v) = Inr ()"
    using signed_verifies [OF E s1 ad(1), of "ToLower a"] ty ne [OF s1] ad(2) by (simp add: VerifyVote_def v)
  moreover have "VerifyProposalBFT E (Some p') = Inr ()"
    using signed_verifies [OF E s2 ad(1), of a] sp(1) ne [OF s2] ad(2) by (simp add: VerifyProposalBFT_def p')
  ultimately show ?thesis ..
qed

definition demo_proposal :: Proposal where
  "demo_proposal = \<lparr>p_Height = 1, p_Round = 0, p_BlockHash = ''0xh'', p_PrevHash = ''GENESIS'', p_MerkleRoot = [],
     p_Timestamp = 5, p_Proposer = ''0xAb'', p_TxHashes = [], p_Txs = [], p_POLRound = -1, p_Signature = []\<rparr>"

theorem SignVote_verifies_witness:
  "VerifyProposalBFT toy_geth (Some (snd (SignProposalBFT toy_geth demo_proposal ''k''))) = Inr ()"
proof -
  have "SignEIP191 toy_geth m ''k'' = Inr sig \<Longrightarrow> sig \<noteq> []" for m sig
    using toy_geth_sign(1) [of m "''k''"] by auto
  moreover have "\<exists>v. SignVote toy_geth VotePrevote 1 0 [] ''0xAb'' ''k'' 0 = Inr v"
    by (simp add: SignVote_def toy_geth_sign)
  then obtain v where "SignVote toy_geth VotePrevote 1 0 [] ''0xAb'' ''k'' 0 = Inr v" ..
  moreover have "SignProposalBFT toy_geth demo_proposal ''k'' = (Inr (), snd (SignProposalBFT toy_geth demo_proposal ''k''))"
    by (simp add: SignProposalBFT_def toy_geth_sign)
  ultimately show ?thesis
    using SignVote_verifies [OF toy_geth_laws toy_geth_sign(2), of "''k''" VotePrevote 1 0 "[]" 0 v demo_proposal]
    by (simp add: demo_proposal_def)
qed

end
