(* ===== verification/Seal.thy ===== *)
theory Seal
  imports Blocks Leader Replay Vote
begin

text \<open>
  Package \<^verbatim>\<open>internal/consensus\<close>, file \<^verbatim>\<open>seal.go\<close>: block hashes, the sealer's signature, and the checks a
  gossiped block passes before it is applied and saved. The transactions are pointers, so the
  timestamps that \<^verbatim>\<open>ValidateBasic\<close> fills in are seen by the hashes and by \<^verbatim>\<open>ApplyTx\<close>. \<open>now\<close> is the clock
  reading of the call, \<open>oracle\<close> the environment variable of the mining oracle.
\<close>

section \<open>Hashes and the sealer's signature\<close>

definition merkle_payload :: "string list \<Rightarrow> string" where
  "merkle_payload txHashes = (if txHashes = [] then ''EMPTY'' else concat txHashes)"

definition RecomputeMerkleRoot :: "string list \<Rightarrow> string" where
  "RecomputeMerkleRoot txHashes = ''0x'' @ EncodeToString (sha256 (merkle_payload txHashes))"

definition block_payload :: "uint64 \<Rightarrow> string \<Rightarrow> string \<Rightarrow> int \<Rightarrow> string \<Rightarrow> string" where
  "block_payload height prevHash merkleRoot ts proposer =
     show_u64 height @ ''|'' @ prevHash @ ''|'' @ merkleRoot @ ''|'' @ show_int ts @ ''|'' @ proposer"

definition RecomputeBlockHash :: "uint64 \<Rightarrow> string \<Rightarrow> string \<Rightarrow> int \<Rightarrow> string \<Rightarrow> string" where
  "RecomputeBlockHash height prevHash merkleRoot ts proposer =
     ''0x'' @ EncodeToString (sha256 (block_payload height prevHash merkleRoot ts proposer))"

definition VerifySealerSignature :: "Geth \<Rightarrow> uint64 \<Rightarrow> string \<Rightarrow> string \<Rightarrow> string \<Rightarrow> unit res" where
  "VerifySealerSignature E height blockHash signature proposer =
     (if signature = [] then Inl (Errorf ''missing sealer signature'')
      else if proposer = [] then Inl (Errorf ''missing proposer'')
      else case VerifyEIP191 E (BuildChainSigningMessage height blockHash) signature proposer of
             Inl _ \<Rightarrow> Inl (Errorf ''sealer sig verify'')
           | Inr ok \<Rightarrow> if \<not> ok then Inl (Errorf ''sealer signature does not match proposer'') else Inr ())"

section \<open>Gossiped blocks\<close>

record GossipBlockInput =
  gb_Height :: uint64
  gb_Hash :: string
  gb_PrevHash :: string
  gb_Timestamp :: int
  gb_Proposer :: string
  gb_Signature :: string
  gb_Txs :: "Transaction option list"
  gb_AllowedProposers :: "string list"

text \<open>The hash the next block has to link to.\<close>

definition expected_prev :: "Store \<Rightarrow> uint64 \<Rightarrow> string res" where
  "expected_prev s latest =
     (if latest = 0 then Inr ''GENESIS''
      else case GetBlock s latest of Inl _ \<Rightarrow> Inl (Errorf ''load prev block'') | Inr b \<Rightarrow> Inr (hdr_Hash b))"

text \<open>The validation loop: the transactions as \<^verbatim>\<open>ValidateBasic\<close> leaves them, in order.\<close>

fun validate_txs :: "Geth \<Rightarrow> string \<Rightarrow> int \<Rightarrow> Transaction option list \<Rightarrow> Transaction list res" where
  "validate_txs E oracle now [] = Inr []"
| "validate_txs E oracle now (None # ts) = Inl (Errorf ''nil tx in gossiped block'')"
| "validate_txs E oracle now (Some t # ts) =
     (case ValidateBasic E oracle now t of
        (Inl _, _) \<Rightarrow> Inl (Errorf ''tx invalid'')
      | (Inr _, t') \<Rightarrow>
          (case validate_txs E oracle now ts of Inl e \<Rightarrow> Inl e | Inr ts' \<Rightarrow> Inr (t' # ts')))"

text \<open>The apply loop: each transaction commits on its own, the first failure stops it.\<close>

fun apply_txs :: "Store \<Rightarrow> Transaction list \<Rightarrow> unit res \<times> Store" where
  "apply_txs s [] = (Inr (), s)"
| "apply_txs s (t # ts) =
     (case ApplyTx s t of (Inl _, s') \<Rightarrow> (Inl (Errorf ''apply tx''), s') | (Inr _, s') \<Rightarrow> apply_txs s' ts)"

definition tx_hashes :: "Transaction list \<Rightarrow> string list" where
  "tx_hashes ts = map (\<lambda>t. ''0x'' @ Hash t) ts"

definition sealer_check :: "Geth \<Rightarrow> GossipBlockInput \<Rightarrow> unit res" where
  "sealer_check E inp =
     (if gb_Signature inp \<noteq> []
      then VerifySealerSignature E (gb_Height inp) (gb_Hash inp) (gb_Signature inp) (gb_Proposer inp)
      else if length (gb_AllowedProposers inp) > 1 then Inl (Errorf ''missing sealer signature on gossiped block'')
      else Inr ())"

definition gossip_header :: "GossipBlockInput \<Rightarrow> string list \<Rightarrow> BlockHeader" where
  "gossip_header inp txHashes =
     \<lparr>hdr_Height = gb_Height inp, hdr_Hash = gb_Hash inp, hdr_PrevHash = gb_PrevHash inp, hdr_StateRoot = [],
      hdr_TxHashes = txHashes, hdr_Timestamp = gb_Timestamp inp, hdr_Proposer = gb_Proposer inp,
      hdr_TxCount = int (length txHashes), hdr_Signature = gb_Signature inp, hdr_LastCommitRound = 0,
      hdr_LastCommitVotes = 0, hdr_LastCommitHash = []\<rparr>"

text \<open>The second half of the routine: contents, seal, application, header.\<close>

definition apply_gossiped :: "Geth \<Rightarrow> string \<Rightarrow> int \<Rightarrow> Store \<Rightarrow> GossipBlockInput \<Rightarrow> unit res \<times> Store" where
  "apply_gossiped E oracle now s inp =
     (case validate_txs E oracle now (gb_Txs inp) of
        Inl e \<Rightarrow> (Inl e, s)
      | Inr ts \<Rightarrow>
          if RecomputeBlockHash (gb_Height inp) (gb_PrevHash inp) (RecomputeMerkleRoot (tx_hashes ts))
               (gb_Timestamp inp) (gb_Proposer inp) \<noteq> gb_Hash inp
          then (Inl (Errorf ''gossiped block hash mismatch''), s)
          else case sealer_check E inp of
            Inl e \<Rightarrow> (Inl e, s)
          | Inr _ \<Rightarrow>
              (case apply_txs s ts of
                 (Inl e, s2) \<Rightarrow> (Inl e, s2)
               | (Inr _, s2) \<Rightarrow> SaveBlock s2 (gossip_header inp (tx_hashes ts))))"

definition VerifyAndSaveGossipedBlockStrict ::
  "Geth \<Rightarrow> string \<Rightarrow> int \<Rightarrow> Store \<Rightarrow> GossipBlockInput \<Rightarrow> unit res \<times> Store" where
  "VerifyAndSaveGossipedBlockStrict E oracle now s inp =
     (case GetLatestHeight s of
        Inl e \<Rightarrow> (Inl e, s)
      | Inr latest \<Rightarrow>
          if gb_Height inp \<noteq> latest + 1 then (Inl (Errorf ''gossiped block height''), s)
          else case expected_prev s latest of
            Inl e \<Rightarrow> (Inl e, s)
          | Inr expectedPrev \<Rightarrow>
              if gb_PrevHash inp \<noteq> expectedPrev then (Inl (Errorf ''gossiped block prev_hash mismatch''), s)
              else if gb_AllowedProposers inp \<noteq> []
                   \<and> \<not> list_ex (\<lambda>a. EqualFold a (gb_Proposer inp)) (gb_AllowedProposers inp)
              then (Inl (Errorf ''proposer not in validator set''), s)
              else case IsJailed s now (gb_Proposer inp) of
                (Inr (True, _), s1) \<Rightarrow> (Inl (Errorf ''proposer is jailed''), s1)
              | (_, s1) \<Rightarrow> apply_gossiped E oracle now s1 inp)"

definition VerifyAndSaveGossipedBlock ::
  "Geth \<Rightarrow> string \<Rightarrow> int \<Rightarrow> Store \<Rightarrow> uint64 \<Rightarrow> string \<Rightarrow> string \<Rightarrow> int \<Rightarrow> string \<Rightarrow> Transaction option list
     \<Rightarrow> unit res \<times> Store" where
  "VerifyAndSaveGossipedBlock E oracle now s height hash prevHash timestamp proposer txs =
     VerifyAndSaveGossipedBlockStrict E oracle now s
       \<lparr>gb_Height = height, gb_Hash = hash, gb_PrevHash = prevHash, gb_Timestamp = timestamp,
        gb_Proposer = proposer, gb_Signature = [], gb_Txs = txs, gb_AllowedProposers = []\<rparr>"

section \<open>What the block hash commits to\<close>

lemma concat_fixed_inj:
  "\<forall>x \<in> set xs. length x = n \<Longrightarrow> \<forall>y \<in> set ys. length y = n \<Longrightarrow> 0 < n \<Longrightarrow> concat xs = concat ys \<Longrightarrow> xs = ys"
proof (induction xs arbitrary: ys)
  case Nil
  then show ?case by (cases ys) auto
next
  case (Cons x xs)
  from Cons.prems obtain y ys' where ys: "ys = y # ys'" by (cases ys) auto
  with Cons.prems have "x @ concat xs = y @ concat ys'" "length x = length y" by simp_all
  then have e: "x = y \<and> concat xs = concat ys'" by (simp add: append_eq_append_conv)
  with Cons.prems ys have "xs = ys'" by (intro Cons.IH) simp_all
  with e ys show ?case by simp
qed

lemma length_tx_hash: "x \<in> set (tx_hashes ts) \<Longrightarrow> length x = 66"
  by (auto simp: tx_hashes_def Hash_def)

lemma merkle_payload_inj:
  assumes "merkle_payload (tx_hashes ts) = merkle_payload (tx_hashes us)"
  shows "tx_hashes ts = tx_hashes us"
proof -
  have len: "length (concat (tx_hashes ts)) = 66 * length ts" for ts
    by (induction ts) (auto simp: tx_hashes_def Hash_def)
  have ne: "concat (tx_hashes ts) \<noteq> ''EMPTY''" for ts
  proof
    assume "concat (tx_hashes ts) = ''EMPTY''"
    from arg_cong [OF this, of length] len [of ts] have "66 * length ts = 5" by simp
    then show False by presburger
  qed
  show ?thesis
  proof (cases "tx_hashes ts = [] \<or> tx_hashes us = []")
    case True
    with assms ne show ?thesis by (auto simp: merkle_payload_def split: if_splits)
  next
    case False
    with assms have "concat (tx_hashes ts) = concat (tx_hashes us)" by (simp add: merkle_payload_def)
    then show ?thesis using length_tx_hash by (intro concat_fixed_inj [of _ 66]) auto
  qed
qed

definition no_bar :: "string \<Rightarrow> bool" where
  "no_bar s \<longleftrightarrow> CHR ''|'' \<notin> set s"

lemma no_bar_until: "s @ CHR ''|'' # u = t @ CHR ''|'' # v \<Longrightarrow> no_bar s \<Longrightarrow> no_bar t \<Longrightarrow> s = t \<and> u = v"
  using split_at_delim [of s "CHR ''|''" u t v "\<lambda>c. c \<noteq> CHR ''|''"] by (auto simp: no_bar_def)

lemma no_bar_merkle [simp]: "no_bar (RecomputeMerkleRoot hs)"
proof -
  have "hex_char n \<noteq> CHR ''|''" if "n < 16" for n
  proof
    assume "hex_char n = CHR ''|''"
    from arg_cong [OF this, of "of_char :: char \<Rightarrow> nat"] that show False
      by (simp add: of_char_hex_char split: if_splits)
  qed
  then have "CHR ''|'' \<notin> set (EncodeToString x)" for x using EncodeToString_chars by metis
  then show ?thesis by (simp add: no_bar_def RecomputeMerkleRoot_def)
qed

text \<open>
  C26: the block hash binds the block. If SHA-256 does not collide on the texts hashed here, two blocks
  with the same hash have the same height, previous hash, timestamp and proposer, and the same list
  of transaction hashes in the same order.
\<close>

theorem block_hash_binds:
  assumes eq: "RecomputeBlockHash h p (RecomputeMerkleRoot (tx_hashes ts)) tm pr
      = RecomputeBlockHash h' p' (RecomputeMerkleRoot (tx_hashes us)) tm' pr'"
    and bar: "no_bar p" "no_bar p'"
    and nc: "\<not> collision (block_payload h p (RecomputeMerkleRoot (tx_hashes ts)) tm pr)
        (block_payload h' p' (RecomputeMerkleRoot (tx_hashes us)) tm' pr')"
      "\<not> collision (merkle_payload (tx_hashes ts)) (merkle_payload (tx_hashes us))"
  shows "h = h' \<and> p = p' \<and> tm = tm' \<and> pr = pr' \<and> tx_hashes ts = tx_hashes us"
proof -
  let ?m = "RecomputeMerkleRoot (tx_hashes ts)" and ?m' = "RecomputeMerkleRoot (tx_hashes us)"
  have 0: "block_payload h p ?m tm pr = block_payload h' p' ?m' tm' pr'"
  proof -
    from eq have "sha256 (block_payload h p ?m tm pr) = sha256 (block_payload h' p' ?m' tm' pr')"
      by (simp only: RecomputeBlockHash_def same_append_eq EncodeToString_inj)
    with nc show ?thesis by (auto simp: collision_def)
  qed
  then have 1: "show_u64 h @ CHR ''|'' # p @ CHR ''|'' # ?m @ CHR ''|'' # show_int tm @ CHR ''|'' # pr
    = show_u64 h' @ CHR ''|'' # p' @ CHR ''|'' # ?m' @ CHR ''|'' # show_int tm' @ CHR ''|'' # pr'"
    by (simp add: block_payload_def)
  from show_u64_until [OF 1 num_char_delims(3)] have h: "h = h'" and
    2: "p @ CHR ''|'' # ?m @ CHR ''|'' # show_int tm @ CHR ''|'' # pr = p' @ CHR ''|'' # ?m' @ CHR ''|'' # show_int tm' @ CHR ''|'' # pr'"
    by simp_all
  from no_bar_until [OF 2 bar] have p: "p = p'" and
    3: "?m @ CHR ''|'' # show_int tm @ CHR ''|'' # pr = ?m' @ CHR ''|'' # show_int tm' @ CHR ''|'' # pr'" by simp_all
  from no_bar_until [OF 3] have m: "?m = ?m'" and 4: "show_int tm @ CHR ''|'' # pr = show_int tm' @ CHR ''|'' # pr'" by simp_all
  from show_int_until [OF 4 num_char_delims(3)] have t: "tm = tm'" "pr = pr'" by simp_all
  have "merkle_payload (tx_hashes ts) = merkle_payload (tx_hashes us)"
  proof -
    from m have "sha256 (merkle_payload (tx_hashes ts)) = sha256 (merkle_payload (tx_hashes us))"
      by (simp only: RecomputeMerkleRoot_def same_append_eq EncodeToString_inj)
    with nc show ?thesis by (auto simp: collision_def)
  qed
  with merkle_payload_inj h p t show ?thesis by blast
qed

theorem block_hash_binds_witness:
  "tx_hashes [toy_claim] = tx_hashes [toy_claim\<lparr>tx_Signature := []\<rparr>]"
  using block_hash_binds [of 1 "''GENESIS''" "[toy_claim]" 5 "''0xab''" 1 "''GENESIS''" "[toy_claim\<lparr>tx_Signature := []\<rparr>]" 5 "''0xab''"]
  by (simp add: tx_hashes_def Hash_def hash_preimage_def collision_def no_bar_def)

section \<open>What an accepted block satisfies\<close>

text \<open>Applying a transaction writes accounts and buckets only, whatever the store holds.\<close>

lemma setAccount_other: "setAccountTxn s d a x = Inr d' \<Longrightarrow> \<not> ledger_key k \<Longrightarrow> map_of d' k = map_of d k"
  by (auto simp: setAccountTxn_def txn_Set_def ledger_key_def split: if_splits)

lemma mint_other: "mintFromBucketTxn s d n a = Inr d' \<Longrightarrow> \<not> ledger_key k \<Longrightarrow> map_of d' k = map_of d k"
  by (auto simp: mintFromBucketTxn_def txn_Set_def ledger_key_def split: if_splits sum.splits)

lemma applyTxBody_other: "applyTxBody s t d = Inr d' \<Longrightarrow> \<not> ledger_key k \<Longrightarrow> map_of d' k = map_of d k"
  using setAccount_other mint_other
  by (auto simp: applyTxBody_def applyTransfer_def applyStake_def applyRequestUnstake_def applyClaimUnstake_def applyClaimMining_def Let_def
      split: sum.splits if_splits)

lemma ApplyTx_other:
  assumes "ApplyTx s t = (r, s')"
  shows "s' = s\<lparr>db := db s'\<rparr>" "\<not> ledger_key k \<Longrightarrow> map_of (db s') k = map_of (db s) k"
  using assms applyTxBody_other [of s t "db s"] by (auto simp: ApplyTx_def db_Update_def split: sum.splits if_splits)

lemma apply_txs_other:
  assumes "apply_txs s ts = (r, s')"
  shows "s' = s\<lparr>db := db s'\<rparr> \<and> (\<forall>k. \<not> ledger_key k \<longrightarrow> map_of (db s') k = map_of (db s) k)"
  using assms
proof (induction ts arbitrary: s)
  case (Cons t ts)
  obtain r1 s1 where run: "ApplyTx s t = (r1, s1)" by (cases "ApplyTx s t")
  note a = ApplyTx_other [OF run]
  show ?case
  proof (cases r1)
    case (Inl e)
    with Cons.prems run have "s' = s1" by simp
    with a show ?thesis by blast
  next
    case (Inr u)
    with Cons.prems run have "apply_txs s1 ts = (r, s')" by simp
    from Cons.IH [OF this] a show ?thesis by (metis (no_types, lifting) Store.surjective Store.update_convs(1))
  qed
qed auto

text \<open>The transactions a block may carry: positive 64-bit amounts, no transfer to oneself.\<close>

definition sound_tx :: "Transaction \<Rightarrow> bool" where
  "sound_tx t \<longleftrightarrow> 0 < tx_Amount t \<and> in_i64 (tx_Amount t) \<and> \<not> self_transfer t"

lemma ApplyTx_sound:
  assumes inv: "ledger_inv G (db s)" and t: "sound_tx t" and run: "ApplyTx s t = (r, s')"
  shows "ledger_inv G (db s')" "s' = s\<lparr>db := db s'\<rparr>" "\<not> ledger_key k \<Longrightarrow> map_of (db s') k = map_of (db s) k"
proof -
  have "ledger_inv G (db s') \<and> s' = s\<lparr>db := db s'\<rparr> \<and> (\<not> ledger_key k \<longrightarrow> map_of (db s') k = map_of (db s) k)"
  proof (cases r)
    case (Inl e)
    with run ApplyTx_Inl [of s t e s'] inv show ?thesis by simp
  next
    case (Inr u)
    with run obtain d where d: "applyTxBody s t (db s) = Inr d" "s' = s\<lparr>db := d\<rparr>" using ApplyTx_Inr [of s t s'] by auto
    with ledger_inv_body [OF inv _ _ _ d(1)] applyTxBody_other [OF d(1)] t show ?thesis
      by (simp add: sound_tx_def)
  qed
  then show "ledger_inv G (db s')" "s' = s\<lparr>db := db s'\<rparr>" "\<not> ledger_key k \<Longrightarrow> map_of (db s') k = map_of (db s) k" by auto
qed

lemma apply_txs_sound:
  assumes "ledger_inv G (db s)" "list_all sound_tx ts" "apply_txs s ts = (r, s')"
  shows "ledger_inv G (db s') \<and> s' = s\<lparr>db := db s'\<rparr> \<and> (\<forall>k. \<not> ledger_key k \<longrightarrow> map_of (db s') k = map_of (db s) k)"
  using assms
proof (induction ts arbitrary: s)
  case (Cons t ts)
  obtain r1 s1 where run: "ApplyTx s t = (r1, s1)" by (cases "ApplyTx s t")
  have t: "sound_tx t" "list_all sound_tx ts" using Cons.prems(2) by auto
  note a = ApplyTx_sound [OF Cons.prems(1) t(1) run]
  show ?case
  proof (cases r1)
    case (Inl e)
    with Cons.prems(3) run have "s' = s1" by simp
    with a show ?thesis by blast
  next
    case (Inr u)
    with Cons.prems(3) run have "apply_txs s1 ts = (r, s')" by simp
    from Cons.IH [OF a(1) t(2) this] a(2,3) show ?thesis by (metis (no_types, lifting) Store.surjective Store.update_convs(1))
  qed
qed auto

lemma validate_txs_ok: "validate_txs E oracle now txs = Inr ts \<Longrightarrow> t \<in> set ts \<Longrightarrow> 0 < tx_Amount t"
proof (induction txs arbitrary: ts)
  case (Cons x txs)
  then obtain u where x: "x = Some u" by (cases x) auto
  from Cons.prems x obtain u' ts' where v: "ValidateBasic E oracle now u = (Inr (), u')"
    "validate_txs E oracle now txs = Inr ts'" "ts = u' # ts'"
    by (auto split: prod.splits sum.splits)
  with Cons ValidateBasic_ok(3) [OF v(1)] show ?case by auto
qed simp

lemma kv_sum_ledger_cong:
  assumes "kv_sorted d" "kv_sorted d'" "\<And>k. ledger_key k \<Longrightarrow> map_of d' k = map_of d k"
    and "\<And>k v. \<not> ledger_key k \<Longrightarrow> f k v = 0"
  shows "kv_sum f d' = kv_sum f d"
proof -
  have part: "kv_sum f x = kv_sum f (filter (\<lambda>e. ledger_key (fst e)) x)" for x
    using assms(4) by (intro kv_sum_filter [symmetric]) auto
  have "filter (\<lambda>e. ledger_key (fst e)) d' = filter (\<lambda>e. ledger_key (fst e)) d"
    using assms by (intro kv_sorted_ext kv_sorted_filter) (auto simp: map_of_filter_keys fun_eq_iff)
  then show ?thesis using part [of d] part [of d'] by simp
qed

lemma swept_ledger:
  assumes sw: "swept now s s'" and inv: "ledger_inv G (db s)"
  shows "ledger_inv G (db s')"
proof -
  note wf = ledger_inv_wf [OF inv] and wf' = swept_wf [OF sw ledger_inv_wf [OF inv]]
  have "map_of (db s') k = map_of (db s) k" if "ledger_key k" for k
    using that by (intro swept_other [OF sw]) (auto simp: ledger_key_def prefix_def)
  then have "kv_sum f (db s') = kv_sum f (db s)" if "\<And>k v. \<not> ledger_key k \<Longrightarrow> f k v = 0" for f
    using wf wf' that by (intro kv_sum_ledger_cong) auto
  from this [of hold_entry] this [of mint_entry] this [of cap_entry] show ?thesis
    using inv wf' entry_other by (simp add: ledger_inv_def holdings_def minted_def caps_def)
qed

lemma gossip_run:
  assumes h: "healthy s" and ty: "jail_typed (db s)"
    and run: "VerifyAndSaveGossipedBlockStrict E oracle now s inp = (Inr (), s')"
  obtains latest ts s1 s2 where "GetLatestHeight s = Inr latest" "gb_Height inp = latest + 1"
    "expected_prev s latest = Inr (gb_PrevHash inp)"
    "gb_AllowedProposers inp = [] \<or> list_ex (\<lambda>a. EqualFold a (gb_Proposer inp)) (gb_AllowedProposers inp)"
    "\<not> jailed_at (db s) now (gb_Proposer inp)" "swept now s s1"
    "validate_txs E oracle now (gb_Txs inp) = Inr ts"
    "RecomputeBlockHash (gb_Height inp) (gb_PrevHash inp) (RecomputeMerkleRoot (tx_hashes ts))
       (gb_Timestamp inp) (gb_Proposer inp) = gb_Hash inp"
    "sealer_check E inp = Inr ()" "apply_txs s1 ts = (Inr (), s2)"
    "SaveBlock s2 (gossip_header inp (tx_hashes ts)) = (Inr (), s')"
proof -
  obtain latest where l: "GetLatestHeight s = Inr latest" "gb_Height inp = latest + 1"
    "expected_prev s latest = Inr (gb_PrevHash inp)"
    and al: "gb_AllowedProposers inp = [] \<or> list_ex (\<lambda>a. EqualFold a (gb_Proposer inp)) (gb_AllowedProposers inp)"
    using run by (auto simp: VerifyAndSaveGossipedBlockStrict_def split: sum.splits if_splits)
  obtain r s1 where j: "IsJailed s now (gb_Proposer inp) = (Inr (jailed_at (db s) now (gb_Proposer inp), r), s1)"
    and sw: "swept now s s1" using IsJailed_swept [OF h ty] by metis
  have nj: "\<not> jailed_at (db s) now (gb_Proposer inp)" and ap: "apply_gossiped E oracle now s1 inp = (Inr (), s')"
    using run l al j by (auto simp: VerifyAndSaveGossipedBlockStrict_def split: if_splits bool.splits)
  note u = ap [unfolded apply_gossiped_def]
  from u obtain ts where v: "validate_txs E oracle now (gb_Txs inp) = Inr ts" by (auto split: sum.splits)
  note u1 = u [unfolded v sum.case]
  from u1 have hs: "RecomputeBlockHash (gb_Height inp) (gb_PrevHash inp) (RecomputeMerkleRoot (tx_hashes ts))
       (gb_Timestamp inp) (gb_Proposer inp) = gb_Hash inp" and sc: "sealer_check E inp = Inr ()"
    by (auto split: if_splits sum.splits)
  obtain r2 s2 where a: "apply_txs s1 ts = (r2, s2)" by (cases "apply_txs s1 ts")
  from u1 hs sc a have "r2 = Inr ()" "SaveBlock s2 (gossip_header inp (tx_hashes ts)) = (Inr (), s')"
    by (auto split: sum.splits)
  with that l al nj sw v hs sc a show thesis by blast
qed

lemma SaveBlock_run:
  assumes "SaveBlock s h = (Inr (), s')"
  shows "s' = s\<lparr>db := kv_set (metaKey ''latest_height'') (RawV (show_u64 (hdr_Height h)))
     (kv_set (blockKey (hdr_Height h)) (BlockV h) (db s))\<rparr>"
  using assms by (auto simp: SaveBlock_def db_Update_Inr txn_Set_all_Inr simp del: txn_Set_all.simps)

lemma SaveBlock_healthy:
  assumes "healthy s"
  shows "\<exists>s'. SaveBlock s h = (Inr (), s') \<and> healthy s' \<and> GetBlock s' (hdr_Height h) = Inr h \<and> GetLatestHeight s' = Inr (hdr_Height h)"
proof -
  obtain s' where s': "SaveBlock s h = (Inr (), s')" using assms by (simp add: SaveBlock_def db_Update_def txn_Set_def)
  show ?thesis
    using SaveBlock_run [OF s'] assms s' by (simp add: GetBlock_def GetLatestHeight_def txn_Get_def)
qed

lemma GetBlock_cong: "getFault s' = getFault s \<Longrightarrow> map_of (db s') (blockKey n) = map_of (db s) (blockKey n) \<Longrightarrow>
   GetBlock s' n = GetBlock s n"
  by (simp add: GetBlock_def txn_Get_def)

lemma store_db_eq: "s' = s\<lparr>db := db s'\<rparr> \<Longrightarrow> getFault s' = getFault s"
  by (metis Store.select_convs(2) Store.surjective Store.update_convs(1))

lemma gossip_accepted:
  assumes h: "healthy s" and ty: "jail_typed (db s)"
    and run: "VerifyAndSaveGossipedBlockStrict E oracle now s inp = (Inr (), s')"
  shows "\<exists>latest ts. GetLatestHeight s = Inr latest \<and> gb_Height inp = latest + 1
    \<and> expected_prev s latest = Inr (gb_PrevHash inp)
    \<and> (gb_AllowedProposers inp = [] \<or> (\<exists>a \<in> set (gb_AllowedProposers inp). EqualFold a (gb_Proposer inp)))
    \<and> \<not> jailed_at (db s) now (gb_Proposer inp)
    \<and> validate_txs E oracle now (gb_Txs inp) = Inr ts
    \<and> gb_Hash inp = RecomputeBlockHash (gb_Height inp) (gb_PrevHash inp) (RecomputeMerkleRoot (tx_hashes ts))
         (gb_Timestamp inp) (gb_Proposer inp)
    \<and> (gb_Signature inp = [] \<and> length (gb_AllowedProposers inp) \<le> 1
        \<or> sig_ok E (BuildChainSigningMessage (gb_Height inp) (gb_Hash inp)) (gb_Signature inp) (gb_Proposer inp))
    \<and> GetLatestHeight s' = Inr (gb_Height inp) \<and> GetBlock s' (gb_Height inp) = Inr (gossip_header inp (tx_hashes ts))
    \<and> (\<forall>n. n \<noteq> gb_Height inp \<longrightarrow> GetBlock s' n = GetBlock s n)
    \<and> healthy s'
    \<and> (\<forall>G. ledger_inv G (db s) \<longrightarrow> list_all (\<lambda>t. in_i64 (tx_Amount t) \<and> \<not> self_transfer t) ts \<longrightarrow> ledger_inv G (db s'))"
proof -
  from gossip_run [OF h ty run] obtain latest ts s1 s2 where
    l: "GetLatestHeight s = Inr latest" "gb_Height inp = latest + 1" "expected_prev s latest = Inr (gb_PrevHash inp)"
    and al: "gb_AllowedProposers inp = [] \<or> list_ex (\<lambda>a. EqualFold a (gb_Proposer inp)) (gb_AllowedProposers inp)"
    and nj: "\<not> jailed_at (db s) now (gb_Proposer inp)" and sw: "swept now s s1"
    and v: "validate_txs E oracle now (gb_Txs inp) = Inr ts"
    and hs: "RecomputeBlockHash (gb_Height inp) (gb_PrevHash inp) (RecomputeMerkleRoot (tx_hashes ts))
       (gb_Timestamp inp) (gb_Proposer inp) = gb_Hash inp"
    and sc: "sealer_check E inp = Inr ()" and a: "apply_txs s1 ts = (Inr (), s2)"
    and sv: "SaveBlock s2 (gossip_header inp (tx_hashes ts)) = (Inr (), s')" by metis
  note a2 = apply_txs_other [OF a]
  note s' = SaveBlock_run [OF sv]
  have hh: "hdr_Height (gossip_header inp (tx_hashes ts)) = gb_Height inp" by (simp add: gossip_header_def)
  have h2: "healthy s2" using swept_healthy [OF sw h] a2 by (metis healthy_simps(4))
  have gf: "getFault s' = getFault s" "getFault s1 = getFault s"
    using store_db_eq [of s2 s1] a2 store_db_eq [OF swept_store [OF sw]] by (auto simp: s')
  have hs': "healthy s'" using h2 by (simp add: s')
  have "ledger_inv G (db s')" if G: "ledger_inv G (db s)" and ok: "list_all (\<lambda>t. in_i64 (tx_Amount t) \<and> \<not> self_transfer t) ts" for G
  proof -
    have tss: "list_all sound_tx ts" using ok validate_txs_ok [OF v] by (auto simp: list_all_iff sound_tx_def)
    show ?thesis
      using apply_txs_sound [OF swept_ledger [OF sw G] tss a] unfolding s' by (auto intro!: ledger_inv_set_other simp: hh)
  qed
  moreover have "GetLatestHeight s' = Inr (gb_Height inp)" "GetBlock s' (gb_Height inp) = Inr (gossip_header inp (tx_hashes ts))"
    using h2 by (simp_all add: s' hh GetLatestHeight_def GetBlock_def txn_Get_def)
  moreover have "GetBlock s' n = GetBlock s n" if "n \<noteq> gb_Height inp" for n
  proof (rule GetBlock_cong [OF gf(1)])
    have "map_of (db s1) (blockKey n) = map_of (db s) (blockKey n)"
      using sw by (rule swept_other) (simp add: blockKey_def)
    then show "map_of (db s') (blockKey n) = map_of (db s) (blockKey n)"
      using a2 that by (simp add: s' hh)
  qed
  moreover have "gb_Signature inp = [] \<and> length (gb_AllowedProposers inp) \<le> 1
        \<or> sig_ok E (BuildChainSigningMessage (gb_Height inp) (gb_Hash inp)) (gb_Signature inp) (gb_Proposer inp)"
    using sc by (auto simp: sealer_check_def VerifySealerSignature_def sig_ok_def split: if_splits sum.splits)
  moreover have "gb_AllowedProposers inp = [] \<or> (\<exists>a \<in> set (gb_AllowedProposers inp). EqualFold a (gb_Proposer inp))"
    using al by (auto simp: list_ex_iff)
  ultimately show ?thesis using l nj v hs [symmetric] hs' by blast
qed

text \<open>
  C12: a gossiped block is accepted only if it extends the tip by one and links to its hash, its proposer
  is an allowed validator (if the list of allowed ones is not empty) that is not jailed, its hash is the hash
  of its contents, every transaction is valid, and it is signed by its proposer, but for one without a signature where
  at most one proposer is allowed. Accepting it saves it as the new tip and keeps every other block; it keeps
  the ledger invariant if no transaction is a transfer to oneself.
\<close>

theorem gossip_accept_sound:
  assumes h: "healthy s" and ty: "jail_typed (db s)"
    and run: "VerifyAndSaveGossipedBlockStrict E oracle now s inp = (Inr (), s')"
  shows "\<exists>latest ts. GetLatestHeight s = Inr latest \<and> gb_Height inp = latest + 1
    \<and> expected_prev s latest = Inr (gb_PrevHash inp)
    \<and> (gb_AllowedProposers inp = [] \<or> (\<exists>a \<in> set (gb_AllowedProposers inp). EqualFold a (gb_Proposer inp)))
    \<and> \<not> jailed_at (db s) now (gb_Proposer inp)
    \<and> validate_txs E oracle now (gb_Txs inp) = Inr ts
    \<and> gb_Hash inp = RecomputeBlockHash (gb_Height inp) (gb_PrevHash inp) (RecomputeMerkleRoot (tx_hashes ts))
         (gb_Timestamp inp) (gb_Proposer inp)
    \<and> (gb_Signature inp = [] \<and> length (gb_AllowedProposers inp) \<le> 1
        \<or> sig_ok E (BuildChainSigningMessage (gb_Height inp) (gb_Hash inp)) (gb_Signature inp) (gb_Proposer inp))
    \<and> GetLatestHeight s' = Inr (gb_Height inp) \<and> GetBlock s' (gb_Height inp) = Inr (gossip_header inp (tx_hashes ts))
    \<and> (\<forall>n. n \<noteq> gb_Height inp \<longrightarrow> GetBlock s' n = GetBlock s n)
    \<and> healthy s'
    \<and> (\<forall>G. ledger_inv G (db s) \<longrightarrow> list_all (\<lambda>t. in_i64 (tx_Amount t) \<and> \<not> self_transfer t) ts \<longrightarrow> ledger_inv G (db s'))"
  by (rule gossip_accepted [OF h ty run])

definition demo_block :: "Transaction list \<Rightarrow> GossipBlockInput" where
  "demo_block ts =
     \<lparr>gb_Height = 1, gb_Hash = RecomputeBlockHash 1 ''GENESIS'' (RecomputeMerkleRoot (tx_hashes ts)) 5 ''0xab'',
      gb_PrevHash = ''GENESIS'', gb_Timestamp = 5, gb_Proposer = ''0xab'', gb_Signature = [],
      gb_Txs = map Some ts, gb_AllowedProposers = []\<rparr>"

lemma demo_block_simps [simp]:
  "gb_Height (demo_block ts) = 1" "gb_PrevHash (demo_block ts) = ''GENESIS''" "gb_Timestamp (demo_block ts) = 5"
  "gb_Proposer (demo_block ts) = ''0xab''" "gb_Signature (demo_block ts) = []" "gb_Txs (demo_block ts) = map Some ts"
  "gb_AllowedProposers (demo_block ts) = []"
  "gb_Hash (demo_block ts) = RecomputeBlockHash 1 ''GENESIS'' (RecomputeMerkleRoot (tx_hashes ts)) 5 ''0xab''"
  by (simp_all add: demo_block_def)

lemma demo_jail_typed: "jail_typed (db demo_store)"
  by (simp add: jail_typed_def demo_store_def jailKey_def)

lemma demo_not_jailed: "\<not> jailed_at (db demo_store) now a"
  by (simp add: jailed_at_def demo_store_def jailKey_def)

lemma demo_valid:
  "ty \<in> {TxStake, TxTransfer} \<Longrightarrow> rcpt \<noteq> [] \<or> ty = TxStake \<Longrightarrow> 0 < amt \<Longrightarrow>
     ValidateBasic toy_geth oracle now (demo_tx ty rcpt amt n) = (Inr (), demo_tx ty rcpt amt n)"
  by (auto simp: ValidateBasic_def VerifySignature_def demo_tx_def Let_def)

lemma demo_height: "GetLatestHeight demo_store = Inr 0"
  by (simp add: GetLatestHeight_def txn_Get_def demo_store_def metaKey_def)

lemma demo_gossip:
  assumes "validate_txs toy_geth oracle now (map Some ts) = Inr ts"
  shows "VerifyAndSaveGossipedBlockStrict toy_geth oracle now demo_store (demo_block ts) =
    (case apply_txs demo_store ts of (Inl e, s2) \<Rightarrow> (Inl e, s2)
     | (Inr _, s2) \<Rightarrow> SaveBlock s2 (gossip_header (demo_block ts) (tx_hashes ts)))"
proof -
  have j: "IsJailed demo_store now ''0xab'' = (Inr (False, None), demo_store)"
    by (simp add: IsJailed_def Let_def norm_eq txn_Get_def demo_store_def jailKey_def)
  show ?thesis using assms
    by (simp add: VerifyAndSaveGossipedBlockStrict_def demo_height expected_prev_def j
        apply_gossiped_def sealer_check_def)
qed

lemma demo_gossip_empty: "\<exists>s'. VerifyAndSaveGossipedBlockStrict toy_geth [] 9 demo_store (demo_block []) = (Inr (), s')"
  using demo_gossip [of "[]" 9 "[]"]
  by (simp add: SaveBlock_def db_Update_def txn_Set_def)

theorem gossip_accept_sound_witness:
  "GetLatestHeight (snd (VerifyAndSaveGossipedBlockStrict toy_geth [] 9 demo_store (demo_block []))) = Inr 1"
proof -
  obtain s' where s': "VerifyAndSaveGossipedBlockStrict toy_geth [] 9 demo_store (demo_block []) = (Inr (), s')"
    using demo_gossip_empty by blast
  from gossip_accept_sound [OF demo_healthy demo_jail_typed this] s' show ?thesis
    by auto
qed

text \<open>
  Rejecting a gossiped block is not atomic. A block whose second transaction fails is rejected and
  not saved, but its first transaction stays applied.
\<close>

theorem gossip_partial_apply:
  "let t = demo_tx TxTransfer ''0xcd'' 10 4;
       (r, s') = VerifyAndSaveGossipedBlockStrict toy_geth [] 9 demo_store (demo_block [t, t])
   in r = Inl (Errorf ''apply tx'') \<and> GetLatestHeight s' = GetLatestHeight demo_store
      \<and> acc_Balance (acct (db s') ''0xcd'') = 10 \<and> acc_Balance (acct (db demo_store) ''0xcd'') = 0"
proof -
  let ?t = "demo_tx TxTransfer ''0xcd'' 10 4"
  have ok: "ledger_inv 1057 (db demo_store)" "nonce_ok (db demo_store) ?t"
    by (rule demo_ledger_inv) (simp add: nonce_ok_def demo_tx_def demo_account_def)
  note wf = ledger_inv_wf [OF ok(1)]
  have tx: "tx_Type ?t = TxTransfer" "tx_Amount ?t = 10" "tx_From ?t = ''0xAb''" "tx_To ?t = ''0xcd''" "tx_Nonce ?t = 4"
    by (simp_all add: demo_tx_def)
  define d where "d = kv_set (accountKey ''0xcd'') (AccountV (zero_account\<lparr>acc_Balance := 10\<rparr>))
    (kv_set (accountKey ''0xAb'') (AccountV (demo_account\<lparr>acc_Balance := 990, acc_Nonce := 4\<rparr>)) (db demo_store))"
  have "applyTxBody demo_store ?t (db demo_store) = Inr d"
    using applyTxBody_healthy(1) [OF wf demo_healthy ok(2) tx(1)] applyTransfer_healthy [OF wf demo_healthy, of ?t demo_account]
    by (simp add: tx d_def demo_account_def zero_account_def i64_def)
  then have first: "ApplyTx demo_store ?t = (Inr (), demo_store\<lparr>db := d\<rparr>)" using demo_healthy by (simp add: ApplyTx_Inr)
  have wfd: "wf_db d"
    unfolding d_def using wf by (intro wf_db_set) (auto simp: acc_ok_def demo_account_def zero_account_def in_i64_def)
  have "\<not> nonce_ok d ?t" by (simp add: nonce_ok_def tx d_def)
  then have second: "ApplyTx (demo_store\<lparr>db := d\<rparr>) ?t = (Inl (Errorf ''invalid nonce''), demo_store\<lparr>db := d\<rparr>)"
    using wfd by (intro ApplyTx_bad_nonce) simp_all
  have v: "validate_txs toy_geth [] 9 (map Some [?t, ?t]) = Inr [?t, ?t]" by (simp add: demo_valid)
  have "GetLatestHeight (demo_store\<lparr>db := d\<rparr>) = GetLatestHeight demo_store"
    by (simp add: GetLatestHeight_def txn_Get_def d_def)
  then show ?thesis
    using demo_gossip [OF v] first second by (simp add: Let_def d_def zero_account_def)
qed

section \<open>The chain stays linked\<close>

definition chain_ok :: "Store \<Rightarrow> bool" where
  "chain_ok s \<longleftrightarrow> (\<exists>latest. GetLatestHeight s = Inr latest \<and> GetBlock s 0 = Inl KeyNotFound
     \<and> (\<forall>n. latest < n \<longrightarrow> GetBlock s n = Inl KeyNotFound))
   \<and> (\<forall>n b c. GetBlock s n = Inr b \<longrightarrow> GetBlock s (n + 1) = Inr c \<longrightarrow> hdr_PrevHash c = hdr_Hash b)"

text \<open>
  C15: accepting gossiped blocks keeps the chain linked: every stored block names the hash of the stored
  block below it, and nothing is stored above the tip (as long as the height does not wrap around).
\<close>

theorem gossip_keeps_chain:
  assumes h: "healthy s" and ty: "jail_typed (db s)" and ch: "chain_ok s" and top: "gb_Height inp \<noteq> 0"
    and run: "VerifyAndSaveGossipedBlockStrict E oracle now s inp = (Inr (), s')"
  shows "chain_ok s'"
proof -
  obtain latest ts where l: "GetLatestHeight s = Inr latest" "gb_Height inp = latest + 1"
    "expected_prev s latest = Inr (gb_PrevHash inp)" "GetLatestHeight s' = Inr (gb_Height inp)"
    "GetBlock s' (gb_Height inp) = Inr (gossip_header inp (tx_hashes ts))"
    and other: "\<And>n. n \<noteq> gb_Height inp \<Longrightarrow> GetBlock s' n = GetBlock s n"
    using gossip_accepted [OF h ty run] by metis
  have none: "GetBlock s n = Inl KeyNotFound" if "latest < n" for n
    using ch l(1) that by (auto simp: chain_ok_def)
  have zero: "GetBlock s 0 = Inl KeyNotFound" using ch by (auto simp: chain_ok_def)
  have up: "latest < latest + 1" using top l(2) by (intro u64_succ) simp
  have link: "hdr_PrevHash c = hdr_Hash b" if nb: "GetBlock s' n = Inr b" "GetBlock s' (n + 1) = Inr c" for n b c
  proof -
    consider "n = latest" | "n = latest + 1" | "n \<noteq> latest" "n \<noteq> latest + 1" by blast
    then show ?thesis
    proof cases
      case 1
      have "latest \<noteq> latest + 1" by simp
      then have b: "GetBlock s latest = Inr b" using nb(1) other [of latest] 1 l(2) by simp
      then have "latest \<noteq> 0" using zero by auto
      then have "gb_PrevHash inp = hdr_Hash b" using l(3) b by (simp add: expected_prev_def)
      moreover have "hdr_PrevHash c = gb_PrevHash inp" using nb(2) l(2,5) 1 by (auto simp: gossip_header_def)
      ultimately show ?thesis by simp
    next
      case 2
      have "latest + 1 + 1 \<noteq> gb_Height inp" using l(2) by simp
      then have "GetBlock s (latest + 1 + 1) = Inr c" using nb(2) other 2 by simp
      then have "\<not> latest < latest + 1 + 1" "latest + 1 + 1 \<noteq> 0" using none zero by force+
      then show ?thesis using up u64_succ [of "latest + 1"] by (meson less_trans)
    next
      case 3
      then have "GetBlock s n = Inr b" "GetBlock s (n + 1) = Inr c" using nb other l(2) by auto
      then show ?thesis using ch by (auto simp: chain_ok_def)
    qed
  qed
  have "GetBlock s' n = Inl KeyNotFound" if "gb_Height inp < n" for n
    using that other [of n] none [of n] up l(2) by auto
  moreover have "GetBlock s' 0 = Inl KeyNotFound" using other [of 0] zero top by simp
  ultimately show ?thesis using l(4) link by (auto simp: chain_ok_def)
qed

lemma demo_chain: "chain_ok demo_store"
proof -
  have "GetBlock demo_store n = Inl KeyNotFound" for n
    by (simp add: GetBlock_def txn_Get_def demo_store_def blockKey_def)
  then show ?thesis by (simp add: chain_ok_def demo_height)
qed

theorem gossip_keeps_chain_witness:
  "chain_ok (snd (VerifyAndSaveGossipedBlockStrict toy_geth [] 9 demo_store (demo_block [])))"
proof -
  obtain s' where s': "VerifyAndSaveGossipedBlockStrict toy_geth [] 9 demo_store (demo_block []) = (Inr (), s')"
    using demo_gossip_empty by blast
  from gossip_keeps_chain [OF demo_healthy demo_jail_typed demo_chain _ this] s' show ?thesis by simp
qed

end
