(* ===== verification/Mempool.thy ===== *)
theory Mempool
  imports Supply
begin

text \<open>
  Package \<^verbatim>\<open>internal/mempool\<close>. The two Go maps are association lists in key order. Iterating over a map
  has no fixed order: \<open>ord\<close> is the order in which \<^verbatim>\<open>pruneSeenLocked\<close> happens to list the seen hashes, so
  that any outcome of its unstable sort is a stable sort of some order. \<open>now\<close> is the reading of the
  clock. \<^verbatim>\<open>CacheSize\<close> is taken to be non-negative, as in every configuration of the program.
\<close>

record Config =
  cfg_MaxTxs :: int
  cfg_MaxTxBytes :: int
  cfg_CacheSize :: int

definition DefaultConfig :: Config where
  "DefaultConfig = \<lparr>cfg_MaxTxs = 5000, cfg_MaxTxBytes = 64 * 1024, cfg_CacheSize = 10000\<rparr>"

record Mempool =
  mp_cfg :: Config
  mp_order :: "string list"
  mp_byHash :: "(string \<times> Transaction) list"
  mp_seen :: "(string \<times> int) list"

definition New :: "Config \<Rightarrow> Mempool" where
  "New cfg0 =
     (let cfg = (if cfg_MaxTxs cfg0 \<le> 0 then DefaultConfig else cfg0)
      in \<lparr>mp_cfg = cfg, mp_order = [], mp_byHash = [], mp_seen = []\<rparr>)"

section \<open>Admission\<close>

definition check_funds :: "Store \<Rightarrow> Account \<Rightarrow> Transaction \<Rightarrow> unit res" where
  "check_funds s acc t =
     (if tx_Type t = TxTransfer then
        if acc_Balance acc < tx_Amount t then Inl (Errorf ''insufficient balance'') else Inr ()
      else if tx_Type t = TxStake then
        if acc_Balance acc < tx_Amount t then Inl (Errorf ''insufficient balance to stake'') else Inr ()
      else if tx_Type t = TxRequestUnstake then
        if acc_Staked acc < tx_Amount t then Inl (Errorf ''insufficient staked amount'') else Inr ()
      else if tx_Type t = TxClaimUnstake then
        if acc_PendingUnstake acc < tx_Amount t then Inl (Errorf ''insufficient pending unstake'') else Inr ()
      else if tx_Type t = TxClaimMining then
        (case BucketRemaining s ''mining'' of
           Inl _ \<Rightarrow> Inl (Errorf ''mining bucket'')
         | Inr rem \<Rightarrow> if tx_Amount t > rem then Inl (Errorf ''mining bucket insufficient remaining'') else Inr ())
      else Inr ())"

definition CheckTx ::
  "Geth \<Rightarrow> string \<Rightarrow> int \<Rightarrow> Store \<Rightarrow> Mempool \<Rightarrow> Transaction option \<Rightarrow> unit res \<times> Transaction option" where
  "CheckTx E oracle now s m t0 =
     (case t0 of
        None \<Rightarrow> (Inl (Errorf ''nil transaction''), None)
      | Some t1 \<Rightarrow>
          (case ValidateBasic E oracle now t1 of
             (Inl e, t) \<Rightarrow> (Inl e, Some t)
           | (Inr _, t) \<Rightarrow>
               if cfg_MaxTxBytes (mp_cfg m) > 0 \<and> length (Hash t) > 0
                  \<and> int (length (tx_From t) + length (tx_To t) + length (tx_Signature t)) > cfg_MaxTxBytes (mp_cfg m)
               then (Inl (Errorf ''tx too large''), Some t)
               else case GetAccount s (tx_From t) of
                 Inl e \<Rightarrow> (Inl e, Some t)
               | Inr acc \<Rightarrow>
                   if tx_Nonce t \<le> acc_Nonce acc then (Inl (Errorf ''invalid nonce''), Some t)
                   else (check_funds s acc t, Some t)))"

definition pruneSeenLocked :: "((string \<times> int) list \<Rightarrow> (string \<times> int) list) \<Rightarrow> Mempool \<Rightarrow> Mempool" where
  "pruneSeenLocked ord m =
     (if int (length (mp_seen m)) \<le> cfg_CacheSize (mp_cfg m) then m
      else
        let target = go_div (i64 (cfg_CacheSize (mp_cfg m) * 3)) 4;
            entries = sort_key snd (ord (mp_seen m));
            toDrop = int (length entries) - target
        in m\<lparr>mp_seen := fold (\<lambda>e seen. kv_del (fst e) seen) (take (nat toDrop) entries) (mp_seen m)\<rparr>)"

text \<open>The result is the hash and the error, both of which Go returns.\<close>

definition Add ::
  "Geth \<Rightarrow> string \<Rightarrow> int \<Rightarrow> ((string \<times> int) list \<Rightarrow> (string \<times> int) list) \<Rightarrow> Store \<Rightarrow> Mempool \<Rightarrow> Transaction option
     \<Rightarrow> (string \<times> unit res) \<times> Mempool" where
  "Add E oracle now ord s m t0 =
     (case CheckTx E oracle now s m t0 of
        (Inr _, Some t) \<Rightarrow>
          let h = Hash t in
          if map_of (mp_byHash m) h \<noteq> None then ((h, Inr ()), m)
          else if map_of (mp_seen m) h \<noteq> None then ((h, Inl (Errorf ''tx already seen'')), m)
          else if int (length (mp_byHash m)) \<ge> cfg_MaxTxs (mp_cfg m) then (([], Inl (Errorf ''mempool full'')), m)
          else ((h, Inr ()),
                pruneSeenLocked ord
                  (m\<lparr>mp_byHash := kv_set h t (mp_byHash m), mp_order := mp_order m @ [h],
                     mp_seen := kv_set h now (mp_seen m)\<rparr>))
      | (Inr _, None) \<Rightarrow> (([], Inl (Errorf ''nil transaction'')), m)
      | (Inl e, _) \<Rightarrow> (([], Inl e), m))"

section \<open>Selection and removal\<close>

fun peek_loop :: "int \<Rightarrow> string list \<Rightarrow> (string \<times> Transaction) list \<Rightarrow> Transaction list \<Rightarrow> Transaction list" where
  "peek_loop limit [] byHash out = out"
| "peek_loop limit (h # hs) byHash out =
     (if int (length out) \<ge> limit then out
      else case map_of byHash h of
             Some t \<Rightarrow> peek_loop limit hs byHash (out @ [t]) | None \<Rightarrow> peek_loop limit hs byHash out)"

definition Peek :: "Mempool \<Rightarrow> int \<Rightarrow> Transaction list" where
  "Peek m limit0 =
     (let limit = (if limit0 \<le> 0 \<or> limit0 > int (length (mp_order m)) then int (length (mp_order m)) else limit0)
      in peek_loop limit (mp_order m) (mp_byHash m) [])"

fun take_loop ::
  "int \<Rightarrow> string list \<Rightarrow> (string \<times> Transaction) list \<Rightarrow> Transaction list \<Rightarrow> string list
     \<Rightarrow> Transaction list \<times> string list \<times> (string \<times> Transaction) list" where
  "take_loop limit [] byHash out remain = (out, remain, byHash)"
| "take_loop limit (h # hs) byHash out remain =
     (case (if int (length out) < limit then map_of byHash h else None) of
        Some t \<Rightarrow> take_loop limit hs (kv_del h byHash) (out @ [t]) remain
      | None \<Rightarrow>
          if map_of byHash h \<noteq> None then take_loop limit hs byHash out (remain @ [h])
          else take_loop limit hs byHash out remain)"

definition Take :: "Mempool \<Rightarrow> int \<Rightarrow> Transaction list \<times> Mempool" where
  "Take m limit0 =
     (let limit = (if limit0 \<le> 0 then int (length (mp_order m)) else limit0);
          (out, remain, byHash) = take_loop limit (mp_order m) (mp_byHash m) [] []
      in (out, m\<lparr>mp_order := remain, mp_byHash := byHash\<rparr>))"

definition RemoveByHash :: "Mempool \<Rightarrow> string list \<Rightarrow> Mempool" where
  "RemoveByHash m hashes =
     (let byHash = fold kv_del hashes (mp_byHash m)
      in m\<lparr>mp_order := filter (\<lambda>h. h \<notin> set hashes \<and> map_of byHash h \<noteq> None) (mp_order m),
           mp_byHash := byHash\<rparr>)"

definition Size :: "Mempool \<Rightarrow> nat" where
  "Size m = length (mp_byHash m)"

section \<open>Admission agrees with application\<close>

lemma applyClaimMining_admitted:
  assumes wf: "wf_db (db s)" and h: "healthy s" and v: "validate_claim E oracle t = Inr ()"
    and r: "BucketRemaining s ''mining'' = Inr rem" "tx_Amount t \<le> rem"
  shows "\<exists>d. applyClaimMining s (db s) fa t = Inr d"
proof -
  from v obtain p where p: "ParseClaimMiningPayload t = Inr p" and amt: "0 < tx_Amount t" "tx_Amount t \<le> 1000000"
    by (auto simp: validate_claim_ok)
  have pb: "cmp_Bucket p = ''mining''" using ParseClaimMiningPayload_ok [OF p] by simp
  from r(1) obtain b where gb: "GetBucket s ''mining'' = Inr b" by (auto simp: BucketRemaining_def split: sum.splits)
  then have m: "map_of (db s) (bucketKey ''mining'') = Some (BucketV b)"
    by (auto simp: GetBucket_def txn_Get_def elim!: as_Bucket.elims split: sum.splits if_splits option.splits)
  have ok: "0 \<le> bkt_Minted b" "bkt_Minted b \<le> bkt_Cap b" "in_i64 (bkt_Cap b)"
    using wf_db_lookup [OF wf m] by (simp_all add: bucket_ok_def)
  then have "i64 (bkt_Cap b - bkt_Minted b) = bkt_Cap b - bkt_Minted b" by (intro i64_id) (simp add: in_i64_def)
  then have le: "bkt_Minted b + tx_Amount t \<le> bkt_Cap b"
    using r gb ok by (auto simp: BucketRemaining_def Let_def split: if_splits)
  then have "i64 (bkt_Minted b + tx_Amount t) = bkt_Minted b + tx_Amount t"
    using ok amt by (intro i64_id) (simp add: in_i64_def)
  then have mint: "mintFromBucketTxn s (db s) ''mining'' (tx_Amount t)
      = Inr (kv_set (bucketKey ''mining'') (BucketV (b\<lparr>bkt_Minted := bkt_Minted b + tx_Amount t\<rparr>)) (db s))"
    using h m amt le by (simp add: mintFromBucketTxn_def txn_Get_def txn_Set_def)
  have "i64 (tx_Amount t * SubunitsPerEAST) = tx_Amount t * SubunitsPerEAST"
    using amt by (intro i64_id) (simp add: in_i64_def SubunitsPerEAST_def)
  then have "go_div (i64 (tx_Amount t * SubunitsPerEAST)) (tx_Amount t) = SubunitsPerEAST"
    using amt by (simp add: go_div_nonneg SubunitsPerEAST_def)
  then show ?thesis using p pb mint h by (simp add: applyClaimMining_def Let_def setAccountTxn_def txn_Set_def)
qed

lemma CheckTx_applies:
  assumes h: "healthy s" and inv: "ledger_inv G (db s)"
    and chk: "CheckTx E oracle now s m (Some t0) = (Inr (), Some t)"
  shows "\<exists>s'. ApplyTx s t = (Inr (), s')"
proof -
  note wf = ledger_inv_wf [OF inv]
  from chk have v: "ValidateBasic E oracle now t0 = (Inr (), t)"
    by (auto simp: CheckTx_def split: prod.splits sum.splits if_splits)
  note acc = GetAccount_healthy [OF wf h, of "tx_From t"]
  from chk v acc have nn: "acc_Nonce (acct (db s) (tx_From t)) < tx_Nonce t"
    and f: "check_funds s (acct (db s) (tx_From t)) t = Inr ()"
    by (auto simp: CheckTx_def split: if_splits)
  have no: "nonce_ok (db s) t" using nn by (simp add: nonce_ok_def)
  note b = applyTxBody_healthy [OF wf h no]
  note vb = ValidateBasic_ok [OF v]
  have "\<exists>d. applyTxBody s t (db s) = Inr d"
  proof -
    from vb(4) consider "tx_Type t = TxTransfer" | "tx_Type t = TxStake" | "tx_Type t = TxRequestUnstake"
      | "tx_Type t = TxClaimUnstake" | "tx_Type t = TxClaimMining" by (auto simp: known_type_def)
    then show ?thesis
    proof cases
      case 1
      with f b(1) applyTransfer_healthy [OF wf h] show ?thesis by (auto simp: check_funds_def split: if_splits)
    next
      case 2
      with f b(2) h show ?thesis
        by (auto simp: check_funds_def applyStake_def setAccountTxn_def txn_Set_def split: if_splits)
    next
      case 3
      with f b(3) h show ?thesis
        by (auto simp: check_funds_def applyRequestUnstake_def setAccountTxn_def txn_Set_def split: if_splits)
    next
      case 4
      with f b(4) h show ?thesis
        by (auto simp: check_funds_def applyClaimUnstake_def setAccountTxn_def txn_Set_def split: if_splits)
    next
      case 5
      from applyClaimMining_admitted [OF wf h vb(6) [OF 5]] f 5 b(5) show ?thesis by (auto simp: check_funds_def split: sum.splits if_splits)
    qed
  qed
  then show ?thesis using h by (auto simp: ApplyTx_Inr)
qed

text \<open>
  A transaction that passes \<^verbatim>\<open>CheckTx\<close> can be applied: on the same store (healthy, with the ledger
  invariant) \<^verbatim>\<open>ApplyTx\<close> succeeds on it, whatever its type.
\<close>

theorem CheckTx_ApplyTx:
  assumes h: "healthy s" and inv: "ledger_inv G (db s)"
    and chk: "CheckTx E oracle now s m (Some t0) = (Inr (), Some t)"
  shows "\<exists>s'. ApplyTx s t = (Inr (), s')"
  by (rule CheckTx_applies [OF assms])


lemma demo_check:
  "CheckTx toy_geth [] 9 demo_store (New DefaultConfig) (Some (demo_tx TxStake [] 10 4))
     = (Inr (), Some (demo_tx TxStake [] 10 4))"
proof -
  have v: "ValidateBasic toy_geth [] 9 (demo_tx TxStake [] 10 4) = (Inr (), demo_tx TxStake [] 10 4)"
    by (auto simp: ValidateBasic_def VerifySignature_def demo_tx_def Let_def)
  have a: "GetAccount demo_store ''0xAb'' = Inr demo_account"
    using GetAccount_healthy [OF ledger_inv_wf [OF demo_ledger_inv] demo_healthy, of "''0xAb''"] by simp
  have t: "tx_From (demo_tx TxStake [] 10 4) = ''0xAb''" "tx_To (demo_tx TxStake [] 10 4) = []"
    "tx_Signature (demo_tx TxStake [] 10 4) = toy_sig" "tx_Nonce (demo_tx TxStake [] 10 4) = 4"
    "tx_Type (demo_tx TxStake [] 10 4) = TxStake" "tx_Amount (demo_tx TxStake [] 10 4) = 10"
    by (simp_all add: demo_tx_def)
  show ?thesis
    unfolding CheckTx_def by (simp add: v a t New_def DefaultConfig_def toy_sig_def check_funds_def demo_account_def)
qed

theorem CheckTx_ApplyTx_witness:
  "\<exists>s'. ApplyTx demo_store (demo_tx TxStake [] 10 4) = (Inr (), s')"
  by (rule CheckTx_ApplyTx [OF demo_healthy demo_ledger_inv demo_check])

section \<open>The pool invariant\<close>

definition mp_wf :: "Mempool \<Rightarrow> bool" where
  "mp_wf m \<longleftrightarrow> kv_sorted (mp_byHash m) \<and> kv_sorted (mp_seen m) \<and> distinct (mp_order m)
     \<and> set (mp_order m) = fst ` set (mp_byHash m) \<and> (\<forall>e \<in> set (mp_byHash m). Hash (snd e) = fst e)
     \<and> int (length (mp_byHash m)) \<le> cfg_MaxTxs (mp_cfg m)"

text \<open>The pool as a queue: its transactions in insertion order.\<close>

definition items :: "Mempool \<Rightarrow> Transaction list" where
  "items m = map (\<lambda>h. the (map_of (mp_byHash m) h)) (mp_order m)"

lemma fold_kv_del: "fold kv_del hs d = filter (\<lambda>e. fst e \<notin> set hs) d"
  by (induction hs arbitrary: d) (auto simp: kv_del_def intro!: filter_cong)

lemma map_of_fold_kv_del: "map_of (fold kv_del hs d) h = (if h \<in> set hs then None else map_of d h)"
  unfolding fold_kv_del by (induction d) auto

lemma map_of_dom: "map_of d h \<noteq> None \<longleftrightarrow> h \<in> fst ` set d"
  by (auto simp: map_of_eq_None_iff)

lemma take_loop_spec:
  assumes "distinct hs" "set hs \<subseteq> fst ` set d"
  shows "take_loop limit hs d out rmn =
    (let k = nat (limit - int (length out))
     in (out @ map (\<lambda>h. the (map_of d h)) (take k hs), rmn @ drop k hs, fold kv_del (take k hs) d))"
  using assms
proof (induction hs arbitrary: d out rmn)
  case (Cons h hs)
  obtain t where t: "map_of d h = Some t" using Cons.prems(2) map_of_dom [of d h] by auto
  show ?case
  proof (cases "int (length out) < limit")
    case True
    have "set hs \<subseteq> fst ` set (kv_del h d)" using Cons.prems by (force simp: kv_del_def)
    moreover have "map_of (kv_del h d) x = map_of d x" if "x \<in> set (take n hs)" for x n
      using that Cons.prems(1) set_take_subset [of n hs] by (auto simp: map_of_kv_del)
    moreover have "nat (limit - int (length out)) = Suc (nat (limit - int (Suc (length out))))" using True by simp
    ultimately show ?thesis
      using Cons.IH [of "kv_del h d" "out @ [t]" rmn] Cons.prems(1) True t by (simp add: Let_def cong: map_cong)
  next
    case False
    then show ?thesis using Cons.IH [of d out "rmn @ [h]"] Cons.prems t by (simp add: Let_def)
  qed
qed (simp add: Let_def)

definition batch :: "Mempool \<Rightarrow> int \<Rightarrow> nat" where
  "batch m limit = (if limit \<le> 0 then length (mp_order m) else nat limit)"

lemma Take_spec:
  assumes "mp_wf m"
  shows "Take m limit = (take (batch m limit) (items m),
    m\<lparr>mp_order := drop (batch m limit) (mp_order m),
      mp_byHash := fold kv_del (take (batch m limit) (mp_order m)) (mp_byHash m)\<rparr>)"
proof -
  have "nat ((if limit \<le> 0 then int (length (mp_order m)) else limit) - int (length [])) = batch m limit"
    by (simp add: batch_def)
  then show ?thesis
    using assms take_loop_spec [of "mp_order m" "mp_byHash m" "if limit \<le> 0 then int (length (mp_order m)) else limit" "[]" "[]"]
    by (simp add: Take_def mp_wf_def items_def Let_def take_map)
qed

lemma mp_wf_shrink:
  assumes wf: "mp_wf m" and o: "distinct order" "set order = set (mp_order m) - set hs"
  shows "mp_wf (m\<lparr>mp_order := order, mp_byHash := fold kv_del hs (mp_byHash m)\<rparr>)"
proof -
  have "int (length (filter (\<lambda>e. fst e \<notin> set hs) (mp_byHash m))) \<le> cfg_MaxTxs (mp_cfg m)"
    using wf length_filter_le [of "\<lambda>e. fst e \<notin> set hs" "mp_byHash m"]
    by (auto simp: mp_wf_def simp del: length_filter_le)
  moreover have "fst ` set (filter (\<lambda>e. fst e \<notin> set hs) (mp_byHash m)) = fst ` set (mp_byHash m) - set hs" by force
  ultimately show ?thesis
    using wf o unfolding mp_wf_def fold_kv_del by (auto simp: kv_sorted_filter)
qed

lemma set_drop_distinct: "distinct xs \<Longrightarrow> set (drop n xs) = set xs - set (take n xs)"
proof -
  assume "distinct xs"
  then have "distinct (take n xs @ drop n xs)" by simp
  then have "set (take n xs) \<inter> set (drop n xs) = {}" by (simp only: distinct_append)
  moreover have "set xs = set (take n xs) \<union> set (drop n xs)" by (metis append_take_drop_id set_append)
  ultimately show ?thesis by blast
qed

lemma mp_wf_Take: "mp_wf m \<Longrightarrow> mp_wf (snd (Take m limit))"
proof -
  assume wf: "mp_wf m"
  then have d: "distinct (mp_order m)" by (simp add: mp_wf_def)
  note set_drop_distinct [OF d, of "batch m limit"]
  then show ?thesis using mp_wf_shrink [OF wf, of "drop (batch m limit) (mp_order m)"] d by (simp add: Take_spec [OF wf])
qed

lemma mp_wf_RemoveByHash: "mp_wf m \<Longrightarrow> mp_wf (RemoveByHash m hashes)"
proof -
  assume wf: "mp_wf m"
  then have d: "distinct (mp_order m)" and o: "set (mp_order m) = fst ` set (mp_byHash m)" by (simp_all add: mp_wf_def)
  have "set (filter (\<lambda>h. h \<notin> set hashes \<and> map_of (fold kv_del hashes (mp_byHash m)) h \<noteq> None) (mp_order m))
      = set (mp_order m) - set hashes"
    using o map_of_dom [of "mp_byHash m"] by (auto simp: map_of_fold_kv_del)
  then show ?thesis
    using mp_wf_shrink [OF wf, of "filter (\<lambda>h. h \<notin> set hashes \<and> map_of (fold kv_del hashes (mp_byHash m)) h \<noteq> None) (mp_order m)"] d
    by (simp add: RemoveByHash_def Let_def)
qed

lemma mp_wf_seen: "mp_wf m \<Longrightarrow> kv_sorted x \<Longrightarrow> mp_wf (m\<lparr>mp_seen := x\<rparr>)"
  by (simp add: mp_wf_def)

lemma mp_wf_pruneSeen: "mp_wf m \<Longrightarrow> mp_wf (pruneSeenLocked ord m)"
proof -
  assume wf: "mp_wf m"
  have "kv_sorted (fold (\<lambda>e. kv_del (fst e)) es d)" if "kv_sorted d" for es :: "(string \<times> int) list" and d :: "(string \<times> int) list"
    using that by (induction es arbitrary: d) simp_all
  then show ?thesis using wf by (auto simp: pruneSeenLocked_def Let_def mp_wf_def)
qed

lemma length_kv_set_fresh: "map_of d k = None \<Longrightarrow> length (kv_set k v d) = Suc (length d)"
  by (induction k v d rule: kv_set.induct) (auto split: if_splits)

lemma mp_wf_insert:
  assumes wf: "mp_wf m" and new: "map_of (mp_byHash m) (Hash t) = None"
    and room: "int (length (mp_byHash m)) < cfg_MaxTxs (mp_cfg m)"
  shows "mp_wf (m\<lparr>mp_byHash := kv_set (Hash t) t (mp_byHash m), mp_order := mp_order m @ [Hash t],
     mp_seen := kv_set (Hash t) now (mp_seen m)\<rparr>)"
proof -
  have "Hash t \<notin> fst ` set (mp_byHash m)" using new by (simp add: map_of_eq_None_iff)
  then show ?thesis
    using wf room new unfolding mp_wf_def
    by (auto simp: length_kv_set_fresh fst_set_kv_set set_kv_set)
qed

lemma CheckTx_Inr:
  assumes "CheckTx E oracle now s m t0 = (Inr (), t')"
  obtains t where "t' = Some t"
  using assms that by (auto simp: CheckTx_def split: option.splits prod.splits sum.splits if_splits)

lemma mp_wf_Add: "mp_wf m \<Longrightarrow> mp_wf (snd (Add E oracle now ord s m t0))"
proof -
  assume wf: "mp_wf m"
  obtain r t' where c: "CheckTx E oracle now s m t0 = (r, t')" by (cases "CheckTx E oracle now s m t0")
  show ?thesis
  proof (cases r)
    case (Inr u)
    with c obtain t where "t' = Some t" by (auto elim: CheckTx_Inr)
    with c Inr wf show ?thesis
      by (auto simp: Add_def Let_def map_of_eq_None_iff intro!: mp_wf_pruneSeen mp_wf_insert)
  qed (use c wf in \<open>auto simp: Add_def\<close>)
qed

text \<open>
  C29: the pool invariant (hashes in insertion order without repetition, exactly the stored ones, each
  the hash of its transaction, never more than \<^verbatim>\<open>MaxTxs\<close>) holds of a new pool and is kept by every
  operation, whatever transaction is offered and in whatever order the map is listed.
\<close>

theorem mempool_invariant:
  "mp_wf (New cfg) \<and> (mp_wf m \<longrightarrow> mp_wf (snd (Add E oracle now ord s m t)) \<and> mp_wf (snd (Take m limit))
     \<and> mp_wf (RemoveByHash m hashes))"
proof -
  have "mp_wf (New cfg)" by (simp add: mp_wf_def New_def DefaultConfig_def Let_def)
  then show ?thesis using mp_wf_Add mp_wf_Take mp_wf_RemoveByHash by blast
qed

theorem mempool_invariant_witness: "mp_wf (snd (Take (New DefaultConfig) 3))"
  using mempool_invariant [of DefaultConfig "New DefaultConfig"] by blast

section \<open>First in, first out\<close>

text \<open>What a block producer relies on: batches leave the source in order, none twice, none skipped.\<close>

locale fifo_source =
  fixes content :: "'p \<Rightarrow> 't list" and grab :: "'p \<Rightarrow> int \<Rightarrow> 't list \<times> 'p" and ok :: "'p \<Rightarrow> bool"
  assumes grab_front: "ok p \<Longrightarrow> 0 < n \<Longrightarrow> fst (grab p n) = take (nat n) (content p)"
    and grab_rest: "ok p \<Longrightarrow> 0 < n \<Longrightarrow> content (snd (grab p n)) = drop (nat n) (content p)"
    and grab_ok: "ok p \<Longrightarrow> ok (snd (grab p n))"
begin

fun batches :: "int \<Rightarrow> nat \<Rightarrow> 'p \<Rightarrow> 't list list" where
  "batches n 0 p = []"
| "batches n (Suc k) p = fst (grab p n) # batches n k (snd (grab p n))"

lemma batches_in_order:
  "ok p \<Longrightarrow> 0 < n \<Longrightarrow> concat (batches n k p) = take (k * nat n) (content p)"
proof (induction k arbitrary: p)
  case (Suc k)
  then show ?case by (simp add: grab_front grab_rest grab_ok take_add [symmetric])
qed simp

lemma batches_drain:
  assumes "ok p" "0 < n" "length (content p) \<le> k * nat n"
  shows "concat (batches n k p) = content p"
  using assms by (simp add: batches_in_order)

end

lemma items_drop:
  assumes "mp_wf m"
  shows "items (snd (Take m limit)) = drop (batch m limit) (items m)"
proof -
  let ?k = "batch m limit"
  have d: "distinct (mp_order m)" using assms by (simp add: mp_wf_def)
  have "h \<notin> set (take ?k (mp_order m))" if "h \<in> set (drop ?k (mp_order m))" for h
    using that set_drop_distinct [OF d, of ?k] by auto
  then show ?thesis
    by (simp add: Take_spec [OF assms] items_def drop_map map_of_fold_kv_del cong: map_cong)
qed

interpretation pool: fifo_source items Take mp_wf
proof
  fix p :: Mempool and n :: int assume "mp_wf p" "0 < n"
  then show "fst (Take p n) = take (nat n) (items p)" "items (snd (Take p n)) = drop (nat n) (items p)"
    by (simp add: Take_spec batch_def) (use \<open>mp_wf p\<close> \<open>0 < n\<close> in \<open>simp add: items_drop batch_def\<close>)
next
  fix p :: Mempool and n :: int assume "mp_wf p"
  then show "mp_wf (snd (Take p n))" by (rule mp_wf_Take)
qed

fun take_batches :: "Mempool \<Rightarrow> int \<Rightarrow> nat \<Rightarrow> Transaction list list" where
  "take_batches m n 0 = []"
| "take_batches m n (Suc k) = fst (Take m n) # take_batches (snd (Take m n)) n k"

lemma take_batches_eq: "take_batches m n k = pool.batches n k m"
  by (induction k arbitrary: m) simp_all

text \<open>
  C30: taking blocks of at most \<open>n\<close> transactions until the pool is empty yields every pooled transaction
  exactly once, in insertion order.
\<close>

theorem Take_fifo:
  assumes "mp_wf m" and "0 < n" and "length (items m) \<le> k * nat n"
  shows "concat (take_batches m n k) = items m"
  unfolding take_batches_eq using assms by (rule pool.batches_drain)

definition demo_pool :: Mempool where
  "demo_pool = (New DefaultConfig)
     \<lparr>mp_order := [Hash (demo_tx TxStake [] 10 4)],
      mp_byHash := [(Hash (demo_tx TxStake [] 10 4), demo_tx TxStake [] 10 4)],
      mp_seen := [(Hash (demo_tx TxStake [] 10 4), 9)]\<rparr>"

lemma demo_pool_wf: "mp_wf demo_pool"
  by (simp add: mp_wf_def demo_pool_def kv_sorted_def New_def DefaultConfig_def)

lemma demo_pool_items: "items demo_pool = [demo_tx TxStake [] 10 4]"
  by (simp add: items_def demo_pool_def)

theorem Take_fifo_witness: "concat (take_batches demo_pool 2 1) = [demo_tx TxStake [] 10 4]"
  using Take_fifo [OF demo_pool_wf, of 2 1] by (simp add: demo_pool_items)

section \<open>Putting transactions back\<close>

lemma Take_seen: "mp_seen (snd (Take m limit)) = mp_seen m" "mp_cfg (snd (Take m limit)) = mp_cfg m"
  by (simp_all add: Take_def Let_def split: prod.splits)

lemma CheckTx_cfg: "mp_cfg m' = mp_cfg m \<Longrightarrow> CheckTx E oracle now s m' t = CheckTx E oracle now s m t"
proof -
  assume e: "mp_cfg m' = mp_cfg m"
  show ?thesis unfolding CheckTx_def e ..
qed

text \<open>
  A transaction taken out of the pool cannot be put back while its hash is remembered: \<^verbatim>\<open>Add\<close> answers
  \<^verbatim>\<open>tx already seen\<close> and leaves the pool without it, although \<^verbatim>\<open>CheckTx\<close> still accepts it.
\<close>

theorem Add_after_Take:
  assumes wf: "mp_wf m" and t: "t \<in> set (fst (Take m limit))" and seen: "map_of (mp_seen m) (Hash t) \<noteq> None"
    and chk: "CheckTx E oracle now s m (Some t) = (Inr (), Some t)"
  shows "Add E oracle now ord s (snd (Take m limit)) (Some t)
    = ((Hash t, Inl (Errorf ''tx already seen'')), snd (Take m limit))"
proof -
  let ?m = "snd (Take m limit)" and ?k = "batch m limit"
  have c: "CheckTx E oracle now s ?m (Some t) = (Inr (), Some t)" using CheckTx_cfg [OF Take_seen(2)] chk by simp
  from t obtain h where h: "h \<in> set (take ?k (mp_order m))" "t = the (map_of (mp_byHash m) h)"
    by (auto simp: Take_spec [OF wf] items_def take_map)
  then have "h \<in> fst ` set (mp_byHash m)" using wf set_take_subset [of ?k "mp_order m"] by (auto simp: mp_wf_def)
  then obtain u where u: "map_of (mp_byHash m) h = Some u" using map_of_dom [of "mp_byHash m" h] by auto
  then have "(h, u) \<in> set (mp_byHash m)" by (rule map_of_SomeD)
  then have "Hash t = h" using wf h(2) u by (force simp: mp_wf_def)
  then have "map_of (mp_byHash ?m) (Hash t) = None" using h by (simp add: Take_spec [OF wf] map_of_fold_kv_del)
  then show ?thesis using c seen by (simp add: Add_def Take_seen)
qed

theorem Add_after_Take_witness:
  "snd (fst (Add toy_geth [] 9 (\<lambda>x. x) demo_store (snd (Take demo_pool 0)) (Some (demo_tx TxStake [] 10 4))))
     = Inl (Errorf ''tx already seen'')"
proof -
  have "CheckTx toy_geth [] 9 demo_store demo_pool (Some (demo_tx TxStake [] 10 4)) = (Inr (), Some (demo_tx TxStake [] 10 4))"
    using demo_check CheckTx_cfg [of demo_pool "New DefaultConfig"] by (simp add: demo_pool_def)
  from Add_after_Take [OF demo_pool_wf _ _ this, of 0] show ?thesis
    by (simp add: Take_spec [OF demo_pool_wf] demo_pool_items batch_def) (simp add: demo_pool_def)
qed

end
