(* ===== verification/Merkle.thy ===== *)
theory Merkle
  imports Ledger
begin

text \<open>
  Package \<^verbatim>\<open>internal/state\<close>, files \<^verbatim>\<open>merkle.go\<close> and \<^verbatim>\<open>stateroot.go\<close>: the binary Merkle tree over the
  accounts, inclusion proofs and their verification. A digest is a 32-byte string. The texts that
  are hashed are named (\<open>leaf_text\<close>, \<open>node_text\<close>), so that soundness can say which collisions it excludes.
\<close>

section \<open>Digests\<close>

definition hashHex :: "string \<Rightarrow> string" where
  "hashHex b = ''0x'' @ EncodeToString b"

definition decodeHex32 :: "string \<Rightarrow> string res" where
  "decodeHex32 s0 =
     (let s = TrimPrefix (ToLower s0) ''0x'' in
      case DecodeString s of
        Inl e \<Rightarrow> Inl e
      | Inr b \<Rightarrow> if length b \<noteq> 32 then Inl (Errorf ''expected 32-byte hash'') else Inr b)"

definition leaf_text :: "string \<Rightarrow> Account \<Rightarrow> string" where
  "leaf_text addr0 acc =
     (let addr = ToLower (TrimSpace addr0)
      in ''EAST_LEAF|'' @ addr @ ''|'' @ show_int (acc_Balance acc) @ ''|'' @ show_int (acc_Staked acc)
         @ ''|'' @ show_int (acc_PendingUnstake acc) @ ''|'' @ show_u64 (acc_Nonce acc))"

definition node_text :: "string \<Rightarrow> string \<Rightarrow> string" where
  "node_text left right = ''EAST_NODE|'' @ left @ right"

definition LeafHash :: "string \<Rightarrow> Account \<Rightarrow> string" where
  "LeafHash addr acc = sha256 (leaf_text addr acc)"

definition emptyLeaf :: string where
  "emptyLeaf = sha256 ''EAST_EMPTY''"

definition parentHash :: "string \<Rightarrow> string \<Rightarrow> string" where
  "parentHash left right = sha256 (node_text left right)"

section \<open>The tree\<close>

record accountLeaf =
  al_Addr :: string
  al_Acc :: Account
  al_Hash :: string

fun load_leaves :: "Store \<Rightarrow> DB \<Rightarrow> accountLeaf list res" where
  "load_leaves s [] = Inr []"
| "load_leaves s ((k, v) # es) =
     (if getFault s k then Inl BadgerErr
      else case as_Account v of
             Inl e \<Rightarrow> Inl e
           | Inr acc \<Rightarrow>
               let addr = ToLower (TrimPrefix k ''acc:'') in
               case load_leaves s es of
                 Inl e \<Rightarrow> Inl e
               | Inr ls \<Rightarrow> Inr (\<lparr>al_Addr = addr, al_Acc = acc, al_Hash = LeafHash addr acc\<rparr> # ls))"

definition loadSortedLeaves :: "Store \<Rightarrow> accountLeaf list res" where
  "loadSortedLeaves s =
     (case load_leaves s (iter_prefix ''acc:'' (db s)) of
        Inl e \<Rightarrow> Inl e | Inr leaves \<Rightarrow> Inr (sort_key al_Addr leaves))"

text \<open>One level up: neighbours are paired, an odd last node is paired with itself.\<close>

fun next_level :: "string list \<Rightarrow> string list" where
  "next_level [] = []"
| "next_level [x] = [parentHash x x]"
| "next_level (x # y # r) = parentHash x y # next_level r"

lemma length_next_level: "length (next_level l) = (length l + 1) div 2"
  by (induction l rule: next_level.induct) auto

function layers_from :: "string list \<Rightarrow> string list list" where
  "layers_from level = level # (if length level > 1 then layers_from (next_level level) else [])"
  by pat_completeness auto
termination
  by (relation "measure length") (auto simp: length_next_level)

declare layers_from.simps [simp del]

definition buildMerkleLayers :: "string list \<Rightarrow> string list list" where
  "buildMerkleLayers leafHashes = (if leafHashes = [] then [[emptyLeaf]] else layers_from leafHashes)"

definition merkle_root :: "string list \<Rightarrow> string" where
  "merkle_root leafHashes = last (buildMerkleLayers leafHashes) ! 0"

definition ComputeMerkleStateRoot :: "Store \<Rightarrow> string res" where
  "ComputeMerkleStateRoot s =
     (case loadSortedLeaves s of
        Inl e \<Rightarrow> Inl e | Inr leaves \<Rightarrow> Inr (hashHex (merkle_root (map al_Hash leaves))))"

definition ComputeStateRoot :: "Store \<Rightarrow> string res" where
  "ComputeStateRoot s = ComputeMerkleStateRoot s"

section \<open>Proofs\<close>

record MerkleProof =
  mk_Address :: string
  mk_Account :: Account
  mk_LeafHash :: string
  mk_LeafIndex :: int
  mk_LeafCount :: int
  mk_Path :: "string list"
  mk_Sides :: "string list"
  mk_StateRoot :: string

text \<open>\<open>index ^ 1\<close>\<close>

definition flip_last :: "nat \<Rightarrow> nat" where
  "flip_last i = (if even i then i + 1 else i - 1)"

fun prove_path :: "string list list \<Rightarrow> nat \<Rightarrow> string list \<times> string list" where
  "prove_path (level # l2 # ls) index =
     (let sib0 = flip_last index;
          sibling = (if sib0 \<ge> length level then index else sib0);
          (path, sides) = prove_path (l2 # ls) (index div 2)
      in (hashHex (level ! sibling) # path, (if sibling < index then ''L'' else ''R'') # sides))"
| "prove_path _ index = ([], [])"

fun find_leaf :: "string \<Rightarrow> accountLeaf list \<Rightarrow> nat option" where
  "find_leaf addr [] = None"
| "find_leaf addr (l # ls) = (if al_Addr l = addr then Some 0 else map_option Suc (find_leaf addr ls))"

definition account_or_zero :: "Store \<Rightarrow> string \<Rightarrow> Account" where
  "account_or_zero s addr = (case GetAccount s addr of Inr a \<Rightarrow> a | Inl _ \<Rightarrow> zero_account)"

definition ProveAccountMerkle :: "Store \<Rightarrow> string \<Rightarrow> MerkleProof res" where
  "ProveAccountMerkle s addr0 =
     (let addr = ToLower (TrimSpace addr0) in
      case loadSortedLeaves s of
        Inl e \<Rightarrow> Inl e
      | Inr leaves \<Rightarrow>
          let hashes = map al_Hash leaves; root = hashHex (merkle_root hashes) in
          if leaves = [] then
            let acc = account_or_zero s addr in
            Inr \<lparr>mk_Address = addr, mk_Account = acc, mk_LeafHash = hashHex (LeafHash addr acc), mk_LeafIndex = 0,
                 mk_LeafCount = 0, mk_Path = [], mk_Sides = [], mk_StateRoot = hashHex emptyLeaf\<rparr>
          else case find_leaf addr leaves of
            None \<Rightarrow>
              let acc = account_or_zero s addr in
              Inr \<lparr>mk_Address = addr, mk_Account = acc, mk_LeafHash = hashHex (LeafHash addr acc), mk_LeafIndex = -1,
                   mk_LeafCount = int (length leaves), mk_Path = [], mk_Sides = [], mk_StateRoot = root\<rparr>
          | Some idx \<Rightarrow>
              let (path, sides) = prove_path (buildMerkleLayers hashes) idx in
              Inr \<lparr>mk_Address = addr, mk_Account = al_Acc (leaves ! idx), mk_LeafHash = hashHex (al_Hash (leaves ! idx)),
                   mk_LeafIndex = int idx, mk_LeafCount = int (length leaves), mk_Path = path, mk_Sides = sides,
                   mk_StateRoot = root\<rparr>)"

definition ProveAccount :: "Store \<Rightarrow> string \<Rightarrow> MerkleProof res" where
  "ProveAccount s addr = ProveAccountMerkle s addr"

fun walk_path :: "string \<Rightarrow> string list \<Rightarrow> string list \<Rightarrow> string res" where
  "walk_path current (sibHex # path) (side # sides) =
     (case decodeHex32 sibHex of
        Inl _ \<Rightarrow> Inl (Errorf ''path'')
      | Inr sib \<Rightarrow>
          if side = ''L'' then walk_path (parentHash sib current) path sides
          else if side = ''R'' then walk_path (parentHash current sib) path sides
          else Inl (Errorf ''invalid side''))"
| "walk_path current _ _ = Inr current"

definition VerifyMerkleProof :: "MerkleProof option \<Rightarrow> unit res" where
  "VerifyMerkleProof po =
     (case po of
        None \<Rightarrow> Inl (Errorf ''nil proof'')
      | Some proof \<Rightarrow>
          if mk_LeafIndex proof < 0 then Inl (Errorf ''account not included in state tree'')
          else
            let expectedLeaf = LeafHash (mk_Address proof) (mk_Account proof) in
            case decodeHex32 (mk_LeafHash proof) of
              Inl _ \<Rightarrow> Inl (Errorf ''leaf_hash'')
            | Inr gotLeaf \<Rightarrow>
                if EncodeToString expectedLeaf \<noteq> EncodeToString gotLeaf
                then Inl (Errorf ''leaf hash does not match account fields'')
                else if length (mk_Path proof) \<noteq> length (mk_Sides proof) then Inl (Errorf ''path/sides length mismatch'')
                else case walk_path expectedLeaf (mk_Path proof) (mk_Sides proof) of
                  Inl e \<Rightarrow> Inl e
                | Inr current \<Rightarrow>
                    (case decodeHex32 (mk_StateRoot proof) of
                       Inl _ \<Rightarrow> Inl (Errorf ''state_root'')
                     | Inr root \<Rightarrow>
                         if EncodeToString current \<noteq> EncodeToString root
                         then Inl (Errorf ''proof does not reconstruct state root'') else Inr ()))"

section \<open>Levels\<close>

lemma ToLower_hashHex: "ToLower (hashHex b) = hashHex b"
proof -
  have "ToLower ''0x'' = ''0x''" by (simp add: ToLower_def lower_char_def less_eq_char_def)
  then show ?thesis unfolding hashHex_def ToLower_append by simp
qed

lemma decode_hashHex [simp]: "decodeHex32 (hashHex b) = (if length b = 32 then Inr b else Inl (Errorf ''expected 32-byte hash''))"
  unfolding decodeHex32_def Let_def ToLower_hashHex by (simp add: hashHex_def TrimPrefix_def)

lemma length_digests [simp]: "length (parentHash a b) = 32" "length (LeafHash x y) = 32" "length emptyLeaf = 32"
  by (simp_all add: parentHash_def LeafHash_def emptyLeaf_def)

lemma nth_next_level:
  "i < length l \<Longrightarrow> next_level l ! (i div 2) =
     parentHash (l ! (2 * (i div 2))) (if 2 * (i div 2) + 1 < length l then l ! (2 * (i div 2) + 1) else l ! (2 * (i div 2)))"
proof (induction l arbitrary: i rule: next_level.induct)
  case (3 x y r)
  show ?case
  proof (cases "i < 2")
    case False
    then have "i div 2 = Suc ((i - 2) div 2)" by (simp add: div_if)
    with 3(1) [of "i - 2"] 3(2) False show ?thesis by simp
  qed (use 3 in auto)
qed auto

lemma layers_from_1: "length l \<le> 1 \<Longrightarrow> layers_from l = [l]"
  by (subst layers_from.simps) simp

lemma layers_from_step: "1 < length l \<Longrightarrow> layers_from l = l # layers_from (next_level l)"
  by (subst layers_from.simps) simp

lemma layers_from_not_Nil [simp]: "layers_from l \<noteq> []"
  by (subst layers_from.simps) simp

lemma last_layer: "l \<noteq> [] \<Longrightarrow> length (last (layers_from l)) = 1"
proof (induction l rule: layers_from.induct)
  case (1 l)
  show ?case
  proof (cases "1 < length l")
    case True
    then have "next_level l \<noteq> []" using length_next_level [of l] by auto
    with 1 True show ?thesis by (simp add: layers_from_step)
  next
    case False
    with 1 show ?thesis by (cases l) (auto simp: layers_from_1)
  qed
qed

text \<open>The path collected from the layers walks from a leaf to the root.\<close>

lemma walk_prove_path:
  assumes "i < length l" "\<forall>x \<in> set l. length x = 32"
  shows "walk_path (l ! i) (fst (prove_path (layers_from l) i)) (snd (prove_path (layers_from l) i))
      = Inr (last (layers_from l) ! 0)
    \<and> length (fst (prove_path (layers_from l) i)) = length (snd (prove_path (layers_from l) i))"
  using assms
proof (induction l arbitrary: i rule: layers_from.induct)
  case (1 l)
  show ?case
  proof (cases "1 < length l")
    case True
    let ?n = "next_level l"
    obtain l2 ls where ly: "layers_from ?n = l2 # ls" by (cases "layers_from ?n") auto
    define sib where "sib = (if flip_last i \<ge> length l then i else flip_last i)"
    have sl: "sib < length l" using 1(2) by (auto simp: sib_def)
    have len: "length (l ! sib) = 32" "length (l ! i) = 32" using 1(2,3) sl by auto
    have i2: "i div 2 < length ?n" using 1(2) by (simp add: length_next_level)
    have n32: "\<forall>x \<in> set ?n. length x = 32" by (induction l rule: next_level.induct) auto
    have par: "?n ! (i div 2) = (if sib < i then parentHash (l ! sib) (l ! i) else parentHash (l ! i) (l ! sib))"
      using nth_next_level [OF 1(2)] 1(2) by (cases "even i") (auto simp: sib_def flip_last_def elim!: evenE oddE)
    have "walk_path (?n ! (i div 2)) (fst (prove_path (layers_from ?n) (i div 2))) (snd (prove_path (layers_from ?n) (i div 2)))
        = Inr (last (layers_from ?n) ! 0)
      \<and> length (fst (prove_path (layers_from ?n) (i div 2))) = length (snd (prove_path (layers_from ?n) (i div 2)))"
      using 1(1) [OF True i2 n32] .
    then show ?thesis
      using True len par ly by (auto simp: layers_from_step sib_def Let_def split: prod.splits)
  next
    case False
    with 1(2) have "l = [l ! 0]" "i = 0" by (cases l; auto)+
    then show ?thesis using False by (auto simp: layers_from_1)
  qed
qed

section \<open>The leaves of a well-formed store\<close>

definition leaf_of :: "string \<times> Value \<Rightarrow> accountLeaf" where
  "leaf_of e = (case e of (k, v) \<Rightarrow> let a = drop 4 k; x = (case v of AccountV x \<Rightarrow> x | _ \<Rightarrow> zero_account)
     in \<lparr>al_Addr = a, al_Acc = x, al_Hash = LeafHash a x\<rparr>)"

lemma load_leaves_wf:
  assumes "healthy s" "\<forall>e \<in> set es. wf_entry (fst e) (snd e) \<and> prefix ''acc:'' (fst e)"
  shows "load_leaves s es = Inr (map leaf_of es)"
  using assms(2)
proof (induction es)
  case (Cons e es)
  obtain k v where e: "e = (k, v)" by (cases e)
  have "wf_entry k v" "prefix ''acc:'' k" using Cons.prems e by auto
  then obtain x where x: "v = AccountV x" "normalizeAddr (drop 4 k) = drop 4 k"
    by (auto simp: wf_entry_def split: Value.splits)
  have "ToLower (drop 4 k) = drop 4 k" using x(2) by (metis ToLower_idem normalizeAddr_def)
  then have "ToLower (TrimPrefix k ''acc:'') = drop 4 k" using \<open>prefix ''acc:'' k\<close> by (simp add: TrimPrefix_def eval_nat_numeral)
  with Cons e x(1) assms(1) show ?case by (simp add: leaf_of_def Let_def)
qed simp

lemma acc_keys_sorted:
  assumes "kv_sorted d"
  shows "sorted (map al_Addr (map leaf_of (iter_prefix ''acc:'' d)))"
proof -
  have "sorted_wrt (<) (map fst (iter_prefix ''acc:'' d))"
    using kv_sorted_filter [OF assms, of "\<lambda>e. prefix ''acc:'' (fst e)"] by (simp add: kv_sorted_def iter_prefix_def)
  moreover have "drop 4 k \<le> drop 4 k'" if "k < k'" "prefix ''acc:'' k" "prefix ''acc:'' k'" for k k' :: string
    using that by (auto simp: prefix_def less_imp_le)
  ultimately show ?thesis
    by (auto simp: sorted_wrt_map iter_prefix_def leaf_of_def Let_def split: prod.splits
        intro: sorted_wrt_mono_rel [of _ "\<lambda>e e'. fst e < fst e'"])
qed

lemma loadSortedLeaves_wf:
  assumes "healthy s" "wf_db (db s)"
  shows "loadSortedLeaves s = Inr (map leaf_of (iter_prefix ''acc:'' (db s)))"
proof -
  have "load_leaves s (iter_prefix ''acc:'' (db s)) = Inr (map leaf_of (iter_prefix ''acc:'' (db s)))"
    using assms by (intro load_leaves_wf) (auto simp: iter_prefix_def wf_db_def)
  moreover have "sort_key al_Addr (map leaf_of (iter_prefix ''acc:'' (db s))) = map leaf_of (iter_prefix ''acc:'' (db s))"
    using acc_keys_sorted [of "db s"] assms(2) by (intro sort_key_id_if_sorted) (simp add: wf_db_def)
  ultimately show ?thesis by (simp add: loadSortedLeaves_def)
qed

lemma find_leaf_Some:
  "\<exists>l \<in> set ls. al_Addr l = a \<Longrightarrow> \<exists>i. find_leaf a ls = Some i \<and> i < length ls \<and> al_Addr (ls ! i) = a"
proof (induction ls)
  case (Cons l ls)
  show ?case
  proof (cases "al_Addr l = a")
    case False
    with Cons obtain i where "find_leaf a ls = Some i" "i < length ls" "al_Addr (ls ! i) = a" by auto
    with False show ?thesis by (intro exI [of _ "Suc i"]) simp
  qed simp
qed simp

lemma acc_entry:
  assumes wf: "wf_db d" and e: "(k, v) \<in> set (iter_prefix ''acc:'' d)" and a: "drop 4 k = normalizeAddr a"
  shows "k = accountKey a" "map_of d (accountKey a) = Some v" "v = AccountV (acct d a)"
proof -
  have p: "prefix ''acc:'' k" "(k, v) \<in> set d" using e by (auto simp: iter_prefix_def)
  from p(1) have "k = ''acc:'' @ drop 4 k" by (auto simp: prefix_def eval_nat_numeral)
  then show k: "k = accountKey a" using a by (simp add: accountKey_def)
  then show m: "map_of d (accountKey a) = Some v"
    using p(2) wf by (intro map_of_is_SomeI) (auto intro: kv_sorted_distinct)
  with wf_db_lookup [OF wf m] show "v = AccountV (acct d a)" by (auto simp: acct_def split: Value.splits)
qed

text \<open>
  C27: the proof \<^verbatim>\<open>ProveAccount\<close> builds for an account in the store is accepted by \<^verbatim>\<open>VerifyMerkleProof\<close>, carries
  that account's fields, and is a proof against the root that \<^verbatim>\<open>ComputeStateRoot\<close> reports.
\<close>

theorem merkle_complete:
  assumes h: "healthy s" and wf: "wf_db (db s)" and ac: "map_of (db s) (accountKey a) = Some v"
  shows "\<exists>pf. ProveAccount s a = Inr pf \<and> VerifyMerkleProof (Some pf) = Inr ()
    \<and> mk_Account pf = acct (db s) a \<and> ComputeStateRoot s = Inr (mk_StateRoot pf)"
proof -
  let ?es = "iter_prefix ''acc:'' (db s)"
  define ls where "ls = map leaf_of ?es"
  have load: "loadSortedLeaves s = Inr ls" using loadSortedLeaves_wf [OF h wf] by (simp add: ls_def)
  have "(accountKey a, v) \<in> set ?es" using map_of_SomeD [OF ac] by (simp add: iter_prefix_def)
  moreover have "al_Addr (leaf_of (accountKey a, v)) = normalizeAddr a"
    by (simp add: leaf_of_def Let_def accountKey_def)
  ultimately have ex: "\<exists>l \<in> set ls. al_Addr l = normalizeAddr a" unfolding ls_def by (metis imageI list.set_map)
  then obtain i where i: "find_leaf (normalizeAddr a) ls = Some i" "i < length ls" "al_Addr (ls ! i) = normalizeAddr a"
    using find_leaf_Some by blast
  have ne: "ls \<noteq> []" using i(2) by auto
  obtain k w where kw: "?es ! i = (k, w)" by (cases "?es ! i")
  have mem: "(k, w) \<in> set ?es" using i(2) kw by (metis ls_def length_map nth_mem)
  have li: "ls ! i = leaf_of (k, w)" using i(2) kw by (simp add: ls_def)
  have "drop 4 k = normalizeAddr a" using i(3) li by (simp add: leaf_of_def Let_def)
  note en = acc_entry [OF wf mem this]
  have leaf: "al_Acc (ls ! i) = acct (db s) a" "al_Hash (ls ! i) = LeafHash (normalizeAddr a) (acct (db s) a)"
    using li en(1,3) by (simp_all add: leaf_of_def Let_def accountKey_def)
  let ?hs = "map al_Hash ls"
  have hlen: "\<forall>x \<in> set ?hs. length x = 32" by (auto simp: ls_def leaf_of_def Let_def split: prod.splits)
  have ih: "i < length ?hs" using i(2) by simp
  note w = walk_prove_path [OF ih hlen]
  have root: "merkle_root ?hs = last (layers_from ?hs) ! 0" using ne by (simp add: merkle_root_def buildMerkleLayers_def)
  have rlen: "length (merkle_root ?hs) = 32"
  proof -
    have "\<forall>x \<in> set l. length x = 32 \<Longrightarrow> l \<noteq> [] \<Longrightarrow> length (last (layers_from l) ! 0) = 32" for l
    proof (induction l rule: layers_from.induct)
      case (1 l)
      have n32: "\<forall>x \<in> set (next_level l). length x = 32" by (induction l rule: next_level.induct) auto
      show ?case
      proof (cases "1 < length l")
        case True
        then have "next_level l \<noteq> []" using length_next_level [of l] by auto
        with 1(1) [OF True n32] True show ?thesis by (simp add: layers_from_step)
      qed (use 1 in \<open>simp add: layers_from_1\<close>)
    qed
    then show ?thesis using hlen ne root by simp
  qed
  obtain path sides where ps: "prove_path (layers_from ?hs) i = (path, sides)" by (cases "prove_path (layers_from ?hs) i")
  let ?pf = "\<lparr>mk_Address = normalizeAddr a, mk_Account = al_Acc (ls ! i), mk_LeafHash = hashHex (al_Hash (ls ! i)),
      mk_LeafIndex = int i, mk_LeafCount = int (length ls), mk_Path = path, mk_Sides = sides,
      mk_StateRoot = hashHex (merkle_root ?hs)\<rparr>"
  have "ProveAccount s a = Inr ?pf"
    using load ne i(1) ps
    by (simp add: ProveAccount_def ProveAccountMerkle_def normalizeAddr_def [symmetric] Let_def buildMerkleLayers_def)
  moreover have "VerifyMerkleProof (Some ?pf) = Inr ()"
    using w ps leaf rlen root i(2) by (simp add: VerifyMerkleProof_def Let_def)
  moreover have "ComputeStateRoot s = Inr (mk_StateRoot ?pf)"
    using load by (simp add: ComputeStateRoot_def ComputeMerkleStateRoot_def)
  ultimately show ?thesis using leaf(1) by (intro exI [of _ ?pf]) simp
qed

section \<open>Soundness\<close>

text \<open>The texts hashed while building a tree and while walking a proof.\<close>

fun pair_texts :: "string list \<Rightarrow> string list" where
  "pair_texts [] = []"
| "pair_texts [x] = [node_text x x]"
| "pair_texts (x # y # r) = node_text x y # pair_texts r"

definition tree_texts :: "string list list \<Rightarrow> string list" where
  "tree_texts layers = concat (map pair_texts (butlast layers))"

fun walk_texts :: "string \<Rightarrow> string list \<Rightarrow> string list \<Rightarrow> string list" where
  "walk_texts current (sibHex # path) (side # sides) =
     (case decodeHex32 sibHex of
        Inl _ \<Rightarrow> []
      | Inr sib \<Rightarrow>
          let t = (if side = ''L'' then node_text sib current else node_text current sib)
          in t # walk_texts (sha256 t) path sides)"
| "walk_texts current _ _ = []"

lemma pair_texts_next: "map sha256 (pair_texts l) = next_level l"
  by (induction l rule: next_level.induct) (simp_all add: parentHash_def)

lemma pair_texts_parts: "t \<in> set (pair_texts l) \<Longrightarrow> \<exists>x \<in> set l. \<exists>y \<in> set l. t = node_text x y"
  by (induction l rule: pair_texts.induct) auto

lemma layers_nth:
  "Suc i < length (layers_from l) \<Longrightarrow> layers_from l ! Suc i = next_level (layers_from l ! i)"
proof (induction l arbitrary: i rule: layers_from.induct)
  case (1 l)
  show ?case
  proof (cases "1 < length l")
    case True
    obtain x xs where x: "layers_from (next_level l) = x # xs" by (cases "layers_from (next_level l)") auto
    have x0: "x = next_level l" using x layers_from.simps [of "next_level l"] by simp
    show ?thesis
    proof (cases i)
      case 0
      then show ?thesis using True x x0 by (simp add: layers_from_step)
    next
      case (Suc j)
      then show ?thesis using 1(1) [OF True, of j] 1(2) True by (simp add: layers_from_step)
    qed
  qed (use 1 in \<open>simp add: layers_from_1\<close>)
qed

lemma layers_0: "layers_from l ! 0 = l"
  by (subst layers_from.simps) simp

lemma layers_32: "\<forall>x \<in> set l. length x = 32 \<Longrightarrow> i < length (layers_from l) \<Longrightarrow> \<forall>x \<in> set (layers_from l ! i). length x = 32"
proof (induction i)
  case (Suc i)
  have "\<forall>x \<in> set (next_level m). length x = 32" for m by (induction m rule: next_level.induct) auto
  then show ?case using Suc by (simp add: layers_nth)
qed (simp add: layers_0)

lemma layer_texts:
  assumes "Suc i < length (layers_from l)" "r \<in> set (layers_from l ! Suc i)"
  obtains x y where "x \<in> set (layers_from l ! i)" "y \<in> set (layers_from l ! i)" "r = sha256 (node_text x y)"
    "node_text x y \<in> set (tree_texts (layers_from l))"
proof -
  have "r \<in> set (map sha256 (pair_texts (layers_from l ! i)))"
    using assms unfolding pair_texts_next by (simp add: layers_nth)
  then obtain t where t: "t \<in> set (pair_texts (layers_from l ! i))" "r = sha256 t" by auto
  have "layers_from l ! i = butlast (layers_from l) ! i" "i < length (butlast (layers_from l))"
    using assms(1) by (simp_all add: nth_butlast)
  then have "layers_from l ! i \<in> set (butlast (layers_from l))" by simp
  with t have "t \<in> set (tree_texts (layers_from l))" by (auto simp: tree_texts_def)
  with t pair_texts_parts [OF t(1)] that show thesis by blast
qed

lemma node_text_inj:
  "length a = 32 \<Longrightarrow> length x = 32 \<Longrightarrow> node_text a b = node_text x y \<Longrightarrow> a = x \<and> b = y"
  by (simp add: node_text_def append_eq_append_conv)

lemma leaf_not_node: "leaf_text a x \<noteq> node_text p q"
  by (simp add: leaf_text_def node_text_def Let_def)

lemma walk_snoc:
  assumes "length ps = length ss" "walk_path c (ps @ [p]) (ss @ [sd]) = Inr r"
  shows "\<exists>m sib. walk_path c ps ss = Inr m \<and> decodeHex32 p = Inr sib
    \<and> r = (if sd = ''L'' then parentHash sib m else parentHash m sib)
    \<and> set (walk_texts c ps ss) \<subseteq> set (walk_texts c (ps @ [p]) (ss @ [sd]))
    \<and> (if sd = ''L'' then node_text sib m else node_text m sib) \<in> set (walk_texts c (ps @ [p]) (ss @ [sd]))"
  using assms
proof (induction ps ss arbitrary: c rule: list_induct2)
  case Nil
  from Nil obtain sib where d: "decodeHex32 p = Inr sib" by (auto split: sum.splits)
  with Nil show ?case by (auto simp: Let_def split: if_splits)
next
  case (Cons q ps t ss)
  from Cons.prems obtain sib0 where d: "decodeHex32 q = Inr sib0" by (auto split: sum.splits)
  define c' where "c' = (if t = ''L'' then parentHash sib0 c else parentHash c sib0)"
  have t: "t \<in> {''L'', ''R''}" using Cons.prems d by (auto split: if_splits)
  have st: "walk_path c (q # xs) (t # ys) = walk_path c' xs ys" "set (walk_texts c (q # xs) (t # ys)) =
     insert (if t = ''L'' then node_text sib0 c else node_text c sib0) (set (walk_texts c' xs ys))" for xs ys
    using d t by (auto simp: c'_def parentHash_def Let_def)
  have "walk_path c' (ps @ [p]) (ss @ [sd]) = Inr r" using Cons.prems st(1) [of "ps @ [p]" "ss @ [sd]"] by simp
  from Cons.IH [OF this] show ?case unfolding append_Cons st by blast
qed

lemma decode_32: "decodeHex32 s = Inr b \<Longrightarrow> length b = 32"
  by (auto simp: decodeHex32_def Let_def split: sum.splits if_splits)

lemma walk_32: "walk_path c ps ss = Inr m \<Longrightarrow> length c = 32 \<Longrightarrow> length m = 32"
  by (induction c ps ss rule: walk_path.induct) (auto split: sum.splits if_splits)

lemma walk_last:
  assumes "length path = length sides" "walk_path (LeafHash b x) path sides = Inr r"
  shows "r = sha256 (leaf_text b x) \<or> (\<exists>p q. r = sha256 (node_text p q) \<and> node_text p q \<in> set (walk_texts (LeafHash b x) path sides)
      \<and> node_text p q \<noteq> ''EAST_EMPTY'')"
  using assms
proof (cases path rule: rev_cases)
  case Nil
  with assms show ?thesis by (simp add: LeafHash_def)
next
  case (snoc ps p)
  then obtain ss sd where sides: "sides = ss @ [sd]" "length ps = length ss"
    using assms(1) by (cases sides rule: rev_cases) auto
  from walk_snoc [of ps ss "LeafHash b x" p sd r] assms(2) snoc sides obtain m sib where
    "r = (if sd = ''L'' then parentHash sib m else parentHash m sib)"
    "(if sd = ''L'' then node_text sib m else node_text m sib) \<in> set (walk_texts (LeafHash b x) path sides)" by auto
  moreover have "node_text p q \<noteq> ''EAST_EMPTY''" for p q by (simp add: node_text_def)
  ultimately show ?thesis by (auto simp: parentHash_def split: if_splits)
qed

lemma child_in_layer:
  assumes "node_text x y = (if left then node_text sib m else node_text m sib)"
    and "length x = 32" "length sib = 32" "length m = 32" "x \<in> X" "y \<in> X"
  shows "m \<in> X"
proof (cases left)
  case True
  with assms(1) have "node_text x y = node_text sib m" by simp
  from node_text_inj [OF assms(2,3) this] assms(6) show ?thesis by simp
next
  case False
  with assms(1) have "node_text x y = node_text m sib" by simp
  from node_text_inj [OF assms(2,4) this] assms(5) show ?thesis by simp
qed

lemma leaf_reached:
  assumes leaves: "\<forall>x \<in> set l. \<exists>a acc. x = LeafHash a acc \<and> leaf_text a acc \<in> L"
    and nc: "\<And>t u. t \<in> L \<union> set (tree_texts (layers_from l)) \<Longrightarrow>
        u \<in> insert (leaf_text b xa) (set (walk_texts (LeafHash b xa) path sides)) \<Longrightarrow> \<not> collision t u"
    and len: "length path = length sides" and walk: "walk_path (LeafHash b xa) path sides = Inr r"
    and i: "i < length (layers_from l)" "r \<in> set (layers_from l ! i)"
  shows "LeafHash b xa \<in> set l"
  using len nc walk i
proof (induction path arbitrary: sides r i rule: rev_induct)
  case Nil
  then have r: "r = LeafHash b xa" by simp
  show ?case
  proof (cases i)
    case 0
    then show ?thesis using Nil r by (simp add: layers_0)
  next
    case (Suc j)
    then obtain x y where "r = sha256 (node_text x y)" "node_text x y \<in> set (tree_texts (layers_from l))"
      using Nil layer_texts [of j l r] by metis
    then show ?thesis using Nil(2) [of "node_text x y" "leaf_text b xa"] r leaf_not_node [of b xa x y]
      by (auto simp: collision_def LeafHash_def)
  qed
next
  case (snoc p path)
  then obtain ss sd where sides: "sides = ss @ [sd]" "length path = length ss"
    by (metis length_append_singleton length_0_conv nat.distinct(1) rev_exhaust nat.inject)
  from walk_snoc [of path ss "LeafHash b xa" p sd r] snoc.prems(3) sides obtain m sib where
    m: "walk_path (LeafHash b xa) path ss = Inr m" and d: "decodeHex32 p = Inr sib"
    and r: "r = (if sd = ''L'' then parentHash sib m else parentHash m sib)"
    and sub: "set (walk_texts (LeafHash b xa) path ss) \<subseteq> set (walk_texts (LeafHash b xa) (path @ [p]) sides)"
    and wt: "(if sd = ''L'' then node_text sib m else node_text m sib) \<in> set (walk_texts (LeafHash b xa) (path @ [p]) sides)"
    by auto
  define t where "t = (if sd = ''L'' then node_text sib m else node_text m sib)"
  have rt: "r = sha256 t" using r by (simp add: t_def parentHash_def)
  have l32: "length sib = 32" "length m = 32" using decode_32 [OF d] walk_32 [OF m] by simp_all
  show ?case
  proof (cases i)
    case 0
    then obtain a acc where "r = LeafHash a acc" "leaf_text a acc \<in> L"
      using snoc.prems(5) leaves by (auto simp: layers_0)
    moreover have "leaf_text a acc \<noteq> t" using leaf_not_node by (simp add: t_def)
    ultimately show ?thesis using snoc.prems(2) [of "leaf_text a acc" t] wt rt by (auto simp: collision_def LeafHash_def t_def)
  next
    case (Suc j)
    then obtain x y where xy: "x \<in> set (layers_from l ! j)" "y \<in> set (layers_from l ! j)" "r = sha256 (node_text x y)"
      "node_text x y \<in> set (tree_texts (layers_from l))"
      using snoc.prems layer_texts [of j l r] by metis
    have x32: "length x = 32"
    proof -
      have "\<forall>x \<in> set l. length x = 32" using leaves by auto
      from layers_32 [OF this, of j] xy(1) snoc.prems(4) Suc show ?thesis by auto
    qed
    have eq: "node_text x y = t" using snoc.prems(2) [of "node_text x y" t] xy rt wt by (auto simp: collision_def t_def)
    have "m \<in> set (layers_from l ! j)" by (rule child_in_layer [OF eq [unfolded t_def] x32 l32 xy(1,2)])
    moreover have "j < length (layers_from l)" using snoc.prems(4) Suc by simp
    ultimately show ?thesis
      using snoc.IH [OF sides(2) _ m] snoc.prems(2) sub by blast
  qed
qed

lemma rev_num_until:
  assumes "rev m @ CHR ''|'' # u = rev n @ CHR ''|'' # v" "\<And>c. c \<in> set m \<Longrightarrow> num_char c" "\<And>c. c \<in> set n \<Longrightarrow> num_char c"
  shows "m = n \<and> u = v"
  using split_at_delim [OF assms(1), of num_char] assms(2,3) num_char_delims(3) by auto

lemma leaf_text_inj:
  assumes "leaf_text a x = leaf_text b y"
  shows "normalizeAddr a = normalizeAddr b \<and> x = y"
proof -
  have ni: "num_char c" if "c \<in> set (show_int i)" for c i using show_int_chars [OF that] by (auto simp: num_char_def)
  have nu: "num_char c" if "c \<in> set (show_u64 i)" for c i
    using that show_nat_digits by (auto simp: num_char_def show_u64_def)
  from arg_cong [OF assms, of rev]
  have 1: "rev (show_u64 (acc_Nonce x)) @ CHR ''|'' # rev (show_int (acc_PendingUnstake x)) @ CHR ''|'' # rev (show_int (acc_Staked x))
      @ CHR ''|'' # rev (show_int (acc_Balance x)) @ CHR ''|'' # rev (normalizeAddr a) @ rev ''EAST_LEAF|''
    = rev (show_u64 (acc_Nonce y)) @ CHR ''|'' # rev (show_int (acc_PendingUnstake y)) @ CHR ''|'' # rev (show_int (acc_Staked y))
      @ CHR ''|'' # rev (show_int (acc_Balance y)) @ CHR ''|'' # rev (normalizeAddr b) @ rev ''EAST_LEAF|''"
    by (simp add: leaf_text_def Let_def normalizeAddr_def)
  note 2 = rev_num_until [OF 1 nu nu]
  note 3 = rev_num_until [OF conjunct2 [OF 2] ni ni]
  note 4 = rev_num_until [OF conjunct2 [OF 3] ni ni]
  note 5 = rev_num_until [OF conjunct2 [OF 4] ni ni]
  from 2 3 4 5 show ?thesis by (cases x; cases y) simp
qed

text \<open>
  C28: an accepted inclusion proof is right. If a proof verifies against the root of the store's accounts,
  the account it shows is the one the store holds under that address, provided SHA-256 does not
  collide between the texts hashed for the tree and the texts hashed for the proof.
\<close>

theorem merkle_sound:
  assumes h: "healthy s" and wf: "wf_db (db s)" and root: "ComputeStateRoot s = Inr (mk_StateRoot pf)"
    and ok: "VerifyMerkleProof (Some pf) = Inr ()"
    and leaves: "loadSortedLeaves s = Inr ls"
    and nc: "\<And>t u. t \<in> set ((if ls = [] then [''EAST_EMPTY''] else []) @ map (\<lambda>l. leaf_text (al_Addr l) (al_Acc l)) ls
          @ tree_texts (layers_from (map al_Hash ls))) \<Longrightarrow>
        u \<in> set (leaf_text (mk_Address pf) (mk_Account pf)
          # walk_texts (LeafHash (mk_Address pf) (mk_Account pf)) (mk_Path pf) (mk_Sides pf)) \<Longrightarrow> \<not> collision t u"
  shows "map_of (db s) (accountKey (mk_Address pf)) = Some (AccountV (mk_Account pf))"
proof -
  let ?L = "LeafHash (mk_Address pf) (mk_Account pf)" and ?hs = "map al_Hash ls"
  have ls: "ls = map leaf_of (iter_prefix ''acc:'' (db s))" using leaves loadSortedLeaves_wf [OF h wf] by simp
  have sr: "mk_StateRoot pf = hashHex (merkle_root ?hs)"
    using root leaves by (simp add: ComputeStateRoot_def ComputeMerkleStateRoot_def)
  obtain r where len: "length (mk_Path pf) = length (mk_Sides pf)"
    and walk: "walk_path ?L (mk_Path pf) (mk_Sides pf) = Inr r" and rr: "r = merkle_root ?hs"
    using ok by (auto simp: VerifyMerkleProof_def sr Let_def split: if_splits sum.splits)
  have "?L \<in> set ?hs"
  proof (cases "ls = []")
    case True
    define ts where "ts = leaf_text (mk_Address pf) (mk_Account pf) # walk_texts ?L (mk_Path pf) (mk_Sides pf)"
    have "\<exists>u. u \<in> set ts \<and> r = sha256 u \<and> u \<noteq> ''EAST_EMPTY''"
      using walk_last [OF len walk] unfolding ts_def by (auto simp: leaf_text_def Let_def)
    then obtain u where u: "u \<in> set ts" "r = sha256 u" "u \<noteq> ''EAST_EMPTY''" by blast
    have "r = sha256 ''EAST_EMPTY''" using rr True by (simp add: merkle_root_def buildMerkleLayers_def emptyLeaf_def)
    moreover have "\<not> collision ''EAST_EMPTY'' u" by (rule nc) (use u(1) True in \<open>simp_all add: ts_def\<close>)
    ultimately show ?thesis using u by (simp add: collision_def)
  next
    case False
    let ?ly = "layers_from ?hs"
    have last: "last ?ly ! 0 \<in> set (?ly ! (length ?ly - 1))" using last_layer [of ?hs] False
      by (metis last_conv_nth layers_from_not_Nil length_greater_0_conv less_numeral_extra(1) map_is_Nil_conv nth_mem)
    have lv: "\<forall>x \<in> set ?hs. \<exists>a acc. x = LeafHash a acc \<and> leaf_text a acc \<in> set (map (\<lambda>l. leaf_text (al_Addr l) (al_Acc l)) ls)"
      by (force simp: ls leaf_of_def Let_def)
    have rl: "r \<in> set (?ly ! (length ?ly - 1))" using last rr False by (simp add: merkle_root_def buildMerkleLayers_def)
    have il: "length ?ly - 1 < length ?ly" by simp
    show ?thesis by (rule leaf_reached [OF lv _ len walk il rl]) (rule nc; auto)
  qed
  then obtain l where l: "l \<in> set ls" "al_Hash l = ?L" by auto
  then obtain k v where kv: "(k, v) \<in> set (iter_prefix ''acc:'' (db s))" "l = leaf_of (k, v)" by (auto simp: ls)
  have "al_Hash l = LeafHash (al_Addr l) (al_Acc l)" using kv(2) by (simp add: leaf_of_def Let_def)
  then have "sha256 (leaf_text (al_Addr l) (al_Acc l)) = sha256 (leaf_text (mk_Address pf) (mk_Account pf))"
    using l(2) by (simp add: LeafHash_def)
  moreover have "\<not> collision (leaf_text (al_Addr l) (al_Acc l)) (leaf_text (mk_Address pf) (mk_Account pf))"
    by (rule nc) (use l(1) in auto)
  ultimately have "leaf_text (al_Addr l) (al_Acc l) = leaf_text (mk_Address pf) (mk_Account pf)" by (simp add: collision_def)
  from leaf_text_inj [OF this] have a: "normalizeAddr (al_Addr l) = normalizeAddr (mk_Address pf)" "al_Acc l = mk_Account pf" by auto
  have "wf_entry k v" "prefix ''acc:'' k" using kv(1) wf by (auto simp: iter_prefix_def wf_db_def)
  then have "normalizeAddr (drop 4 k) = drop 4 k" by (simp add: wf_entry_def)
  then have "drop 4 k = normalizeAddr (mk_Address pf)" using a(1) kv(2) by (simp add: leaf_of_def Let_def)
  from acc_entry [OF wf kv(1) this] a(2) kv(2) show ?thesis by (simp add: leaf_of_def Let_def)
qed

section \<open>A store with one account\<close>

definition one_account :: Store where
  "one_account = \<lparr>db = [(''acc:0xab'', AccountV \<lparr>acc_Balance = 5, acc_Staked = 0, acc_PendingUnstake = 0, acc_Nonce = 1\<rparr>)],
     getFault = (\<lambda>_. False), setFault = (\<lambda>_. False), commitFault = False,
     totalMaxSupply = 0, minValidatorStake = 0, chainSigningAddr = [], numericChainID = 0\<rparr>"

lemma norm_0xab: "normalizeAddr ''0xab'' = ''0xab''" "ToLower (TrimSpace ''0xab'') = ''0xab''"
  by (simp_all add: normalizeAddr_def ToLower_def TrimSpace_def is_space_def lower_char_def less_eq_char_def)

lemma one_account_ok: "healthy one_account" "wf_db (db one_account)"
  "map_of (db one_account) (accountKey ''0xab'') = Some (AccountV \<lparr>acc_Balance = 5, acc_Staked = 0, acc_PendingUnstake = 0, acc_Nonce = 1\<rparr>)"
  by (simp_all add: one_account_def healthy_def wf_db_def kv_sorted_def wf_entry_def norm_0xab acc_ok_def in_i64_def
      accountKey_def metaKey_def)

theorem merkle_complete_witness:
  "\<exists>pf. ProveAccount one_account ''0xab'' = Inr pf \<and> VerifyMerkleProof (Some pf) = Inr ()"
  using merkle_complete [OF one_account_ok] by blast

theorem merkle_sound_witness:
  "\<exists>pf. ProveAccount one_account ''0xab'' = Inr pf
    \<and> map_of (db one_account) (accountKey ''0xab'') = Some (AccountV (mk_Account pf))"
proof -
  let ?x = "\<lparr>acc_Balance = 5, acc_Staked = 0, acc_PendingUnstake = 0, acc_Nonce = 1\<rparr>"
  have ls: "loadSortedLeaves one_account = Inr [\<lparr>al_Addr = ''0xab'', al_Acc = ?x, al_Hash = LeafHash ''0xab'' ?x\<rparr>]"
    using loadSortedLeaves_wf [OF one_account_ok(1,2)] by (simp add: one_account_def iter_prefix_def leaf_of_def Let_def)
  define pf where "pf = \<lparr>mk_Address = ''0xab'', mk_Account = ?x, mk_LeafHash = hashHex (LeafHash ''0xab'' ?x), mk_LeafIndex = 0,
    mk_LeafCount = 1, mk_Path = [], mk_Sides = [], mk_StateRoot = hashHex (LeafHash ''0xab'' ?x)\<rparr>"
  have rt: "merkle_root [LeafHash ''0xab'' ?x] = LeafHash ''0xab'' ?x"
    by (simp add: merkle_root_def buildMerkleLayers_def layers_from_1)
  have pr: "ProveAccount one_account ''0xab'' = Inr pf"
    by (simp add: ProveAccount_def ProveAccountMerkle_def norm_0xab ls rt Let_def pf_def buildMerkleLayers_def layers_from_1)
  have root: "ComputeStateRoot one_account = Inr (mk_StateRoot pf)"
    by (simp add: ComputeStateRoot_def ComputeMerkleStateRoot_def ls rt pf_def)
  have ok: "VerifyMerkleProof (Some pf) = Inr ()" by (simp add: VerifyMerkleProof_def pf_def Let_def)
  have "map_of (db one_account) (accountKey (mk_Address pf)) = Some (AccountV (mk_Account pf))"
    by (rule merkle_sound [OF one_account_ok(1,2) root ok ls])
      (auto simp: pf_def collision_def tree_texts_def layers_from_1)
  with pr show ?thesis by (auto simp: pf_def)
qed

text \<open>
  Pairing an odd last node with itself makes the root ambiguous: a list of three leaves and the same
  list with its last leaf repeated have the same root.
\<close>

theorem merkle_root_ambiguous:
  "merkle_root [a, b, c] = merkle_root [a, b, c, c]"
  by (simp add: merkle_root_def buildMerkleLayers_def layers_from.simps)

end
