(* ===== verification/Producer.thy ===== *)
theory Producer
  imports Seal Mempool Merkle
begin

text \<open>
  Package \<^verbatim>\<open>internal/consensus\<close>, file \<^verbatim>\<open>producer.go\<close>: sealing a block from pooled transactions and the
  tick of the automatic producer. \<open>Env\<close> holds the environment variables the code reads; \<open>now\<close> is the
  clock in milliseconds, \<open>nowNs\<close> the monotonic clock in nanoseconds. The block a node announces is
  the returned \<open>SealResult\<close>; publishing it is the network's business.
\<close>

record SealResult =
  sr_Header :: BlockHeader
  sr_SealerSig :: string
  sr_Txs :: "Transaction list"

record Env =
  env_MINING_ORACLE_ADDRESS :: string
  env_CHAIN_SIGNING_ADDRESS :: string
  env_CHAIN_SIGNING_PRIVATE_KEY :: string

section \<open>Sealing\<close>

text \<open>Transactions that cannot be applied are skipped.\<close>

fun seal_apply :: "Store \<Rightarrow> Transaction list \<Rightarrow> Transaction list \<times> Store" where
  "seal_apply s [] = ([], s)"
| "seal_apply s (t # ts) =
     (case ApplyTx s t of
        (Inl _, s') \<Rightarrow> seal_apply s' ts
      | (Inr _, s') \<Rightarrow> (let (applied, s'') = seal_apply s' ts in (t # applied, s'')))"

definition seal_sign :: "Geth \<Rightarrow> string \<Rightarrow> uint64 \<Rightarrow> string \<Rightarrow> string res" where
  "seal_sign E key height blockHash =
     (if key = [] then Inr []
      else case SignEIP191 E (BuildChainSigningMessage height blockHash) key of
             Inl _ \<Rightarrow> Inl (Errorf ''sealer sign failed'') | Inr sig \<Rightarrow> Inr sig)"

definition state_root_or_empty :: "Store \<Rightarrow> string" where
  "state_root_or_empty s = (case ComputeStateRoot s of Inl _ \<Rightarrow> [] | Inr r \<Rightarrow> r)"

definition SealBlockWithTxs ::
  "Geth \<Rightarrow> int \<Rightarrow> Store \<Rightarrow> string \<Rightarrow> string \<Rightarrow> Transaction list \<Rightarrow> SealResult res \<times> Store" where
  "SealBlockWithTxs E now s sealerPrivKey proposer txs =
     (case GetLatestHeight s of
        Inl e \<Rightarrow> (Inl e, s)
      | Inr latest \<Rightarrow>
          let height = latest + 1 in
          case expected_prev s latest of
            Inl e \<Rightarrow> (Inl e, s)
          | Inr prevHash \<Rightarrow>
              let (applied, s1) = seal_apply s txs;
                  txHashes = tx_hashes applied;
                  blockHash = RecomputeBlockHash height prevHash (RecomputeMerkleRoot txHashes) now proposer
              in case seal_sign E sealerPrivKey height blockHash of
                   Inl e \<Rightarrow> (Inl e, s1)
                 | Inr sealerSig \<Rightarrow>
                     let header = \<lparr>hdr_Height = height, hdr_Hash = blockHash, hdr_PrevHash = prevHash,
                           hdr_StateRoot = state_root_or_empty s1, hdr_TxHashes = txHashes, hdr_Timestamp = now,
                           hdr_Proposer = proposer, hdr_TxCount = int (length txHashes), hdr_Signature = sealerSig,
                           hdr_LastCommitRound = 0, hdr_LastCommitVotes = 0, hdr_LastCommitHash = []\<rparr>
                     in case SaveBlockWithTxs s1 header (map Some applied) of
                          (Inl e, s2) \<Rightarrow> (Inl e, s2)
                        | (Inr _, s2) \<Rightarrow> (Inr \<lparr>sr_Header = header, sr_SealerSig = sealerSig, sr_Txs = applied\<rparr>, s2))"

definition SealEmptyBlock :: "Geth \<Rightarrow> int \<Rightarrow> Store \<Rightarrow> string \<Rightarrow> string \<Rightarrow> SealResult res \<times> Store" where
  "SealEmptyBlock E now s sealerPrivKey proposer = SealBlockWithTxs E now s sealerPrivKey proposer []"

section \<open>The automatic producer\<close>

record Producer =
  pr_interval :: int
  pr_maxTxs :: int
  pr_lastExternalProposal :: "int option"

definition NewProducer :: "int \<Rightarrow> Producer" where
  "NewProducer interval =
     \<lparr>pr_interval = (if interval \<le> 0 then 120 * 1000000000 else interval), pr_maxTxs = 100,
      pr_lastExternalProposal = None\<rparr>"

definition SetMaxTxsPerBlock :: "Producer \<Rightarrow> int \<Rightarrow> Producer" where
  "SetMaxTxsPerBlock p n = (if n > 0 then p\<lparr>pr_maxTxs := n\<rparr> else p)"

definition NotifyExternalProposal :: "Producer \<Rightarrow> int \<Rightarrow> Producer" where
  "NotifyExternalProposal p nowNs = p\<lparr>pr_lastExternalProposal := Some nowNs\<rparr>"

text \<open>The zero time of a producer that was never notified lies far in the past.\<close>

definition recent_external :: "Producer \<Rightarrow> int \<Rightarrow> bool" where
  "recent_external p nowNs =
     (case pr_lastExternalProposal p of None \<Rightarrow> False | Some t \<Rightarrow> nowNs - t < pr_interval p)"

definition seal_proposer :: "Geth \<Rightarrow> Env \<Rightarrow> string" where
  "seal_proposer E env =
     (let p0 = env_CHAIN_SIGNING_ADDRESS env;
          key = env_CHAIN_SIGNING_PRIVATE_KEY env;
          p1 = (if p0 = [] \<and> key \<noteq> []
                then (case AddressFromPrivateKey E key of Inr addr \<Rightarrow> addr | Inl _ \<Rightarrow> p0) else p0)
      in if p1 = [] then ''0x0000000000000000000000000000000000000001'' else p1)"

fun put_back ::
  "Geth \<Rightarrow> string \<Rightarrow> int \<Rightarrow> ((string \<times> int) list \<Rightarrow> (string \<times> int) list) \<Rightarrow> Store \<Rightarrow> Mempool \<Rightarrow> Transaction list \<Rightarrow> Mempool" where
  "put_back E oracle now ord s m [] = m"
| "put_back E oracle now ord s m (t # ts) = put_back E oracle now ord s (snd (Add E oracle now ord s m (Some t))) ts"

definition trySeal ::
  "Geth \<Rightarrow> Env \<Rightarrow> int \<Rightarrow> int \<Rightarrow> ((string \<times> int) list \<Rightarrow> (string \<times> int) list) \<Rightarrow> Producer \<Rightarrow> LeaderSchedule option
     \<Rightarrow> Mempool option \<Rightarrow> Store \<Rightarrow> SealResult option \<times> Mempool option \<times> Store" where
  "trySeal E env now nowNs ord p leader pool s =
     (if recent_external p nowNs then (None, pool, s)
      else case GetLatestHeight s of
        Inl _ \<Rightarrow> (None, pool, s)
      | Inr latest \<Rightarrow>
          let nextHeight = latest + 1;
              (mine, s1) = (case leader of None \<Rightarrow> (True, s) | Some l \<Rightarrow> IsLocalLeader l s now nextHeight)
          in if \<not> mine then (None, pool, s1)
             else
               let (txs, pool1) = (case pool of None \<Rightarrow> ([], None)
                     | Some m \<Rightarrow> (let (ts, m') = Take m (pr_maxTxs p) in (ts, Some m')))
               in case SealBlockWithTxs E now s1 (env_CHAIN_SIGNING_PRIVATE_KEY env) (seal_proposer E env) txs of
                    (Inl _, s2) \<Rightarrow>
                      (None, map_option (\<lambda>m. put_back E (env_MINING_ORACLE_ADDRESS env) now ord s2 m txs) pool1, s2)
                  | (Inr result, s2) \<Rightarrow> (Some result, pool1, s2))"

section \<open>What a sealed block contains\<close>

lemma seal_apply_apply_txs: "seal_apply s ts = (applied, s') \<Longrightarrow> apply_txs s applied = (Inr (), s')"
proof (induction ts arbitrary: s applied)
  case (Cons t ts)
  obtain r s1 where run: "ApplyTx s t = (r, s1)" by (cases "ApplyTx s t")
  show ?case
  proof (cases r)
    case (Inl e)
    with run have "s1 = s" using ApplyTx_Inl [of s t e s1] by simp
    with Cons run Inl show ?thesis by simp
  next
    case (Inr u)
    obtain ap s2 where rec: "seal_apply s1 ts = (ap, s2)" by (cases "seal_apply s1 ts")
    with Cons.prems run Inr have e: "applied = t # ap" "seal_apply s1 ts = (ap, s')" by auto
    from Cons.IH [OF e(2)] e(1) run Inr show ?thesis by simp
  qed
qed simp

lemma seal_apply_subseq: "seal_apply s ts = (applied, s') \<Longrightarrow> subseq applied ts"
  by (induction ts arbitrary: s applied) (auto split: prod.splits sum.splits)

lemma SealBlockWithTxs_run:
  assumes "SealBlockWithTxs E now s key proposer txs = (Inr res, s')"
  obtains latest prevHash applied s1 where "GetLatestHeight s = Inr latest" "expected_prev s latest = Inr prevHash"
    "seal_apply s txs = (applied, s1)" "sr_Txs res = applied"
    "SaveBlockWithTxs s1 (sr_Header res) (map Some applied) = (Inr (), s')"
    "seal_sign E key (latest + 1) (hdr_Hash (sr_Header res)) = Inr (hdr_Signature (sr_Header res))"
    "hdr_Height (sr_Header res) = latest + 1" "hdr_PrevHash (sr_Header res) = prevHash"
    "hdr_TxHashes (sr_Header res) = tx_hashes applied" "hdr_Timestamp (sr_Header res) = now" "hdr_Proposer (sr_Header res) = proposer"
    "hdr_Hash (sr_Header res) = RecomputeBlockHash (latest + 1) prevHash (RecomputeMerkleRoot (tx_hashes applied)) now proposer"
    "hdr_StateRoot (sr_Header res) = state_root_or_empty s1"
proof -
  obtain applied s1 where ap: "seal_apply s txs = (applied, s1)" by (cases "seal_apply s txs")
  from assms obtain latest prevHash where l: "GetLatestHeight s = Inr latest" "expected_prev s latest = Inr prevHash"
    by (auto simp: SealBlockWithTxs_def Let_def split: sum.splits)
  let ?h = "RecomputeBlockHash (latest + 1) prevHash (RecomputeMerkleRoot (tx_hashes applied)) now proposer"
  from assms l ap obtain sig where sg: "seal_sign E key (latest + 1) ?h = Inr sig"
    by (auto simp: SealBlockWithTxs_def Let_def split: sum.splits)
  define hd where "hd = \<lparr>hdr_Height = latest + 1, hdr_Hash = ?h, hdr_PrevHash = prevHash,
       hdr_StateRoot = state_root_or_empty s1, hdr_TxHashes = tx_hashes applied, hdr_Timestamp = now,
       hdr_Proposer = proposer, hdr_TxCount = int (length (tx_hashes applied)), hdr_Signature = sig,
       hdr_LastCommitRound = 0, hdr_LastCommitVotes = 0, hdr_LastCommitHash = []\<rparr>"
  obtain r s2 where sv: "SaveBlockWithTxs s1 hd (map Some applied) = (r, s2)" by (cases "SaveBlockWithTxs s1 hd (map Some applied)")
  from assms l ap sg sv have "r = Inr ()" "res = \<lparr>sr_Header = hd, sr_SealerSig = sig, sr_Txs = applied\<rparr>" "s' = s2"
    by (auto simp: SealBlockWithTxs_def Let_def hd_def split: sum.splits)
  with l ap sg sv show thesis by (intro that [of latest prevHash applied s1]) (simp_all add: hd_def)
qed

section \<open>Sealed blocks are accepted by peers\<close>

text \<open>The block announcement of a seal result, as the receiving node checks it.\<close>

definition announced :: "SealResult \<Rightarrow> string list \<Rightarrow> GossipBlockInput" where
  "announced res allowed =
     (let h = sr_Header res in
      \<lparr>gb_Height = hdr_Height h, gb_Hash = hdr_Hash h, gb_PrevHash = hdr_PrevHash h, gb_Timestamp = hdr_Timestamp h,
       gb_Proposer = hdr_Proposer h, gb_Signature = hdr_Signature h, gb_Txs = map Some (sr_Txs res),
       gb_AllowedProposers = allowed\<rparr>)"

lemma validate_txs_unchanged:
  "\<forall>t \<in> set ts. ValidateBasic E oracle now t = (Inr (), t) \<Longrightarrow> validate_txs E oracle now (map Some ts) = Inr ts"
  by (induction ts) auto

lemma seal_apply_sound:
  assumes "ledger_inv G (db s)" "seal_apply s ts = (applied, s')" "list_all sound_tx applied"
  shows "ledger_inv G (db s')" "s' = s\<lparr>db := db s'\<rparr>" "\<not> ledger_key k \<Longrightarrow> map_of (db s') k = map_of (db s) k"
  using apply_txs_sound [OF assms(1,3) seal_apply_apply_txs [OF assms(2)]] by auto

lemma sealer_check_own:
  assumes sg: "seal_sign E key (latest + 1) (gb_Hash inp) = Inr sig"
    and key: "key = [] \<and> length (gb_AllowedProposers inp) \<le> 1 \<or>
        key \<noteq> [] \<and> geth_laws E \<and> AddressFromPrivateKey E key = Inr addr \<and> EqualFold addr (gb_Proposer inp) \<and> gb_Proposer inp \<noteq> []
        \<and> (\<forall>m sig. SignEIP191 E m key = Inr sig \<longrightarrow> sig \<noteq> [])"
    and inp: "gb_Height inp = latest + 1" "gb_Signature inp = sig"
  shows "sealer_check E inp = Inr ()"
proof (cases "key = []")
  case True
  then have e: "sig = []" using sg by (simp add: seal_sign_def)
  then show ?thesis using key True inp by (simp add: sealer_check_def)
next
  case False
  then have s: "SignEIP191 E (BuildChainSigningMessage (latest + 1) (gb_Hash inp)) key = Inr sig"
    using sg by (auto simp: seal_sign_def split: sum.splits)
  from False key have "geth_laws E" "AddressFromPrivateKey E key = Inr addr" "EqualFold addr (gb_Proposer inp)"
    "gb_Proposer inp \<noteq> []" "sig \<noteq> []" using s by auto
  with signed_verifies [OF this(1) s this(2,3)] inp show ?thesis
    by (simp add: sealer_check_def VerifySealerSignature_def)
qed

lemma saved_block:
  assumes "healthy s" "SaveBlockWithTxs s h txs = (Inr (), s')"
  shows "GetBlock s' (hdr_Height h) = Inr h" "GetLatestHeight s' = Inr (hdr_Height h)" "acct (db s') a = acct (db s) a"
proof -
  have s': "s' = s\<lparr>db := fold (\<lambda>(k, v). kv_set k v) (block_writes h txs) (db s)\<rparr>"
    using assms(2) SaveBlockWithTxs_run [OF assms(1)] by simp
  show "GetBlock s' (hdr_Height h) = Inr h" "GetLatestHeight s' = Inr (hdr_Height h)"
    using assms(1) by (simp_all add: s' GetBlock_def GetLatestHeight_def txn_Get_def kvl.get_after_sets block_writes_hit)
  have "map_of (rev (block_writes h txs)) (accountKey a) = None"
    by (rule block_writes_other) (simp_all add: key_defs)
  then show "acct (db s') a = acct (db s) a" by (simp add: s' acct_def kvl.get_after_sets)
qed

lemma sealed_block_agrees:
  assumes h: "healthy s" and inv: "ledger_inv G (db s)"
    and seal: "SealBlockWithTxs E now s key proposer txs = (Inr res, s')"
    and val: "\<forall>t \<in> set (sr_Txs res). ValidateBasic E oracle now2 t = (Inr (), t) \<and> sound_tx t"
    and nj: "map_of (db s) (jailKey (normalizeAddr proposer)) = None"
    and al: "allowed = [] \<or> (\<exists>a \<in> set allowed. EqualFold a proposer)"
    and key: "key = [] \<and> length allowed \<le> 1 \<or>
        key \<noteq> [] \<and> geth_laws E \<and> AddressFromPrivateKey E key = Inr addr \<and> EqualFold addr proposer \<and> proposer \<noteq> []
        \<and> (\<forall>m sig. SignEIP191 E m key = Inr sig \<longrightarrow> sig \<noteq> [])"
  shows "\<exists>s''. VerifyAndSaveGossipedBlockStrict E oracle now2 s (announced res allowed) = (Inr (), s'')
    \<and> (\<forall>a. acct (db s'') a = acct (db s') a)
    \<and> GetLatestHeight s'' = Inr (hdr_Height (sr_Header res)) \<and> GetLatestHeight s' = Inr (hdr_Height (sr_Header res))
    \<and> (\<exists>b. GetBlock s'' (hdr_Height (sr_Header res)) = Inr b \<and> hdr_Hash b = hdr_Hash (sr_Header res))
    \<and> GetBlock s' (hdr_Height (sr_Header res)) = Inr (sr_Header res)"
proof -
  from SealBlockWithTxs_run [OF seal] obtain latest prevHash applied s1 where
    l: "GetLatestHeight s = Inr latest" "expected_prev s latest = Inr prevHash"
    and ap: "seal_apply s txs = (applied, s1)" "sr_Txs res = applied"
    and sv: "SaveBlockWithTxs s1 (sr_Header res) (map Some applied) = (Inr (), s')"
    and sg: "seal_sign E key (latest + 1) (hdr_Hash (sr_Header res)) = Inr (hdr_Signature (sr_Header res))"
    and hd: "hdr_Height (sr_Header res) = latest + 1" "hdr_PrevHash (sr_Header res) = prevHash"
      "hdr_Timestamp (sr_Header res) = now" "hdr_Proposer (sr_Header res) = proposer"
      "hdr_Hash (sr_Header res) = RecomputeBlockHash (latest + 1) prevHash (RecomputeMerkleRoot (tx_hashes applied)) now proposer"
    by metis
  let ?inp = "announced res allowed"
  have inp: "gb_Height ?inp = latest + 1" "gb_Hash ?inp = hdr_Hash (sr_Header res)" "gb_PrevHash ?inp = prevHash" "gb_Timestamp ?inp = now"
    "gb_Proposer ?inp = proposer" "gb_Signature ?inp = hdr_Signature (sr_Header res)" "gb_Txs ?inp = map Some applied"
    "gb_AllowedProposers ?inp = allowed"
    using hd ap(2) by (simp_all add: announced_def Let_def)
  have snd: "list_all sound_tx applied" using val ap(2) by (simp add: list_all_iff)
  note s1 = seal_apply_sound [OF inv ap(1) snd]
  have h1: "healthy s1" using h s1(2) by (metis healthy_simps(4))
  have v: "validate_txs E oracle now2 (gb_Txs ?inp) = Inr applied"
    unfolding inp using val ap(2) by (intro validate_txs_unchanged) simp
  have j: "IsJailed s now2 proposer = (Inr (False, None), s)"
    using h nj by (simp add: IsJailed_def Let_def norm_eq txn_Get_def)
  have sc: "sealer_check E ?inp = Inr ()"
    by (rule sealer_check_own [where key = key and addr = addr and latest = latest])
      (simp_all only: inp sg, rule key)
  let ?hd = "gossip_header ?inp (tx_hashes applied)"
  have hh: "hdr_Height ?hd = latest + 1" "hdr_Hash ?hd = hdr_Hash (sr_Header res)" by (simp_all add: gossip_header_def inp)
  define s2 where "s2 = s1\<lparr>db := kv_set (metaKey ''latest_height'') (RawV (show_u64 (latest + 1))) (kv_set (blockKey (latest + 1)) (BlockV ?hd) (db s1))\<rparr>"
  have save: "SaveBlock s1 ?hd = (Inr (), s2)"
    using h1 by (simp add: SaveBlock_def db_Update_def txn_Set_def s2_def hh)
  have "apply_gossiped E oracle now2 s ?inp = (Inr (), s2)"
    using v sc seal_apply_apply_txs [OF ap(1)] save hd(5) by (simp add: apply_gossiped_def inp)
  then have "VerifyAndSaveGossipedBlockStrict E oracle now2 s ?inp = (Inr (), s2)"
    using l j al by (auto simp: VerifyAndSaveGossipedBlockStrict_def inp list_ex_iff)
  moreover have "GetLatestHeight s2 = Inr (latest + 1)" "GetBlock s2 (latest + 1) = Inr ?hd"
    using h1 by (simp_all add: s2_def GetLatestHeight_def GetBlock_def txn_Get_def)
  moreover have "acct (db s2) a = acct (db s1) a" for a by (simp add: s2_def)
  ultimately show ?thesis using saved_block [OF h1 sv] hd(1) hh(2) by auto
qed

text \<open>
  Producer and verifier agree. A block sealed by one node is accepted by another node with the same
  store, provided its transactions pass validation and move funds soundly, its proposer is an
  allowed validator without a jail record, and the seal is signed with the proposer's key; afterwards
  both nodes hold the same accounts, the same height and the same block hash at the tip.
\<close>

theorem sealed_block_accepted:
  assumes h: "healthy s" and inv: "ledger_inv G (db s)"
    and seal: "SealBlockWithTxs E now s key proposer txs = (Inr res, s')"
    and val: "\<forall>t \<in> set (sr_Txs res). ValidateBasic E oracle now2 t = (Inr (), t) \<and> sound_tx t"
    and nj: "map_of (db s) (jailKey (normalizeAddr proposer)) = None"
    and al: "allowed = [] \<or> (\<exists>a \<in> set allowed. EqualFold a proposer)"
    and key: "key = [] \<and> length allowed \<le> 1 \<or>
        key \<noteq> [] \<and> geth_laws E \<and> AddressFromPrivateKey E key = Inr addr \<and> EqualFold addr proposer \<and> proposer \<noteq> []
        \<and> (\<forall>m sig. SignEIP191 E m key = Inr sig \<longrightarrow> sig \<noteq> [])"
  shows "\<exists>s''. VerifyAndSaveGossipedBlockStrict E oracle now2 s (announced res allowed) = (Inr (), s'')
    \<and> (\<forall>a. acct (db s'') a = acct (db s') a)
    \<and> GetLatestHeight s'' = Inr (hdr_Height (sr_Header res)) \<and> GetLatestHeight s' = Inr (hdr_Height (sr_Header res))
    \<and> (\<exists>b. GetBlock s'' (hdr_Height (sr_Header res)) = Inr b \<and> hdr_Hash b = hdr_Hash (sr_Header res))
    \<and> GetBlock s' (hdr_Height (sr_Header res)) = Inr (sr_Header res)"
  using assms by (rule sealed_block_agrees)

lemma demo_seal:
  "\<exists>res s'. SealBlockWithTxs toy_geth 5 demo_store [] ''0xab'' [] = (Inr res, s') \<and> sr_Txs res = []
     \<and> hdr_Height (sr_Header res) = 1"
  using SaveBlockWithTxs_run [OF demo_healthy]
  by (simp add: SealBlockWithTxs_def demo_height expected_prev_def seal_sign_def Let_def)

theorem sealed_block_accepted_witness:
  "\<exists>res s''. VerifyAndSaveGossipedBlockStrict toy_geth [] 9 demo_store (announced res [''0xAB'']) = (Inr (), s'')
     \<and> GetLatestHeight s'' = Inr 1"
proof -
  obtain res s' where r: "SealBlockWithTxs toy_geth 5 demo_store [] ''0xab'' [] = (Inr res, s')" "sr_Txs res = []"
    "hdr_Height (sr_Header res) = 1" using demo_seal by blast
  have "map_of (db demo_store) (jailKey (normalizeAddr ''0xab'')) = None" by (simp add: demo_store_def jailKey_def)
  from sealed_block_accepted [OF demo_healthy demo_ledger_inv r(1), of "[]" 9 "[''0xAB'']", OF _ this] r(2,3)
  show ?thesis by (auto simp: EqualFold_def ToLower_def lower_char_def char_of_def bit_0)
qed

section \<open>When a node seals\<close>

text \<open>
  The automatic producer seals only when it is its turn: if a tick yields a block, no external
  proposal landed within the interval, the block is the next one after the tip, and, where a schedule is set, the local
  node is its leader. The block's transactions are, in order, some of the oldest ones of the pool.
\<close>

theorem trySeal_guarded:
  assumes run: "trySeal E env now nowNs ord p leader pool s = (Some res, pool', s')"
  shows "\<not> recent_external p nowNs
    \<and> (\<exists>latest. GetLatestHeight s = Inr latest
        \<and> (\<forall>l. leader = Some l \<longrightarrow> fst (IsLocalLeader l s now (latest + 1))))
    \<and> hdr_Proposer (sr_Header res) = seal_proposer E env
    \<and> (pool = None \<longrightarrow> sr_Txs res = [] \<and> pool' = None)
    \<and> (\<forall>m. pool = Some m \<longrightarrow> subseq (sr_Txs res) (fst (Take m (pr_maxTxs p))) \<and> pool' = Some (snd (Take m (pr_maxTxs p))))"
proof -
  from run obtain latest where l: "\<not> recent_external p nowNs" "GetLatestHeight s = Inr latest"
    by (auto simp: trySeal_def split: if_splits sum.splits)
  obtain mine s1 where m: "(case leader of None \<Rightarrow> (True, s) | Some l \<Rightarrow> IsLocalLeader l s now (latest + 1)) = (mine, s1)"
    by (metis surj_pair)
  obtain txs pool1 where t: "(case pool of None \<Rightarrow> ([], None)
      | Some m \<Rightarrow> (let (ts, m') = Take m (pr_maxTxs p) in (ts, Some m'))) = (txs, pool1)"
    by (metis surj_pair)
  obtain r s2 where sb: "SealBlockWithTxs E now s1 (env_CHAIN_SIGNING_PRIVATE_KEY env) (seal_proposer E env) txs = (r, s2)"
    by (metis surj_pair)
  from run l m t sb have g: "mine" "r = Inr res" "pool' = pool1"
    by (auto simp: trySeal_def Let_def split: if_splits sum.splits)
  from sb g(2) have tx: "subseq (sr_Txs res) txs" "hdr_Proposer (sr_Header res) = seal_proposer E env"
    by (auto elim!: SealBlockWithTxs_run dest: seal_apply_subseq)
  have "fst (IsLocalLeader l s now (latest + 1))" if "leader = Some l" for l using m g(1) that by simp
  then show ?thesis using l t g(3) tx by (auto split: option.splits prod.splits)
qed

lemma demo_trySeal:
  "\<exists>res s'. trySeal toy_geth \<lparr>env_MINING_ORACLE_ADDRESS = [], env_CHAIN_SIGNING_ADDRESS = ''0xab'', env_CHAIN_SIGNING_PRIVATE_KEY = []\<rparr>
     5 0 id (NewProducer 0) None None demo_store = (Some res, None, s')"
  using demo_seal by (auto simp: trySeal_def recent_external_def NewProducer_def demo_height seal_proposer_def Let_def)

theorem trySeal_guarded_witness:
  "\<exists>res s'. trySeal toy_geth \<lparr>env_MINING_ORACLE_ADDRESS = [], env_CHAIN_SIGNING_ADDRESS = ''0xab'', env_CHAIN_SIGNING_PRIVATE_KEY = []\<rparr>
     5 0 id (NewProducer 0) None None demo_store = (Some res, None, s')
     \<and> sr_Txs res = [] \<and> hdr_Proposer (sr_Header res) = ''0xab''"
proof -
  obtain res s' where r: "trySeal toy_geth \<lparr>env_MINING_ORACLE_ADDRESS = [], env_CHAIN_SIGNING_ADDRESS = ''0xab'', env_CHAIN_SIGNING_PRIVATE_KEY = []\<rparr>
     5 0 id (NewProducer 0) None None demo_store = (Some res, None, s')" using demo_trySeal by blast
  with trySeal_guarded [OF r] show ?thesis by (auto simp: seal_proposer_def)
qed

end
