(* ===== verification/Wire.thy ===== *)
theory Wire
  imports Vote
begin

text \<open>
  Package \<^verbatim>\<open>internal/p2p\<close>, file \<^verbatim>\<open>node.go\<close>: the messages of the gossip topics and the publishing side of a
  node. The libp2p host and the pubsub topics are outside the program: a node keeps, for every
  topic, the messages it has handed over. JSON encoding of a message is the identity.
\<close>

record BFTProposal =
  bp_Height :: uint64
  bp_Round :: int
  bp_BlockHash :: string
  bp_PrevHash :: string
  bp_MerkleRoot :: string
  bp_Timestamp :: int
  bp_Proposer :: string
  bp_TxHashes :: "string list"
  bp_Txs :: "Transaction option list"
  bp_POLRound :: int
  bp_Signature :: string

record BFTVote =
  bv_Type :: string
  bv_Height :: uint64
  bv_Round :: int
  bv_BlockHash :: string
  bv_Voter :: string
  bv_Timestamp :: int
  bv_Signature :: string

record CommitCert =
  ct_Height :: uint64
  ct_Round :: int
  ct_BlockHash :: string
  ct_VoteCount :: int

abbreviation ConsensusKindProposal :: string where "ConsensusKindProposal \<equiv> ''proposal''"
abbreviation ConsensusKindVote :: string where "ConsensusKindVote \<equiv> ''vote''"
abbreviation ConsensusKindCommit :: string where "ConsensusKindCommit \<equiv> ''commit''"

record ConsensusMsg =
  cm_Kind :: string
  cm_Proposal :: "BFTProposal option"
  cm_Vote :: "BFTVote option"
  cm_Commit :: "CommitCert option"
  cm_FromPeer :: string

record BlockAnnounce =
  ba_Height :: uint64
  ba_Hash :: string
  ba_PrevHash :: string
  ba_Timestamp :: int
  ba_Proposer :: string
  ba_Signature :: string
  ba_TxHashes :: "string list"
  ba_Txs :: "Transaction option list"
  ba_FromPeer :: string

record HeartbeatMsg =
  hm_Address :: string
  hm_NodeID :: string
  hm_Tier :: string
  hm_Height :: uint64
  hm_UnixMs :: int
  hm_FromPeer :: string

section \<open>The node\<close>

text \<open>A node that is disabled has no host; \<open>nd_host\<close> is the peer id of the host.\<close>

record Node =
  nd_Enabled :: bool
  nd_host :: "string option"
  nd_peerCount :: int
  nd_blocks :: "BlockAnnounce list"
  nd_hb :: "HeartbeatMsg list"
  nd_cons :: "ConsensusMsg list"

definition Enabled :: "Node \<Rightarrow> bool" where
  "Enabled n \<longleftrightarrow> nd_Enabled n \<and> nd_host n \<noteq> None"

definition PeerID :: "Node \<Rightarrow> string" where
  "PeerID n = (case nd_host n of None \<Rightarrow> [] | Some i \<Rightarrow> i)"

definition PublishConsensus :: "Node \<Rightarrow> ConsensusMsg \<Rightarrow> Node" where
  "PublishConsensus n m =
     (if \<not> Enabled n then n else n\<lparr>nd_cons := nd_cons n @ [m\<lparr>cm_FromPeer := PeerID n\<rparr>]\<rparr>)"

definition PublishBlock :: "Node \<Rightarrow> BlockAnnounce \<Rightarrow> Node" where
  "PublishBlock n a =
     (if \<not> Enabled n then n else n\<lparr>nd_blocks := nd_blocks n @ [a\<lparr>ba_FromPeer := PeerID n\<rparr>]\<rparr>)"

definition PublishHeartbeat :: "Node \<Rightarrow> int \<Rightarrow> HeartbeatMsg \<Rightarrow> Node" where
  "PublishHeartbeat n now m =
     (if \<not> Enabled n then n
      else let m1 = m\<lparr>hm_FromPeer := PeerID n\<rparr>;
               m2 = (if hm_UnixMs m1 = 0 then m1\<lparr>hm_UnixMs := now\<rparr> else m1)
           in n\<lparr>nd_hb := nd_hb n @ [m2]\<rparr>)"

text \<open>
  The subscription loops drop a node's own messages and stamp the others with the peer they came from.
\<close>

definition subscribeBlocks :: "Node \<Rightarrow> string \<Rightarrow> BlockAnnounce \<Rightarrow> BlockAnnounce option" where
  "subscribeBlocks n from a = (if nd_host n = Some from then None else Some (a\<lparr>ba_FromPeer := from\<rparr>))"

definition subscribeHeartbeats :: "Node \<Rightarrow> string \<Rightarrow> HeartbeatMsg \<Rightarrow> HeartbeatMsg option" where
  "subscribeHeartbeats n from m = (if nd_host n = Some from then None else Some (m\<lparr>hm_FromPeer := from\<rparr>))"

definition subscribeConsensus :: "Node \<Rightarrow> string \<Rightarrow> ConsensusMsg \<Rightarrow> ConsensusMsg option" where
  "subscribeConsensus n from m = (if nd_host n = Some from then None else Some (m\<lparr>cm_FromPeer := from\<rparr>))"

definition ConnectedF :: "Node \<Rightarrow> Node" where
  "ConnectedF n = n\<lparr>nd_peerCount := i64 (nd_peerCount n + 1)\<rparr>"

definition DisconnectedF :: "Node \<Rightarrow> Node" where
  "DisconnectedF n = (if nd_peerCount n > 0 then n\<lparr>nd_peerCount := nd_peerCount n - 1\<rparr> else n)"

section \<open>Wire forms of proposals and votes\<close>

definition proposalToP2P :: "Proposal \<Rightarrow> BFTProposal" where
  "proposalToP2P p =
     \<lparr>bp_Height = p_Height p, bp_Round = p_Round p, bp_BlockHash = p_BlockHash p, bp_PrevHash = p_PrevHash p,
      bp_MerkleRoot = p_MerkleRoot p, bp_Timestamp = p_Timestamp p, bp_Proposer = p_Proposer p,
      bp_TxHashes = p_TxHashes p, bp_Txs = p_Txs p, bp_POLRound = p_POLRound p, bp_Signature = p_Signature p\<rparr>"

definition voteToP2P :: "Vote \<Rightarrow> BFTVote" where
  "voteToP2P v =
     \<lparr>bv_Type = v_Type v, bv_Height = v_Height v, bv_Round = v_Round v, bv_BlockHash = v_BlockHash v,
      bv_Voter = v_Voter v, bv_Timestamp = v_Timestamp v, bv_Signature = v_Signature v\<rparr>"

definition ProposalFromP2P :: "BFTProposal option \<Rightarrow> Proposal option" where
  "ProposalFromP2P po =
     (case po of None \<Rightarrow> None
      | Some p \<Rightarrow> Some
          \<lparr>p_Height = bp_Height p, p_Round = bp_Round p, p_BlockHash = bp_BlockHash p, p_PrevHash = bp_PrevHash p,
           p_MerkleRoot = bp_MerkleRoot p, p_Timestamp = bp_Timestamp p, p_Proposer = bp_Proposer p,
           p_TxHashes = bp_TxHashes p, p_Txs = bp_Txs p, p_POLRound = bp_POLRound p, p_Signature = bp_Signature p\<rparr>)"

definition VoteFromP2P :: "BFTVote option \<Rightarrow> Vote option" where
  "VoteFromP2P vo =
     (case vo of None \<Rightarrow> None
      | Some v \<Rightarrow> Some
          \<lparr>v_Type = bv_Type v, v_Height = bv_Height v, v_Round = bv_Round v, v_BlockHash = bv_BlockHash v,
           v_Voter = bv_Voter v, v_Timestamp = bv_Timestamp v, v_Signature = bv_Signature v\<rparr>)"

lemma ProposalFromP2P_inverse [simp]: "ProposalFromP2P (Some (proposalToP2P p)) = Some p"
  by (simp add: ProposalFromP2P_def proposalToP2P_def)

lemma VoteFromP2P_inverse [simp]: "VoteFromP2P (Some (voteToP2P v)) = Some v"
  by (simp add: VoteFromP2P_def voteToP2P_def)

lemma publish_simps [simp]:
  "nd_host (PublishConsensus n m) = nd_host n" "nd_host (PublishBlock n a) = nd_host n"
  "nd_cons (PublishBlock n a) = nd_cons n" "nd_blocks (PublishConsensus n m) = nd_blocks n"
  "Enabled (PublishConsensus n m) = Enabled n" "Enabled (PublishBlock n a) = Enabled n"
  by (simp_all add: PublishConsensus_def PublishBlock_def Enabled_def)

end
