(* ===== verification/Bft.thy ===== *)
theory Bft
  imports Producer Wire
begin

text \<open>
  Package \<^verbatim>\<open>internal/consensus\<close>, file \<^verbatim>\<open>bft.go\<close>: the consensus engine. \<open>BFTEngine\<close> is the Go struct with the
  objects its pointers lead to (store, leader schedule, pool, network node), which other goroutines
  share. Each definition below is the code of one critical section: it starts when \<^verbatim>\<open>e.mu\<close> is taken and
  ends when it is released, or it is the straight-line code between two of them. Sleeping and
  waiting for deadlines lie between the sections; \<open>BftLoop\<close> composes them.

  \<^item> \<open>None\<close> is a panic (the dereference of a nil pointer), which ends the process.
  \<^item> \<open>be_sleeping\<close> counts the goroutines that have released the mutex inside \<^verbatim>\<open>commitLocked\<close> and wait for
    the block interval before they advance the height.
  \<^item> \<open>be_cast\<close> and \<open>be_commits\<close> are history variables: the votes the engine has signed and the
    commits it has announced in its log. Nothing reads them.
  \<^item> The vote maps are association lists; \<open>cx_order\<close> is the order in which a \<^verbatim>\<open>range\<close> over the counts
    visits the hashes. \<open>cx_now\<close> is the clock in milliseconds.
\<close>

datatype RoundStep = StepNewHeight | StepPropose | StepPrevote | StepPrecommit | StepCommit

fun step_no :: "RoundStep \<Rightarrow> nat" where
  "step_no StepNewHeight = 0" | "step_no StepPropose = 1" | "step_no StepPrevote = 2"
| "step_no StepPrecommit = 3" | "step_no StepCommit = 4"

lemma step_no_inj [simp]: "step_no s = step_no t \<longleftrightarrow> s = t"
  by (cases s; cases t) simp_all

text \<open>Go compares steps as the integers of the \<^verbatim>\<open>iota\<close> declaration.\<close>

instantiation RoundStep :: linorder
begin

definition less_eq_RoundStep :: "RoundStep \<Rightarrow> RoundStep \<Rightarrow> bool" where
  "s \<le> t \<longleftrightarrow> step_no s \<le> step_no t"

definition less_RoundStep :: "RoundStep \<Rightarrow> RoundStep \<Rightarrow> bool" where
  "s < t \<longleftrightarrow> step_no s < step_no t"

instance
  by standard (auto simp: less_eq_RoundStep_def less_RoundStep_def)

end

definition step_String :: "RoundStep \<Rightarrow> string" where
  "step_String s = (case s of StepNewHeight \<Rightarrow> ''NewHeight'' | StepPropose \<Rightarrow> ''Propose'' | StepPrevote \<Rightarrow> ''Prevote''
      | StepPrecommit \<Rightarrow> ''Precommit'' | StepCommit \<Rightarrow> ''Commit'')"

text \<open>Durations are in nanoseconds.\<close>

record BFTConfig =
  bc_ProposeTimeout :: int
  bc_PrevoteTimeout :: int
  bc_PrecommitTimeout :: int
  bc_RoundTimeoutDelta :: int
  bc_MinBlockInterval :: int
  bc_Enabled :: bool

definition DefaultBFTConfig :: BFTConfig where
  "DefaultBFTConfig =
     \<lparr>bc_ProposeTimeout = 5 * 1000000000, bc_PrevoteTimeout = 5 * 1000000000, bc_PrecommitTimeout = 5 * 1000000000,
      bc_RoundTimeoutDelta = 1 * 1000000000, bc_MinBlockInterval = 120 * 1000000000, bc_Enabled = True\<rparr>"

record voteKey =
  vk_height :: uint64
  vk_round :: int
  vk_vtype :: VoteType
  vk_hash :: string

record BFTEngine =
  be_store :: Store
  be_leader :: "LeaderSchedule option"
  be_pool :: "Mempool option"
  be_p2p :: "Node option"
  be_cfg :: BFTConfig
  be_maxTxs :: int
  be_localAddr :: string
  be_privKey :: string
  be_height :: uint64
  be_round :: int
  be_step :: RoundStep
  be_proposal :: "Proposal option"
  be_lockedHash :: string
  be_lockedRound :: int
  be_validHash :: string
  be_validRound :: int
  be_prevotes :: "(string \<times> Vote) list"
  be_precommits :: "(string \<times> Vote) list"
  be_pendingTxs :: "Transaction option list"
  be_lastVotes :: "(string \<times> voteKey) list"
  be_lastCommitAt :: "int option"
  be_sleeping :: nat
  be_cast :: "Vote list"
  be_commits :: "CommitCertificate list"

record Ctx =
  cx_geth :: Geth
  cx_oracle :: string
  cx_now :: int
  cx_order :: "string list \<Rightarrow> string list"
  cx_seen :: "(string \<times> int) list \<Rightarrow> (string \<times> int) list"

definition NewBFTEngine :: "Geth \<Rightarrow> Env \<Rightarrow> Store \<Rightarrow> LeaderSchedule option \<Rightarrow> BFTConfig \<Rightarrow> BFTEngine" where
  "NewBFTEngine E env store leader cfg =
     (let local0 = env_CHAIN_SIGNING_ADDRESS env;
          k = env_CHAIN_SIGNING_PRIVATE_KEY env;
          local = (if local0 = [] then
                     if k \<noteq> [] then (case AddressFromPrivateKey E k of Inr addr \<Rightarrow> addr | Inl _ \<Rightarrow> local0) else local0
                   else local0)
      in \<lparr>be_store = store, be_leader = leader, be_pool = None, be_p2p = None, be_cfg = cfg, be_maxTxs = 100,
          be_localAddr = ToLower (TrimSpace local), be_privKey = k, be_height = 0, be_round = 0, be_step = StepNewHeight,
          be_proposal = None, be_lockedHash = [], be_lockedRound = -1, be_validHash = [], be_validRound = -1,
          be_prevotes = [], be_precommits = [], be_pendingTxs = [], be_lastVotes = [], be_lastCommitAt = None,
          be_sleeping = 0, be_cast = [], be_commits = []\<rparr>)"

definition SetMempool :: "BFTEngine \<Rightarrow> Mempool \<Rightarrow> BFTEngine" where
  "SetMempool e m = e\<lparr>be_pool := Some m\<rparr>"

definition SetP2P :: "BFTEngine \<Rightarrow> Node \<Rightarrow> BFTEngine" where
  "SetP2P e n = e\<lparr>be_p2p := Some n\<rparr>"

definition SetMaxTxs :: "BFTEngine \<Rightarrow> int \<Rightarrow> BFTEngine" where
  "SetMaxTxs e n = (if n > 0 then e\<lparr>be_maxTxs := n\<rparr> else e)"

section \<open>Helpers\<close>

definition validatorCountLocked :: "BFTEngine \<Rightarrow> int" where
  "validatorCountLocked e =
     (case be_leader e of
        None \<Rightarrow> 1
      | Some l \<Rightarrow> let n = Count l in if n = 0 then 1 else int n)"

text \<open>The number of recorded votes for a hash, and the hashes that have votes.\<close>

definition count_for :: "string \<Rightarrow> (string \<times> Vote) list \<Rightarrow> int" where
  "count_for hash votes = int (length (filter (\<lambda>(_, v). v_BlockHash v = hash) votes))"

definition voted_hashes :: "(string \<times> Vote) list \<Rightarrow> string list" where
  "voted_hashes votes = remdups (map (\<lambda>(_, v). v_BlockHash v) votes)"

definition broadcastVoteLocked :: "Ctx \<Rightarrow> VoteType \<Rightarrow> string \<Rightarrow> BFTEngine \<Rightarrow> BFTEngine" where
  "broadcastVoteLocked cx vtype blockHash e =
     (if be_privKey e = [] \<or> be_localAddr e = [] then e
      else case SignVote (cx_geth cx) vtype (be_height e) (be_round e) blockHash (be_localAddr e) (be_privKey e) (cx_now cx) of
        Inl _ \<Rightarrow> e
      | Inr v \<Rightarrow>
          let e1 = (if vtype = VotePrevote then e\<lparr>be_prevotes := kv_set (be_localAddr e) v (be_prevotes e)\<rparr>
                    else if vtype = VotePrecommit then e\<lparr>be_precommits := kv_set (be_localAddr e) v (be_precommits e)\<rparr>
                    else e)
          in e1\<lparr>be_p2p := map_option (\<lambda>n. PublishConsensus n \<lparr>cm_Kind = ConsensusKindVote, cm_Proposal = None,
                   cm_Vote = Some (voteToP2P v), cm_Commit = None, cm_FromPeer = []\<rparr>) (be_p2p e1),
                be_cast := be_cast e1 @ [v]\<rparr>)"

definition advanceHeightLocked :: "BFTEngine \<Rightarrow> BFTEngine" where
  "advanceHeightLocked e =
     e\<lparr>be_height := be_height e + 1, be_round := 0, be_step := StepNewHeight, be_proposal := None,
       be_pendingTxs := [], be_prevotes := [], be_precommits := [], be_lockedHash := [], be_lockedRound := -1,
       be_validHash := [], be_validRound := -1\<rparr>"

definition markCommitted :: "int \<Rightarrow> BFTEngine \<Rightarrow> BFTEngine" where
  "markCommitted now e = e\<lparr>be_lastCommitAt := Some now\<rparr>"

definition validateProposalLocked :: "Store \<Rightarrow> Proposal \<Rightarrow> unit res" where
  "validateProposalLocked s p =
     (case GetLatestHeight s of
        Inl e \<Rightarrow> Inl e
      | Inr latest \<Rightarrow>
          if p_Height p \<noteq> latest + 1 then Inl (Errorf ''proposal height'')
          else case (if latest = 0 then Inr ''GENESIS''
                     else (case GetBlock s latest of Inl e \<Rightarrow> Inl e | Inr prev \<Rightarrow> Inr (hdr_Hash prev))) of
            Inl e \<Rightarrow> Inl e
          | Inr expectedPrev \<Rightarrow>
              if p_PrevHash p \<noteq> expectedPrev then Inl (Errorf ''prev_hash mismatch'')
              else if RecomputeBlockHash (p_Height p) (p_PrevHash p) (p_MerkleRoot p) (p_Timestamp p) (p_Proposer p)
                        \<noteq> p_BlockHash p
              then Inl (Errorf ''block hash mismatch'') else Inr ())"

section \<open>Committing\<close>

text \<open>Applying the transactions of a proposal; a nil transaction makes \<^verbatim>\<open>ApplyTx\<close> panic.\<close>

fun apply_pending :: "Store \<Rightarrow> Transaction option list \<Rightarrow> (Transaction list \<times> Store) option" where
  "apply_pending s [] = Some ([], s)"
| "apply_pending s (None # ts) = None"
| "apply_pending s (Some t # ts) =
     (case ApplyTx s t of
        (Inl _, s') \<Rightarrow> apply_pending s' ts
      | (Inr _, s') \<Rightarrow> map_option (\<lambda>(applied, s''). (t # applied, s'')) (apply_pending s' ts))"

definition sealFromProposal ::
  "Geth \<Rightarrow> Store \<Rightarrow> Proposal \<Rightarrow> Transaction option list \<Rightarrow> string \<Rightarrow> (SealResult res \<times> Store) option" where
  "sealFromProposal E s p txs sealerKey =
     (case apply_pending s txs of
        None \<Rightarrow> None
      | Some (applied, s1) \<Rightarrow> Some
          (case (if sealerKey = [] then Inr []
                 else (case SignEIP191 E (BuildChainSigningMessage (p_Height p) (p_BlockHash p)) sealerKey of
                         Inl _ \<Rightarrow> Inl (Errorf ''sealer sign'') | Inr sig \<Rightarrow> Inr sig)) of
             Inl e \<Rightarrow> (Inl e, s1)
           | Inr sealerSig \<Rightarrow>
               let header = \<lparr>hdr_Height = p_Height p, hdr_Hash = p_BlockHash p, hdr_PrevHash = p_PrevHash p,
                     hdr_StateRoot = state_root_or_empty s1, hdr_TxHashes = p_TxHashes p,
                     hdr_Timestamp = p_Timestamp p, hdr_Proposer = p_Proposer p,
                     hdr_TxCount = int (length (p_TxHashes p)), hdr_Signature = sealerSig,
                     hdr_LastCommitRound = 0, hdr_LastCommitVotes = 0, hdr_LastCommitHash = []\<rparr>
               in case SaveBlock s1 header of
                    (Inl e, s2) \<Rightarrow> (Inl e, s2)
                  | (Inr _, s2) \<Rightarrow> (Inr \<lparr>sr_Header = header, sr_SealerSig = sealerSig, sr_Txs = applied\<rparr>, s2)))"

definition announce :: "BlockHeader \<Rightarrow> Transaction list \<Rightarrow> BlockAnnounce" where
  "announce h txs =
     \<lparr>ba_Height = hdr_Height h, ba_Hash = hdr_Hash h, ba_PrevHash = hdr_PrevHash h, ba_Timestamp = hdr_Timestamp h,
      ba_Proposer = hdr_Proposer h, ba_Signature = hdr_Signature h, ba_TxHashes = hdr_TxHashes h,
      ba_Txs = map Some txs, ba_FromPeer = []\<rparr>"

text \<open>
  \<^verbatim>\<open>commitLocked\<close> up to the point where it releases the mutex to sleep (the goroutine joins
  \<open>be_sleeping\<close>), or to its end when it advances at once. What it does after the sleep is \<open>wake\<close>.
\<close>

definition commitLocked :: "Ctx \<Rightarrow> string \<Rightarrow> Vote list \<Rightarrow> BFTEngine \<Rightarrow> BFTEngine option" where
  "commitLocked cx blockHash votes e0 =
     (let e = e0\<lparr>be_commits := be_commits e0 @
            [\<lparr>cc_Height = be_height e0, cc_Round = be_round e0, cc_BlockHash = blockHash, cc_Votes = votes\<rparr>]\<rparr>
      in case be_proposal e of
        None \<Rightarrow> Some (advanceHeightLocked e)
      | Some p \<Rightarrow>
          if p_BlockHash p \<noteq> blockHash then Some (advanceHeightLocked e)
          else (case sealFromProposal (cx_geth cx) (be_store e) p (be_pendingTxs e) (be_privKey e) of
            None \<Rightarrow> None
          | Some (Inl _, s1) \<Rightarrow> Some (advanceHeightLocked (e\<lparr>be_store := s1\<rparr>))
          | Some (Inr result, s1) \<Rightarrow>
              let header = (sr_Header result)\<lparr>hdr_LastCommitRound := be_round e, hdr_LastCommitVotes := int (length votes)\<rparr>;
                  s2 = snd (SaveBlock s1 header);
                  e1 = markCommitted (cx_now cx) (e\<lparr>be_store := s2\<rparr>);
                  cert = \<lparr>ct_Height = hdr_Height header, ct_Round = be_round e, ct_BlockHash = hdr_Hash header,
                          ct_VoteCount = int (length votes)\<rparr>;
                  publish = (\<lambda>n. PublishConsensus (PublishBlock n (announce header (sr_Txs result)))
                     \<lparr>cm_Kind = ConsensusKindCommit, cm_Proposal = None, cm_Vote = None, cm_Commit = Some cert,
                      cm_FromPeer = []\<rparr>)
              in Some (e1\<lparr>be_p2p := map_option publish (be_p2p e1), be_sleeping := be_sleeping e1 + 1\<rparr>)))"

definition wake :: "BFTEngine \<Rightarrow> BFTEngine option" where
  "wake e = (if be_sleeping e = 0 then None
             else Some (advanceHeightLocked (e\<lparr>be_sleeping := be_sleeping e - 1\<rparr>)))"

section \<open>Counting votes\<close>

definition tryFinalizePrevotesLocked :: "Ctx \<Rightarrow> BFTEngine \<Rightarrow> BFTEngine" where
  "tryFinalizePrevotesLocked cx e =
     (if be_step e \<noteq> StepPrevote then e
      else let q = QuorumSize (validatorCountLocked e) in
        if q = 0 then e
        else case find (\<lambda>h. count_for h (be_prevotes e) \<ge> q) (cx_order cx (voted_hashes (be_prevotes e))) of
          Some hash \<Rightarrow>
            let e1 = (if hash \<noteq> [] then e\<lparr>be_lockedHash := hash, be_lockedRound := be_round e,
                        be_validHash := hash, be_validRound := be_round e\<rparr> else e)
            in broadcastVoteLocked cx VotePrecommit hash (e1\<lparr>be_step := StepPrecommit\<rparr>)
        | None \<Rightarrow>
            if count_for [] (be_prevotes e) \<ge> q
            then broadcastVoteLocked cx VotePrecommit [] (e\<lparr>be_step := StepPrecommit\<rparr>)
            else e)"

definition next_round :: "BFTEngine \<Rightarrow> BFTEngine" where
  "next_round e = e\<lparr>be_round := i32 (be_round e + 1), be_step := StepNewHeight, be_proposal := None,
     be_prevotes := [], be_precommits := []\<rparr>"

definition tryFinalizePrecommitsLocked :: "Ctx \<Rightarrow> BFTEngine \<Rightarrow> BFTEngine option" where
  "tryFinalizePrecommitsLocked cx e =
     (if be_step e \<noteq> StepPrecommit then Some e
      else let q = QuorumSize (validatorCountLocked e) in
        if q = 0 then Some e
        else case find (\<lambda>h. count_for h (be_precommits e) \<ge> q \<and> h \<noteq> [])
                     (cx_order cx (voted_hashes (be_precommits e))) of
          Some hash \<Rightarrow>
            commitLocked cx hash (map snd (filter (\<lambda>(_, v). v_BlockHash v = hash) (be_precommits e)))
              (e\<lparr>be_step := StepCommit\<rparr>)
        | None \<Rightarrow> if count_for [] (be_precommits e) \<ge> q then Some (next_round e) else Some e)"

section \<open>Handlers\<close>

definition enterPrevoteLocked :: "Ctx \<Rightarrow> BFTEngine \<Rightarrow> BFTEngine" where
  "enterPrevoteLocked cx e =
     (let hash = (case be_proposal e of
                    None \<Rightarrow> []
                  | Some p \<Rightarrow> if be_lockedRound e \<ge> 0 \<and> be_lockedHash e \<noteq> [] then be_lockedHash e else p_BlockHash p)
      in broadcastVoteLocked cx VotePrevote hash (e\<lparr>be_step := StepPrevote\<rparr>))"

definition adopt_round :: "int \<Rightarrow> BFTEngine \<Rightarrow> BFTEngine" where
  "adopt_round r e = e\<lparr>be_round := r, be_step := StepPropose, be_proposal := None, be_prevotes := [],
     be_precommits := [], be_pendingTxs := []\<rparr>"

text \<open>The part of \<^verbatim>\<open>HandleProposal\<close> from the leader check on.\<close>

definition accept_proposal :: "Ctx \<Rightarrow> Proposal \<Rightarrow> BFTEngine \<Rightarrow> BFTEngine" where
  "accept_proposal cx p e =
     (let (expected, s1) = (case be_leader e of None \<Rightarrow> ([], be_store e)
              | Some l \<Rightarrow> LeaderForHeight l (be_store e) (cx_now cx) (p_Height p));
          e1 = e\<lparr>be_store := s1\<rparr>
      in if expected \<noteq> [] \<and> \<not> EqualFold (p_Proposer p) expected then e1
         else case validateProposalLocked s1 p of
           Inl _ \<Rightarrow> e1
         | Inr _ \<Rightarrow>
             let e2 = e1\<lparr>be_proposal := Some p, be_validHash := p_BlockHash p, be_validRound := p_Round p\<rparr>;
                 e3 = (if p_Txs p \<noteq> [] then e2\<lparr>be_pendingTxs := p_Txs p\<rparr> else e2)
             in if be_step e3 = StepPropose then enterPrevoteLocked cx e3 else e3)"

definition HandleProposal :: "Ctx \<Rightarrow> Proposal option \<Rightarrow> BFTEngine \<Rightarrow> BFTEngine option" where
  "HandleProposal cx po e =
     (case po of
        None \<Rightarrow> None
      | Some p \<Rightarrow> Some
          (case VerifyProposalBFT (cx_geth cx) (Some p) of
             Inl _ \<Rightarrow> e
           | Inr _ \<Rightarrow>
               if p_Height p < be_height e then e
               else if p_Height p > be_height e then e
               else if p_Round p < be_round e then e
               else let e1 = (if p_Round p > be_round e then adopt_round (p_Round p) e else e)
                    in if be_step e1 > StepPropose then e1 else accept_proposal cx p e1))"

text \<open>Votes count only when they come from the roster, or, with an empty roster, from the node itself.\<close>

definition known_voter :: "BFTEngine \<Rightarrow> string \<Rightarrow> bool" where
  "known_voter e voter =
     (case be_leader e of
        None \<Rightarrow> True
      | Some l \<Rightarrow> if Count l = 0 then EqualFold voter (be_localAddr e)
                  else list_ex (\<lambda>addr. EqualFold addr voter) (ls_validators l))"

definition note_vote :: "Ctx \<Rightarrow> Vote \<Rightarrow> BFTEngine \<Rightarrow> BFTEngine" where
  "note_vote cx v e =
     (let key = v_Voter v @ ''|'' @ v_Type v;
          s' = (case map_of (be_lastVotes e) key of
                  None \<Rightarrow> be_store e
                | Some prev \<Rightarrow>
                    if vk_height prev = v_Height v \<and> vk_round prev = v_Round v \<and> vk_hash prev \<noteq> v_BlockHash v
                    then the (snd (JailOnEquivocation (Some (be_store e)) (cx_now cx) (cx_now cx) (v_Voter v) (v_Height v)
                               (v_Round v) (vk_hash prev) (v_BlockHash v)))
                    else be_store e)
      in e\<lparr>be_store := s', be_lastVotes := kv_set key
             \<lparr>vk_height = v_Height v, vk_round = v_Round v, vk_vtype = v_Type v, vk_hash = v_BlockHash v\<rparr> (be_lastVotes e)\<rparr>)"

definition record_vote :: "Ctx \<Rightarrow> Vote \<Rightarrow> BFTEngine \<Rightarrow> BFTEngine option" where
  "record_vote cx v e =
     (let k = ToLower (v_Voter v) in
      if v_Type v = VotePrevote then
        if map_of (be_prevotes e) k \<noteq> None then Some e
        else if v_Round v \<noteq> be_round e then Some e
        else Some (tryFinalizePrevotesLocked cx (e\<lparr>be_prevotes := kv_set k v (be_prevotes e)\<rparr>))
      else if v_Type v = VotePrecommit then
        if map_of (be_precommits e) k \<noteq> None then Some e
        else if v_Round v \<noteq> be_round e then Some e
        else tryFinalizePrecommitsLocked cx (e\<lparr>be_precommits := kv_set k v (be_precommits e)\<rparr>)
      else Some e)"

definition HandleVote :: "Ctx \<Rightarrow> Vote option \<Rightarrow> BFTEngine \<Rightarrow> BFTEngine option" where
  "HandleVote cx vo e =
     (case vo of
        None \<Rightarrow> None
      | Some v \<Rightarrow>
          (case VerifyVote (cx_geth cx) (Some v) of
             Inl _ \<Rightarrow> Some e
           | Inr _ \<Rightarrow>
               let (jr, s1) = IsJailed (be_store e) (cx_now cx) (v_Voter v);
                   e0 = e\<lparr>be_store := s1\<rparr>
               in if (case jr of Inr (True, _) \<Rightarrow> True | _ \<Rightarrow> False) then Some e0
                  else let e1 = (if v_Height v = be_height e0 \<and> v_Round v > be_round e0
                                 then adopt_round (v_Round v) e0 else e0)
                       in if v_Height v \<noteq> be_height e1 then Some e1
                          else if \<not> known_voter e1 (v_Voter v) then Some e1
                          else record_vote cx v (note_vote cx v e1)))"

section \<open>The sections of the engine loop\<close>

definition loop_align :: "BFTEngine \<Rightarrow> BFTEngine option" where
  "loop_align e =
     (case GetLatestHeight (be_store e) of
        Inl _ \<Rightarrow> None
      | Inr latest \<Rightarrow> Some (e\<lparr>be_height := latest + 1, be_round := 0, be_step := StepNewHeight\<rparr>))"

text \<open>
  The pacing rule of \<^verbatim>\<open>waitBlockInterval\<close>, evaluated at each tick: \<open>fast\<close> is the parsed value of
  \<^verbatim>\<open>BFT_TX_MIN_INTERVAL_MS\<close>, times are in nanoseconds.
\<close>

definition waitBlockInterval_over :: "BFTEngine \<Rightarrow> int option \<Rightarrow> int \<Rightarrow> bool" where
  "waitBlockInterval_over e fast nowNs =
     (let emptyInterval = (if bc_MinBlockInterval (be_cfg e) \<le> 0 then 120 * 1000000000 else bc_MinBlockInterval (be_cfg e));
          fastInterval = (case fast of Some n \<Rightarrow> if n \<ge> 500 * 1000000 then n else 3 * 1000000000 | None \<Rightarrow> 3 * 1000000000)
      in case be_lastCommitAt e of
           None \<Rightarrow> True
         | Some lastAt \<Rightarrow>
             let mempoolN = (case be_pool e of None \<Rightarrow> 0 | Some m \<Rightarrow> Size m);
                 need = (if mempoolN > 0 then fastInterval else emptyInterval)
             in nowNs - lastAt * 1000000 \<ge> need)"

definition round_timeout :: "int \<Rightarrow> BFTConfig \<Rightarrow> int \<Rightarrow> int" where
  "round_timeout base cfg round = i64 (base + i64 (round * bc_RoundTimeoutDelta cfg))"

datatype ProposeNext = ProposeReturn | ProposeSolo | ProposeWait bool

text \<open>The first critical section of \<^verbatim>\<open>runPropose\<close> and the choice it makes.\<close>

definition runPropose_enter :: "Ctx \<Rightarrow> uint64 \<Rightarrow> BFTEngine \<Rightarrow> ProposeNext \<times> BFTEngine" where
  "runPropose_enter cx height e =
     (if be_step e \<noteq> StepNewHeight \<and> be_step e \<noteq> StepPropose then (ProposeReturn, e)
      else let e1 = e\<lparr>be_step := StepPropose, be_proposal := None, be_prevotes := [], be_precommits := [], be_pendingTxs := []\<rparr>;
               n = (case be_leader e of None \<Rightarrow> 0 | Some l \<Rightarrow> let n = length (ls_validators l) in if n = 0 then 1 else n);
               (isLeader, s1) = (case be_leader e of None \<Rightarrow> (True, be_store e)
                                 | Some l \<Rightarrow> IsLocalLeader l (be_store e) (cx_now cx) height);
               e2 = e1\<lparr>be_store := s1\<rparr>
           in if n \<le> 1 \<or> (case be_leader e of None \<Rightarrow> False | Some l \<Rightarrow> Count l \<le> 1) then (ProposeSolo, e2)
              else (ProposeWait (isLeader \<and> be_privKey e \<noteq> []), e2))"

definition return_txs :: "Ctx \<Rightarrow> Store \<Rightarrow> Transaction list \<Rightarrow> Mempool option \<Rightarrow> Mempool option" where
  "return_txs cx s txs pool =
     map_option (\<lambda>m. put_back (cx_geth cx) (cx_oracle cx) (cx_now cx) (cx_seen cx) s m txs) pool"

definition take_txs :: "BFTEngine \<Rightarrow> Transaction list \<times> Mempool option" where
  "take_txs e = (case be_pool e of None \<Rightarrow> ([], None)
                 | Some m \<Rightarrow> (let (ts, m') = Take m (be_maxTxs e) in (ts, Some m')))"

definition buildAndBroadcastProposal :: "Ctx \<Rightarrow> uint64 \<Rightarrow> int \<Rightarrow> BFTEngine \<Rightarrow> unit res \<times> BFTEngine" where
  "buildAndBroadcastProposal cx height round e =
     (case GetLatestHeight (be_store e) of
        Inl er \<Rightarrow> (Inl er, e)
      | Inr latest \<Rightarrow>
          if height \<noteq> latest + 1 then (Inl (Errorf ''height drift''), e)
          else case (if latest = 0 then Inr ''GENESIS''
                     else (case GetBlock (be_store e) latest of Inl er \<Rightarrow> Inl er | Inr prev \<Rightarrow> Inr (hdr_Hash prev))) of
            Inl er \<Rightarrow> (Inl er, e)
          | Inr prevHash \<Rightarrow>
              let (txs, pool1) = take_txs e;
                  txHashes = tx_hashes txs;
                  merkle = RecomputeMerkleRoot txHashes;
                  blockHash = RecomputeBlockHash height prevHash merkle (cx_now cx) (be_localAddr e);
                  p = \<lparr>p_Height = height, p_Round = round, p_BlockHash = blockHash, p_PrevHash = prevHash,
                       p_MerkleRoot = merkle, p_Timestamp = cx_now cx, p_Proposer = be_localAddr e,
                       p_TxHashes = txHashes, p_Txs = map Some txs, p_POLRound = -1, p_Signature = []\<rparr>
              in case SignProposalBFT (cx_geth cx) p (be_privKey e) of
                   (Inl er, _) \<Rightarrow> (Inl er, e\<lparr>be_pool := return_txs cx (be_store e) txs pool1\<rparr>)
                 | (Inr _, p') \<Rightarrow>
                     (Inr (), e\<lparr>be_pool := pool1, be_proposal := Some p', be_pendingTxs := map Some txs,
                        be_validHash := blockHash, be_validRound := round,
                        be_p2p := map_option (\<lambda>n. PublishConsensus n \<lparr>cm_Kind = ConsensusKindProposal,
                          cm_Proposal = Some (proposalToP2P p'), cm_Vote = None, cm_Commit = None, cm_FromPeer = []\<rparr>) (be_p2p e)\<rparr>))"

text \<open>The last critical section of \<^verbatim>\<open>runPropose\<close>, after the proposal arrived or the deadline passed.\<close>

definition runPropose_end :: "Ctx \<Rightarrow> BFTEngine \<Rightarrow> BFTEngine" where
  "runPropose_end cx e = (if be_step e = StepPropose then enterPrevoteLocked cx e else e)"

text \<open>\<^verbatim>\<open>soloSeal\<close> up to the last critical section, which is \<open>advanceHeightLocked\<close>; it is reached only after a successful seal.\<close>

definition soloSeal :: "Ctx \<Rightarrow> BFTEngine \<Rightarrow> bool \<times> BFTEngine" where
  "soloSeal cx e =
     (let proposer = (if be_localAddr e = [] then ''0x0000000000000000000000000000000000000001'' else be_localAddr e);
          (txs, pool1) = take_txs e
      in case SealBlockWithTxs (cx_geth cx) (cx_now cx) (be_store e) (be_privKey e) proposer txs of
           (Inl _, s1) \<Rightarrow> (False, e\<lparr>be_store := s1, be_pool := return_txs cx s1 txs pool1\<rparr>)
         | (Inr result, s1) \<Rightarrow>
             let e1 = markCommitted (cx_now cx) (e\<lparr>be_store := s1, be_pool := pool1\<rparr>)
             in (True, e1\<lparr>be_p2p := map_option (\<lambda>n. PublishBlock n (announce (sr_Header result) (sr_Txs result))) (be_p2p e1)\<rparr>))"

text \<open>The sections after the deadlines of \<^verbatim>\<open>runPrevote\<close> and \<^verbatim>\<open>runPrecommit\<close>; while they wait they poll
  \<open>tryFinalizePrevotesLocked\<close> and \<open>tryFinalizePrecommitsLocked\<close>.\<close>

definition runPrevote_timeout :: "Ctx \<Rightarrow> BFTEngine \<Rightarrow> BFTEngine" where
  "runPrevote_timeout cx e =
     (if be_step e = StepPrevote then broadcastVoteLocked cx VotePrecommit [] (e\<lparr>be_step := StepPrecommit\<rparr>) else e)"

definition runPrecommit_timeout :: "BFTEngine \<Rightarrow> BFTEngine" where
  "runPrecommit_timeout e = (if be_step e = StepPrecommit then next_round e else e)"

section \<open>Status\<close>

definition shortHash :: "string \<Rightarrow> string" where
  "shortHash h = (if h = [] then ''NIL'' else if length h \<le> 16 then h else take 16 h @ ''...'')"

record BFTStats =
  bs_enabled :: bool
  bs_height :: uint64
  bs_round :: int
  bs_step :: string
  bs_has_proposal :: bool
  bs_prevote_count :: nat
  bs_precommit_count :: nat
  bs_locked_round :: int
  bs_locked_hash :: string
  bs_local_address :: string
  bs_quorum :: int
  bs_validator_n :: int

definition engine_Stats :: "BFTEngine \<Rightarrow> BFTStats" where
  "engine_Stats e =
     \<lparr>bs_enabled = bc_Enabled (be_cfg e), bs_height = be_height e, bs_round = be_round e, bs_step = step_String (be_step e),
      bs_has_proposal = (be_proposal e \<noteq> None), bs_prevote_count = length (be_prevotes e),
      bs_precommit_count = length (be_precommits e), bs_locked_round = be_lockedRound e,
      bs_locked_hash = shortHash (be_lockedHash e), bs_local_address = be_localAddr e,
      bs_quorum = QuorumSize (validatorCountLocked e), bs_validator_n = validatorCountLocked e\<rparr>"

end
