(* ===== verification/BftSpec.thy ===== *)
theory BftSpec
  imports Bft
begin

text \<open>
  An abstract specification of the consensus engine: the voting machine of one validator. Its state is
  the part of \<open>BFTEngine\<close> that matters for agreement; its steps say when a vote may be cast, when a lock
  is taken and when a block is decided, and leave out stores, pools, the network, signatures and
  timeouts. \<open>BftLoop\<close> shows that the engine implements it. The invariants of this machine are the
  safety argument of the protocol for one validator.

  A step is indexed by what the rest of the system may do: \<open>A\<close> says which votes can be delivered, \<open>R\<close>
  which rosters may be installed.
\<close>

record Core =
  c_local :: string
  c_roster :: "string list option"
  c_height :: uint64
  c_round :: int
  c_step :: RoundStep
  c_lockedHash :: string
  c_lockedRound :: int
  c_prevotes :: "(string \<times> Vote) list"
  c_precommits :: "(string \<times> Vote) list"
  c_cast :: "Vote list"
  c_commits :: "CommitCertificate list"

definition c_quorum :: "Core \<Rightarrow> int" where
  "c_quorum c = QuorumSize (case c_roster c of None \<Rightarrow> 1 | Some vs \<Rightarrow> if vs = [] then 1 else int (length vs))"

definition c_known :: "Core \<Rightarrow> string \<Rightarrow> bool" where
  "c_known c voter = (case c_roster c of None \<Rightarrow> True
     | Some vs \<Rightarrow> if vs = [] then EqualFold voter (c_local c) else list_ex (\<lambda>a. EqualFold a voter) vs)"

definition own_vote :: "Core \<Rightarrow> VoteType \<Rightarrow> string \<Rightarrow> Vote \<Rightarrow> bool" where
  "own_vote c ty hash v \<longleftrightarrow> v_Type v = ty \<and> v_Height v = c_height c \<and> v_Round v = c_round c
     \<and> v_BlockHash v = hash \<and> v_Voter v = ToLower (c_local c)"

text \<open>A node without a key passes through the same steps in silence.\<close>

definition say_prevote :: "Vote option \<Rightarrow> Core \<Rightarrow> Core" where
  "say_prevote vo c = (case vo of None \<Rightarrow> c
     | Some v \<Rightarrow> c\<lparr>c_prevotes := kv_set (c_local c) v (c_prevotes c), c_cast := c_cast c @ [v]\<rparr>)"

definition say_precommit :: "Vote option \<Rightarrow> Core \<Rightarrow> Core" where
  "say_precommit vo c = (case vo of None \<Rightarrow> c
     | Some v \<Rightarrow> c\<lparr>c_precommits := kv_set (c_local c) v (c_precommits c), c_cast := c_cast c @ [v]\<rparr>)"

text \<open>A locked validator prevotes its locked block or nil.\<close>

definition may_prevote :: "Core \<Rightarrow> string \<Rightarrow> bool" where
  "may_prevote c hash \<longleftrightarrow> hash = [] \<or> c_lockedRound c < 0 \<or> c_lockedHash c = [] \<or> hash = c_lockedHash c"

inductive core_step :: "(Vote \<Rightarrow> bool) \<Rightarrow> (string list option \<Rightarrow> bool) \<Rightarrow> Core \<Rightarrow> Core \<Rightarrow> bool" for A R where
  open_round: "c_step c \<le> StepPropose \<Longrightarrow>
     core_step A R c (c\<lparr>c_step := StepPropose, c_prevotes := [], c_precommits := []\<rparr>)"
| jump: "c_round c < r \<Longrightarrow>
     core_step A R c (c\<lparr>c_round := r, c_step := StepPropose, c_prevotes := [], c_precommits := []\<rparr>)"
| hear_prevote: "A v \<Longrightarrow> v_Type v = VotePrevote \<Longrightarrow> v_Height v = c_height c \<Longrightarrow> v_Round v = c_round c \<Longrightarrow>
     c_known c (v_Voter v) \<Longrightarrow> map_of (c_prevotes c) (ToLower (v_Voter v)) = None \<Longrightarrow>
     core_step A R c (c\<lparr>c_prevotes := kv_set (ToLower (v_Voter v)) v (c_prevotes c)\<rparr>)"
| hear_precommit: "A v \<Longrightarrow> v_Type v = VotePrecommit \<Longrightarrow> v_Height v = c_height c \<Longrightarrow> v_Round v = c_round c \<Longrightarrow>
     c_known c (v_Voter v) \<Longrightarrow> map_of (c_precommits c) (ToLower (v_Voter v)) = None \<Longrightarrow>
     core_step A R c (c\<lparr>c_precommits := kv_set (ToLower (v_Voter v)) v (c_precommits c)\<rparr>)"
| prevote: "c_step c \<le> StepPropose \<Longrightarrow> may_prevote c hash \<Longrightarrow> pred_option (own_vote c VotePrevote hash) vo \<Longrightarrow>
     core_step A R c (say_prevote vo (c\<lparr>c_step := StepPrevote\<rparr>))"
| polka: "c_step c = StepPrevote \<Longrightarrow> hash \<noteq> [] \<Longrightarrow> c_quorum c \<le> count_for hash (c_prevotes c) \<Longrightarrow>
     pred_option (own_vote c VotePrecommit hash) vo \<Longrightarrow>
     core_step A R c (say_precommit vo (c\<lparr>c_lockedHash := hash, c_lockedRound := c_round c, c_step := StepPrecommit\<rparr>))"
| precommit_nil: "c_step c = StepPrevote \<Longrightarrow> pred_option (own_vote c VotePrecommit []) vo \<Longrightarrow>
     core_step A R c (say_precommit vo (c\<lparr>c_step := StepPrecommit\<rparr>))"
| next_round: "c_step c = StepPrecommit \<Longrightarrow>
     core_step A R c (c\<lparr>c_round := i32 (c_round c + 1), c_step := StepNewHeight, c_prevotes := [], c_precommits := []\<rparr>)"
| decide: "c_step c = StepPrecommit \<Longrightarrow> hash \<noteq> [] \<Longrightarrow> c_quorum c \<le> count_for hash (c_precommits c) \<Longrightarrow>
     core_step A R c (c\<lparr>c_step := StepCommit, c_commits := c_commits c @
       [\<lparr>cc_Height = c_height c, cc_Round = c_round c, cc_BlockHash = hash,
         cc_Votes = map snd (filter (\<lambda>(_, v). v_BlockHash v = hash) (c_precommits c))\<rparr>]\<rparr>)"
| advance: "core_step A R c (c\<lparr>c_height := c_height c + 1, c_round := 0, c_step := StepNewHeight, c_prevotes := [],
       c_precommits := [], c_lockedHash := [], c_lockedRound := -1\<rparr>)"
| reroster: "R vs \<Longrightarrow> core_step A R c (c\<lparr>c_roster := vs\<rparr>)"

lemma say_simps [simp]:
  "c_local (say_prevote vo c) = c_local c" "c_local (say_precommit vo c) = c_local c"
  "c_roster (say_prevote vo c) = c_roster c" "c_roster (say_precommit vo c) = c_roster c"
  "c_height (say_prevote vo c) = c_height c" "c_height (say_precommit vo c) = c_height c"
  "c_round (say_prevote vo c) = c_round c" "c_round (say_precommit vo c) = c_round c"
  "c_step (say_prevote vo c) = c_step c" "c_step (say_precommit vo c) = c_step c"
  "c_lockedHash (say_prevote vo c) = c_lockedHash c" "c_lockedHash (say_precommit vo c) = c_lockedHash c"
  "c_lockedRound (say_prevote vo c) = c_lockedRound c" "c_lockedRound (say_precommit vo c) = c_lockedRound c"
  "c_precommits (say_prevote vo c) = c_precommits c" "c_prevotes (say_precommit vo c) = c_prevotes c"
  "c_commits (say_prevote vo c) = c_commits c" "c_commits (say_precommit vo c) = c_commits c"
  "c_cast (say_prevote vo c) = c_cast c @ (case vo of None \<Rightarrow> [] | Some v \<Rightarrow> [v])"
  "c_cast (say_precommit vo c) = c_cast c @ (case vo of None \<Rightarrow> [] | Some v \<Rightarrow> [v])"
  by (simp_all add: say_prevote_def say_precommit_def split: option.splits)

lemma own_vote_simps [simp]:
  "own_vote (say_prevote vo c) = own_vote c" "own_vote (say_precommit vo c) = own_vote c"
  "own_vote (c\<lparr>c_step := st\<rparr>) = own_vote c"
  "own_vote (c\<lparr>c_lockedHash := lh\<rparr>) = own_vote c" "own_vote (c\<lparr>c_lockedRound := lr\<rparr>) = own_vote c"
  by (simp_all add: own_vote_def fun_eq_iff)

section \<open>The position of a validator only moves forward\<close>

text \<open>Rounds and heights are counted without wrap-around in the states considered.\<close>

definition tame :: "Core \<Rightarrow> bool" where
  "tame c \<longleftrightarrow> 0 \<le> c_round c \<and> c_round c < 2 ^ 31 - 1 \<and> c_height c + 1 \<noteq> 0"

fun vote_rank :: "VoteType \<Rightarrow> nat" where
  "vote_rank ty = (if ty = VotePrevote then 2 else 3)"

definition earlier :: "uint64 \<times> int \<times> nat \<Rightarrow> uint64 \<times> int \<times> nat \<Rightarrow> bool" where
  "earlier a b \<longleftrightarrow> (case a of (h, r, k) \<Rightarrow> case b of (h', r', k') \<Rightarrow>
     h < h' \<or> h = h' \<and> (r < r' \<or> r = r' \<and> k < k'))"

definition vote_pos :: "Vote \<Rightarrow> uint64 \<times> int \<times> nat" where
  "vote_pos v = (v_Height v, v_Round v, vote_rank (v_Type v))"

definition core_pos :: "Core \<Rightarrow> uint64 \<times> int \<times> nat" where
  "core_pos c = (c_height c, c_round c, step_no (c_step c))"

lemma earlier_trans: "earlier a b \<Longrightarrow> earlier b d \<Longrightarrow> earlier a d"
  by (auto simp: earlier_def split: prod.splits)

lemma earlier_irrefl [simp]: "\<not> earlier a a"
  by (auto simp: earlier_def split: prod.splits)

lemma next_round_id: "tame c \<Longrightarrow> i32 (c_round c + 1) = c_round c + 1"
  by (intro i32_id) (simp add: tame_def in_i32_def)

text \<open>Every step keeps the position or moves it forward.\<close>

lemma core_step_forward:
  assumes "core_step A R c c'" "tame c"
  shows "core_pos c' = core_pos c \<or> earlier (core_pos c) (core_pos c')"
  using assms
proof (cases rule: core_step.cases)
  case open_round
  then show ?thesis by (cases "c_step c") (simp_all add: core_pos_def earlier_def less_eq_RoundStep_def)
next
  case (prevote hash vo)
  then show ?thesis by (cases "c_step c") (simp_all add: core_pos_def earlier_def less_eq_RoundStep_def)
next
  case next_round
  with assms(2) show ?thesis by (simp add: core_pos_def earlier_def next_round_id)
next
  case advance
  with assms(2) have "c_height c < c_height c + 1" by (intro u64_succ) (simp add: tame_def)
  with advance show ?thesis by (simp add: core_pos_def earlier_def)
qed (auto simp: core_pos_def earlier_def)

text \<open>
  The votes a validator has cast, in order, have strictly increasing positions, none beyond its own;
  so it casts at most one vote of a kind in a round.
\<close>

definition cast_inv :: "Core \<Rightarrow> bool" where
  "cast_inv c \<longleftrightarrow> sorted_wrt earlier (map vote_pos (c_cast c))
     \<and> (\<forall>v \<in> set (c_cast c). v_Type v \<in> {VotePrevote, VotePrecommit} \<and> v_Voter v = ToLower (c_local c)
          \<and> (vote_pos v = core_pos c \<or> earlier (vote_pos v) (core_pos c)))"

lemma cast_inv_say:
  assumes inv: "cast_inv c" and pos: "earlier (core_pos c) (core_pos c')" and loc: "c_local c' = c_local c"
    and own: "pred_option (own_vote c' ty hash) vo" and cast: "c_cast c' = c_cast c @ (case vo of None \<Rightarrow> [] | Some v \<Rightarrow> [v])"
    and ty: "ty \<in> {VotePrevote, VotePrecommit}" "step_no (c_step c') = vote_rank ty"
  shows "cast_inv c'"
proof -
  have old: "earlier (vote_pos v) (core_pos c')" if "v \<in> set (c_cast c)" for v
    using inv pos that by (auto simp: cast_inv_def intro: earlier_trans)
  have new: "vote_pos v = core_pos c'" "v_Type v = ty" "v_Voter v = ToLower (c_local c)" if "vo = Some v" for v
    using own that ty loc by (auto simp: own_vote_def vote_pos_def core_pos_def)
  show ?thesis
    using inv old new cast ty loc by (cases vo) (auto simp: cast_inv_def sorted_wrt_append)
qed

lemma cast_inv_step:
  assumes st: "core_step A R c c'" and inv: "cast_inv c" and tm: "tame c"
  shows "cast_inv c'"
proof -
  have keep: "cast_inv c'" if "c_cast c' = c_cast c" "c_local c' = c_local c"
    using inv core_step_forward [OF st tm] that by (auto simp: cast_inv_def intro: earlier_trans)
  from st show ?thesis
  proof (cases rule: core_step.cases)
    case (prevote hash vo)
    have "earlier (core_pos c) (core_pos c')"
      using prevote by (cases "c_step c") (simp_all add: core_pos_def earlier_def less_eq_RoundStep_def)
    with prevote show ?thesis
      by (intro cast_inv_say [OF inv, where ty = VotePrevote and hash = hash and vo = vo]) simp_all
  next
    case (polka hash vo)
    then show ?thesis
      by (intro cast_inv_say [OF inv, where ty = VotePrecommit and hash = "hash" and vo = vo])
        (simp_all add: core_pos_def earlier_def)
  next
    case (precommit_nil vo)
    then show ?thesis
      by (intro cast_inv_say [OF inv, where ty = VotePrecommit and hash = "[]" and vo = vo])
        (simp_all add: core_pos_def earlier_def)
  qed (rule keep; simp)+
qed

lemma cast_unique:
  assumes "cast_inv c" "v \<in> set (c_cast c)" "w \<in> set (c_cast c)"
    and "v_Type v = v_Type w" "v_Height v = v_Height w" "v_Round v = v_Round w"
  shows "v = w"
proof -
  have eq: "vote_pos v = vote_pos w" using assms by (simp add: vote_pos_def)
  obtain i j where ij: "i < length (c_cast c)" "c_cast c ! i = v" "j < length (c_cast c)" "c_cast c ! j = w"
    using assms(2,3) by (metis in_set_conv_nth)
  have "earlier (vote_pos (c_cast c ! a)) (vote_pos (c_cast c ! b))" if "a < b" "b < length (c_cast c)" for a b
    using assms(1) that sorted_wrt_nth_less [of earlier "map vote_pos (c_cast c)" a b] by (simp add: cast_inv_def)
  then have "i = j" using ij eq by (metis earlier_irrefl linorder_neqE_nat)
  with ij show ?thesis by simp
qed

section \<open>Recorded votes\<close>

text \<open>The recorded votes of a round are of that round, one per voter.\<close>

definition book_ok :: "VoteType \<Rightarrow> uint64 \<Rightarrow> int \<Rightarrow> (string \<times> Vote) list \<Rightarrow> bool" where
  "book_ok ty h r b \<longleftrightarrow> kv_sorted b \<and> (\<forall>(k, v) \<in> set b. k = ToLower (v_Voter v) \<and> v_Type v = ty
     \<and> v_Height v = h \<and> v_Round v = r)"

definition votes_inv :: "Core \<Rightarrow> bool" where
  "votes_inv c \<longleftrightarrow> ToLower (c_local c) = c_local c \<and> book_ok VotePrevote (c_height c) (c_round c) (c_prevotes c)
     \<and> book_ok VotePrecommit (c_height c) (c_round c) (c_precommits c)"

lemma book_ok_Nil [simp]: "book_ok ty h r []"
  by (simp add: book_ok_def)

lemma book_ok_set:
  assumes "book_ok ty h r b" "k = ToLower (v_Voter v)" "v_Type v = ty" "v_Height v = h" "v_Round v = r"
  shows "book_ok ty h r (kv_set k v b)"
  using assms by (auto simp: book_ok_def set_kv_set)

lemma book_ok_say:
  assumes "votes_inv c" "pred_option (own_vote c ty hash) vo" "book_ok ty (c_height c) (c_round c) b" "vo = Some v"
  shows "book_ok ty (c_height c) (c_round c) (kv_set (c_local c) v b)"
  using assms by (intro book_ok_set) (auto simp: own_vote_def votes_inv_def)

lemma votes_inv_step:
  assumes st: "core_step A R c c'" and inv: "votes_inv c"
  shows "votes_inv c'"
  using st
proof (cases rule: core_step.cases)
  case (prevote hash vo)
  with inv book_ok_say [OF inv prevote(4)] show ?thesis
    by (auto simp: votes_inv_def say_prevote_def split: option.splits)
next
  case (polka hash vo)
  with inv book_ok_say [OF inv polka(5)] show ?thesis
    by (auto simp: votes_inv_def say_precommit_def split: option.splits)
next
  case (precommit_nil vo)
  with inv book_ok_say [OF inv precommit_nil(3)] show ?thesis
    by (auto simp: votes_inv_def say_precommit_def split: option.splits)
qed (use inv in \<open>auto simp: votes_inv_def intro!: book_ok_set\<close>)

section \<open>Locks\<close>

text \<open>
  The lock discipline, relative to a predicate \<open>J height round hash\<close> that holds whenever the validator has
  seen a quorum of prevotes: the lock is the latest block it precommitted, it is justified, and a
  prevote against an earlier precommit is justified by a quorum in between.
\<close>

definition precommitted :: "Core \<Rightarrow> uint64 \<Rightarrow> int \<Rightarrow> string \<Rightarrow> bool" where
  "precommitted c h r x \<longleftrightarrow> (\<exists>v \<in> set (c_cast c). v_Type v = VotePrecommit \<and> v_Height v = h \<and> v_Round v = r \<and> v_BlockHash v = x)"

definition prevoted :: "Core \<Rightarrow> uint64 \<Rightarrow> int \<Rightarrow> string \<Rightarrow> bool" where
  "prevoted c h r x \<longleftrightarrow> (\<exists>v \<in> set (c_cast c). v_Type v = VotePrevote \<and> v_Height v = h \<and> v_Round v = r \<and> v_BlockHash v = x)"

definition lock_range :: "Core \<Rightarrow> bool" where
  "lock_range c \<longleftrightarrow> -1 \<le> c_lockedRound c \<and> (0 \<le> c_lockedRound c \<longrightarrow> c_lockedHash c \<noteq> [])
     \<and> (c_lockedRound c < c_round c \<or> c_lockedRound c = c_round c \<and> c_step c > StepPrevote)"

definition lock_inv :: "(uint64 \<Rightarrow> int \<Rightarrow> string \<Rightarrow> bool) \<Rightarrow> Core \<Rightarrow> bool" where
  "lock_inv J c \<longleftrightarrow> lock_range c
     \<and> (0 \<le> c_lockedRound c \<longrightarrow> J (c_height c) (c_lockedRound c) (c_lockedHash c))
     \<and> (\<forall>r x. precommitted c (c_height c) r x \<longrightarrow> x \<noteq> [] \<longrightarrow>
          0 \<le> r \<and> r \<le> c_lockedRound c \<and> (r = c_lockedRound c \<longrightarrow> x = c_lockedHash c))
     \<and> (\<forall>h r x. precommitted c h r x \<longrightarrow> x \<noteq> [] \<longrightarrow> J h r x)
     \<and> (\<forall>h r x r' y. precommitted c h r x \<longrightarrow> prevoted c h r' y \<longrightarrow> r < r' \<longrightarrow> x \<noteq> [] \<longrightarrow> y \<noteq> [] \<longrightarrow> x \<noteq> y \<longrightarrow>
          (\<exists>r''. r < r'' \<and> r'' < r' \<and> J h r'' y))"

lemma lock_inv_mono: "lock_inv J c \<Longrightarrow> (\<And>h r x. J h r x \<Longrightarrow> K h r x) \<Longrightarrow> lock_inv K c"
  unfolding lock_inv_def by meson

lemma precommitted_say:
  "pred_option (own_vote c VotePrevote y) vo \<Longrightarrow> c_cast c' = c_cast c @ (case vo of None \<Rightarrow> [] | Some v \<Rightarrow> [v]) \<Longrightarrow>
     precommitted c' h r x = precommitted c h r x"
  "pred_option (own_vote c VotePrecommit y) vo \<Longrightarrow> c_cast c' = c_cast c @ (case vo of None \<Rightarrow> [] | Some v \<Rightarrow> [v]) \<Longrightarrow>
     precommitted c' h r x = (precommitted c h r x \<or> vo \<noteq> None \<and> h = c_height c \<and> r = c_round c \<and> x = y)"
  by (cases vo; auto simp: precommitted_def own_vote_def)+

lemma prevoted_say:
  "pred_option (own_vote c VotePrevote y) vo \<Longrightarrow> c_cast c' = c_cast c @ (case vo of None \<Rightarrow> [] | Some v \<Rightarrow> [v]) \<Longrightarrow>
     prevoted c' h r x = (prevoted c h r x \<or> vo \<noteq> None \<and> h = c_height c \<and> r = c_round c \<and> x = y)"
  "pred_option (own_vote c VotePrecommit y) vo \<Longrightarrow> c_cast c' = c_cast c @ (case vo of None \<Rightarrow> [] | Some v \<Rightarrow> [v]) \<Longrightarrow>
     prevoted c' h r x = prevoted c h r x"
  by (cases vo; auto simp: prevoted_def own_vote_def)+

lemma cast_bound:
  assumes "cast_inv c"
  shows "precommitted c h r x \<Longrightarrow> h \<le> c_height c" "prevoted c h r x \<Longrightarrow> h \<le> c_height c"
    and "precommitted c (c_height c) r x \<Longrightarrow> r \<le> c_round c" "prevoted c (c_height c) r x \<Longrightarrow> r \<le> c_round c"
  using assms by (auto simp: cast_inv_def precommitted_def prevoted_def vote_pos_def core_pos_def earlier_def)

lemma lock_inv_keep:
  assumes "lock_inv J c" "c_cast c' = c_cast c" "c_height c' = c_height c" "c_lockedHash c' = c_lockedHash c"
    "c_lockedRound c' = c_lockedRound c" "lock_range c'"
  shows "lock_inv J c'"
  using assms unfolding lock_inv_def precommitted_def prevoted_def by simp

lemma lock_inv_prevote:
  assumes inv: "lock_inv J c" and step: "c_step c \<le> StepPropose" and may: "may_prevote c y"
    and own: "pred_option (own_vote c VotePrevote y) vo" and c': "c' = say_prevote vo (c\<lparr>c_step := StepPrevote\<rparr>)"
  shows "lock_inv J c'"
proof -
  have lt: "c_lockedRound c < c_round c" and range: "lock_range c'"
    using inv step by (auto simp: lock_inv_def lock_range_def c' less_eq_RoundStep_def less_RoundStep_def)
  have cast: "c_cast c' = c_cast c @ (case vo of None \<Rightarrow> [] | Some v \<Rightarrow> [v])" by (simp add: c')
  note said = precommitted_say(1) [OF own cast] prevoted_say(1) [OF own cast]
  have new: "\<exists>r''. r < r'' \<and> r'' < c_round c \<and> J (c_height c) r'' y"
    if "precommitted c (c_height c) r x" "x \<noteq> []" "y \<noteq> []" "x \<noteq> y" for r x
  proof -
    have r: "0 \<le> r" "r \<le> c_lockedRound c" "r = c_lockedRound c \<Longrightarrow> x = c_lockedHash c"
      using inv that by (auto simp: lock_inv_def)
    with inv have "c_lockedHash c \<noteq> []" "J (c_height c) (c_lockedRound c) (c_lockedHash c)"
      by (auto simp: lock_inv_def lock_range_def)
    moreover from this may r that have "y = c_lockedHash c" by (auto simp: may_prevote_def)
    moreover have "r \<noteq> c_lockedRound c" using calculation r(3) that by auto
    ultimately show ?thesis using r lt by (intro exI [of _ "c_lockedRound c"]) auto
  qed
  have same: "c_height c' = c_height c" "c_lockedHash c' = c_lockedHash c" "c_lockedRound c' = c_lockedRound c"
    by (simp_all add: c')
  show ?thesis
    using inv range new unfolding lock_inv_def said same by blast
qed

lemma lock_inv_polka:
  assumes inv: "lock_inv J c" and cast: "cast_inv c" and tm: "tame c" and step: "c_step c = StepPrevote" and h: "hash \<noteq> []"
    and j: "J (c_height c) (c_round c) hash" and own: "pred_option (own_vote c VotePrecommit hash) vo"
    and c': "c' = say_precommit vo (c\<lparr>c_lockedHash := hash, c_lockedRound := c_round c, c_step := StepPrecommit\<rparr>)"
  shows "lock_inv J c'"
proof -
  have lt: "c_lockedRound c < c_round c"
    using inv step by (auto simp: lock_inv_def lock_range_def less_RoundStep_def)
  have range: "lock_range c'" using tm h by (simp add: lock_range_def c' tame_def less_RoundStep_def)
  have cst: "c_cast c' = c_cast c @ (case vo of None \<Rightarrow> [] | Some v \<Rightarrow> [v])" by (simp add: c')
  note said = precommitted_say(2) [OF own cst] prevoted_say(2) [OF own cst]
  have same: "c_height c' = c_height c" "c_lockedHash c' = hash" "c_lockedRound c' = c_round c" by (simp_all add: c')
  have old: "0 \<le> r \<and> r < c_round c" if "precommitted c (c_height c) r x" "x \<noteq> []" for r x
    using inv that lt unfolding lock_inv_def by fastforce
  have r0: "0 \<le> c_round c" using tm by (simp add: tame_def)
  have late: "\<not> c_round c < r'" if "prevoted c (c_height c) r' y" for r' y
    using cast_bound(4) [OF cast that] by simp
  have 1: "0 \<le> r \<and> r \<le> c_round c \<and> (r = c_round c \<longrightarrow> x = hash)"
    if "precommitted c (c_height c) r x \<or> vo \<noteq> None \<and> c_height c = c_height c \<and> r = c_round c \<and> x = hash" "x \<noteq> []" for r x
    using that old r0 by force
  show ?thesis
    using inv range j 1 late unfolding lock_inv_def said same by blast
qed

lemma lock_inv_nil:
  assumes inv: "lock_inv J c" and step: "c_step c = StepPrevote" and own: "pred_option (own_vote c VotePrecommit []) vo"
    and c': "c' = say_precommit vo (c\<lparr>c_step := StepPrecommit\<rparr>)"
  shows "lock_inv J c'"
proof -
  have range: "lock_range c'" using inv step by (auto simp: lock_inv_def lock_range_def c' less_RoundStep_def)
  have cst: "c_cast c' = c_cast c @ (case vo of None \<Rightarrow> [] | Some v \<Rightarrow> [v])" by (simp add: c')
  note said = precommitted_say(2) [OF own cst] prevoted_say(2) [OF own cst]
  have same: "c_height c' = c_height c" "c_lockedHash c' = c_lockedHash c" "c_lockedRound c' = c_lockedRound c"
    by (simp_all add: c')
  show ?thesis using inv range unfolding lock_inv_def said same by blast
qed

lemma lock_inv_advance:
  assumes inv: "lock_inv J c" and cast: "cast_inv c" and tm: "tame c"
    and c': "c_cast c' = c_cast c" "c_height c' = c_height c + 1" "c_lockedRound c' = -1" "c_round c' = 0"
  shows "lock_inv J c'"
proof -
  have "c_height c < c_height c + 1" using tm by (intro u64_succ) (simp add: tame_def)
  then have none: "\<not> precommitted c (c_height c + 1) r x" for r x using cast_bound(1) [OF cast] by (meson leD)
  have said: "precommitted c' = precommitted c" "prevoted c' = prevoted c"
    using c'(1) by (simp_all add: fun_eq_iff precommitted_def prevoted_def)
  show ?thesis
    using inv c' none unfolding lock_inv_def lock_range_def said by simp
qed

lemma lock_inv_step:
  assumes st: "core_step A R c c'" and inv: "lock_inv J c" and cast: "cast_inv c" and tm: "tame c"
    and ev: "\<And>hash. c_quorum c \<le> count_for hash (c_prevotes c) \<Longrightarrow> hash \<noteq> [] \<Longrightarrow> J (c_height c) (c_round c) hash"
  shows "lock_inv J c'"
proof -
  have range: "lock_range c" using inv by (simp add: lock_inv_def)
  from st show ?thesis
  proof (cases rule: core_step.cases)
    case (prevote hash vo)
    show ?thesis by (rule lock_inv_prevote [OF inv prevote(2-4,1)])
  next
    case (polka hash vo)
    show ?thesis by (rule lock_inv_polka [OF inv cast tm polka(2,3) ev polka(5,1)]) (use polka in simp_all)
  next
    case (precommit_nil vo)
    show ?thesis by (rule lock_inv_nil [OF inv precommit_nil(2,3,1)])
  next
    case advance
    then show ?thesis by (intro lock_inv_advance [OF inv cast tm]) simp_all
  next
    case next_round
    then show ?thesis
      using range by (intro lock_inv_keep [OF inv]) (auto simp: lock_range_def next_round_id [OF tm])
  qed (rule lock_inv_keep [OF inv]; use range in \<open>force simp: lock_range_def less_eq_RoundStep_def less_RoundStep_def\<close>)+
qed

section \<open>Decisions\<close>

text \<open>What a step adds to the list of commits is a quorum certificate of the current round.\<close>

lemma commits_step:
  assumes st: "core_step A R c c'"
  shows "c_commits c' = c_commits c \<or> (\<exists>hash. hash \<noteq> [] \<and> c_quorum c \<le> count_for hash (c_precommits c)
    \<and> c_commits c' = c_commits c @ [\<lparr>cc_Height = c_height c, cc_Round = c_round c, cc_BlockHash = hash,
        cc_Votes = map snd (filter (\<lambda>(_, v). v_BlockHash v = hash) (c_precommits c))\<rparr>])"
  using st by (cases rule: core_step.cases) auto

text \<open>
  The states of a run: every step starts in a tame state. What the step rules keep holds after any
  number of them.
\<close>

definition tame_step :: "(Vote \<Rightarrow> bool) \<Rightarrow> (string list option \<Rightarrow> bool) \<Rightarrow> Core \<Rightarrow> Core \<Rightarrow> bool" where
  "tame_step A R c c' \<longleftrightarrow> core_step A R c c' \<and> tame c"

lemma tame_steps_inv:
  assumes "(tame_step A R)\<^sup>*\<^sup>* c c'" "cast_inv c" "votes_inv c"
  shows "cast_inv c' \<and> votes_inv c'"
  using assms by (induction rule: rtranclp_induct) (auto simp: tame_step_def intro: cast_inv_step votes_inv_step)

lemma core_step_cast: "core_step A R c c' \<Longrightarrow> prefix (c_cast c) (c_cast c') \<and> c_local c' = c_local c"
  by (erule core_step.cases) auto

text \<open>
  Every recorded vote was delivered from the roster or is the validator's own, as long as the roster does
  not change.
\<close>

definition heard :: "(Vote \<Rightarrow> bool) \<Rightarrow> Core \<Rightarrow> bool" where
  "heard A c \<longleftrightarrow> (\<forall>(k, v) \<in> set (c_prevotes c) \<union> set (c_precommits c). A v \<and> c_known c (v_Voter v) \<or> v \<in> set (c_cast c))"

lemma c_known_cong: "c_roster c' = c_roster c \<Longrightarrow> c_local c' = c_local c \<Longrightarrow> c_known c' = c_known c"
  by (simp add: c_known_def fun_eq_iff split: option.split)

lemma book_entries:
  assumes "votes_inv c"
  shows "set (kv_set k w (c_prevotes c)) \<subseteq> insert (k, w) (set (c_prevotes c))"
    and "set (kv_set k w (c_precommits c)) \<subseteq> insert (k, w) (set (c_precommits c))"
  using assms by (auto simp: votes_inv_def book_ok_def set_kv_set)

text \<open>A step records nothing, or one vote that was delivered or is the validator's own.\<close>

lemma books_step:
  assumes st: "core_step A R c c'" and inv: "votes_inv c"
  shows "\<forall>(k, v) \<in> set (c_prevotes c') \<union> set (c_precommits c').
     (k, v) \<in> set (c_prevotes c) \<union> set (c_precommits c) \<or> A v \<and> c_known c (v_Voter v) \<or> v \<in> set (c_cast c')"
  using st
proof (cases rule: core_step.cases)
  case (hear_prevote v)
  then show ?thesis using book_entries(1) [OF inv, of "ToLower (v_Voter v)" v] by auto
next
  case (hear_precommit v)
  then show ?thesis using book_entries(2) [OF inv, of "ToLower (v_Voter v)" v] by auto
next
  case (prevote hash vo)
  then show ?thesis using book_entries(1) [OF inv, of "c_local c" "the vo"]
    by (cases vo) (auto simp: say_prevote_def)
next
  case (polka hash vo)
  then show ?thesis using book_entries(2) [OF inv, of "c_local c" "the vo"]
    by (cases vo) (auto simp: say_precommit_def)
next
  case (precommit_nil vo)
  then show ?thesis using book_entries(2) [OF inv, of "c_local c" "the vo"]
    by (cases vo) (auto simp: say_precommit_def)
qed auto

lemma core_step_roster: "core_step A R c c' \<Longrightarrow> c_roster c' = c_roster c \<or> R (c_roster c')"
  by (erule core_step.cases) auto

lemma heard_step:
  assumes st: "core_step A R c c'" and inv: "votes_inv c" and h: "heard A c" and R: "\<And>vs. R vs \<Longrightarrow> vs = c_roster c"
  shows "heard A c'"
proof -
  have same: "c_known c' = c_known c"
    using core_step_roster [OF st] R core_step_cast [OF st] by (intro c_known_cong) auto
  have "set (c_cast c) \<subseteq> set (c_cast c')" using core_step_cast [OF st] by (auto dest: set_mono_prefix)
  then show ?thesis using books_step [OF st inv] h unfolding heard_def same by fast
qed

text \<open>A commit certificate: a quorum of precommits for the block from different voters.\<close>

definition cert_ok :: "(Vote \<Rightarrow> bool) \<Rightarrow> string list \<Rightarrow> Vote set \<Rightarrow> CommitCertificate \<Rightarrow> bool" where
  "cert_ok A V own cc \<longleftrightarrow> cc_BlockHash cc \<noteq> [] \<and> QuorumSize (int (length V)) \<le> int (length (cc_Votes cc))
     \<and> distinct (map (\<lambda>v. ToLower (v_Voter v)) (cc_Votes cc))
     \<and> (\<forall>v \<in> set (cc_Votes cc). v_Type v = VotePrecommit \<and> v_Height v = cc_Height cc \<and> v_Round v = cc_Round cc
          \<and> v_BlockHash v = cc_BlockHash cc \<and> (A v \<and> (\<exists>a \<in> set V. EqualFold a (v_Voter v)) \<or> v \<in> own))"

lemma book_voters:
  assumes "book_ok ty h r b"
  shows "distinct (map (\<lambda>v. ToLower (v_Voter v)) (map snd (filter P b)))"
proof -
  have "map (\<lambda>v. ToLower (v_Voter v)) (map snd (filter P b)) = map fst (filter P b)"
    using assms by (auto simp: book_ok_def intro!: map_cong)
  moreover have "distinct (map fst (filter P b))"
    using assms by (simp add: book_ok_def kv_sorted_distinct distinct_map_filter)
  ultimately show ?thesis by (rule ssubst)
qed

lemma cert_ok_decided:
  assumes inv: "votes_inv c" and h: "heard A c" and V: "c_roster c = Some V" "V \<noteq> []" and own: "set (c_cast c) \<subseteq> own"
    and q: "hash \<noteq> []" "c_quorum c \<le> count_for hash (c_precommits c)"
  shows "cert_ok A V own \<lparr>cc_Height = c_height c, cc_Round = c_round c, cc_BlockHash = hash,
    cc_Votes = map snd (filter (\<lambda>(_, v). v_BlockHash v = hash) (c_precommits c))\<rparr>"
proof -
  have b: "book_ok VotePrecommit (c_height c) (c_round c) (c_precommits c)" using inv by (simp add: votes_inv_def)
  have "v_Type v = VotePrecommit \<and> v_Height v = c_height c \<and> v_Round v = c_round c
      \<and> (A v \<and> (\<exists>a \<in> set V. EqualFold a (v_Voter v)) \<or> v \<in> own)" if "(k, v) \<in> set (c_precommits c)" for k v
    using that b h own V by (fastforce simp: book_ok_def heard_def c_known_def list_ex_iff)
  then show ?thesis
    using q V book_voters [OF b] by (auto simp: cert_ok_def c_quorum_def count_for_def)
qed

lemma certs_run:
  assumes "(tame_step A (\<lambda>vs. vs = Some V))\<^sup>*\<^sup>* c c'" "cast_inv c" "votes_inv c" "heard A c"
    and "c_roster c = Some V" "V \<noteq> []" "\<forall>cc \<in> set (c_commits c). cert_ok A V (set (c_cast c)) cc"
  shows "heard A c' \<and> c_roster c' = Some V \<and> (\<forall>cc \<in> set (c_commits c'). cert_ok A V (set (c_cast c')) cc)"
  using assms
proof (induction rule: rtranclp_induct)
  case (step d d')
  then have st: "core_step A (\<lambda>vs. vs = Some V) d d'" and IH: "heard A d" "c_roster d = Some V"
    "\<forall>cc \<in> set (c_commits d). cert_ok A V (set (c_cast d)) cc" by (auto simp: tame_step_def)
  have inv: "votes_inv d" using tame_steps_inv [OF step(1)] step.prems by blast
  have own: "set (c_cast d) \<subseteq> set (c_cast d')" using core_step_cast [OF st] by (auto dest: set_mono_prefix)
  then have old: "\<forall>cc \<in> set (c_commits d). cert_ok A V (set (c_cast d')) cc" using IH(3) unfolding cert_ok_def by blast
  have "\<forall>cc \<in> set (c_commits d'). cert_ok A V (set (c_cast d')) cc"
    using commits_step [OF st] old cert_ok_decided [OF inv IH(1,2) step.prems(5) own] by auto
  moreover have "heard A d'" using heard_step [OF st inv IH(1)] IH(2) by simp
  moreover have "c_roster d' = Some V" using core_step_roster [OF st] IH(2) by auto
  ultimately show ?case by blast
qed simp

end
