(* ===== verification/BftLoop.thy ===== *)
theory BftLoop
  imports BftSpec
begin

text \<open>
  The engine as a system of goroutines, and the proof that it implements the voting machine of
  \<open>BftSpec\<close>. A state is the engine together with the position of the loop goroutine; one step is one
  critical section of the loop, of a handler, or of a goroutine that wakes up inside \<^verbatim>\<open>commitLocked\<close>,
  or a change of the shared store, pool, network node or roster by the rest of the program. Waiting
  ends nondeterministically, which covers every timing; a loop that itself sleeps in \<^verbatim>\<open>commitLocked\<close>
  may run on here. A panic has no successor.
\<close>

datatype LoopPC =
    AtTop | AtPropose uint64 int | AtSolo | AtSoloAdvance | AtBuild uint64 int | AtProposeWait
  | AtPrevote | AtPrecommit | AtCommit

record Sys =
  sy_eng :: BFTEngine
  sy_pc :: LoopPC

definition dispatch :: "BFTEngine \<Rightarrow> LoopPC" where
  "dispatch e = (case be_step e of
      StepNewHeight \<Rightarrow> AtPropose (be_height e) (be_round e)
    | StepPropose \<Rightarrow> AtPropose (be_height e) (be_round e)
    | StepPrevote \<Rightarrow> AtPrevote
    | StepPrecommit \<Rightarrow> AtPrecommit
    | StepCommit \<Rightarrow> AtCommit)"

definition after_enter :: "uint64 \<Rightarrow> int \<Rightarrow> ProposeNext \<Rightarrow> LoopPC" where
  "after_enter h r nx = (case nx of
      ProposeReturn \<Rightarrow> AtTop
    | ProposeSolo \<Rightarrow> AtSolo
    | ProposeWait b \<Rightarrow> if b then AtBuild h r else AtProposeWait)"

inductive sys_step :: "Geth \<Rightarrow> (Vote \<Rightarrow> bool) \<Rightarrow> (string list option \<Rightarrow> bool) \<Rightarrow> Sys \<Rightarrow> Sys \<Rightarrow> bool" for E A R where
  top: "sy_pc s = AtTop \<Longrightarrow> sys_step E A R s (s\<lparr>sy_pc := dispatch (sy_eng s)\<rparr>)"
| propose_enter: "sy_pc s = AtPropose h r \<Longrightarrow> cx_geth cx = E \<Longrightarrow> runPropose_enter cx h (sy_eng s) = (nx, e') \<Longrightarrow>
     sys_step E A R s (s\<lparr>sy_eng := e', sy_pc := after_enter h r nx\<rparr>)"
| solo: "sy_pc s = AtSolo \<Longrightarrow> cx_geth cx = E \<Longrightarrow> soloSeal cx (sy_eng s) = (sealed, e') \<Longrightarrow>
     sys_step E A R s (s\<lparr>sy_eng := e', sy_pc := if sealed then AtSoloAdvance else AtTop\<rparr>)"
| solo_advance: "sy_pc s = AtSoloAdvance \<Longrightarrow>
     sys_step E A R s (s\<lparr>sy_eng := advanceHeightLocked (sy_eng s), sy_pc := AtTop\<rparr>)"
| build: "sy_pc s = AtBuild h r \<Longrightarrow> cx_geth cx = E \<Longrightarrow> buildAndBroadcastProposal cx h r (sy_eng s) = (res, e') \<Longrightarrow>
     sys_step E A R s (s\<lparr>sy_eng := e', sy_pc := AtProposeWait\<rparr>)"
| propose_end: "sy_pc s = AtProposeWait \<Longrightarrow> cx_geth cx = E \<Longrightarrow>
     sys_step E A R s (s\<lparr>sy_eng := runPropose_end cx (sy_eng s), sy_pc := AtTop\<rparr>)"
| prevote_done: "sy_pc s = AtPrevote \<Longrightarrow> be_step (sy_eng s) \<noteq> StepPrevote \<Longrightarrow> sys_step E A R s (s\<lparr>sy_pc := AtTop\<rparr>)"
| prevote_poll: "sy_pc s = AtPrevote \<Longrightarrow> cx_geth cx = E \<Longrightarrow>
     sys_step E A R s (s\<lparr>sy_eng := tryFinalizePrevotesLocked cx (sy_eng s)\<rparr>)"
| prevote_timeout: "sy_pc s = AtPrevote \<Longrightarrow> cx_geth cx = E \<Longrightarrow>
     sys_step E A R s (s\<lparr>sy_eng := runPrevote_timeout cx (sy_eng s), sy_pc := AtTop\<rparr>)"
| precommit_done: "sy_pc s = AtPrecommit \<Longrightarrow> be_step (sy_eng s) \<noteq> StepPrecommit \<Longrightarrow> sys_step E A R s (s\<lparr>sy_pc := AtTop\<rparr>)"
| precommit_poll: "sy_pc s = AtPrecommit \<Longrightarrow> cx_geth cx = E \<Longrightarrow> tryFinalizePrecommitsLocked cx (sy_eng s) = Some e' \<Longrightarrow>
     sys_step E A R s (s\<lparr>sy_eng := e'\<rparr>)"
| precommit_timeout: "sy_pc s = AtPrecommit \<Longrightarrow>
     sys_step E A R s (s\<lparr>sy_eng := runPrecommit_timeout (sy_eng s), sy_pc := AtTop\<rparr>)"
| commit_wait: "sy_pc s = AtCommit \<Longrightarrow> sys_step E A R s (s\<lparr>sy_pc := AtTop\<rparr>)"
| proposal: "cx_geth cx = E \<Longrightarrow> HandleProposal cx (Some p) (sy_eng s) = Some e' \<Longrightarrow> sys_step E A R s (s\<lparr>sy_eng := e'\<rparr>)"
| vote: "cx_geth cx = E \<Longrightarrow> (VerifyVote E (Some v) = Inr () \<Longrightarrow> A v) \<Longrightarrow> HandleVote cx (Some v) (sy_eng s) = Some e' \<Longrightarrow>
     sys_step E A R s (s\<lparr>sy_eng := e'\<rparr>)"
| woken: "wake (sy_eng s) = Some e' \<Longrightarrow> sys_step E A R s (s\<lparr>sy_eng := e'\<rparr>)"
| others: "R (map_option ls_validators l) \<Longrightarrow>
     sys_step E A R s (s\<lparr>sy_eng := (sy_eng s)\<lparr>be_store := st, be_pool := po, be_p2p := nd, be_leader := l\<rparr>\<rparr>)"

section \<open>The abstraction\<close>

definition core_of :: "BFTEngine \<Rightarrow> Core" where
  "core_of e = \<lparr>c_local = be_localAddr e, c_roster = map_option ls_validators (be_leader e), c_height = be_height e,
     c_round = be_round e, c_step = be_step e, c_lockedHash = be_lockedHash e, c_lockedRound = be_lockedRound e,
     c_prevotes = be_prevotes e, c_precommits = be_precommits e, c_cast = be_cast e, c_commits = be_commits e\<rparr>"

lemma core_of_simps [simp]:
  "c_local (core_of e) = be_localAddr e" "c_roster (core_of e) = map_option ls_validators (be_leader e)"
  "c_height (core_of e) = be_height e" "c_round (core_of e) = be_round e" "c_step (core_of e) = be_step e"
  "c_lockedHash (core_of e) = be_lockedHash e" "c_lockedRound (core_of e) = be_lockedRound e"
  "c_prevotes (core_of e) = be_prevotes e" "c_precommits (core_of e) = be_precommits e"
  "c_cast (core_of e) = be_cast e" "c_commits (core_of e) = be_commits e"
  by (simp_all add: core_of_def)

text \<open>Fields the abstraction does not see.\<close>

lemma core_of_hidden [simp]:
  "core_of (e\<lparr>be_store := a\<rparr>) = core_of e" "core_of (e\<lparr>be_pool := b\<rparr>) = core_of e" "core_of (e\<lparr>be_p2p := n\<rparr>) = core_of e"
  "core_of (e\<lparr>be_proposal := p\<rparr>) = core_of e" "core_of (e\<lparr>be_validHash := h\<rparr>) = core_of e"
  "core_of (e\<lparr>be_validRound := r\<rparr>) = core_of e" "core_of (e\<lparr>be_pendingTxs := t\<rparr>) = core_of e"
  "core_of (e\<lparr>be_lastVotes := lv\<rparr>) = core_of e" "core_of (e\<lparr>be_lastCommitAt := ca\<rparr>) = core_of e"
  "core_of (e\<lparr>be_sleeping := sl\<rparr>) = core_of e"
  by (simp_all add: core_of_def)

lemma core_of_seen [simp]:
  "core_of (e\<lparr>be_step := st\<rparr>) = (core_of e)\<lparr>c_step := st\<rparr>" "core_of (e\<lparr>be_round := r\<rparr>) = (core_of e)\<lparr>c_round := r\<rparr>"
  "core_of (e\<lparr>be_height := h\<rparr>) = (core_of e)\<lparr>c_height := h\<rparr>"
  "core_of (e\<lparr>be_lockedHash := lh\<rparr>) = (core_of e)\<lparr>c_lockedHash := lh\<rparr>"
  "core_of (e\<lparr>be_lockedRound := lr\<rparr>) = (core_of e)\<lparr>c_lockedRound := lr\<rparr>"
  "core_of (e\<lparr>be_prevotes := pv\<rparr>) = (core_of e)\<lparr>c_prevotes := pv\<rparr>"
  "core_of (e\<lparr>be_precommits := pc\<rparr>) = (core_of e)\<lparr>c_precommits := pc\<rparr>"
  "core_of (e\<lparr>be_cast := ca\<rparr>) = (core_of e)\<lparr>c_cast := ca\<rparr>"
  "core_of (e\<lparr>be_commits := co\<rparr>) = (core_of e)\<lparr>c_commits := co\<rparr>"
  "core_of (e\<lparr>be_leader := l\<rparr>) = (core_of e)\<lparr>c_roster := map_option ls_validators l\<rparr>"
  by (simp_all add: core_of_def)

lemma tame_core_of: "tame (core_of e) \<longleftrightarrow> 0 \<le> be_round e \<and> be_round e < 2 ^ 31 - 1 \<and> be_height e + 1 \<noteq> 0"
  by (simp add: tame_def)

lemma quorum_core_of: "c_quorum (core_of e) = QuorumSize (validatorCountLocked e)"
  by (simp add: c_quorum_def validatorCountLocked_def Count_def Let_def split: option.splits)

lemma known_core_of: "c_known (core_of e) voter = known_voter e voter"
  by (simp add: c_known_def known_voter_def Count_def split: option.splits)

section \<open>Each section is a step of the machine\<close>

lemma broadcast_prevote:
  "\<exists>vo. core_of (broadcastVoteLocked cx VotePrevote hash e) = say_prevote vo (core_of e)
     \<and> pred_option (own_vote (core_of e) VotePrevote hash) vo"
proof (cases "be_privKey e = [] \<or> be_localAddr e = []")
  case True
  then show ?thesis by (intro exI [of _ None]) (simp add: broadcastVoteLocked_def say_prevote_def)
next
  case False
  show ?thesis
  proof (cases "SignVote (cx_geth cx) VotePrevote (be_height e) (be_round e) hash (be_localAddr e) (be_privKey e) (cx_now cx)")
    case (Inl er)
    then show ?thesis by (intro exI [of _ None]) (simp add: broadcastVoteLocked_def say_prevote_def)
  next
    case (Inr v)
    then have "own_vote (core_of e) VotePrevote hash v" by (auto simp: own_vote_def SignVote_def split: sum.splits)
    with False Inr show ?thesis
      by (intro exI [of _ "Some v"]) (simp add: broadcastVoteLocked_def say_prevote_def Let_def)
  qed
qed

lemma broadcast_precommit:
  "\<exists>vo. core_of (broadcastVoteLocked cx VotePrecommit hash e) = say_precommit vo (core_of e)
     \<and> pred_option (own_vote (core_of e) VotePrecommit hash) vo"
proof (cases "be_privKey e = [] \<or> be_localAddr e = []")
  case True
  then show ?thesis by (intro exI [of _ None]) (simp add: broadcastVoteLocked_def say_precommit_def)
next
  case False
  show ?thesis
  proof (cases "SignVote (cx_geth cx) VotePrecommit (be_height e) (be_round e) hash (be_localAddr e) (be_privKey e) (cx_now cx)")
    case (Inl er)
    then show ?thesis by (intro exI [of _ None]) (simp add: broadcastVoteLocked_def say_precommit_def)
  next
    case (Inr v)
    then have "own_vote (core_of e) VotePrecommit hash v" by (auto simp: own_vote_def SignVote_def split: sum.splits)
    with False Inr show ?thesis
      by (intro exI [of _ "Some v"]) (simp add: broadcastVoteLocked_def say_precommit_def Let_def)
  qed
qed

lemma broadcast_keeps [simp]:
  "be_height (broadcastVoteLocked cx ty hash e) = be_height e" "be_round (broadcastVoteLocked cx ty hash e) = be_round e"
  "be_step (broadcastVoteLocked cx ty hash e) = be_step e" "be_store (broadcastVoteLocked cx ty hash e) = be_store e"
  "be_leader (broadcastVoteLocked cx ty hash e) = be_leader e" "be_proposal (broadcastVoteLocked cx ty hash e) = be_proposal e"
  "be_pendingTxs (broadcastVoteLocked cx ty hash e) = be_pendingTxs e"
  by (simp_all add: broadcastVoteLocked_def Let_def split: sum.split)

lemma enterPrevote_refines:
  assumes "be_step e = StepPropose"
  shows "core_step A R (core_of e) (core_of (enterPrevoteLocked cx e))"
proof -
  define hash where "hash = (case be_proposal e of None \<Rightarrow> []
     | Some p \<Rightarrow> if be_lockedRound e \<ge> 0 \<and> be_lockedHash e \<noteq> [] then be_lockedHash e else p_BlockHash p)"
  obtain vo where vo: "core_of (broadcastVoteLocked cx VotePrevote hash (e\<lparr>be_step := StepPrevote\<rparr>)) =
      say_prevote vo (core_of (e\<lparr>be_step := StepPrevote\<rparr>))" "pred_option (own_vote (core_of (e\<lparr>be_step := StepPrevote\<rparr>)) VotePrevote hash) vo"
    using broadcast_prevote by blast
  have "may_prevote (core_of e) hash" by (auto simp: may_prevote_def hash_def split: option.splits)
  with vo assms have "core_step A R (core_of e) (say_prevote vo ((core_of e)\<lparr>c_step := StepPrevote\<rparr>))"
    by (intro core_step.prevote) (simp_all add: less_eq_RoundStep_def)
  with vo show ?thesis by (simp add: enterPrevoteLocked_def hash_def [symmetric])
qed

lemma nil_refines:
  assumes "be_step e = StepPrevote"
  shows "core_step A R (core_of e) (core_of (broadcastVoteLocked cx VotePrecommit [] (e\<lparr>be_step := StepPrecommit\<rparr>)))"
proof -
  obtain vo where vo: "core_of (broadcastVoteLocked cx VotePrecommit [] (e\<lparr>be_step := StepPrecommit\<rparr>)) =
      say_precommit vo (core_of (e\<lparr>be_step := StepPrecommit\<rparr>))"
      "pred_option (own_vote (core_of (e\<lparr>be_step := StepPrecommit\<rparr>)) VotePrecommit []) vo"
    using broadcast_precommit by blast
  with assms have "core_step A R (core_of e) (say_precommit vo ((core_of e)\<lparr>c_step := StepPrecommit\<rparr>))"
    by (intro core_step.precommit_nil) simp_all
  with vo show ?thesis by simp
qed

lemma polka_refines:
  assumes "be_step e = StepPrevote" "hash \<noteq> []" "QuorumSize (validatorCountLocked e) \<le> count_for hash (be_prevotes e)"
  shows "core_step A R (core_of e) (core_of (broadcastVoteLocked cx VotePrecommit hash
     (e\<lparr>be_lockedHash := hash, be_lockedRound := be_round e, be_validHash := hash, be_validRound := be_round e,
        be_step := StepPrecommit\<rparr>)))"
    (is "core_step A R _ (core_of (broadcastVoteLocked cx _ _ ?e))")
proof -
  obtain vo where vo: "core_of (broadcastVoteLocked cx VotePrecommit hash ?e) = say_precommit vo (core_of ?e)"
      "pred_option (own_vote (core_of ?e) VotePrecommit hash) vo"
    using broadcast_precommit by blast
  with assms have "core_step A R (core_of e)
      (say_precommit vo ((core_of e)\<lparr>c_lockedHash := hash, c_lockedRound := c_round (core_of e), c_step := StepPrecommit\<rparr>))"
    by (intro core_step.polka) (simp_all add: quorum_core_of)
  with vo show ?thesis by simp
qed

lemma tryFinalizePrevotes_refines:
  "(core_step A R)\<^sup>=\<^sup>= (core_of e) (core_of (tryFinalizePrevotesLocked cx e))"
proof (cases "be_step e = StepPrevote")
  case step: True
  let ?q = "QuorumSize (validatorCountLocked e)"
  let ?found = "find (\<lambda>h. count_for h (be_prevotes e) \<ge> ?q) (cx_order cx (voted_hashes (be_prevotes e)))"
  show ?thesis
  proof (cases ?found)
    case None
    then show ?thesis using step nil_refines [OF step, of A R cx] by (auto simp: tryFinalizePrevotesLocked_def Let_def)
  next
    case (Some hash)
    then have "count_for hash (be_prevotes e) \<ge> ?q" by (auto simp: find_Some_iff)
    then show ?thesis
      using Some step nil_refines [OF step, of A R cx] polka_refines [OF step, of hash A R cx]
      by (auto simp: tryFinalizePrevotesLocked_def Let_def)
  qed
qed (simp add: tryFinalizePrevotesLocked_def)

definition core_advance :: "Core \<Rightarrow> Core" where
  "core_advance c = c\<lparr>c_height := c_height c + 1, c_round := 0, c_step := StepNewHeight, c_prevotes := [],
     c_precommits := [], c_lockedHash := [], c_lockedRound := -1\<rparr>"

lemma core_of_advance [simp]: "core_of (advanceHeightLocked e) = core_advance (core_of e)"
  by (simp add: advanceHeightLocked_def core_advance_def core_of_def)

lemma core_of_markCommitted [simp]: "core_of (markCommitted now e) = core_of e"
  by (simp add: markCommitted_def)

lemma commitLocked_core:
  assumes "commitLocked cx hash votes e = Some e'"
    and c: "c = (core_of e)\<lparr>c_commits := be_commits e @
     [\<lparr>cc_Height = be_height e, cc_Round = be_round e, cc_BlockHash = hash, cc_Votes = votes\<rparr>]\<rparr>"
  shows "core_of e' = c \<or> core_of e' = core_advance c"
  using assms by (auto simp: commitLocked_def Let_def split: option.splits if_splits sum.splits)

lemma core_of_next_round: "core_of (next_round e) =
   (core_of e)\<lparr>c_round := i32 (be_round e + 1), c_step := StepNewHeight, c_prevotes := [], c_precommits := []\<rparr>"
  by (simp add: next_round_def)

lemma tame_stepI: "core_step A R c c' \<Longrightarrow> tame c \<Longrightarrow> (tame_step A R)\<^sup>*\<^sup>* c c'"
  by (auto simp: tame_step_def)

lemma tame_stepI_eq: "(core_step A R)\<^sup>=\<^sup>= c c' \<Longrightarrow> tame c \<Longrightarrow> (tame_step A R)\<^sup>*\<^sup>* c c'"
  by (auto simp: tame_step_def)

lemma tryFinalizePrecommits_refines:
  assumes run: "tryFinalizePrecommitsLocked cx e = Some e'" and tm: "tame (core_of e)"
  shows "(tame_step A R)\<^sup>*\<^sup>* (core_of e) (core_of e')"
proof (cases "be_step e = StepPrecommit \<and> QuorumSize (validatorCountLocked e) \<noteq> 0")
  case False
  with run show ?thesis by (auto simp: tryFinalizePrecommitsLocked_def Let_def split: if_splits)
next
  case True
  let ?q = "QuorumSize (validatorCountLocked e)"
  let ?found = "find (\<lambda>h. count_for h (be_precommits e) \<ge> ?q \<and> h \<noteq> []) (cx_order cx (voted_hashes (be_precommits e)))"
  show ?thesis
  proof (cases ?found)
    case None
    have "core_step A R (core_of e) (core_of (next_round e))"
      unfolding core_of_next_round using True core_step.next_round [of "core_of e" A R] by simp
    then show ?thesis
      using None True run tame_stepI [OF _ tm] by (auto simp: tryFinalizePrecommitsLocked_def Let_def split: if_splits)
  next
    case (Some hash)
    then have h: "count_for hash (be_precommits e) \<ge> ?q" "hash \<noteq> []" by (auto simp: find_Some_iff)
    let ?votes = "map snd (filter (\<lambda>(_, v). v_BlockHash v = hash) (be_precommits e))"
    let ?c = "(core_of e)\<lparr>c_step := StepCommit, c_commits := be_commits e @
      [\<lparr>cc_Height = be_height e, cc_Round = be_round e, cc_BlockHash = hash, cc_Votes = ?votes\<rparr>]\<rparr>"
    have "core_step A R (core_of e) ?c"
      using True h core_step.decide [of "core_of e" hash A R] by (simp add: quorum_core_of)
    then have dec: "(tame_step A R)\<^sup>*\<^sup>* (core_of e) ?c" using tm by (rule tame_stepI)
    have "tame ?c" using tm by (simp add: tame_def)
    then have adv: "tame_step A R ?c (core_advance ?c)"
      unfolding tame_step_def core_advance_def using core_step.advance by blast
    have "commitLocked cx hash ?votes (e\<lparr>be_step := StepCommit\<rparr>) = Some e'"
      using Some True run by (simp add: tryFinalizePrecommitsLocked_def Let_def)
    then have "core_of e' = ?c \<or> core_of e' = core_advance ?c" by (rule commitLocked_core) simp
    then show ?thesis
    proof
      assume eq: "core_of e' = ?c"
      show ?thesis unfolding eq by (rule dec)
    next
      assume eq: "core_of e' = core_advance ?c"
      show ?thesis unfolding eq by (rule rtranclp.rtrancl_into_rtrancl [OF dec adv])
    qed
  qed
qed

lemma adopt_refines:
  assumes "be_round e < r"
  shows "core_step A R (core_of e) (core_of (adopt_round r e))"
  using core_step.jump [of "core_of e" r A R] assms by (simp add: adopt_round_def)

lemma accept_proposal_refines:
  assumes "be_step e \<le> StepPropose"
  shows "(core_step A R)\<^sup>=\<^sup>= (core_of e) (core_of (accept_proposal cx p e))"
proof -
  obtain expected s1 where l: "(case be_leader e of None \<Rightarrow> ([], be_store e)
      | Some l \<Rightarrow> LeaderForHeight l (be_store e) (cx_now cx) (p_Height p)) = (expected, s1)" by (metis surj_pair)
  define e2 where "e2 = e\<lparr>be_store := s1, be_proposal := Some p, be_validHash := p_BlockHash p, be_validRound := p_Round p\<rparr>"
  define e3 where "e3 = (if p_Txs p \<noteq> [] then e2\<lparr>be_pendingTxs := p_Txs p\<rparr> else e2)"
  have c: "core_of e3 = core_of e" "be_step e3 = be_step e" by (simp_all add: e2_def e3_def)
  have "core_of (accept_proposal cx p e) = core_of e \<or>
      be_step e = StepPropose \<and> core_of (accept_proposal cx p e) = core_of (enterPrevoteLocked cx e3)"
    using c by (auto simp: accept_proposal_def l Let_def e2_def [symmetric] e3_def [symmetric] split: sum.splits)
  then show ?thesis using enterPrevote_refines [of e3 A R cx] c by auto
qed

lemma HandleProposal_refines:
  assumes run: "HandleProposal cx (Some p) e = Some e'" and tm: "tame (core_of e)" "tame (core_of e')"
  shows "(tame_step A R)\<^sup>*\<^sup>* (core_of e) (core_of e')"
proof -
  define e1 where "e1 = (if p_Round p > be_round e then adopt_round (p_Round p) e else e)"
  have e1: "(core_step A R)\<^sup>=\<^sup>= (core_of e) (core_of e1)" using adopt_refines [of e "p_Round p" A R] by (auto simp: e1_def)
  have pos: "be_height (accept_proposal cx p e1) = be_height e1" "be_round (accept_proposal cx p e1) = be_round e1"
    by (simp_all add: accept_proposal_def enterPrevoteLocked_def Let_def split: prod.split sum.split)
  consider "e' = e" | "e' = e1" | "e' = accept_proposal cx p e1" "be_step e1 \<le> StepPropose"
    using run by (auto simp: HandleProposal_def e1_def [symmetric] Let_def not_less split: sum.splits if_splits)
  then show ?thesis
  proof cases
    case 2
    then show ?thesis using tame_stepI_eq [OF e1 tm(1)] by simp
  next
    case 3
    have "tame (core_of e1)" using tm(2) pos 3 by (simp add: tame_core_of)
    with 3 show ?thesis
      using tame_stepI_eq [OF e1 tm(1)] tame_stepI_eq [OF accept_proposal_refines [of e1 A R cx p]]
      by (auto intro: rtranclp_trans)
  qed simp
qed

lemma note_vote_core [simp]: "core_of (note_vote cx v e) = core_of e" "be_round (note_vote cx v e) = be_round e"
  "be_prevotes (note_vote cx v e) = be_prevotes e" "be_precommits (note_vote cx v e) = be_precommits e"
  by (simp_all add: note_vote_def Let_def)

lemma record_vote_refines:
  assumes run: "record_vote cx v e = Some e'" and A: "A v" and h: "v_Height v = be_height e"
    and known: "known_voter e (v_Voter v)" and tm: "tame (core_of e)"
  shows "(tame_step A R)\<^sup>*\<^sup>* (core_of e) (core_of e')"
proof (cases "v_Round v = be_round e")
  case r: True
  let ?k = "ToLower (v_Voter v)"
  consider "e' = e"
    | "v_Type v = VotePrevote" "map_of (be_prevotes e) ?k = None"
      "e' = tryFinalizePrevotesLocked cx (e\<lparr>be_prevotes := kv_set ?k v (be_prevotes e)\<rparr>)"
    | "v_Type v = VotePrecommit" "map_of (be_precommits e) ?k = None"
      "tryFinalizePrecommitsLocked cx (e\<lparr>be_precommits := kv_set ?k v (be_precommits e)\<rparr>) = Some e'"
    using run unfolding record_vote_def Let_def by (metis option.inject)
  then show ?thesis
  proof cases
    case 2
    let ?e = "e\<lparr>be_prevotes := kv_set ?k v (be_prevotes e)\<rparr>"
    have "core_step A R (core_of e) (core_of ?e)"
      using core_step.hear_prevote [of A v "core_of e" R] A h r known 2 by (simp add: known_core_of)
    moreover have "tame (core_of ?e)" using tm by (simp add: tame_def)
    ultimately show ?thesis
      using 2 tm tame_stepI_eq [OF tryFinalizePrevotes_refines] by (meson rtranclp_trans tame_stepI)
  next
    case 3
    let ?e = "e\<lparr>be_precommits := kv_set ?k v (be_precommits e)\<rparr>"
    have "core_step A R (core_of e) (core_of ?e)"
      using core_step.hear_precommit [of A v "core_of e" R] A h r known 3 by (simp add: known_core_of)
    moreover have "tame (core_of ?e)" using tm by (simp add: tame_def)
    ultimately show ?thesis
      using 3 tm tryFinalizePrecommits_refines by (meson rtranclp_trans tame_stepI)
  qed simp
next
  case False
  then have "e' = e" using run unfolding record_vote_def Let_def by (metis option.inject)
  then show ?thesis by simp
qed

text \<open>Recording a vote after the round was adopted from it leaves the position alone.\<close>

lemma record_vote_propose:
  "be_step e = StepPropose \<Longrightarrow> record_vote cx v e = Some e' \<Longrightarrow> be_round e' = be_round e \<and> be_height e' = be_height e"
  by (auto simp: record_vote_def tryFinalizePrevotesLocked_def tryFinalizePrecommitsLocked_def Let_def split: if_splits)

lemma note_vote_pos [simp]: "be_step (note_vote cx v e) = be_step e" "be_height (note_vote cx v e) = be_height e"
  "be_leader (note_vote cx v e) = be_leader e" "be_localAddr (note_vote cx v e) = be_localAddr e"
  by (simp_all add: note_vote_def Let_def)

lemma note_vote_known [simp]: "known_voter (note_vote cx v e) u = known_voter e u"
  by (simp add: known_voter_def split: option.split)

lemma HandleVote_refines:
  assumes run: "HandleVote cx (Some v) e = Some e'" and A: "VerifyVote (cx_geth cx) (Some v) = Inr () \<Longrightarrow> A v"
    and tm: "tame (core_of e)" "tame (core_of e')"
  shows "(tame_step A R)\<^sup>*\<^sup>* (core_of e) (core_of e')"
proof (cases "VerifyVote (cx_geth cx) (Some v)")
  case (Inl er)
  with run show ?thesis by (simp add: HandleVote_def)
next
  case (Inr u)
  obtain jr s1 where j: "IsJailed (be_store e) (cx_now cx) (v_Voter v) = (jr, s1)" by (metis surj_pair)
  define e0 where "e0 = e\<lparr>be_store := s1\<rparr>"
  define e1 where "e1 = (if v_Height v = be_height e0 \<and> v_Round v > be_round e0 then adopt_round (v_Round v) e0 else e0)"
  have c0: "core_of e0 = core_of e" by (simp add: e0_def)
  have e1: "(core_step A R)\<^sup>=\<^sup>= (core_of e) (core_of e1)"
    using adopt_refines [of e0 "v_Round v" A R] c0 by (auto simp: e1_def)
  consider "core_of e' = core_of e" | "e' = e1"
    | "v_Height v = be_height e1" "known_voter e1 (v_Voter v)" "record_vote cx v (note_vote cx v e1) = Some e'"
  proof -
    have "Some e' = (if (case jr of Inr (True, _) \<Rightarrow> True | _ \<Rightarrow> False) then Some e0
        else if v_Height v \<noteq> be_height e1 then Some e1
        else if \<not> known_voter e1 (v_Voter v) then Some e1 else record_vote cx v (note_vote cx v e1))"
      using run Inr by (simp add: HandleVote_def j Let_def e0_def e1_def cong: if_cong)
    then show ?thesis using that c0 by (metis option.inject)
  qed
  then show ?thesis
  proof cases
    case 2
    then show ?thesis using tame_stepI_eq [OF e1 tm(1)] by simp
  next
    case 3
    have "tame (core_of e1)"
    proof (cases "e1 = e0")
      case False
      then have "be_step (note_vote cx v e1) = StepPropose" by (auto simp: e1_def adopt_round_def)
      from record_vote_propose [OF this 3(3)] tm(2) show ?thesis by (simp add: tame_core_of)
    qed (use c0 tm in simp)
    moreover have "A v" using A Inr by simp
    ultimately show ?thesis
      using record_vote_refines [OF 3(3), of A R] 3 tame_stepI_eq [OF e1 tm(1)] by (auto intro: rtranclp_trans)
  qed simp
qed

lemma runPropose_enter_refines:
  assumes "runPropose_enter cx h e = (nx, e')"
  shows "(core_step A R)\<^sup>=\<^sup>= (core_of e) (core_of e')"
proof (cases "be_step e \<le> StepPropose")
  case True
  have "core_of e' = (core_of e)\<lparr>c_step := StepPropose, c_prevotes := [], c_precommits := []\<rparr> \<or> core_of e' = core_of e"
    using assms by (auto simp: runPropose_enter_def Let_def split: if_splits prod.splits option.splits)
  then show ?thesis using core_step.open_round [of "core_of e" A R] True by auto
next
  case False
  then have "be_step e \<noteq> StepNewHeight \<and> be_step e \<noteq> StepPropose" by (auto simp: less_eq_RoundStep_def)
  with assms show ?thesis by (simp add: runPropose_enter_def)
qed

lemma build_core: "buildAndBroadcastProposal cx h r e = (res, e') \<Longrightarrow> core_of e' = core_of e"
  by (auto simp: buildAndBroadcastProposal_def Let_def split: sum.splits if_splits prod.splits)

lemma soloSeal_core: "soloSeal cx e = (sealed, e') \<Longrightarrow> core_of e' = core_of e"
  by (auto simp: soloSeal_def Let_def split: sum.splits if_splits prod.splits)

section \<open>The engine implements the voting machine\<close>

lemma sys_step_refines:
  assumes st: "sys_step E A R s s'" and tm: "tame (core_of (sy_eng s))" "tame (core_of (sy_eng s'))"
  shows "(tame_step A R)\<^sup>*\<^sup>* (core_of (sy_eng s)) (core_of (sy_eng s'))"
  using st
proof (cases rule: sys_step.cases)
  case (propose_enter h r cx nx e')
  then show ?thesis using tame_stepI_eq [OF runPropose_enter_refines tm(1)] by simp
next
  case (solo cx sealed e')
  then show ?thesis using soloSeal_core by simp
next
  case solo_advance
  then show ?thesis using tame_stepI [OF core_step.advance tm(1)] by (simp add: core_advance_def)
next
  case (build h r cx res e')
  then show ?thesis using build_core by simp
next
  case (propose_end cx)
  then show ?thesis
    using tame_stepI [OF enterPrevote_refines tm(1)] by (simp add: runPropose_end_def)
next
  case (prevote_poll cx)
  then show ?thesis using tame_stepI_eq [OF tryFinalizePrevotes_refines tm(1)] by simp
next
  case (prevote_timeout cx)
  then show ?thesis using tame_stepI [OF nil_refines tm(1)] by (simp add: runPrevote_timeout_def)
next
  case (precommit_poll cx e')
  then show ?thesis using tryFinalizePrecommits_refines tm(1) by simp
next
  case precommit_timeout
  then show ?thesis
    using tame_stepI [OF core_step.next_round tm(1), of A R] by (simp add: runPrecommit_timeout_def core_of_next_round)
next
  case (proposal cx p e')
  then show ?thesis using HandleProposal_refines tm by simp
next
  case (vote cx v e')
  then show ?thesis using HandleVote_refines [of cx v "sy_eng s" e' A R] tm by simp
next
  case (woken e')
  then show ?thesis
    using tame_stepI [OF core_step.advance tm(1), of A R] by (auto simp: wake_def core_advance_def split: if_splits)
next
  case (others l st po nd)
  then show ?thesis using tame_stepI [OF core_step.reroster tm(1), of R "map_option ls_validators l" A] by simp
qed simp_all

text \<open>Runs of the engine in which the counters do not wrap.\<close>

inductive sys_run :: "Geth \<Rightarrow> (Vote \<Rightarrow> bool) \<Rightarrow> (string list option \<Rightarrow> bool) \<Rightarrow> Sys \<Rightarrow> Sys \<Rightarrow> bool" for E A R s0 where
  start: "tame (core_of (sy_eng s0)) \<Longrightarrow> sys_run E A R s0 s0"
| more: "sys_run E A R s0 s \<Longrightarrow> sys_step E A R s s' \<Longrightarrow> tame (core_of (sy_eng s')) \<Longrightarrow> sys_run E A R s0 s'"

text \<open>An engine as it enters its loop: created, wired and aligned to the tip of the chain.\<close>

definition started :: "Geth \<Rightarrow> Sys \<Rightarrow> bool" where
  "started E s \<longleftrightarrow> sy_pc s = AtTop \<and> (\<exists>env store leader cfg pool nd maxTxs.
     loop_align ((NewBFTEngine E env store leader cfg)\<lparr>be_pool := pool, be_p2p := nd, be_maxTxs := maxTxs\<rparr>) = Some (sy_eng s))"

lemma run_refines:
  assumes "sys_run E A R s0 s"
  shows "(tame_step A R)\<^sup>*\<^sup>* (core_of (sy_eng s0)) (core_of (sy_eng s)) \<and> tame (core_of (sy_eng s))"
  using assms by (induction rule: sys_run.induct) (auto dest: sys_step_refines intro: rtranclp_trans)

lemma started_core:
  assumes "started E s"
  shows "c_cast (core_of (sy_eng s)) = []" "c_prevotes (core_of (sy_eng s)) = []" "c_precommits (core_of (sy_eng s)) = []"
    "c_commits (core_of (sy_eng s)) = []" "c_lockedRound (core_of (sy_eng s)) = -1" "c_round (core_of (sy_eng s)) = 0"
    "ToLower (be_localAddr (sy_eng s)) = be_localAddr (sy_eng s)"
proof -
  obtain env store leader cfg pool nd maxTxs where
    al: "loop_align ((NewBFTEngine E env store leader cfg)\<lparr>be_pool := pool, be_p2p := nd, be_maxTxs := maxTxs\<rparr>) = Some (sy_eng s)"
    using assms by (auto simp: started_def)
  define e where "e = (NewBFTEngine E env store leader cfg)\<lparr>be_pool := pool, be_p2p := nd, be_maxTxs := maxTxs\<rparr>"
  have e: "be_cast e = []" "be_prevotes e = []" "be_precommits e = []" "be_commits e = []" "be_lockedRound e = -1"
    "ToLower (be_localAddr e) = be_localAddr e"
    by (simp_all add: e_def NewBFTEngine_def Let_def)
  obtain latest where "e\<lparr>be_height := latest + 1, be_round := 0, be_step := StepNewHeight\<rparr> = sy_eng s"
    using al by (auto simp: loop_align_def e_def [symmetric] split: sum.splits)
  note eq = this [symmetric]
  show "c_cast (core_of (sy_eng s)) = []" "c_prevotes (core_of (sy_eng s)) = []" "c_precommits (core_of (sy_eng s)) = []"
    "c_commits (core_of (sy_eng s)) = []" "c_lockedRound (core_of (sy_eng s)) = -1" "c_round (core_of (sy_eng s)) = 0"
    "ToLower (be_localAddr (sy_eng s)) = be_localAddr (sy_eng s)"
    using e by (simp_all add: eq)
qed

lemma started_inv:
  assumes "started E s"
  shows "cast_inv (core_of (sy_eng s))" "votes_inv (core_of (sy_eng s))" "lock_inv J (core_of (sy_eng s))" "heard A (core_of (sy_eng s))"
  using started_core [OF assms]
  by (simp_all add: cast_inv_def votes_inv_def lock_inv_def lock_range_def precommitted_def prevoted_def heard_def)

text \<open>
  C5: the engine implements the voting machine. Whatever a critical section of the loop or of a handler
  does, with every timing and interleaving, is a sequence of steps of the abstract machine on the
  part of the state that matters for agreement.
\<close>

theorem engine_refines:
  assumes "sys_step E A R s s'" "tame (core_of (sy_eng s))" "tame (core_of (sy_eng s'))"
  shows "(tame_step A R)\<^sup>*\<^sup>* (core_of (sy_eng s)) (core_of (sy_eng s'))"
  by (rule sys_step_refines [OF assms])

text \<open>
  C4: no double voting. However proposals, votes, timeouts, wake-ups and roster changes interleave, an
  engine never signs two different votes of one kind for the same height and round, as long as its
  counters do not wrap around.
\<close>

theorem no_double_vote:
  assumes "started E s0" "sys_run E A R s0 s" "v \<in> set (be_cast (sy_eng s))" "w \<in> set (be_cast (sy_eng s))"
    and "v_Type v = v_Type w" "v_Height v = v_Height w" "v_Round v = v_Round w"
  shows "v = w"
proof -
  have "cast_inv (core_of (sy_eng s))"
    using tame_steps_inv [OF conjunct1 [OF run_refines [OF assms(2)]]] started_inv [OF assms(1)] by blast
  then show ?thesis using cast_unique assms by (metis core_of_simps(10))
qed


end
