(* ===== verification/Agreement.thy ===== *)
theory Agreement
  imports BftLoop
begin

text \<open>
  A network of consensus engines and the agreement theorem. Honest validators run the engine of
  \<open>BftLoop\<close> on a common roster; the others may send anything. The interface between the engine and the
  argument is the locale \<open>voting_system\<close>: a quorum rule, at most one vote per round and kind, precommits
  justified by a quorum of prevotes, and prevotes that respect the lock. Agreement is proved in the
  locale; the network of engines is its interpretation.
\<close>

section \<open>Agreement from quorums and locks\<close>

locale voting_system = quorum_rule q bound for q :: "nat \<Rightarrow> nat" and bound :: nat +
  fixes ok :: "'w \<Rightarrow> bool" and vals :: "'w \<Rightarrow> 'a set" and faulty :: "'w \<Rightarrow> 'a set"
    and prevote :: "'w \<Rightarrow> 'a \<Rightarrow> int \<Rightarrow> 'h \<Rightarrow> bool" and precommit :: "'w \<Rightarrow> 'a \<Rightarrow> int \<Rightarrow> 'h \<Rightarrow> bool"
    and real :: "'h \<Rightarrow> bool"
  assumes few_faulty: "ok w \<Longrightarrow> finite (vals w) \<and> card (vals w) < bound \<and> faulty w \<subseteq> vals w \<and> 3 * card (faulty w) < card (vals w)"
    and one_prevote: "ok w \<Longrightarrow> a \<in> vals w - faulty w \<Longrightarrow> prevote w a r x \<Longrightarrow> prevote w a r y \<Longrightarrow> real x \<Longrightarrow> real y \<Longrightarrow> x = y"
    and one_precommit: "ok w \<Longrightarrow> a \<in> vals w - faulty w \<Longrightarrow> precommit w a r x \<Longrightarrow> precommit w a r y \<Longrightarrow> real x \<Longrightarrow> real y \<Longrightarrow> x = y"
    and justified: "ok w \<Longrightarrow> a \<in> vals w - faulty w \<Longrightarrow> precommit w a r x \<Longrightarrow> real x \<Longrightarrow>
      q (card (vals w)) \<le> card {b \<in> vals w. prevote w b r x}"
    and lock_kept: "ok w \<Longrightarrow> a \<in> vals w - faulty w \<Longrightarrow> precommit w a r x \<Longrightarrow> prevote w a r' y \<Longrightarrow> r < r' \<Longrightarrow>
      real x \<Longrightarrow> real y \<Longrightarrow> x \<noteq> y \<Longrightarrow> \<exists>r''. r < r'' \<and> r'' < r' \<and> q (card (vals w)) \<le> card {b \<in> vals w. prevote w b r'' y}"
begin

definition polka :: "'w \<Rightarrow> int \<Rightarrow> 'h \<Rightarrow> bool" where
  "polka w r x \<longleftrightarrow> q (card (vals w)) \<le> card {b \<in> vals w. prevote w b r x}"

definition decided :: "'w \<Rightarrow> int \<Rightarrow> 'h \<Rightarrow> bool" where
  "decided w r x \<longleftrightarrow> q (card (vals w)) \<le> card {b \<in> vals w. precommit w b r x}"

lemma meet:
  assumes "ok w" "q (card (vals w)) \<le> card {b \<in> vals w. P b}" "q (card (vals w)) \<le> card {b \<in> vals w. Q b}"
  shows "\<exists>a \<in> vals w - faulty w. P a \<and> Q a"
  using honest_member [of "vals w" "{b \<in> vals w. P b}" "{b \<in> vals w. Q b}" "faulty w"] few_faulty [OF assms(1)] assms(2,3)
  by auto

lemma decided_polka:
  assumes "ok w" "decided w r x" "real x"
  shows "polka w r x"
  using meet [OF assms(1), of "\<lambda>b. precommit w b r x" "\<lambda>b. precommit w b r x"] justified assms
  by (auto simp: decided_def polka_def)

text \<open>Once a block is decided in a round, no other block gets a quorum of prevotes in a later one.\<close>

lemma no_later_polka:
  assumes w: "ok w" and d: "decided w r x" and real: "real x" "real y" and ne: "x \<noteq> y"
  shows "r < r' \<Longrightarrow> \<not> polka w r' y"
proof (induction "nat (r' - r)" arbitrary: r' rule: less_induct)
  case less
  show ?case
  proof
    assume "polka w r' y"
    with d obtain a where a: "a \<in> vals w - faulty w" "precommit w a r x" "prevote w a r' y"
      using meet [OF w, of "\<lambda>b. precommit w b r x" "\<lambda>b. prevote w b r' y"] by (auto simp: decided_def polka_def)
    from lock_kept [OF w a less.prems real ne] obtain r'' where "r < r''" "r'' < r'" "polka w r'' y"
      by (auto simp: polka_def)
    with less.hyps [of r''] show False by auto
  qed
qed

lemma decided_le:
  assumes w: "ok w" and d: "decided w r x" "decided w r' y" and real: "real x" "real y" and le: "r \<le> r'"
  shows "x = y"
proof (cases "r = r'")
  case True
  with d obtain a where "a \<in> vals w - faulty w" "precommit w a r x" "precommit w a r y"
    using meet [OF w, of "\<lambda>b. precommit w b r x" "\<lambda>b. precommit w b r y"] by (auto simp: decided_def)
  then show ?thesis using one_precommit [OF w] real by blast
next
  case False
  with no_later_polka [OF w d(1) real] decided_polka [OF w d(2) real(2)] le show ?thesis by fastforce
qed

lemma agreement:
  assumes "ok w" "decided w r x" "decided w r' y" "real x" "real y"
  shows "x = y"
  using decided_le [of w r x r' y] decided_le [of w r' y r x] assms by (cases "r \<le> r'") auto

end

section \<open>The network\<close>

record Net =
  nt_roster :: "string list"
  nt_honest :: "string set"
  nt_sys :: "string \<Rightarrow> Sys"

definition vote_text :: "Vote \<Rightarrow> string" where
  "vote_text v = BuildVoteMessage (v_Type v) (v_Height v) (v_Round v) (v_BlockHash v)"

text \<open>
  Signatures cannot be forged: a vote that verifies against the address of an honest validator carries
  a text that validator has signed. (The text writes the empty hash as \<open>NIL\<close>, so the hash is determined
  only up to that.)
\<close>

definition authentic :: "string set \<Rightarrow> (string \<Rightarrow> Vote list) \<Rightarrow> Vote \<Rightarrow> bool" where
  "authentic H votes v \<longleftrightarrow> (ToLower (v_Voter v) \<in> H \<longrightarrow> vote_text v \<in> vote_text ` set (votes (ToLower (v_Voter v))))"

definition cast_by :: "Net \<Rightarrow> string \<Rightarrow> Vote list" where
  "cast_by N i = be_cast (sy_eng (nt_sys N i))"

definition net_init :: "Geth \<Rightarrow> Net \<Rightarrow> bool" where
  "net_init E N \<longleftrightarrow> distinct (nt_roster N) \<and> (\<forall>a \<in> set (nt_roster N). ToLower a = a) \<and> length (nt_roster N) < 2 ^ 62
     \<and> nt_honest N \<subseteq> set (nt_roster N) \<and> 3 * card (set (nt_roster N) - nt_honest N) < length (nt_roster N)
     \<and> (\<forall>i \<in> nt_honest N. let s = nt_sys N i in started E s \<and> be_localAddr (sy_eng s) = i
          \<and> map_option ls_validators (be_leader (sy_eng s)) = Some (nt_roster N) \<and> tame (core_of (sy_eng s)))"

inductive reach :: "Geth \<Rightarrow> Net \<Rightarrow> bool" for E where
  init: "net_init E N \<Longrightarrow> reach E N"
| step: "reach E N \<Longrightarrow> i \<in> nt_honest N \<Longrightarrow>
     sys_step E (authentic (nt_honest N) (cast_by N)) (\<lambda>vs. vs = Some (nt_roster N)) (nt_sys N i) s' \<Longrightarrow>
     tame (core_of (sy_eng s')) \<Longrightarrow> reach E (N\<lparr>nt_sys := (nt_sys N)(i := s')\<rparr>)"

section \<open>What recorded votes prove\<close>

definition same_hash :: "string \<Rightarrow> string \<Rightarrow> bool" where
  "same_hash x y \<longleftrightarrow> x = y \<or> {x, y} = {[], ''NIL''}"

definition real_hash :: "string \<Rightarrow> bool" where
  "real_hash x \<longleftrightarrow> x \<noteq> [] \<and> x \<noteq> ''NIL''"

definition claimed :: "string set \<Rightarrow> (string \<Rightarrow> Vote list) \<Rightarrow> VoteType \<Rightarrow> uint64 \<Rightarrow> string \<Rightarrow> int \<Rightarrow> string \<Rightarrow> bool" where
  "claimed H votes ty h k r x \<longleftrightarrow> k \<in> H \<longrightarrow> (\<exists>v \<in> set (votes k). v_Type v = ty \<and> v_Height v = h \<and> v_Round v = r \<and> same_hash (v_BlockHash v) x)"

definition backed :: "string set \<Rightarrow> string list \<Rightarrow> (string \<Rightarrow> Vote list) \<Rightarrow> VoteType \<Rightarrow> uint64 \<Rightarrow> int \<Rightarrow> string \<Rightarrow> bool" where
  "backed H V votes ty h r x \<longleftrightarrow> quorum_nat (card (set V)) \<le> card {k \<in> set V. claimed H votes ty h k r x}"

definition wider :: "(string \<Rightarrow> Vote list) \<Rightarrow> (string \<Rightarrow> Vote list) \<Rightarrow> bool" where
  "wider f g \<longleftrightarrow> (\<forall>k. set (f k) \<subseteq> set (g k))"

lemma authentic_mono: "wider f g \<Longrightarrow> authentic H f v \<Longrightarrow> authentic H g v"
  unfolding authentic_def wider_def by blast

lemma claimed_mono: "wider f g \<Longrightarrow> claimed H f ty h k r x \<Longrightarrow> claimed H g ty h k r x"
  unfolding claimed_def wider_def by blast

lemma backed_mono:
  assumes "wider f g" "backed H V f ty h r x"
  shows "backed H V g ty h r x"
proof -
  have "card {k \<in> set V. claimed H f ty h k r x} \<le> card {k \<in> set V. claimed H g ty h k r x}"
    using claimed_mono [OF assms(1)] by (intro card_mono) auto
  then show ?thesis using assms(2) unfolding backed_def by simp
qed

lemma real_same: "real_hash x \<Longrightarrow> same_hash y x \<longleftrightarrow> y = x"
  unfolding same_hash_def real_hash_def by (auto simp: doubleton_eq_iff)

text \<open>The votes of honest validators are prevotes and precommits.\<close>

definition typed :: "string set \<Rightarrow> (string \<Rightarrow> Vote list) \<Rightarrow> bool" where
  "typed H votes \<longleftrightarrow> (\<forall>k \<in> H. \<forall>v \<in> set (votes k). v_Type v \<in> {VotePrevote, VotePrecommit})"

lemma authentic_claimed:
  assumes "typed H votes" "authentic H votes v" "v_Type v \<in> {VotePrevote, VotePrecommit}"
  shows "claimed H votes (v_Type v) (v_Height v) (ToLower (v_Voter v)) (v_Round v) (v_BlockHash v)"
  unfolding claimed_def
proof
  assume k: "ToLower (v_Voter v) \<in> H"
  with assms(2) obtain u where u: "u \<in> set (votes (ToLower (v_Voter v)))" "vote_text v = vote_text u"
    by (auto simp: authentic_def)
  with assms(1) k have "v_Type u \<in> {VotePrevote, VotePrecommit}" unfolding typed_def by blast
  from vote_message_inj [OF u(2) [symmetric, unfolded vote_text_def] this assms(3)] u(1)
  show "\<exists>w \<in> set (votes (ToLower (v_Voter v))). v_Type w = v_Type v \<and> v_Height w = v_Height v \<and> v_Round w = v_Round v
      \<and> same_hash (v_BlockHash w) (v_BlockHash v)"
    unfolding same_hash_def by blast
qed

text \<open>What an honest validator's state satisfies, given the votes cast so far in the network.\<close>

definition node_inv :: "string set \<Rightarrow> string list \<Rightarrow> (string \<Rightarrow> Vote list) \<Rightarrow> string \<Rightarrow> Core \<Rightarrow> bool" where
  "node_inv H V votes i c \<longleftrightarrow> cast_inv c \<and> votes_inv c \<and> c_roster c = Some V \<and> c_local c = i
     \<and> heard (authentic H votes) c \<and> lock_inv (backed H V votes VotePrevote) c
     \<and> (\<forall>cc \<in> set (c_commits c). backed H V votes VotePrecommit (cc_Height cc) (cc_Round cc) (cc_BlockHash cc))"

lemma node_inv_mono:
  assumes "wider f g" "node_inv H V f i c"
  shows "node_inv H V g i c"
proof -
  have "heard (authentic H g) c"
    using assms authentic_mono [OF assms(1)] unfolding node_inv_def heard_def by fast
  moreover have "lock_inv (backed H V g VotePrevote) c"
    using assms(2) lock_inv_mono backed_mono [OF assms(1)] unfolding node_inv_def by metis
  ultimately show ?thesis using assms(2) backed_mono [OF assms(1)] unfolding node_inv_def by blast
qed

definition net_params :: "string set \<Rightarrow> string list \<Rightarrow> bool" where
  "net_params H V \<longleftrightarrow> distinct V \<and> (\<forall>a \<in> set V. ToLower a = a) \<and> length V < 2 ^ 62 \<and> H \<subseteq> set V
     \<and> 3 * card (set V - H) < length V"

text \<open>A book that reaches the quorum for a hash is backed by claims.\<close>

lemma book_backed:
  assumes P: "net_params H V" and ty: "typed H votes" and inv: "node_inv H V votes i c" and i: "i \<in> H"
    and own: "set (c_cast c) \<subseteq> set (votes i)" and b: "book_ok t (c_height c) (c_round c) b"
    and sub: "set b \<subseteq> set (c_prevotes c) \<union> set (c_precommits c)" and t: "t \<in> {VotePrevote, VotePrecommit}"
    and q: "c_quorum c \<le> count_for hash b"
  shows "backed H V votes t (c_height c) (c_round c) hash"
proof -
  let ?S = "fst ` set (filter (\<lambda>(_, v). v_BlockHash v = hash) b)"
  have V: "V \<noteq> []" "card (set V) = length V" "0 < length V" using P by (auto simp: net_params_def distinct_card)
  have loc: "c_local c = i" "c_roster c = Some V" "ToLower i = i" "i \<in> set V"
    using inv i P by (auto simp: node_inv_def net_params_def)
  have "?S \<subseteq> {k \<in> set V. claimed H votes t (c_height c) k (c_round c) hash}"
  proof
    fix k assume "k \<in> ?S"
    then obtain v where v: "(k, v) \<in> set b" "v_BlockHash v = hash" by auto
    with b have kv: "k = ToLower (v_Voter v)" "v_Type v = t" "v_Height v = c_height c" "v_Round v = c_round c"
      by (auto simp: book_ok_def)
    have "authentic H votes v \<and> c_known c (v_Voter v) \<or> v \<in> set (c_cast c)"
      using inv v(1) sub unfolding node_inv_def heard_def by fast
    then show "k \<in> {k \<in> set V. claimed H votes t (c_height c) k (c_round c) hash}"
    proof
      assume a: "authentic H votes v \<and> c_known c (v_Voter v)"
      then have "k \<in> set V" using loc V P kv by (auto simp: c_known_def list_ex_iff EqualFold_def net_params_def)
      with authentic_claimed [OF ty conjunct1 [OF a]] kv v t show ?thesis by simp
    next
      assume o: "v \<in> set (c_cast c)"
      then have "v_Voter v = i" using inv loc by (auto simp: node_inv_def cast_inv_def)
      with o own kv v loc show ?thesis by (auto simp: claimed_def same_hash_def)
    qed
  qed
  then have "card ?S \<le> card {k \<in> set V. claimed H votes t (c_height c) k (c_round c) hash}" by (intro card_mono) auto
  moreover have "int (card ?S) = count_for hash b"
  proof -
    have "distinct (map fst (filter (\<lambda>(_, v). v_BlockHash v = hash) b))"
      using b by (simp add: book_ok_def kv_sorted_distinct distinct_map_filter)
    then show ?thesis unfolding count_for_def by (metis distinct_card length_map set_map)
  qed
  moreover have "c_quorum c = QuorumSize (int (card (set V)))" using loc V by (simp add: c_quorum_def)
  ultimately show ?thesis using q unfolding backed_def quorum_nat_def by linarith
qed

lemma core_step_mono: "core_step A R c c' \<Longrightarrow> (\<And>v. A v \<Longrightarrow> B v) \<Longrightarrow> core_step B R c c'"
  by (erule core_step.cases; simp only:; rule core_step.intros; simp)

lemma node_inv_step:
  assumes P: "net_params H V" and ty: "typed H votes" and inv: "node_inv H V votes i c" and i: "i \<in> H" and tm: "tame c"
    and own: "set (c_cast c') \<subseteq> set (votes i)" and st: "core_step (authentic H votes) (\<lambda>vs. vs = Some V) c c'"
  shows "node_inv H V votes i c'"
proof -
  note iv = inv [unfolded node_inv_def]
  have own': "set (c_cast c) \<subseteq> set (votes i)" using own core_step_cast [OF st] by (auto dest: set_mono_prefix)
  have b: "book_ok VotePrevote (c_height c) (c_round c) (c_prevotes c)"
    "book_ok VotePrecommit (c_height c) (c_round c) (c_precommits c)" using iv by (auto simp: votes_inv_def)
  have pv: "backed H V votes VotePrevote (c_height c) (c_round c) hash" if "c_quorum c \<le> count_for hash (c_prevotes c)" for hash
    using book_backed [OF P ty inv i own' b(1)] that by simp
  have pc: "backed H V votes VotePrecommit (c_height c) (c_round c) hash" if "c_quorum c \<le> count_for hash (c_precommits c)" for hash
    using book_backed [OF P ty inv i own' b(2)] that by simp
  have "cast_inv c'" "votes_inv c'" using iv cast_inv_step [OF st _ tm] votes_inv_step [OF st] by auto
  moreover have "lock_inv (backed H V votes VotePrevote) c'" using iv lock_inv_step [OF st _ _ tm] pv by blast
  moreover have "heard (authentic H votes) c'" using iv heard_step [OF st] by simp
  moreover have "c_roster c' = Some V" "c_local c' = i" using iv core_step_roster [OF st] core_step_cast [OF st] by auto
  moreover have "\<forall>cc \<in> set (c_commits c'). backed H V votes VotePrecommit (cc_Height cc) (cc_Round cc) (cc_BlockHash cc)"
    using commits_step [OF st] iv pc by auto
  ultimately show ?thesis by (simp add: node_inv_def)
qed

lemma node_inv_run:
  assumes P: "net_params H V" and ty: "typed H votes" and i: "i \<in> H"
    and run: "(tame_step (authentic H votes) (\<lambda>vs. vs = Some V))\<^sup>*\<^sup>* c c'" and inv: "node_inv H V votes i c"
  shows "set (c_cast c') \<subseteq> set (votes i) \<Longrightarrow> node_inv H V votes i c'"
  using run inv
proof (induction rule: rtranclp_induct)
  case (step d d')
  have "set (c_cast d) \<subseteq> set (c_cast d')"
    using step.hyps(2) core_step_cast [of _ _ d d'] by (auto simp: tame_step_def dest: set_mono_prefix)
  with step show ?case using node_inv_step [OF P ty _ i, of d d'] by (auto simp: tame_step_def)
qed simp

lemma tame_steps_mono:
  assumes "(tame_step A R)\<^sup>*\<^sup>* c c'" "\<And>v. A v \<Longrightarrow> B v"
  shows "(tame_step B R)\<^sup>*\<^sup>* c c'"
  using assms(1) by (rule rtranclp_mono [THEN predicate2D, rotated]) (auto simp: tame_step_def core_step_mono [OF _ assms(2)])

section \<open>The invariant of the network\<close>

definition net_inv :: "Net \<Rightarrow> bool" where
  "net_inv N \<longleftrightarrow> net_params (nt_honest N) (nt_roster N) \<and> typed (nt_honest N) (cast_by N)
     \<and> (\<forall>i \<in> nt_honest N. node_inv (nt_honest N) (nt_roster N) (cast_by N) i (core_of (sy_eng (nt_sys N i)))
          \<and> tame (core_of (sy_eng (nt_sys N i))))"

lemma net_inv_init:
  assumes "net_init E N"
  shows "net_inv N"
proof -
  have node: "started E (nt_sys N i)" "be_localAddr (sy_eng (nt_sys N i)) = i" "tame (core_of (sy_eng (nt_sys N i)))"
    "map_option ls_validators (be_leader (sy_eng (nt_sys N i))) = Some (nt_roster N)" if "i \<in> nt_honest N" for i
    using assms that by (auto simp: net_init_def Let_def)
  have "cast_by N i = []" if "i \<in> nt_honest N" for i
    using started_core(1) [OF node(1) [OF that]] by (simp add: cast_by_def)
  moreover have "node_inv (nt_honest N) (nt_roster N) (cast_by N) i (core_of (sy_eng (nt_sys N i)))" if "i \<in> nt_honest N" for i
    using node [OF that] started_inv [OF node(1) [OF that]] started_core [OF node(1) [OF that]] by (simp add: node_inv_def)
  ultimately show ?thesis using assms node by (simp add: net_inv_def net_init_def net_params_def typed_def)
qed

lemma net_inv_step:
  assumes inv: "net_inv N" and i: "i \<in> nt_honest N" and tm': "tame (core_of (sy_eng s'))"
    and st: "sys_step E (authentic (nt_honest N) (cast_by N)) (\<lambda>vs. vs = Some (nt_roster N)) (nt_sys N i) s'"
  shows "net_inv (N\<lparr>nt_sys := (nt_sys N)(i := s')\<rparr>)"
proof -
  let ?N = "N\<lparr>nt_sys := (nt_sys N)(i := s')\<rparr>" and ?c = "core_of (sy_eng (nt_sys N i))" and ?c' = "core_of (sy_eng s')"
  let ?H = "nt_honest N" and ?V = "nt_roster N"
  have P: "net_params ?H ?V" and ty: "typed ?H (cast_by N)" and tm: "tame ?c" using inv i by (auto simp: net_inv_def)
  have node: "node_inv ?H ?V (cast_by N) j (core_of (sy_eng (nt_sys N j)))" if "j \<in> ?H" for j using inv that by (auto simp: net_inv_def)
  have run: "(tame_step (authentic ?H (cast_by N)) (\<lambda>vs. vs = Some ?V))\<^sup>*\<^sup>* ?c ?c'" by (rule sys_step_refines [OF st tm tm'])
  have cast: "cast_by ?N = (cast_by N)(i := c_cast ?c')" by (auto simp: cast_by_def)
  have grow: "set (c_cast ?c) \<subseteq> set (c_cast ?c')"
    using run by (induction rule: rtranclp_induct) (auto simp: tame_step_def dest!: core_step_cast dest: set_mono_prefix)
  then have wd: "wider (cast_by N) (cast_by ?N)" unfolding wider_def cast by (auto simp: cast_by_def)
  have inv': "cast_inv ?c'" using tame_steps_inv [OF run] node [OF i] by (auto simp: node_inv_def)
  have ty': "typed ?H (cast_by ?N)" using ty inv' unfolding typed_def cast cast_inv_def by auto
  have "(tame_step (authentic ?H (cast_by ?N)) (\<lambda>vs. vs = Some ?V))\<^sup>*\<^sup>* ?c ?c'"
    using run by (rule tame_steps_mono) (rule authentic_mono [OF wd])
  from node_inv_run [OF P ty' i this node_inv_mono [OF wd node [OF i]]]
  have "node_inv ?H ?V (cast_by ?N) i ?c'" by (simp add: cast)
  moreover have "node_inv ?H ?V (cast_by ?N) j (core_of (sy_eng (nt_sys N j)))" if "j \<in> ?H" for j
    by (rule node_inv_mono [OF wd node [OF that]])
  ultimately show ?thesis using P ty' inv tm' by (auto simp: net_inv_def)
qed

lemma reach_inv: "reach E N \<Longrightarrow> net_inv N"
  by (induction rule: reach.induct) (auto intro: net_inv_init net_inv_step)

section \<open>Agreement of the engines\<close>

text \<open>
  A world of the interface is a network state and a height. An honest validator's claims to a real hash
  are its own votes.
\<close>

lemma claimed_honest:
  assumes "net_inv N" "k \<in> nt_honest N" "real_hash x"
  shows "claimed (nt_honest N) (cast_by N) VotePrevote h k r x = prevoted (core_of (sy_eng (nt_sys N k))) h r x"
    and "claimed (nt_honest N) (cast_by N) VotePrecommit h k r x = precommitted (core_of (sy_eng (nt_sys N k))) h r x"
  using assms(2) real_same [OF assms(3)] by (auto simp: claimed_def prevoted_def precommitted_def cast_by_def)

lemma one_vote:
  assumes "net_inv N" "k \<in> nt_honest N" "real_hash x" "real_hash y" "t \<in> {VotePrevote, VotePrecommit}"
    and "claimed (nt_honest N) (cast_by N) t h k r x" "claimed (nt_honest N) (cast_by N) t h k r y"
  shows "x = y"
proof -
  have "cast_inv (core_of (sy_eng (nt_sys N k)))" using assms(1,2) by (auto simp: net_inv_def node_inv_def)
  note u = cast_unique [OF this]
  obtain v w where "v \<in> set (cast_by N k)" "v_Type v = t" "v_Height v = h" "v_Round v = r" "v_BlockHash v = x"
    "w \<in> set (cast_by N k)" "v_Type w = t" "v_Height w = h" "v_Round w = r" "v_BlockHash w = y"
    using assms(2,6,7) real_same [OF assms(3)] real_same [OF assms(4)] by (auto simp: claimed_def)
  then show ?thesis using u [of v w] by (simp add: cast_by_def)
qed

interpretation net: voting_system quorum_nat "2 ^ 62" "\<lambda>(N, h). net_inv N" "\<lambda>(N, h). set (nt_roster N)"
    "\<lambda>(N, h). set (nt_roster N) - nt_honest N"
    "\<lambda>(N, h) k r x. claimed (nt_honest N) (cast_by N) VotePrevote h k r x"
    "\<lambda>(N, h) k r x. claimed (nt_honest N) (cast_by N) VotePrecommit h k r x" real_hash
proof (unfold_locales, goal_cases)
  case (1 w)
  then show ?case by (auto simp: net_inv_def net_params_def distinct_card split: prod.splits)
next
  case (2 w a r x y)
  then show ?case using one_vote [of "fst w" a x y VotePrevote "snd w" r] by (auto split: prod.splits)
next
  case (3 w a r x y)
  then show ?case using one_vote [of "fst w" a x y VotePrecommit "snd w" r] by (auto split: prod.splits)
next
  case (4 w a r x)
  then obtain N h where w: "w = (N, h)" "net_inv N" "a \<in> nt_honest N" by auto
  then have "lock_inv (backed (nt_honest N) (nt_roster N) (cast_by N) VotePrevote) (core_of (sy_eng (nt_sys N a)))"
    by (auto simp: net_inv_def node_inv_def)
  with 4 w claimed_honest(2) [OF w(2,3)] show ?case by (auto simp: lock_inv_def backed_def real_hash_def)
next
  case (5 w a r x r' y)
  then obtain N h where w: "w = (N, h)" "net_inv N" "a \<in> nt_honest N" by auto
  then have "lock_inv (backed (nt_honest N) (nt_roster N) (cast_by N) VotePrevote) (core_of (sy_eng (nt_sys N a)))"
    by (auto simp: net_inv_def node_inv_def)
  with 5 w claimed_honest [OF w(2,3)] show ?case unfolding lock_inv_def by (auto simp: backed_def real_hash_def)
qed

text \<open>
  C3: agreement. Take any number of engines on a common roster in which fewer than a third of the
  validators are faulty, let the faulty ones send anything their own keys can sign, and let messages,
  timeouts and wake-ups interleave in any way: two honest engines never commit different blocks at the
  same height. (Counters do not wrap around, and the hash is one a block can have.)
\<close>

theorem bft_agreement:
  assumes "reach E N" "i \<in> nt_honest N" "j \<in> nt_honest N"
    and "cc \<in> set (be_commits (sy_eng (nt_sys N i)))" "cc' \<in> set (be_commits (sy_eng (nt_sys N j)))"
    and "cc_Height cc = cc_Height cc'" "real_hash (cc_BlockHash cc)" "real_hash (cc_BlockHash cc')"
  shows "cc_BlockHash cc = cc_BlockHash cc'"
proof -
  have inv: "net_inv N" by (rule reach_inv [OF assms(1)])
  have dec: "net.decided (N, cc_Height cc) (cc_Round c) (cc_BlockHash c)"
    if "c \<in> set (be_commits (sy_eng (nt_sys N k)))" "k \<in> nt_honest N" "cc_Height c = cc_Height cc" for c k
  proof -
    have "backed (nt_honest N) (nt_roster N) (cast_by N) VotePrecommit (cc_Height c) (cc_Round c) (cc_BlockHash c)"
      using inv that(1,2) by (auto simp: net_inv_def node_inv_def)
    then show ?thesis by (simp add: net.decided_def backed_def that(3) [symmetric])
  qed
  show ?thesis
    by (rule net.agreement [OF _ dec [OF assms(4,2) refl] dec [OF assms(5,3) assms(6) [symmetric]] assms(7,8)]) (simp add: inv)
qed

end
