(* ===== verification/BftDemo.thy ===== *)
theory BftDemo
  imports Agreement
begin

text \<open>
  Two validators run the engine from start to commit: a concrete run of the network that the theorems on
  the engine are applied to. Signatures come from a stand-in for go-ethereum in which a signature
  begins with the first byte of the key and the address is that byte after \<open>0x\<close>. The proposed block
  hash is left as \<^verbatim>\<open>RecomputeBlockHash\<close> computes it.
\<close>

definition keyed_geth :: Geth where
  "keyed_geth =
     \<lparr>hexutil_Decode = Inr, hexutil_Encode = (\<lambda>b. b), Keccak256 = (\<lambda>s. s),
      SigToPub = (\<lambda>h s. Inr [hd s]), PubkeyToAddressHex = (\<lambda>p. ''0x'' @ p),
      HexToECDSA = Inr, PublicKey = (\<lambda>k. [hd (k @ [CHR 0x00])]),
      Sign = (\<lambda>h k. Inr (hd (k @ [CHR 0x00]) # replicate 64 (CHR 0x00))), IsHexAddress = (\<lambda>a. True)\<rparr>"

lemma keyed_geth_laws: "geth_laws keyed_geth"
  by (simp add: geth_laws_def keyed_geth_def)

definition sig_of :: "char \<Rightarrow> string" where
  "sig_of k = (k # replicate 64 (CHR 0x00))[64 := CHR 0x1B]"

lemma keyed_sign [simp]: "SignEIP191 keyed_geth m [k] = Inr (sig_of k)"
  by (simp add: SignEIP191_def keyed_geth_def sig_of_def TrimPrefix_def char_of_def bit_iff_odd)

lemma sig_of_simps [simp]: "length (sig_of k) = 65" "sig_of k ! 64 = CHR 0x1B" "sig_of k \<noteq> []" "hd ((sig_of k)[64 := c]) = k"
  by (simp_all add: sig_of_def hd_conv_nth)

lemma keyed_verify [simp]: "VerifyEIP191 keyed_geth m (sig_of k) a = Inr (EqualFold (''0x'' @ [k]) a)"
  by (simp add: VerifyEIP191_def RecoverAddress_def keyed_geth_def Let_def)

section \<open>The two nodes\<close>

abbreviation alice :: string where "alice \<equiv> ''0xa''"
abbreviation bob :: string where "bob \<equiv> ''0xb''"

definition addr :: "char \<Rightarrow> string" where
  "addr k = ''0x'' @ [k]"

definition demo_engine :: "char \<Rightarrow> BFTEngine" where
  "demo_engine k = (NewBFTEngine keyed_geth
       \<lparr>env_MINING_ORACLE_ADDRESS = [], env_CHAIN_SIGNING_ADDRESS = addr k, env_CHAIN_SIGNING_PRIVATE_KEY = [k]\<rparr> demo_store
       (Some \<lparr>ls_validators = [alice, bob], ls_localAddr = addr k, ls_store = False\<rparr>) DefaultBFTConfig)\<lparr>be_height := 1\<rparr>"

definition demo_ctx :: Ctx where
  "demo_ctx = \<lparr>cx_geth = keyed_geth, cx_oracle = [], cx_now = 7, cx_order = id, cx_seen = id\<rparr>"

definition demo_hash :: string where
  "demo_hash = RecomputeBlockHash 1 ''GENESIS'' (RecomputeMerkleRoot []) 7 bob"

definition demo_prop :: Proposal where
  "demo_prop = \<lparr>p_Height = 1, p_Round = 0, p_BlockHash = demo_hash, p_PrevHash = ''GENESIS'', p_MerkleRoot = RecomputeMerkleRoot [],
     p_Timestamp = 7, p_Proposer = bob, p_TxHashes = [], p_Txs = [], p_POLRound = -1, p_Signature = sig_of (CHR ''b'')\<rparr>"

definition demo_vote :: "VoteType \<Rightarrow> char \<Rightarrow> Vote" where
  "demo_vote ty k = \<lparr>v_Type = ty, v_Height = 1, v_Round = 0, v_BlockHash = demo_hash, v_Voter = addr k, v_Timestamp = 7,
     v_Signature = sig_of k\<rparr>"

lemma demo_hash_real [simp]: "demo_hash \<noteq> []" "demo_hash \<noteq> ''NIL''"
proof -
  obtain rest where eq: "demo_hash = ''0x'' @ rest" unfolding demo_hash_def RecomputeBlockHash_def by blast
  show "demo_hash \<noteq> []" "demo_hash \<noteq> ''NIL''" unfolding eq by simp_all
qed

lemma demo_names [simp]:
  "ToLower alice = alice" "ToLower bob = bob" "TrimSpace alice = alice" "TrimSpace bob = bob"
  by (simp_all add: ToLower_def TrimSpace_def is_space_def lower_char_def less_eq_char_def)

lemma demo_addr: "k \<in> {CHR ''a'', CHR ''b''} \<Longrightarrow> ToLower (addr k) = addr k \<and> TrimSpace (addr k) = addr k"
  by (auto simp: addr_def)

lemma demo_vote_fields [simp]:
  "v_Type (demo_vote ty k) = ty" "v_Height (demo_vote ty k) = 1" "v_Round (demo_vote ty k) = 0"
  "v_BlockHash (demo_vote ty k) = demo_hash" "v_Voter (demo_vote ty k) = addr k" "v_Signature (demo_vote ty k) = sig_of k"
  by (simp_all add: demo_vote_def)

lemma demo_vote_verifies: "ty \<in> {VotePrevote, VotePrecommit} \<Longrightarrow> VerifyVote keyed_geth (Some (demo_vote ty k)) = Inr ()"
  by (auto simp: VerifyVote_def addr_def)

lemma demo_sign:
  "k \<in> {CHR ''a'', CHR ''b''} \<Longrightarrow> SignVote keyed_geth ty 1 0 demo_hash (addr k) [k] 7 = Inr (demo_vote ty k)"
  by (simp add: SignVote_def demo_vote_def demo_addr)

lemma demo_engine_fields [simp]:
  assumes "k \<in> {CHR ''a'', CHR ''b''}"
  shows "be_height (demo_engine k) = 1" "be_round (demo_engine k) = 0" "be_step (demo_engine k) = StepNewHeight"
    "be_leader (demo_engine k) = Some \<lparr>ls_validators = [alice, bob], ls_localAddr = addr k, ls_store = False\<rparr>"
    "be_store (demo_engine k) = demo_store" "be_localAddr (demo_engine k) = addr k" "be_privKey (demo_engine k) = [k]"
    "be_cast (demo_engine k) = []" "be_p2p (demo_engine k) = None" "be_proposal (demo_engine k) = None"
    "be_prevotes (demo_engine k) = []" "be_precommits (demo_engine k) = []" "be_pendingTxs (demo_engine k) = []"
    "be_lockedRound (demo_engine k) = -1" "be_lockedHash (demo_engine k) = []" "be_lastVotes (demo_engine k) = []"
    "be_commits (demo_engine k) = []" "be_validHash (demo_engine k) = []" "be_validRound (demo_engine k) = -1"
  using assms demo_addr [OF assms] by (auto simp: demo_engine_def NewBFTEngine_def Let_def addr_def)

lemma demo_not_jailed_either: "k \<in> {CHR ''a'', CHR ''b''} \<Longrightarrow> IsJailed demo_store now (addr k) = (Inr (False, None), demo_store)"
  by (simp add: IsJailed_def Let_def norm_eq txn_Get_def demo_store_def jailKey_def)

definition demo_proposing :: "char \<Rightarrow> BFTEngine" where
  "demo_proposing k = (demo_engine k)\<lparr>be_step := StepPropose\<rparr>"

lemma demo_enter:
  assumes "k \<in> {CHR ''a'', CHR ''b''}"
  shows "runPropose_enter demo_ctx 1 (demo_engine k) = (ProposeWait (k = CHR ''b''), demo_proposing k)"
  using assms
  by (auto simp: runPropose_enter_def demo_proposing_def IsLocalLeader_def LeaderForHeight_def eligibleValidatorsLocked_def
      pick_leader_def Let_def Count_def addr_def EqualFold_def ToLower_def lower_char_def)

definition demo_prevoting :: "char \<Rightarrow> BFTEngine" where
  "demo_prevoting k = (demo_engine k)\<lparr>be_step := StepPrevote, be_proposal := Some demo_prop, be_validHash := demo_hash,
     be_validRound := 0, be_prevotes := [(addr k, demo_vote VotePrevote k)], be_cast := [demo_vote VotePrevote k]\<rparr>"

lemma demo_prop_ok:
  "VerifyProposalBFT keyed_geth (Some demo_prop) = Inr ()" "validateProposalLocked demo_store demo_prop = Inr ()"
  by (simp_all add: VerifyProposalBFT_def demo_prop_def EqualFold_def validateProposalLocked_def demo_height demo_hash_def)

lemma demo_leader:
  "LeaderForHeight \<lparr>ls_validators = [alice, bob], ls_localAddr = a, ls_store = False\<rparr> demo_store now 1 = (bob, demo_store)"
  by (simp add: LeaderForHeight_def eligibleValidatorsLocked_def pick_leader_def Let_def)

lemma demo_proposal:
  assumes "k \<in> {CHR ''a'', CHR ''b''}"
  shows "HandleProposal demo_ctx (Some demo_prop) (demo_proposing k) = Some (demo_prevoting k)"
proof -
  have p: "p_Height demo_prop = 1" "p_Round demo_prop = 0" "p_Proposer demo_prop = bob" "p_BlockHash demo_prop = demo_hash"
    "p_Txs demo_prop = []" by (simp_all add: demo_prop_def)
  have cx: "cx_geth demo_ctx = keyed_geth" "cx_now demo_ctx = 7" by (simp_all add: demo_ctx_def)
  have st: "\<not> StepPropose < StepPropose" by simp
  show ?thesis
    using assms demo_prop_ok demo_leader demo_sign [OF assms]
    by (simp add: HandleProposal_def accept_proposal_def enterPrevoteLocked_def broadcastVoteLocked_def demo_proposing_def
        demo_prevoting_def p cx Let_def addr_def)
qed

lemma demo_ctx_simps [simp]: "cx_geth demo_ctx = keyed_geth" "cx_now demo_ctx = 7" "cx_order demo_ctx = id"
  by (simp_all add: demo_ctx_def)

lemma demo_prevoting_fields [simp]:
  assumes "k \<in> {CHR ''a'', CHR ''b''}"
  shows "be_height (demo_prevoting k) = 1" "be_round (demo_prevoting k) = 0" "be_step (demo_prevoting k) = StepPrevote"
    "be_leader (demo_prevoting k) = Some \<lparr>ls_validators = [alice, bob], ls_localAddr = addr k, ls_store = False\<rparr>"
    "be_store (demo_prevoting k) = demo_store" "be_localAddr (demo_prevoting k) = addr k" "be_privKey (demo_prevoting k) = [k]"
    "be_cast (demo_prevoting k) = [demo_vote VotePrevote k]" "be_p2p (demo_prevoting k) = None"
    "be_prevotes (demo_prevoting k) = [(addr k, demo_vote VotePrevote k)]" "be_precommits (demo_prevoting k) = []"
    "be_lastVotes (demo_prevoting k) = []" "be_commits (demo_prevoting k) = []"
  using assms by (simp_all add: demo_prevoting_def)

text \<open>A delivered vote of the other validator reaches the books.\<close>

lemma demo_vote_noted:
  assumes "k' \<in> {CHR ''a'', CHR ''b''}" "ty \<in> {VotePrevote, VotePrecommit}" "be_store e = demo_store" "be_height e = 1" "be_round e = 0"
    and "be_leader e = Some \<lparr>ls_validators = [alice, bob], ls_localAddr = a, ls_store = False\<rparr>"
    and "map_of (be_lastVotes e) (addr k' @ ''|'' @ ty) = None"
  shows "HandleVote demo_ctx (Some (demo_vote ty k')) e = record_vote demo_ctx (demo_vote ty k') (e\<lparr>be_store := demo_store,
    be_lastVotes := kv_set (addr k' @ ''|'' @ ty) \<lparr>vk_height = 1, vk_round = 0, vk_vtype = ty, vk_hash = demo_hash\<rparr> (be_lastVotes e)\<rparr>)"
proof -
  have known: "known_voter (e\<lparr>be_store := demo_store\<rparr>) (addr k')"
    using assms(1,6) by (auto simp: known_voter_def Count_def addr_def)
  show ?thesis
    using assms known demo_not_jailed_either [OF assms(1)] demo_vote_verifies [OF assms(2)]
    by (simp add: HandleVote_def note_vote_def Let_def)
qed

definition demo_precommitting :: "char \<Rightarrow> char \<Rightarrow> BFTEngine" where
  "demo_precommitting k k' = (demo_prevoting k)\<lparr>be_store := demo_store,
     be_lastVotes := [(addr k' @ ''|'' @ VotePrevote, \<lparr>vk_height = 1, vk_round = 0, vk_vtype = VotePrevote, vk_hash = demo_hash\<rparr>)],
     be_prevotes := kv_set (addr k') (demo_vote VotePrevote k') [(addr k, demo_vote VotePrevote k)],
     be_lockedHash := demo_hash, be_lockedRound := 0, be_validHash := demo_hash, be_validRound := 0, be_step := StepPrecommit,
     be_precommits := [(addr k, demo_vote VotePrecommit k)],
     be_cast := [demo_vote VotePrevote k, demo_vote VotePrecommit k], be_p2p := None\<rparr>"

lemma demo_quorum: "QuorumSize 2 = 2"
  by (simp add: QuorumSize_def go_div_def i64_def)

lemma demo_heard:
  assumes "(k, k') \<in> {(CHR ''a'', CHR ''b''), (CHR ''b'', CHR ''a'')}"
  shows "HandleVote demo_ctx (Some (demo_vote VotePrevote k')) (demo_prevoting k) = Some (demo_precommitting k k')"
proof -
  have k: "k \<in> {CHR ''a'', CHR ''b''}" "k' \<in> {CHR ''a'', CHR ''b''}" "addr k \<noteq> addr k'" using assms by (auto simp: addr_def)
  let ?v = "demo_vote VotePrevote k'"
  define e where "e = (demo_prevoting k)\<lparr>be_store := demo_store,
    be_lastVotes := [(addr k' @ ''|'' @ VotePrevote, \<lparr>vk_height = 1, vk_round = 0, vk_vtype = VotePrevote, vk_hash = demo_hash\<rparr>)]\<rparr>"
  define b where "b = kv_set (addr k') ?v [(addr k, demo_vote VotePrevote k)]"
  have b: "count_for demo_hash b = 2" "voted_hashes b = [demo_hash]"
    using k(3) by (simp_all add: b_def count_for_def voted_hashes_def)
  have "record_vote demo_ctx ?v e = Some (tryFinalizePrevotesLocked demo_ctx (e\<lparr>be_prevotes := b\<rparr>))"
    using k demo_addr [OF k(2)] by (simp add: record_vote_def e_def b_def Let_def)
  also have "tryFinalizePrevotesLocked demo_ctx (e\<lparr>be_prevotes := b\<rparr>) =
      broadcastVoteLocked demo_ctx VotePrecommit demo_hash (e\<lparr>be_prevotes := b, be_lockedHash := demo_hash, be_lockedRound := 0,
        be_validHash := demo_hash, be_validRound := 0, be_step := StepPrecommit\<rparr>)"
    using k b by (simp add: tryFinalizePrevotesLocked_def validatorCountLocked_def Count_def demo_quorum e_def Let_def)
  also have "\<dots> = demo_precommitting k k'"
    using k demo_sign [OF k(1), of VotePrecommit]
    by (simp add: broadcastVoteLocked_def demo_precommitting_def e_def b_def Let_def addr_def)
  finally show ?thesis
    using demo_vote_noted [OF k(2), of VotePrevote "demo_prevoting k" "addr k"] k by (simp add: e_def)
qed

lemma demo_precommitting_fields [simp]:
  assumes "k \<in> {CHR ''a'', CHR ''b''}"
  shows "be_height (demo_precommitting k k') = 1" "be_round (demo_precommitting k k') = 0"
    "be_step (demo_precommitting k k') = StepPrecommit"
    "be_leader (demo_precommitting k k') = Some \<lparr>ls_validators = [alice, bob], ls_localAddr = addr k, ls_store = False\<rparr>"
    "be_store (demo_precommitting k k') = demo_store" "be_cast (demo_precommitting k k') = [demo_vote VotePrevote k, demo_vote VotePrecommit k]"
    "be_precommits (demo_precommitting k k') = [(addr k, demo_vote VotePrecommit k)]" "be_commits (demo_precommitting k k') = []"
    "be_proposal (demo_precommitting k k') = Some demo_prop" "be_pendingTxs (demo_precommitting k k') = []"
    "be_lastVotes (demo_precommitting k k') = [(addr k' @ ''|'' @ VotePrevote, \<lparr>vk_height = 1, vk_round = 0, vk_vtype = VotePrevote, vk_hash = demo_hash\<rparr>)]"
  using assms by (simp_all add: demo_precommitting_def demo_prevoting_def)

text \<open>The second precommit commits the block.\<close>

definition demo_cert :: CommitCertificate where
  "demo_cert = \<lparr>cc_Height = 1, cc_Round = 0, cc_BlockHash = demo_hash,
     cc_Votes = [demo_vote VotePrecommit (CHR ''a''), demo_vote VotePrecommit (CHR ''b'')]\<rparr>"

lemma demo_commit:
  assumes kk: "(k, k') \<in> {(CHR ''a'', CHR ''b''), (CHR ''b'', CHR ''a'')}"
  obtains e' where "HandleVote demo_ctx (Some (demo_vote VotePrecommit k')) (demo_precommitting k k') = Some e'"
    "be_commits e' = [demo_cert]" "tame (core_of e')" "be_cast e' = [demo_vote VotePrevote k, demo_vote VotePrecommit k]"
proof -
  have k: "k \<in> {CHR ''a'', CHR ''b''}" "k' \<in> {CHR ''a'', CHR ''b''}" using kk by auto
  let ?v = "demo_vote VotePrecommit k'" and ?e = "demo_precommitting k k'"
  define e where "e = ?e\<lparr>be_store := demo_store, be_lastVotes := kv_set (addr k' @ ''|'' @ VotePrecommit)
      \<lparr>vk_height = 1, vk_round = 0, vk_vtype = VotePrecommit, vk_hash = demo_hash\<rparr> (be_lastVotes ?e)\<rparr>"
  define b where "b = [(alice, demo_vote VotePrecommit (CHR ''a'')), (bob, demo_vote VotePrecommit (CHR ''b''))]"
  have b: "count_for demo_hash b = 2" "voted_hashes b = [demo_hash]"
    "map snd (filter (\<lambda>(_, v). v_BlockHash v = demo_hash) b) = cc_Votes demo_cert"
    by (simp_all add: b_def count_for_def voted_hashes_def demo_cert_def)
  have "kv_set (addr k') ?v [(addr k, demo_vote VotePrecommit k)] = b" using kk by (auto simp: b_def addr_def)
  then have r: "record_vote demo_ctx ?v e = tryFinalizePrecommitsLocked demo_ctx (e\<lparr>be_precommits := b\<rparr>)"
    using kk demo_addr [OF k(2)] by (auto simp: record_vote_def e_def Let_def addr_def)
  have t: "tryFinalizePrecommitsLocked demo_ctx (e\<lparr>be_precommits := b\<rparr>) =
      commitLocked demo_ctx demo_hash (cc_Votes demo_cert) (e\<lparr>be_precommits := b, be_step := StepCommit\<rparr>)"
    using b k by (simp add: tryFinalizePrecommitsLocked_def validatorCountLocked_def Count_def demo_quorum e_def Let_def)
  have "commitLocked demo_ctx demo_hash (cc_Votes demo_cert) (e\<lparr>be_precommits := b, be_step := StepCommit\<rparr>) \<noteq> None"
    using k by (simp add: commitLocked_def sealFromProposal_def e_def Let_def split: sum.split prod.split)
  then obtain e' where c: "commitLocked demo_ctx demo_hash (cc_Votes demo_cert) (e\<lparr>be_precommits := b, be_step := StepCommit\<rparr>) = Some e'"
    by blast
  from commitLocked_core [OF c refl] k
  have "be_commits e' = [demo_cert] \<and> be_round e' = 0 \<and> be_height e' \<in> {1, 2}
      \<and> be_cast e' = [demo_vote VotePrevote k, demo_vote VotePrecommit k]"
    by (auto simp: core_advance_def core_of_def e_def demo_cert_def)
  moreover have "HandleVote demo_ctx (Some ?v) ?e = Some e'"
    using demo_vote_noted [of k' VotePrecommit ?e "addr k"] r t c k by (simp add: e_def)
  ultimately show thesis by (intro that) (auto simp: tame_def)
qed

section \<open>The network\<close>

definition demo_net :: "Sys \<Rightarrow> Sys \<Rightarrow> Net" where
  "demo_net sa sb = \<lparr>nt_roster = [alice, bob], nt_honest = {alice, bob},
     nt_sys = (\<lambda>_. \<lparr>sy_eng = demo_engine (CHR ''a''), sy_pc = AtTop\<rparr>)(alice := sa, bob := sb)\<rparr>"

lemma demo_net_simps [simp]:
  "nt_roster (demo_net sa sb) = [alice, bob]" "nt_honest (demo_net sa sb) = {alice, bob}"
  "nt_sys (demo_net sa sb) alice = sa" "nt_sys (demo_net sa sb) bob = sb"
  "cast_by (demo_net sa sb) alice = be_cast (sy_eng sa)" "cast_by (demo_net sa sb) bob = be_cast (sy_eng sb)"
  by (simp_all add: demo_net_def cast_by_def)

lemma demo_reach_a:
  assumes "reach keyed_geth (demo_net sa sb)" "tame (core_of (sy_eng sa'))"
    "sys_step keyed_geth (authentic {alice, bob} (cast_by (demo_net sa sb))) (\<lambda>vs. vs = Some [alice, bob]) sa sa'"
  shows "reach keyed_geth (demo_net sa' sb)"
proof -
  have "(demo_net sa sb)\<lparr>nt_sys := (nt_sys (demo_net sa sb))(alice := sa')\<rparr> = demo_net sa' sb"
    by (simp add: demo_net_def fun_upd_twist)
  then show ?thesis using reach.step [OF assms(1), of alice sa'] assms(2,3) by simp
qed

lemma demo_reach_b:
  assumes "reach keyed_geth (demo_net sa sb)" "tame (core_of (sy_eng sb'))"
    "sys_step keyed_geth (authentic {alice, bob} (cast_by (demo_net sa sb))) (\<lambda>vs. vs = Some [alice, bob]) sb sb'"
  shows "reach keyed_geth (demo_net sa sb')"
proof -
  have "(demo_net sa sb)\<lparr>nt_sys := (nt_sys (demo_net sa sb))(bob := sb')\<rparr> = demo_net sa sb'"
    by (simp add: demo_net_def)
  then show ?thesis using reach.step [OF assms(1), of bob sb'] assms(2,3) by simp
qed

text \<open>What one node does up to its prevote, and on hearing the other's prevote.\<close>

definition demo_pc :: "char \<Rightarrow> LoopPC" where
  "demo_pc k = (if k = CHR ''b'' then AtBuild 1 0 else AtProposeWait)"

lemma demo_steps:
  assumes k: "k \<in> {CHR ''a'', CHR ''b''}"
  shows "sys_step keyed_geth A R \<lparr>sy_eng = demo_engine k, sy_pc = AtTop\<rparr> \<lparr>sy_eng = demo_engine k, sy_pc = AtPropose 1 0\<rparr>"
    and "sys_step keyed_geth A R \<lparr>sy_eng = demo_engine k, sy_pc = AtPropose 1 0\<rparr> \<lparr>sy_eng = demo_proposing k, sy_pc = demo_pc k\<rparr>"
    and "sys_step keyed_geth A R \<lparr>sy_eng = demo_proposing k, sy_pc = pc\<rparr> \<lparr>sy_eng = demo_prevoting k, sy_pc = pc\<rparr>"
    and "ty \<in> {VotePrevote, VotePrecommit} \<Longrightarrow> A (demo_vote ty k') \<Longrightarrow> HandleVote demo_ctx (Some (demo_vote ty k')) e = Some e' \<Longrightarrow>
      sys_step keyed_geth A R \<lparr>sy_eng = e, sy_pc = pc\<rparr> \<lparr>sy_eng = e', sy_pc = pc\<rparr>"
  using k sys_step.top [of "\<lparr>sy_eng = demo_engine k, sy_pc = AtTop\<rparr>" keyed_geth A R]
    sys_step.propose_enter [of "\<lparr>sy_eng = demo_engine k, sy_pc = AtPropose 1 0\<rparr>" 1 0 demo_ctx keyed_geth "ProposeWait (k = CHR ''b'')"
      "demo_proposing k" A R] demo_enter [OF k]
    sys_step.proposal [of demo_ctx keyed_geth demo_prop "\<lparr>sy_eng = demo_proposing k, sy_pc = pc\<rparr>" "demo_prevoting k" A R]
    sys_step.vote [of demo_ctx keyed_geth "demo_vote ty k'" A "\<lparr>sy_eng = e, sy_pc = pc\<rparr>" e' R] demo_proposal [OF k]
  by (simp_all add: dispatch_def after_enter_def demo_pc_def)

lemma demo_tame:
  assumes "k \<in> {CHR ''a'', CHR ''b''}"
  shows "tame (core_of (demo_engine k))" "tame (core_of (demo_proposing k))" "tame (core_of (demo_prevoting k))"
    "tame (core_of (demo_precommitting k k'))"
  using assms by (simp_all add: tame_def demo_proposing_def)

lemma demo_started: 
  assumes k: "k \<in> {CHR ''a'', CHR ''b''}"
  shows "started keyed_geth \<lparr>sy_eng = demo_engine k, sy_pc = AtTop\<rparr>"
  unfolding started_def
proof (intro conjI exI)
  let ?e = "NewBFTEngine keyed_geth
       \<lparr>env_MINING_ORACLE_ADDRESS = [], env_CHAIN_SIGNING_ADDRESS = addr k, env_CHAIN_SIGNING_PRIVATE_KEY = [k]\<rparr> demo_store
       (Some \<lparr>ls_validators = [alice, bob], ls_localAddr = addr k, ls_store = False\<rparr>) DefaultBFTConfig"
  show "loop_align (?e\<lparr>be_pool := None, be_p2p := None, be_maxTxs := 100\<rparr>) = Some (sy_eng \<lparr>sy_eng = demo_engine k, sy_pc = AtTop\<rparr>)"
    by (simp add: demo_engine_def loop_align_def NewBFTEngine_def demo_height Let_def)
qed simp

lemma demo_net_start: "reach keyed_geth (demo_net \<lparr>sy_eng = demo_engine (CHR ''a''), sy_pc = AtTop\<rparr> \<lparr>sy_eng = demo_engine (CHR ''b''), sy_pc = AtTop\<rparr>)"
  by (rule reach.init) (simp add: net_init_def demo_started demo_tame addr_def Let_def)

text \<open>Both validators prevote the block, hear each other, precommit it and commit it.\<close>

lemma demo_net_run:
  obtains ea eb where "reach keyed_geth (demo_net \<lparr>sy_eng = ea, sy_pc = demo_pc (CHR ''a'')\<rparr> \<lparr>sy_eng = eb, sy_pc = demo_pc (CHR ''b'')\<rparr>)"
    "be_commits ea = [demo_cert]" "be_commits eb = [demo_cert]"
proof -
  let ?a = "CHR ''a''" and ?b = "CHR ''b''"
  let ?s = "\<lambda>k e. \<lparr>sy_eng = e, sy_pc = demo_pc k\<rparr>"
  have ka: "?a \<in> {CHR ''a'', CHR ''b''}" and kb: "?b \<in> {CHR ''a'', CHR ''b''}" by simp_all
  note start_a = demo_reach_a [OF demo_reach_a [OF demo_reach_a [OF _ _ demo_steps(1) [OF ka]] _ demo_steps(2) [OF ka]] _ demo_steps(3) [OF ka]]
  note start_b = demo_reach_b [OF demo_reach_b [OF demo_reach_b [OF _ _ demo_steps(1) [OF kb]] _ demo_steps(2) [OF kb]] _ demo_steps(3) [OF kb]]
  note vote_a = demo_reach_a [OF _ _ demo_steps(4) [OF ka]] and vote_b = demo_reach_b [OF _ _ demo_steps(4) [OF kb]]
  have 1: "reach keyed_geth (demo_net (?s ?a (demo_prevoting ?a)) (?s ?b (demo_prevoting ?b)))"
    by (rule start_b [OF start_a [OF demo_net_start]]) (simp_all add: demo_tame)
  have 2: "reach keyed_geth (demo_net (?s ?a (demo_precommitting ?a ?b)) (?s ?b (demo_prevoting ?b)))"
    by (rule vote_a [OF 1 _ _ _ demo_heard]) (simp_all add: demo_tame authentic_def addr_def)
  have 3: "reach keyed_geth (demo_net (?s ?a (demo_precommitting ?a ?b)) (?s ?b (demo_precommitting ?b ?a)))"
    by (rule vote_b [OF 2 _ _ _ demo_heard]) (simp_all add: demo_tame authentic_def addr_def)
  obtain ea where ea: "HandleVote demo_ctx (Some (demo_vote VotePrecommit ?b)) (demo_precommitting ?a ?b) = Some ea"
    "be_commits ea = [demo_cert]" "tame (core_of ea)" "be_cast ea = [demo_vote VotePrevote ?a, demo_vote VotePrecommit ?a]"
    by (rule demo_commit [of ?a ?b]) simp_all
  obtain eb where eb: "HandleVote demo_ctx (Some (demo_vote VotePrecommit ?a)) (demo_precommitting ?b ?a) = Some eb"
    "be_commits eb = [demo_cert]" "tame (core_of eb)" by (rule demo_commit [of ?b ?a]) simp_all
  have 4: "reach keyed_geth (demo_net (?s ?a ea) (?s ?b (demo_precommitting ?b ?a)))"
    by (rule vote_a [OF 3 _ _ _ ea(1)]) (simp_all add: ea authentic_def addr_def)
  have "reach keyed_geth (demo_net (?s ?a ea) (?s ?b eb))"
    by (rule vote_b [OF 4 _ _ _ eb(1)]) (simp_all add: ea eb authentic_def addr_def)
  then show thesis using ea(2) eb(2) by (rule that)
qed

theorem bft_agreement_witness:
  "\<exists>N cc cc'. reach keyed_geth N \<and> cc \<in> set (be_commits (sy_eng (nt_sys N alice)))
     \<and> cc' \<in> set (be_commits (sy_eng (nt_sys N bob))) \<and> cc_BlockHash cc = cc_BlockHash cc'"
proof -
  obtain ea eb where e: "reach keyed_geth (demo_net \<lparr>sy_eng = ea, sy_pc = demo_pc (CHR ''a'')\<rparr> \<lparr>sy_eng = eb, sy_pc = demo_pc (CHR ''b'')\<rparr>)"
    "be_commits ea = [demo_cert]" "be_commits eb = [demo_cert]" by (rule demo_net_run)
  show ?thesis
  proof (intro exI conjI)
    show "reach keyed_geth (demo_net \<lparr>sy_eng = ea, sy_pc = demo_pc (CHR ''a'')\<rparr> \<lparr>sy_eng = eb, sy_pc = demo_pc (CHR ''b'')\<rparr>)" by (rule e(1))
    show ac: "demo_cert \<in> set (be_commits (sy_eng (nt_sys (demo_net \<lparr>sy_eng = ea, sy_pc = demo_pc (CHR ''a'')\<rparr>
      \<lparr>sy_eng = eb, sy_pc = demo_pc (CHR ''b'')\<rparr>) alice)))" by (simp add: e(2))
    show bc: "demo_cert \<in> set (be_commits (sy_eng (nt_sys (demo_net \<lparr>sy_eng = ea, sy_pc = demo_pc (CHR ''a'')\<rparr>
      \<lparr>sy_eng = eb, sy_pc = demo_pc (CHR ''b'')\<rparr>) bob)))" by (simp add: e(3))
    show "cc_BlockHash demo_cert = cc_BlockHash demo_cert"
      by (rule bft_agreement [OF e(1) _ _ ac bc]) (simp_all add: real_hash_def demo_cert_def)
  qed
qed

section \<open>One engine on its own\<close>

abbreviation demo_R :: "string list option \<Rightarrow> bool" where
  "demo_R \<equiv> \<lambda>vs. vs = Some [alice, bob]"

lemma demo_run:
  obtains e where "sys_run keyed_geth (\<lambda>v. True) demo_R \<lparr>sy_eng = demo_engine (CHR ''a''), sy_pc = AtTop\<rparr> \<lparr>sy_eng = e, sy_pc = AtProposeWait\<rparr>"
    "be_commits e = [demo_cert]" "be_cast e = [demo_vote VotePrevote (CHR ''a''), demo_vote VotePrecommit (CHR ''a'')]"
proof -
  let ?a = "CHR ''a''" and ?b = "CHR ''b''"
  have ka: "?a \<in> {CHR ''a'', CHR ''b''}" by simp
  obtain ea where ea: "HandleVote demo_ctx (Some (demo_vote VotePrecommit ?b)) (demo_precommitting ?a ?b) = Some ea"
    "be_commits ea = [demo_cert]" "tame (core_of ea)" "be_cast ea = [demo_vote VotePrevote ?a, demo_vote VotePrecommit ?a]"
    by (rule demo_commit [of ?a ?b]) simp_all
  have heard: "HandleVote demo_ctx (Some (demo_vote VotePrevote ?b)) (demo_prevoting ?a) = Some (demo_precommitting ?a ?b)"
    by (rule demo_heard) simp
  note [intro] = demo_tame [OF ka]
  have "sys_run keyed_geth (\<lambda>v. True) demo_R \<lparr>sy_eng = demo_engine ?a, sy_pc = AtTop\<rparr> \<lparr>sy_eng = demo_engine ?a, sy_pc = AtTop\<rparr>"
    by (rule sys_run.start) (simp add: demo_tame)
  from sys_run.more [OF sys_run.more [OF sys_run.more [OF sys_run.more [OF sys_run.more [OF this demo_steps(1) [OF ka]]
      demo_steps(2) [OF ka]] demo_steps(3) [OF ka]] demo_steps(4) [OF ka _ _ heard]] demo_steps(4) [OF ka _ _ ea(1)]]
  have "sys_run keyed_geth (\<lambda>v. True) demo_R \<lparr>sy_eng = demo_engine ?a, sy_pc = AtTop\<rparr> \<lparr>sy_eng = ea, sy_pc = demo_pc ?a\<rparr>"
    using ea(3) by (auto simp: demo_tame)
  then show thesis using ea(2,4) by (intro that [of ea]) (simp_all add: demo_pc_def)
qed

theorem engine_refines_witness:
  "(tame_step (\<lambda>v. True) demo_R)\<^sup>*\<^sup>* (core_of (demo_proposing (CHR ''a''))) (core_of (demo_prevoting (CHR ''a'')))"
  using engine_refines [OF demo_steps(3) [of "CHR ''a''" "\<lambda>v. True" demo_R AtTop]] by (simp add: demo_tame)

theorem no_double_vote_witness:
  "\<exists>s. sys_run keyed_geth (\<lambda>v. True) demo_R \<lparr>sy_eng = demo_engine (CHR ''a''), sy_pc = AtTop\<rparr> s
     \<and> length (be_cast (sy_eng s)) = 2 \<and> be_cast (sy_eng s) ! 1 = demo_vote VotePrecommit (CHR ''a'')"
proof -
  obtain e where e: "sys_run keyed_geth (\<lambda>v. True) demo_R \<lparr>sy_eng = demo_engine (CHR ''a''), sy_pc = AtTop\<rparr> \<lparr>sy_eng = e, sy_pc = AtProposeWait\<rparr>"
    "be_cast e = [demo_vote VotePrevote (CHR ''a''), demo_vote VotePrecommit (CHR ''a'')]" by (rule demo_run)
  have "be_cast e ! 1 = demo_vote VotePrecommit (CHR ''a'')"
    by (rule no_double_vote [OF demo_started e(1)]) (simp_all add: e(2))
  with e show ?thesis by (intro exI [of _ "\<lparr>sy_eng = e, sy_pc = AtProposeWait\<rparr>"]) simp
qed


end
