(* ===== verification/BftHandlers.thy ===== *)
theory BftHandlers
  imports BftDemo
begin

text \<open>
  What the single operations of the consensus engine do: which proposals are accepted, what a commit leaves
  in the store, how equivocation is punished, that a silent network cannot hold the engine in a
  round, and when the process can panic.
\<close>

section \<open>Proposals\<close>

lemma validateProposal_ok:
  assumes "validateProposalLocked s p = Inr ()"
  obtains latest where "GetLatestHeight s = Inr latest" "p_Height p = latest + 1" "expected_prev s latest = Inr (p_PrevHash p)"
    "p_BlockHash p = RecomputeBlockHash (p_Height p) (p_PrevHash p) (p_MerkleRoot p) (p_Timestamp p) (p_Proposer p)"
  using assms by (auto simp: validateProposalLocked_def expected_prev_def split: sum.splits if_splits)

lemma enterPrevote_keeps [simp]:
  "be_proposal (enterPrevoteLocked cx e) = be_proposal e" "be_store (enterPrevoteLocked cx e) = be_store e"
  "be_height (enterPrevoteLocked cx e) = be_height e" "be_round (enterPrevoteLocked cx e) = be_round e"
  "be_step (enterPrevoteLocked cx e) = StepPrevote" "be_pendingTxs (enterPrevoteLocked cx e) = be_pendingTxs e"
  by (simp_all add: enterPrevoteLocked_def Let_def)

definition expected_leader :: "Ctx \<Rightarrow> uint64 \<Rightarrow> BFTEngine \<Rightarrow> string \<times> Store" where
  "expected_leader cx h e = (case be_leader e of None \<Rightarrow> ([], be_store e)
     | Some l \<Rightarrow> LeaderForHeight l (be_store e) (cx_now cx) h)"

lemma accept_proposal_sound:
  assumes "be_proposal (accept_proposal cx p e) = Some p'" "be_proposal e \<noteq> Some p'"
  shows "p' = p \<and> validateProposalLocked (be_store (accept_proposal cx p e)) p = Inr ()
    \<and> (let leader = fst (expected_leader cx (p_Height p) e) in leader = [] \<or> EqualFold (p_Proposer p) leader)"
  using assms
  by (auto simp: accept_proposal_def expected_leader_def Let_def split: prod.splits sum.splits if_splits)



lemma broadcast_keeps_more [simp]:
  "be_lockedHash (broadcastVoteLocked cx ty hash e) = be_lockedHash e" "be_lockedRound (broadcastVoteLocked cx ty hash e) = be_lockedRound e"
  "be_commits (broadcastVoteLocked cx ty hash e) = be_commits e" "be_sleeping (broadcastVoteLocked cx ty hash e) = be_sleeping e"
  "be_privKey (broadcastVoteLocked cx ty hash e) = be_privKey e"
  by (simp_all add: broadcastVoteLocked_def Let_def split: sum.split)

lemma enterPrevote_keeps_lock [simp]:
  "be_lockedHash (enterPrevoteLocked cx e) = be_lockedHash e" "be_lockedRound (enterPrevoteLocked cx e) = be_lockedRound e"
  by (simp_all add: enterPrevoteLocked_def Let_def)

lemma broadcast_cast: "\<exists>vs. be_cast (broadcastVoteLocked cx ty hash e) = be_cast e @ vs \<and> length vs \<le> 1"
  by (simp add: broadcastVoteLocked_def Let_def split: sum.split)

section \<open>A silent network\<close>

text \<open>
  The engine cannot be held in a round. When nothing arrives, the deadlines of the three phases
  take it to the next round of the same height, whatever it had seen before; it casts at most a
  prevote and a nil precommit on the way and keeps its lock.
\<close>

theorem round_progress:
  assumes "be_step e = StepPropose" "in_i32 (be_round e + 1)"
  shows "let e' = runPrecommit_timeout (runPrevote_timeout cx2 (runPropose_end cx1 e)) in
     be_height e' = be_height e \<and> be_round e' = be_round e + 1 \<and> be_step e' = StepNewHeight
     \<and> be_lockedHash e' = be_lockedHash e \<and> be_lockedRound e' = be_lockedRound e
     \<and> be_prevotes e' = [] \<and> be_precommits e' = [] \<and> be_proposal e' = None \<and> be_store e' = be_store e
     \<and> (\<exists>vs. be_cast e' = be_cast e @ vs \<and> length vs \<le> 2)"
proof -
  define e1 where "e1 = runPropose_end cx1 e"
  have e1: "be_step e1 = StepPrevote" "be_height e1 = be_height e" "be_round e1 = be_round e" "be_store e1 = be_store e"
    "be_lockedHash e1 = be_lockedHash e" "be_lockedRound e1 = be_lockedRound e"
    using assms(1) by (simp_all add: e1_def runPropose_end_def)
  obtain vs where vs: "be_cast e1 = be_cast e @ vs" "length vs \<le> 1"
    using assms(1) broadcast_cast [of cx1 VotePrevote _ "e\<lparr>be_step := StepPrevote\<rparr>"]
    by (auto simp: e1_def runPropose_end_def enterPrevoteLocked_def Let_def)
  obtain ws where "be_cast (broadcastVoteLocked cx2 VotePrecommit [] (e1\<lparr>be_step := StepPrecommit\<rparr>)) = be_cast e1 @ ws" "length ws \<le> 1"
    using broadcast_cast [of cx2 VotePrecommit "[]" "e1\<lparr>be_step := StepPrecommit\<rparr>"] by auto
  with vs have "\<exists>us. be_cast (broadcastVoteLocked cx2 VotePrecommit [] (e1\<lparr>be_step := StepPrecommit\<rparr>)) = be_cast e @ us \<and> length us \<le> 2"
    by (intro exI [of _ "vs @ ws"]) simp
  then show ?thesis
    using e1 assms(2) by (simp add: e1_def [symmetric] runPrevote_timeout_def runPrecommit_timeout_def next_round_def i32_id Let_def)
qed

theorem round_progress_witness:
  "let e' = runPrecommit_timeout (runPrevote_timeout demo_ctx (runPropose_end demo_ctx (demo_proposing (CHR ''a''))))
   in be_round e' = 1 \<and> be_height e' = 1 \<and> be_step e' = StepNewHeight"
  using round_progress [of "demo_proposing (CHR ''a'')" demo_ctx demo_ctx]
  by (simp add: demo_proposing_def in_i32_def Let_def)

section \<open>Panics\<close>

lemma apply_pending_None: "apply_pending s ts = None \<longleftrightarrow> None \<in> set ts"
  by (induction s ts rule: apply_pending.induct) (auto split: prod.splits sum.splits)

lemma sealFromProposal_None: "sealFromProposal E s p ts key = None \<longleftrightarrow> None \<in> set ts"
  by (auto simp: sealFromProposal_def apply_pending_None split: option.splits)
    (metis apply_pending_None option.distinct(1))+

text \<open>A commit panics exactly if the block it applies contains a nil transaction.\<close>

lemma commitLocked_None:
  "commitLocked cx hash votes e = None \<longleftrightarrow>
     (\<exists>p. be_proposal e = Some p \<and> p_BlockHash p = hash) \<and> None \<in> set (be_pendingTxs e)"
proof (cases "\<exists>p. be_proposal e = Some p \<and> p_BlockHash p = hash")
  case True
  then obtain p where p: "be_proposal e = Some p" "p_BlockHash p = hash" by blast
  show ?thesis
    using p sealFromProposal_None [of "cx_geth cx" "be_store e" p "be_pendingTxs e" "be_privKey e"]
    by (cases "sealFromProposal (cx_geth cx) (be_store e) p (be_pendingTxs e) (be_privKey e)")
      (auto simp: commitLocked_def Let_def split: prod.splits sum.splits)
qed (auto simp: commitLocked_def Let_def split: option.splits)

lemma advance_pending [simp]: "be_pendingTxs (advanceHeightLocked e) = []"
  by (simp add: advanceHeightLocked_def)

lemma commitLocked_pending: "commitLocked cx hash votes e = Some e' \<Longrightarrow> set (be_pendingTxs e') \<subseteq> set (be_pendingTxs e)"
  by (auto simp: commitLocked_def Let_def markCommitted_def split: option.splits if_splits prod.splits sum.splits)

lemma tryFinalizePrecommits_total:
  assumes "None \<notin> set (be_pendingTxs e)"
  shows "\<exists>e'. tryFinalizePrecommitsLocked cx e = Some e' \<and> set (be_pendingTxs e') \<subseteq> set (be_pendingTxs e)"
proof -
  have "\<exists>e'. commitLocked cx hash votes (e\<lparr>be_step := StepCommit\<rparr>) = Some e' \<and> set (be_pendingTxs e') \<subseteq> set (be_pendingTxs e)" for hash votes
  proof (cases "commitLocked cx hash votes (e\<lparr>be_step := StepCommit\<rparr>)")
    case None
    then show ?thesis using assms by (auto simp: commitLocked_None)
  next
    case (Some e')
    then show ?thesis using commitLocked_pending [OF Some] by simp
  qed
  then show ?thesis by (simp add: tryFinalizePrecommitsLocked_def next_round_def Let_def split: option.split)
qed

lemma tryFinalizePrevotes_pending [simp]: "be_pendingTxs (tryFinalizePrevotesLocked cx e) = be_pendingTxs e"
  by (simp add: tryFinalizePrevotesLocked_def Let_def split: option.split)

lemma record_vote_total:
  assumes "None \<notin> set (be_pendingTxs e)"
  shows "\<exists>e'. record_vote cx v e = Some e' \<and> set (be_pendingTxs e') \<subseteq> set (be_pendingTxs e)"
  using assms tryFinalizePrecommits_total [of "e\<lparr>be_precommits := kv_set (ToLower (v_Voter v)) v (be_precommits e)\<rparr>" cx]
  by (simp add: record_vote_def Let_def)

lemma note_vote_pending [simp]: "be_pendingTxs (note_vote cx v e) = be_pendingTxs e"
  by (simp add: note_vote_def Let_def)

lemma accept_proposal_pending: "set (be_pendingTxs (accept_proposal cx p e)) \<subseteq> set (be_pendingTxs e) \<union> set (p_Txs p)"
  by (auto simp: accept_proposal_def Let_def split: prod.splits sum.splits if_splits)

lemma HandleVote_total:
  assumes none: "None \<notin> set (be_pendingTxs e)"
  shows "\<exists>e'. HandleVote cx (Some v) e = Some e' \<and> None \<notin> set (be_pendingTxs e')"
proof -
  define e1 where "e1 = (if v_Height v = be_height e \<and> v_Round v > be_round e then adopt_round (v_Round v) (e\<lparr>be_store := snd (IsJailed (be_store e) (cx_now cx) (v_Voter v))\<rparr>)
     else e\<lparr>be_store := snd (IsJailed (be_store e) (cx_now cx) (v_Voter v))\<rparr>)"
  have "None \<notin> set (be_pendingTxs e1)" using none by (simp add: e1_def adopt_round_def)
  then have "\<exists>e'. record_vote cx v (note_vote cx v e1) = Some e' \<and> None \<notin> set (be_pendingTxs e')"
    using record_vote_total [of "note_vote cx v e1" cx v] by auto
  then show ?thesis
    using none \<open>None \<notin> set (be_pendingTxs e1)\<close>
    by (auto simp: HandleVote_def Let_def e1_def split: sum.splits prod.splits)
qed

text \<open>
  C25: only nil pointers can bring the process down. As long as the pending block holds no nil transaction,
  no vote makes the engine panic, and a proposal without nil transactions keeps it so; a nil
  transaction in the pending block, which nothing in the acceptance of a proposal excludes, makes
  the commit of that block panic.
\<close>

theorem engine_no_panic:
  "(None \<notin> set (be_pendingTxs e) \<longrightarrow> (\<exists>e'. HandleVote cx (Some v) e = Some e' \<and> None \<notin> set (be_pendingTxs e')))
   \<and> (None \<notin> set (be_pendingTxs e) \<longrightarrow> None \<notin> set (p_Txs p) \<longrightarrow>
        (\<exists>e'. HandleProposal cx (Some p) e = Some e' \<and> None \<notin> set (be_pendingTxs e')))
   \<and> (be_proposal e = Some p \<longrightarrow> None \<in> set (be_pendingTxs e) \<longrightarrow> commitLocked cx (p_BlockHash p) votes e = None)"
proof (intro conjI impI)
  assume "None \<notin> set (be_pendingTxs e)"
  then show "\<exists>e'. HandleVote cx (Some v) e = Some e' \<and> None \<notin> set (be_pendingTxs e')" by (rule HandleVote_total)
next
  assume none: "None \<notin> set (be_pendingTxs e)" "None \<notin> set (p_Txs p)"
  have "None \<notin> set (be_pendingTxs (accept_proposal cx p e1))" if "None \<notin> set (be_pendingTxs e1)" for e1
    using accept_proposal_pending [of cx p e1] none that by auto
  then show "\<exists>e'. HandleProposal cx (Some p) e = Some e' \<and> None \<notin> set (be_pendingTxs e')"
    using none by (auto simp: HandleProposal_def Let_def adopt_round_def split: sum.split)
next
  assume "be_proposal e = Some p" "None \<in> set (be_pendingTxs e)"
  then show "commitLocked cx (p_BlockHash p) votes e = None" by (simp add: commitLocked_None)
qed

theorem engine_no_panic_witness:
  "(\<exists>e'. HandleVote demo_ctx (Some (demo_vote VotePrecommit (CHR ''b''))) (demo_precommitting (CHR ''a'') (CHR ''b'')) = Some e')
   \<and> (\<exists>e'. HandleProposal demo_ctx (Some demo_prop) (demo_proposing (CHR ''a'')) = Some e')
   \<and> commitLocked demo_ctx demo_hash [] ((demo_precommitting (CHR ''a'') (CHR ''b''))\<lparr>be_pendingTxs := [None]\<rparr>) = None"
proof (intro conjI)
  show "\<exists>e'. HandleVote demo_ctx (Some (demo_vote VotePrecommit (CHR ''b''))) (demo_precommitting (CHR ''a'') (CHR ''b'')) = Some e'"
    using engine_no_panic [of "demo_precommitting (CHR ''a'') (CHR ''b'')" demo_ctx "demo_vote VotePrecommit (CHR ''b'')" demo_prop "[]"] by auto
  show "\<exists>e'. HandleProposal demo_ctx (Some demo_prop) (demo_proposing (CHR ''a'')) = Some e'"
    using engine_no_panic [of "demo_proposing (CHR ''a'')" demo_ctx "demo_vote VotePrecommit (CHR ''b'')" demo_prop "[]"]
    by (auto simp: demo_proposing_def demo_prop_def)
  show "commitLocked demo_ctx demo_hash [] ((demo_precommitting (CHR ''a'') (CHR ''b''))\<lparr>be_pendingTxs := [None]\<rparr>) = None"
    using engine_no_panic [of "(demo_precommitting (CHR ''a'') (CHR ''b''))\<lparr>be_pendingTxs := [None]\<rparr>" demo_ctx
        "demo_vote VotePrecommit (CHR ''b'')" demo_prop "[]"]
    by (simp add: demo_prop_def)
qed

section \<open>What a commit leaves behind\<close>

lemma ApplyTx_store: "\<exists>d. snd (ApplyTx s t) = s\<lparr>db := d\<rparr>"
  by (auto simp: ApplyTx_def db_Update_def intro: exI [of _ "db s"] split: sum.split)

lemma apply_pending_healthy: "apply_pending s ts = Some (applied, s') \<Longrightarrow> healthy s \<Longrightarrow> healthy s'"
proof (induction s ts arbitrary: applied rule: apply_pending.induct)
  case (3 s t ts)
  obtain r s1 where run: "ApplyTx s t = (r, s1)" by (metis surj_pair)
  with ApplyTx_store [of s t] 3(4) have "healthy s1" by auto
  with 3 run show ?case by (auto split: sum.splits)
qed auto

lemma sealFromProposal_stores:
  assumes "healthy s" "None \<notin> set ts" "key = [] \<or> is_ok (SignEIP191 E (BuildChainSigningMessage (p_Height p) (p_BlockHash p)) key)"
  shows "\<exists>res s'. sealFromProposal E s p ts key = Some (Inr res, s') \<and> healthy s'
    \<and> hdr_Height (sr_Header res) = p_Height p \<and> hdr_Hash (sr_Header res) = p_BlockHash p
    \<and> hdr_PrevHash (sr_Header res) = p_PrevHash p \<and> hdr_TxHashes (sr_Header res) = p_TxHashes p
    \<and> hdr_Proposer (sr_Header res) = p_Proposer p"
proof -
  obtain applied s1 where ap: "apply_pending s ts = Some (applied, s1)" using assms(2) apply_pending_None by fastforce
  have h: "healthy s1" by (rule apply_pending_healthy [OF ap assms(1)])
  obtain sig where sig: "(if key = [] then Inr [] else case SignEIP191 E (BuildChainSigningMessage (p_Height p) (p_BlockHash p)) key of
      Inl _ \<Rightarrow> Inl (Errorf ''sealer sign'') | Inr sig \<Rightarrow> Inr sig) = Inr sig"
    using assms(3) by (cases "key = []") (auto elim!: is_okE)
  let ?hd = "\<lparr>hdr_Height = p_Height p, hdr_Hash = p_BlockHash p, hdr_PrevHash = p_PrevHash p,
     hdr_StateRoot = state_root_or_empty s1, hdr_TxHashes = p_TxHashes p, hdr_Timestamp = p_Timestamp p,
     hdr_Proposer = p_Proposer p, hdr_TxCount = int (length (p_TxHashes p)), hdr_Signature = sig,
     hdr_LastCommitRound = 0, hdr_LastCommitVotes = 0, hdr_LastCommitHash = []\<rparr>"
  obtain s2 where "SaveBlock s1 ?hd = (Inr (), s2)" "healthy s2" using SaveBlock_healthy [OF h] by blast
  then have "sealFromProposal E s p ts key = Some (Inr \<lparr>sr_Header = ?hd, sr_SealerSig = sig, sr_Txs = applied\<rparr>, s2)"
    using ap sig by (simp add: sealFromProposal_def Let_def)
  then show ?thesis using \<open>healthy s2\<close> by simp
qed

lemma commit_quorum:
  assumes h: "healthy (be_store e)" and st: "be_step e = StepPrecommit" and p: "be_proposal e = Some p" "p_BlockHash p \<noteq> []"
    and q: "0 < QuorumSize (validatorCountLocked e)" "QuorumSize (validatorCountLocked e) \<le> count_for (p_BlockHash p) (be_precommits e)"
    and only: "\<And>x. x \<noteq> [] \<Longrightarrow> QuorumSize (validatorCountLocked e) \<le> count_for x (be_precommits e) \<Longrightarrow> x = p_BlockHash p"
    and ord: "\<And>xs. set (cx_order cx xs) = set xs" and tx: "None \<notin> set (be_pendingTxs e)"
    and key: "be_privKey e = [] \<or> is_ok (SignEIP191 (cx_geth cx) (BuildChainSigningMessage (p_Height p) (p_BlockHash p)) (be_privKey e))"
  shows "\<exists>e' e'' b. tryFinalizePrecommitsLocked cx e = Some e' \<and> GetBlock (be_store e') (p_Height p) = Inr b
    \<and> hdr_Hash b = p_BlockHash p \<and> hdr_PrevHash b = p_PrevHash p \<and> hdr_TxHashes b = p_TxHashes p
    \<and> hdr_LastCommitRound b = be_round e \<and> hdr_LastCommitVotes b = count_for (p_BlockHash p) (be_precommits e)
    \<and> GetLatestHeight (be_store e') = Inr (p_Height p) \<and> be_step e' = StepCommit
    \<and> wake e' = Some e'' \<and> be_height e'' = be_height e + 1 \<and> be_round e'' = 0 \<and> be_step e'' = StepNewHeight
    \<and> be_lockedRound e'' = -1 \<and> be_store e'' = be_store e'
    \<and> be_height e' = be_height e \<and> be_round e' = be_round e \<and> be_lastVotes e' = be_lastVotes e \<and> be_cast e' = be_cast e"
proof -
  let ?q = "QuorumSize (validatorCountLocked e)" and ?hash = "p_BlockHash p"
  let ?found = "find (\<lambda>x. count_for x (be_precommits e) \<ge> ?q \<and> x \<noteq> []) (cx_order cx (voted_hashes (be_precommits e)))"
  have mem: "?hash \<in> set (voted_hashes (be_precommits e))"
  proof (rule ccontr)
    assume "?hash \<notin> set (voted_hashes (be_precommits e))"
    then have "filter (\<lambda>(_, v). v_BlockHash v = ?hash) (be_precommits e) = []" by (force simp: voted_hashes_def filter_empty_conv)
    then show False using q by (simp add: count_for_def)
  qed
  have "?found = Some ?hash"
  proof (cases ?found)
    case None
    then show ?thesis using q p(2) mem ord by (auto simp: find_None_iff)
  next
    case (Some x)
    then show ?thesis using only [of x] by (auto simp: find_Some_iff)
  qed
  then have t: "tryFinalizePrecommitsLocked cx e =
      commitLocked cx ?hash (map snd (filter (\<lambda>(_, v). v_BlockHash v = ?hash) (be_precommits e))) (e\<lparr>be_step := StepCommit\<rparr>)"
    using st q(1) by (simp add: tryFinalizePrecommitsLocked_def Let_def)
  obtain res s1 where sl: "sealFromProposal (cx_geth cx) (be_store e) p (be_pendingTxs e) (be_privKey e) = Some (Inr res, s1)" "healthy s1"
    "hdr_Height (sr_Header res) = p_Height p" "hdr_Hash (sr_Header res) = ?hash" "hdr_PrevHash (sr_Header res) = p_PrevHash p"
    "hdr_TxHashes (sr_Header res) = p_TxHashes p"
    using sealFromProposal_stores [OF h tx key] by blast
  let ?b = "(sr_Header res)\<lparr>hdr_LastCommitRound := be_round e, hdr_LastCommitVotes := count_for ?hash (be_precommits e)\<rparr>"
  obtain s2 where s2: "SaveBlock s1 ?b = (Inr (), s2)" "GetBlock s2 (p_Height p) = Inr ?b" "GetLatestHeight s2 = Inr (p_Height p)"
    using SaveBlock_healthy [OF sl(2), of ?b] sl(3) by auto
  show ?thesis
    using p(1) sl s2 unfolding t
    by (simp add: commitLocked_def Let_def wake_def advanceHeightLocked_def markCommitted_def count_for_def)
qed

text \<open>
  A quorum of precommits for the accepted proposal commits it. The block is stored at its height with the
  proposal's hash, parent and transactions and with the round and size of its certificate, it is the
  tip, and once the pause is over the engine starts the next height without a lock.
\<close>

theorem commit_stores:
  assumes h: "healthy (be_store e)" and st: "be_step e = StepPrecommit" and p: "be_proposal e = Some p" "p_BlockHash p \<noteq> []"
    and q: "0 < QuorumSize (validatorCountLocked e)" "QuorumSize (validatorCountLocked e) \<le> count_for (p_BlockHash p) (be_precommits e)"
    and only: "\<And>x. x \<noteq> [] \<Longrightarrow> QuorumSize (validatorCountLocked e) \<le> count_for x (be_precommits e) \<Longrightarrow> x = p_BlockHash p"
    and ord: "\<And>xs. set (cx_order cx xs) = set xs" and tx: "None \<notin> set (be_pendingTxs e)"
    and key: "be_privKey e = [] \<or> is_ok (SignEIP191 (cx_geth cx) (BuildChainSigningMessage (p_Height p) (p_BlockHash p)) (be_privKey e))"
  shows "\<exists>e' e'' b. tryFinalizePrecommitsLocked cx e = Some e' \<and> GetBlock (be_store e') (p_Height p) = Inr b
    \<and> hdr_Hash b = p_BlockHash p \<and> hdr_PrevHash b = p_PrevHash p \<and> hdr_TxHashes b = p_TxHashes p
    \<and> hdr_LastCommitRound b = be_round e \<and> hdr_LastCommitVotes b = count_for (p_BlockHash p) (be_precommits e)
    \<and> GetLatestHeight (be_store e') = Inr (p_Height p) \<and> be_step e' = StepCommit
    \<and> wake e' = Some e'' \<and> be_height e'' = be_height e + 1 \<and> be_round e'' = 0 \<and> be_step e'' = StepNewHeight
    \<and> be_lockedRound e'' = -1 \<and> be_store e'' = be_store e'"
  using commit_quorum [OF assms] by blast

theorem commit_stores_witness:
  "\<exists>e'. tryFinalizePrecommitsLocked demo_ctx ((demo_precommitting (CHR ''a'') (CHR ''b''))\<lparr>be_precommits :=
       [(alice, demo_vote VotePrecommit (CHR ''a'')), (bob, demo_vote VotePrecommit (CHR ''b''))]\<rparr>) = Some e'
     \<and> GetLatestHeight (be_store e') = Inr 1"
proof -
  let ?e = "(demo_precommitting (CHR ''a'') (CHR ''b''))\<lparr>be_precommits :=
       [(alice, demo_vote VotePrecommit (CHR ''a'')), (bob, demo_vote VotePrecommit (CHR ''b''))]\<rparr>"
  have q: "QuorumSize (validatorCountLocked ?e) = 2" by (simp add: validatorCountLocked_def Count_def demo_quorum)
  have n: "x = demo_hash" if "x \<noteq> []" "2 \<le> count_for x (be_precommits ?e)" for x
    using that(2) by (auto simp: count_for_def split: if_splits)
  have c: "count_for demo_hash [(alice, demo_vote VotePrecommit (CHR ''a'')), (bob, demo_vote VotePrecommit (CHR ''b''))] = 2"
    by (simp add: count_for_def)
  have p: "p_BlockHash demo_prop = demo_hash" "p_Height demo_prop = 1" by (simp_all add: demo_prop_def)
  have k: "be_privKey ?e = [CHR ''a'']" by (simp add: demo_precommitting_def)
  show ?thesis
    using commit_stores [of ?e demo_prop demo_ctx] n by (auto simp: q c p k demo_healthy)
qed

section \<open>Equivocation\<close>

lemma IsJailed_jailed:
  assumes "healthy s" "map_of (db s) (jailKey (normalizeAddr a)) = Some (JailV r)" "now \<le> jail_Until r"
  shows "IsJailed s now a = (Inr (True, Some r), s)"
  using assms by (simp add: IsJailed_def Let_def norm_eq txn_Get_def)

lemma JailOnEquivocation_run:
  assumes "healthy s" "normalizeAddr a \<noteq> []" "0 < now" "in_i64 (now + DefaultJailDuration)"
  obtains r where "snd (JailOnEquivocation (Some s) now now a h rd x y) = Some (s\<lparr>db := kv_set (jailKey (normalizeAddr a)) (JailV r) (db s)\<rparr>)"
    "jail_Until r = now + DefaultJailDuration"
proof -
  define ev where "ev = ''equivocation height='' @ show_u64 h @ '' round='' @ show_int rd @ '' hash_a='' @ x @ '' hash_b='' @ y"
  define r where "r = \<lparr>jail_Address = normalizeAddr a, jail_Reason = ''equivocation'', jail_JailedAt = now,
    jail_Until = now + DefaultJailDuration, jail_Evidence = ev\<rparr>"
  have "JailValidator s now now a ''equivocation'' ev DefaultJailDuration = (Inr (), s\<lparr>db := kv_set (jailKey (normalizeAddr a)) (JailV r) (db s)\<rparr>)"
    using assms by (simp add: JailValidator_def Let_def norm_eq db_Update_def txn_Set_def r_def i64_id DefaultJailDuration_def)
  then show thesis by (intro that [of r]) (simp_all add: JailOnEquivocation_def ev_def r_def)
qed

lemma record_vote_store:
  assumes "v_Type v = VotePrevote \<or> map_of (be_precommits e) (ToLower (v_Voter v)) \<noteq> None" "record_vote cx v e = Some e'"
  shows "be_store e' = be_store e"
proof -
  have "be_store (tryFinalizePrevotesLocked cx d) = be_store d" for d
    by (simp add: tryFinalizePrevotesLocked_def Let_def split: option.split)
  then show ?thesis using assms by (auto simp: record_vote_def Let_def split: if_splits)
qed

text \<open>Neither votes nor commits touch jail records and the stored validator set.\<close>

definition same_office :: "Store \<Rightarrow> Store \<Rightarrow> bool" where
  "same_office s s' \<longleftrightarrow> s' = s\<lparr>db := db s'\<rparr> \<and> (\<forall>k. prefix ''jail:'' k \<or> k = validatorSetKey \<longrightarrow> map_of (db s') k = map_of (db s) k)"

lemma same_office_refl [simp]: "same_office s s"
  by (simp add: same_office_def)

lemma same_office_trans: "same_office a b \<Longrightarrow> same_office b c \<Longrightarrow> same_office a c"
  unfolding same_office_def by (metis Store.surjective Store.update_convs(1))

lemma same_office_healthy: "same_office s s' \<Longrightarrow> healthy s \<Longrightarrow> healthy s'"
  unfolding same_office_def by (metis healthy_simps(4))

lemma same_office_lookup:
  "same_office s s' \<Longrightarrow> map_of (db s') (jailKey a) = map_of (db s) (jailKey a)"
  "same_office s s' \<Longrightarrow> prefix ''jail:'' k \<or> k = validatorSetKey \<Longrightarrow> map_of (db s') k = map_of (db s) k"
  by (simp add: same_office_def jailKey_def) (auto simp: same_office_def)

lemma ApplyTx_office:
  assumes "ApplyTx s t = (x, s')"
  shows "same_office s s'"
proof -
  have "\<not> ledger_key k" if "prefix ''jail:'' k \<or> k = validatorSetKey" for k
    using that by (auto simp: ledger_key_def validatorSetKey_def metaKey_def prefix_def)
  then show ?thesis unfolding same_office_def using ApplyTx_other [OF assms] by blast
qed

lemma apply_pending_office: "apply_pending s ts = Some (ap, s') \<Longrightarrow> same_office s s'"
proof (induction s ts arbitrary: ap rule: apply_pending.induct)
  case (3 s t ts)
  obtain x s1 where run: "ApplyTx s t = (x, s1)" by fastforce
  show ?case
    using 3 run ApplyTx_office [OF run] by (cases x) (auto intro: same_office_trans)
qed auto

lemma SaveBlock_office: "same_office s (snd (SaveBlock s h))"
proof (cases "fst (SaveBlock s h)")
  case (Inr u)
  then have "SaveBlock s h = (Inr (), snd (SaveBlock s h))" by (simp add: prod_eq_iff)
  from SaveBlock_run [OF this] obtain d where "snd (SaveBlock s h) = s\<lparr>db := d\<rparr>"
    "d = kv_set (metaKey ''latest_height'') (RawV (show_u64 (hdr_Height h))) (kv_set (blockKey (hdr_Height h)) (BlockV h) (db s))" by simp
  then show ?thesis by (auto simp: same_office_def validatorSetKey_def metaKey_def blockKey_def)
qed (auto simp: SaveBlock_def db_Update_def txn_Set_def split: sum.splits if_splits)

lemma sealFromProposal_office:
  assumes "sealFromProposal E s p txs key = Some (x, s')"
  shows "same_office s s'"
proof -
  obtain ap s1 where ap: "apply_pending s txs = Some (ap, s1)" using assms by (auto simp: sealFromProposal_def split: option.splits)
  note o = apply_pending_office [OF ap]
  have "same_office s1 s2" if "SaveBlock s1 h = (y, s2)" for h y s2 using SaveBlock_office [of s1 h] that by simp
  then have "same_office s1 s'" using assms ap by (auto simp: sealFromProposal_def Let_def split: sum.splits prod.splits if_splits)
  with o show ?thesis by (rule same_office_trans)
qed

lemma record_vote_office:
  assumes "record_vote cx v e = Some e'"
  shows "same_office (be_store e) (be_store e')"
proof -
  have pv: "be_store (tryFinalizePrevotesLocked cx d) = be_store d" for d
    by (simp add: tryFinalizePrevotesLocked_def Let_def split: option.split)
  have nx: "be_store (next_round d) = be_store d" for d by (simp add: next_round_def)
  have cm: "same_office (be_store d) (be_store d')" if c: "commitLocked cx h vs d = Some d'" for h vs d d'
  proof -
    have "same_office s1 (snd (SaveBlock s1 hd))" for s1 hd by (rule SaveBlock_office)
    then show ?thesis
      using c by (auto simp: commitLocked_def advanceHeightLocked_def markCommitted_def Let_def
          split: option.splits if_splits prod.splits sum.splits dest!: sealFromProposal_office intro: same_office_trans)
  qed
  have pc: "same_office (be_store d) (be_store d')" if "tryFinalizePrecommitsLocked cx d = Some d'" for d d'
    using that cm [of _ _ "d\<lparr>be_step := StepCommit\<rparr>" d']
    by (auto simp: tryFinalizePrecommitsLocked_def Let_def nx split: if_splits option.splits)
  show ?thesis
    using assms pc [of "e\<lparr>be_precommits := kv_set (ToLower (v_Voter v)) v (be_precommits e)\<rparr>" e']
    by (auto simp: record_vote_def Let_def pv split: if_splits)
qed


text \<open>The demonstration: bob has prevoted nil before.\<close>

definition demo_equivocated :: BFTEngine where
  "demo_equivocated = (demo_prevoting (CHR ''a''))\<lparr>be_lastVotes :=
     [(bob @ ''|'' @ VotePrevote, \<lparr>vk_height = 1, vk_round = 0, vk_vtype = VotePrevote, vk_hash = []\<rparr>)]\<rparr>"

lemma bob_respelled [simp]: "ToLower ''0XB'' = bob" "TrimSpace ''0XB'' = ''0XB''"
  by (simp_all add: ToLower_def lower_char_def char_of_def bit_0 TrimSpace_def is_space_def)


section \<open>Weak points\<close>

text \<open>
  Double signing goes unpunished under another spelling. The previous votes are kept by the spelling of the voter's address, but
  signatures and the roster ignore case: a validator that respells its address in the contradicting prevote is not jailed.
\<close>

theorem respelled_vote_unjailed:
  assumes h: "healthy (be_store e)" and nj: "map_of (db (be_store e)) (jailKey (normalizeAddr (v_Voter v))) = None"
    and ver: "VerifyVote (cx_geth cx) (Some v) = Inr ()" "v_Type v = VotePrevote" and pos: "v_Height v = be_height e" "v_Round v \<le> be_round e"
    and known: "known_voter e (v_Voter v)"
    and prev: "EqualFold a (v_Voter v)" "map_of (be_lastVotes e) (a @ ''|'' @ VotePrevote) = Some k" "vk_height k = v_Height v"
      "vk_round k = v_Round v" "vk_hash k \<noteq> v_BlockHash v"
    and new: "map_of (be_lastVotes e) (v_Voter v @ ''|'' @ VotePrevote) = None"
  shows "\<exists>e'. HandleVote cx (Some v) e = Some e' \<and> be_store e' = be_store e"
proof -
  have j: "IsJailed (be_store e) (cx_now cx) (v_Voter v) = (Inr (False, None), be_store e)"
    using h nj by (simp add: IsJailed_def Let_def norm_eq txn_Get_def)
  have run: "HandleVote cx (Some v) e = record_vote cx v (note_vote cx v e)"
    using ver(1) j pos known by (simp add: HandleVote_def Let_def)
  have "\<exists>e'. record_vote cx v (note_vote cx v e) = Some e'" using ver(2) by (simp add: record_vote_def Let_def)
  then obtain e' where e': "record_vote cx v (note_vote cx v e) = Some e'" by blast
  have "be_store e' = be_store (note_vote cx v e)" using ver(2) by (intro record_vote_store [OF _ e']) simp
  then show ?thesis using run e' new ver(2) by (simp add: note_vote_def Let_def)
qed

theorem respelled_vote_unjailed_witness:
  "\<exists>e'. HandleVote demo_ctx (Some ((demo_vote VotePrevote (CHR ''b''))\<lparr>v_Voter := ''0XB''\<rparr>)) demo_equivocated = Some e'
     \<and> map_of (db (be_store e')) (jailKey bob) = None"
proof -
  let ?v = "(demo_vote VotePrevote (CHR ''b''))\<lparr>v_Voter := ''0XB''\<rparr>"
  have v: "VerifyVote keyed_geth (Some ?v) = Inr ()" by (simp add: VerifyVote_def EqualFold_def)
  have known: "known_voter demo_equivocated (v_Voter ?v)"
    by (simp add: demo_equivocated_def known_voter_def Count_def EqualFold_def)
  have nj: "map_of (db (be_store demo_equivocated)) (jailKey a) = None" for a
    by (simp add: demo_equivocated_def demo_store_def jailKey_def)
  obtain e' where "HandleVote demo_ctx (Some ?v) demo_equivocated = Some e'" "be_store e' = be_store demo_equivocated"
    using respelled_vote_unjailed [OF _ nj _ _ _ _ known, of demo_ctx bob] v demo_hash_real [symmetric]
    by (auto simp: demo_equivocated_def demo_healthy EqualFold_def)
  then show ?thesis using nj by auto
qed

text \<open>
  Anyone who can sign can move the round: a vote for a higher round of the current height from an
  address that is not a validator makes the engine drop its proposal and its books and adopt that
  round, because the roster is consulted only afterwards.
\<close>

theorem outsider_moves_round:
  assumes "VerifyVote (cx_geth cx) (Some v) = Inr ()" "fst (IsJailed (be_store e) (cx_now cx) (v_Voter v)) = Inr (False, None)"
    and "v_Height v = be_height e" "be_round e < v_Round v" "\<not> known_voter e (v_Voter v)"
  shows "\<exists>e'. HandleVote cx (Some v) e = Some e' \<and> be_round e' = v_Round v \<and> be_step e' = StepPropose
    \<and> be_proposal e' = None \<and> be_prevotes e' = [] \<and> be_precommits e' = []"
proof -
  obtain s1 where j: "IsJailed (be_store e) (cx_now cx) (v_Voter v) = (Inr (False, None), s1)" using assms(2) by (metis prod.collapse)
  have "\<not> known_voter (adopt_round (v_Round v) (e\<lparr>be_store := s1\<rparr>)) (v_Voter v)"
    using assms(5) by (auto simp: known_voter_def adopt_round_def split: option.splits if_splits)
  then show ?thesis
    using assms j by (simp add: HandleVote_def Let_def) (simp add: adopt_round_def)
qed

text \<open>The round after the last one is the first negative one.\<close>

theorem round_wraps:
  "be_step e = StepPrecommit \<Longrightarrow> be_round e = 2 ^ 31 - 1 \<Longrightarrow> be_round (runPrecommit_timeout e) = - (2 ^ 31)"
  by (simp add: runPrecommit_timeout_def next_round_def i32_def)

text \<open>
  The seal a validator puts on a block it commits is its own, while the header names the leader as the
  proposer: unless the node is the leader, the announced block does not pass the sealer check of
  the receiving nodes.
\<close>

theorem follower_seal_rejected:
  assumes E: "geth_laws E" and key: "key \<noteq> []" "AddressFromPrivateKey E key = Inr a" "\<not> EqualFold a (p_Proposer p)"
    and run: "sealFromProposal E s p ts key = Some (Inr res, s')"
  shows "VerifySealerSignature E (p_Height p) (p_BlockHash p) (hdr_Signature (sr_Header res)) (p_Proposer p) \<noteq> Inr ()"
proof -
  have sg: "SignEIP191 E (BuildChainSigningMessage (p_Height p) (p_BlockHash p)) key = Inr (hdr_Signature (sr_Header res))"
    using run key(1) by (auto simp: sealFromProposal_def Let_def split: option.splits prod.splits sum.splits)
  from signed_verifies [OF E sg key(2) EqualFold_refl]
  obtain rec where "RecoverAddress E (BuildChainSigningMessage (p_Height p) (p_BlockHash p)) (hdr_Signature (sr_Header res)) = Inr rec" "EqualFold rec a"
    by (auto simp: VerifyEIP191_def split: sum.splits)
  then have "VerifyEIP191 E (BuildChainSigningMessage (p_Height p) (p_BlockHash p)) (hdr_Signature (sr_Header res)) (p_Proposer p) = Inr False"
    using key(3) by (auto simp: VerifyEIP191_def dest: EqualFold_sym EqualFold_trans)
  then show ?thesis by (simp add: VerifySealerSignature_def)
qed

section \<open>The bodies of a proposal\<close>

text \<open>
  Neither the signature of a proposal nor its block hash is compared with the transactions sent along.
  Whoever forwards an acceptable proposal can put other transactions into it: it is taken up with
  the same votes, and a commit applies those transactions, signed or not.
\<close>

lemma other_fields:
  "p_Height (p\<lparr>p_Txs := ts\<rparr>) = p_Height p" "p_Round (p\<lparr>p_Txs := ts\<rparr>) = p_Round p"
  "p_Proposer (p\<lparr>p_Txs := ts\<rparr>) = p_Proposer p" "p_BlockHash (p\<lparr>p_Txs := ts\<rparr>) = p_BlockHash p"
  by simp_all

lemma bodies_unread [simp]:
  "validateProposalLocked s (p\<lparr>p_Txs := ts\<rparr>) = validateProposalLocked s p"
  "VerifyProposalBFT E (Some (p\<lparr>p_Txs := ts\<rparr>)) = VerifyProposalBFT E (Some p)"
  by (simp_all add: validateProposalLocked_def VerifyProposalBFT_def cong: sum.case_cong if_cong)

lemma broadcast_casts:
  "be_cast (broadcastVoteLocked cx ty h e) = be_cast e @
     (if be_privKey e = [] \<or> be_localAddr e = [] then []
      else case SignVote (cx_geth cx) ty (be_height e) (be_round e) h (be_localAddr e) (be_privKey e) (cx_now cx) of
        Inl _ \<Rightarrow> [] | Inr v \<Rightarrow> [v])"
  by (simp add: broadcastVoteLocked_def Let_def split: sum.split)

lemma enterPrevote_casts:
  "be_cast (enterPrevoteLocked cx (e\<lparr>be_proposal := Some (p\<lparr>p_Txs := ts\<rparr>), be_validHash := h, be_validRound := r, be_pendingTxs := us\<rparr>))
     = be_cast (enterPrevoteLocked cx (e\<lparr>be_proposal := Some p, be_validHash := h, be_validRound := r\<rparr>))"
  "be_cast (enterPrevoteLocked cx (e\<lparr>be_proposal := Some p, be_validHash := h, be_validRound := r, be_pendingTxs := us\<rparr>))
     = be_cast (enterPrevoteLocked cx (e\<lparr>be_proposal := Some p, be_validHash := h, be_validRound := r\<rparr>))"
  by (simp_all add: enterPrevoteLocked_def broadcast_casts Let_def)

lemma accept_bodies:
  assumes acc: "be_proposal (accept_proposal cx p e) = Some p" "be_proposal e \<noteq> Some p" and ts: "ts \<noteq> []"
  shows "be_proposal (accept_proposal cx (p\<lparr>p_Txs := ts\<rparr>) e) = Some (p\<lparr>p_Txs := ts\<rparr>)
    \<and> be_pendingTxs (accept_proposal cx (p\<lparr>p_Txs := ts\<rparr>) e) = ts
    \<and> be_cast (accept_proposal cx (p\<lparr>p_Txs := ts\<rparr>) e) = be_cast (accept_proposal cx p e)"
proof -
  obtain expected s1 where l: "(case be_leader e of None \<Rightarrow> ([], be_store e)
      | Some l \<Rightarrow> LeaderForHeight l (be_store e) (cx_now cx) (p_Height p)) = (expected, s1)" by fastforce
  have "expected = [] \<or> EqualFold (p_Proposer p) expected" "validateProposalLocked s1 p = Inr ()"
    using acc by (auto simp: accept_proposal_def l Let_def split: sum.splits if_splits)
  then show ?thesis
    using ts unfolding accept_proposal_def other_fields bodies_unread l by (auto simp: enterPrevote_casts Let_def)
qed

theorem proposal_bodies_unchecked:
  assumes run: "HandleProposal cx (Some p) e = Some e1" and acc: "be_proposal e1 = Some p" "be_proposal e \<noteq> Some p" and ts: "ts \<noteq> []"
  shows "\<exists>e2. HandleProposal cx (Some (p\<lparr>p_Txs := ts\<rparr>)) e = Some e2 \<and> be_proposal e2 = Some (p\<lparr>p_Txs := ts\<rparr>)
    \<and> be_pendingTxs e2 = ts \<and> be_cast e2 = be_cast e1
    \<and> (\<forall>s t s'. ts = [Some t] \<and> ApplyTx s t = (Inr (), s') \<longrightarrow> apply_pending s (be_pendingTxs e2) = Some ([t], s'))"
proof -
  define e0 where "e0 = (if p_Round p > be_round e then adopt_round (p_Round p) e else e)"
  have e0: "be_proposal e0 = None \<or> e0 = e" by (auto simp: e0_def adopt_round_def)
  have run': "HandleProposal cx (Some (p\<lparr>p_Txs := ts\<rparr>)) e = Some (accept_proposal cx (p\<lparr>p_Txs := ts\<rparr>) e0)"
    and e1: "e1 = accept_proposal cx p e0"
    using run acc e0 unfolding HandleProposal_def Let_def option.case other_fields bodies_unread e0_def [symmetric]
    by (simp_all split: sum.splits if_splits)
  have "be_proposal e0 \<noteq> Some p" using e0 acc(2) by auto
  from accept_bodies [OF acc(1) [unfolded e1] this ts] run' show ?thesis by (auto simp: e1)
qed

end
