(* ===== verification/Uptime.thy ===== *)
theory Uptime
  imports Complex_Main Validators
begin

text \<open>
  Package \<^verbatim>\<open>internal/state\<close>, file \<^verbatim>\<open>uptime.go\<close>: heartbeats of nodes, counted per epoch.
  \<open>now\<close> is a reading of \<^verbatim>\<open>time.Now().UnixMilli()\<close>. The quotient \<^verbatim>\<open>now / (epochSeconds * 1000)\<close> is
  an \<^verbatim>\<open>int64\<close> division whose divisor wraps: a divisor of zero panics, which is \<open>None\<close>.
  \<^verbatim>\<open>NodeTier\<close> is a string in the source; what is stored is one of its two constants.
  A float64 operation rounds its exact result: \<open>rnd\<close> stands for that rounding.
\<close>

definition hbKey :: "string \<Rightarrow> string" where
  "hbKey addr = ''hb:'' @ ToLower addr"

definition epochScoreKey :: "int \<Rightarrow> string \<Rightarrow> string" where
  "epochScoreKey epochID addr = ''epoch:'' @ show_int epochID @ '':'' @ ToLower addr"

fun as_Heartbeat :: "Value \<Rightarrow> HeartbeatRecord res" where
  "as_Heartbeat (HeartbeatV r) = Inr r" | "as_Heartbeat _ = Inl JsonErr"

text \<open>The zero value of the record; its tier is never read before it is assigned.\<close>

definition zero_heartbeat :: HeartbeatRecord where
  "zero_heartbeat = \<lparr>hb_Address = [], hb_NodeID = [], hb_Tier = TierLight, hb_LastSeen = 0,
     hb_EpochID = 0, hb_Count = 0, hb_FirstSeen = 0\<rparr>"

definition CurrentEpochID :: "int \<Rightarrow> int \<Rightarrow> int option" where
  "CurrentEpochID now epochSeconds =
     (let secs = (if epochSeconds \<le> 0 then 604800 else epochSeconds);
          ms = i64 (secs * 1000)
      in if ms = 0 then None else Some (i64 (go_div now ms)))"

definition next_heartbeat ::
  "HeartbeatRecord \<Rightarrow> string \<Rightarrow> string \<Rightarrow> NodeTier \<Rightarrow> int \<Rightarrow> int \<Rightarrow> HeartbeatRecord" where
  "next_heartbeat rec address nodeID tier now epochID =
     (if hb_EpochID rec \<noteq> epochID
      then \<lparr>hb_Address = ToLower address, hb_NodeID = nodeID, hb_Tier = tier, hb_LastSeen = now,
            hb_EpochID = epochID, hb_Count = 1, hb_FirstSeen = now\<rparr>
      else rec\<lparr>hb_Address := ToLower address, hb_NodeID := nodeID, hb_Tier := tier, hb_LastSeen := now,
                hb_Count := i64 (hb_Count rec + 1),
                hb_FirstSeen := (if hb_FirstSeen rec = 0 then now else hb_FirstSeen rec)\<rparr>)"

text \<open>A record that cannot be decoded is ignored: the error of \<^verbatim>\<open>item.Value\<close> is dropped.\<close>

definition old_heartbeat :: "Store \<Rightarrow> string \<Rightarrow> HeartbeatRecord res" where
  "old_heartbeat s address =
     (case txn_Get s (db s) (hbKey address) of
        Inr v \<Rightarrow> (case as_Heartbeat v of Inr r \<Rightarrow> Inr r | Inl _ \<Rightarrow> Inr zero_heartbeat)
      | Inl KeyNotFound \<Rightarrow> Inr zero_heartbeat
      | Inl e \<Rightarrow> Inl e)"

definition RecordHeartbeat ::
  "Store \<Rightarrow> int \<Rightarrow> string \<Rightarrow> string \<Rightarrow> string \<Rightarrow> int \<Rightarrow> (HeartbeatRecord res \<times> Store) option" where
  "RecordHeartbeat s now address nodeID tier0 epochSeconds =
     (if address = [] then Some (Inl (Errorf ''address required''), s)
      else
        let tier = (if tier0 \<noteq> ''full'' then TierLight else TierFull);
            secs = (if epochSeconds \<le> 0 then 604800 else epochSeconds);
            ms = i64 (secs * 1000)
        in if ms = 0 then None
           else
             let epochID = i64 (go_div now ms)
             in Some (case old_heartbeat s address of
                  Inl e \<Rightarrow> (Inl e, s)
                | Inr rec0 \<Rightarrow>
                    (let rec = next_heartbeat rec0 address nodeID tier now epochID
                     in case db_Update s (\<lambda>d. txn_Set_all s d
                              [(hbKey address, HeartbeatV rec),
                               (epochScoreKey epochID address, HeartbeatV rec)]) of
                          (Inl e, s') \<Rightarrow> (Inl e, s')
                        | (Inr _, s') \<Rightarrow> (Inr rec, s'))))"

definition GetHeartbeat :: "Store \<Rightarrow> string \<Rightarrow> HeartbeatRecord res" where
  "GetHeartbeat s address =
     (case txn_Get s (db s) (hbKey address) of
        Inl KeyNotFound \<Rightarrow> Inl (Errorf ''not found'')
      | Inl e \<Rightarrow> Inl e
      | Inr v \<Rightarrow> as_Heartbeat v)"

record UptimeScore =
  us_Address :: string
  us_NodeID :: string
  us_Tier :: NodeTier
  us_EpochID :: int
  us_Count :: int
  us_LastSeen :: int
  us_ApproxRatio :: rat

definition GetUptimeScore :: "(rat \<Rightarrow> rat) \<Rightarrow> Store \<Rightarrow> string \<Rightarrow> int \<Rightarrow> UptimeScore res" where
  "GetUptimeScore rnd s address epochSeconds =
     (case GetHeartbeat s address of
        Inl e \<Rightarrow> Inl e
      | Inr rec \<Rightarrow>
          let secs = (if epochSeconds \<le> 0 then 604800 else epochSeconds);
              expected0 = go_div secs 180;
              expected = (if expected0 < 1 then 1 else expected0);
              ratio0 = rnd (rnd (of_int (hb_Count rec)) / rnd (of_int expected));
              ratio = (if ratio0 > 1 then 1 else ratio0)
          in Inr \<lparr>us_Address = hb_Address rec, us_NodeID = hb_NodeID rec, us_Tier = hb_Tier rec,
                  us_EpochID = hb_EpochID rec, us_Count = hb_Count rec, us_LastSeen = hb_LastSeen rec,
                  us_ApproxRatio = ratio\<rparr>)"

fun list_scores :: "Store \<Rightarrow> nat \<Rightarrow> DB \<Rightarrow> HeartbeatRecord list \<Rightarrow> HeartbeatRecord list res" where
  "list_scores s limit [] out = Inr out"
| "list_scores s limit ((k, v) # es) out =
     (if getFault s k then Inl BadgerErr
      else case as_Heartbeat v of
             Inl e \<Rightarrow> Inl e
           | Inr rec \<Rightarrow>
               if length (out @ [rec]) \<ge> limit then Inr (out @ [rec])
               else list_scores s limit es (out @ [rec]))"

definition ListEpochScores :: "Store \<Rightarrow> int \<Rightarrow> int \<Rightarrow> HeartbeatRecord list res" where
  "ListEpochScores s epochID limit =
     (let cap = (if limit \<le> 0 \<or> limit > 500 then 100 else limit)
      in list_scores s (nat cap) (iter_prefix (''epoch:'' @ show_int epochID @ '':'') (db s)) [])"

section \<open>Keys\<close>

lemma hbKey_eq [simp]: "hbKey a = hbKey b \<longleftrightarrow> ToLower a = ToLower b"
  by (simp add: hbKey_def)

lemma epochScoreKey_eq [simp]: "epochScoreKey e a = epochScoreKey f b \<longleftrightarrow> e = f \<and> ToLower a = ToLower b"
proof -
  have "\<not> num_char (CHR '':'')" by (simp add: num_char_def is_digit_def less_eq_char_def)
  then show ?thesis
    using show_int_until [of e "CHR '':''" "ToLower a" f "ToLower b"] by (auto simp: epochScoreKey_def)
qed

lemma uptime_keys [simp]:
  "hbKey a \<noteq> epochScoreKey e b" "epochScoreKey e b \<noteq> hbKey a"
  "hbKey a \<noteq> accountKey b" "accountKey b \<noteq> hbKey a"
  "epochScoreKey e a \<noteq> accountKey b" "accountKey b \<noteq> epochScoreKey e a"
  by (simp_all add: hbKey_def epochScoreKey_def accountKey_def)

lemma prefix_epochScoreKey:
  "prefix (''epoch:'' @ show_int e @ '':'') (epochScoreKey f a) \<longleftrightarrow> e = f"
proof
  assume "prefix (''epoch:'' @ show_int e @ '':'') (epochScoreKey f a)"
  then obtain u where "show_int f @ CHR '':'' # ToLower a = show_int e @ CHR '':'' # u"
    by (auto simp: epochScoreKey_def prefix_def)
  then have "f = e" using show_int_until [of f "CHR '':''" "ToLower a" e u]
    by (auto simp: num_char_def is_digit_def less_eq_char_def)
  then show "e = f" ..
qed (simp add: epochScoreKey_def prefix_def)

section \<open>Recording\<close>

text \<open>What a node has on record; a missing or undecodable record counts as the zero record.\<close>

definition heartbeat_of :: "DB \<Rightarrow> string \<Rightarrow> HeartbeatRecord" where
  "heartbeat_of d a = (case map_of d (hbKey a) of Some (HeartbeatV r) \<Rightarrow> r | _ \<Rightarrow> zero_heartbeat)"

definition tier_of :: "string \<Rightarrow> NodeTier" where
  "tier_of t = (if t = ''full'' then TierFull else TierLight)"

lemma RecordHeartbeat_healthy:
  assumes "healthy s" "a \<noteq> []" "CurrentEpochID now secs = Some e"
  shows "RecordHeartbeat s now a nid t secs =
    (let r = next_heartbeat (heartbeat_of (db s) a) a nid (tier_of t) now e
     in Some (Inr r, s\<lparr>db := kv_set (epochScoreKey e a) (HeartbeatV r) (kv_set (hbKey a) (HeartbeatV r) (db s))\<rparr>))"
proof -
  have "old_heartbeat s a = Inr (heartbeat_of (db s) a)"
    using assms(1)
    by (auto simp: old_heartbeat_def txn_Get_def heartbeat_of_def split: option.splits) (auto split: Value.splits)
  then show ?thesis
    unfolding RecordHeartbeat_def Let_def using assms
    by (auto simp: CurrentEpochID_def Let_def tier_of_def db_Update_def txn_Set_def split: if_splits)
qed

lemma RecordHeartbeat_panics:
  assumes "a \<noteq> []"
  shows "RecordHeartbeat s now a nid t secs = None \<longleftrightarrow> CurrentEpochID now secs = None"
  using assms by (simp add: RecordHeartbeat_def CurrentEpochID_def Let_def)

text \<open>With an epoch length the configuration can hold, the divisor does not wrap.\<close>

lemma div_le_self_int: "0 \<le> a \<Longrightarrow> 0 < b \<Longrightarrow> a div b \<le> (a :: int)"
  by (cases "a = 0") (auto intro: int_div_le_self)

lemma CurrentEpochID_total:
  assumes "secs \<le> 0 \<or> secs * 1000 < 2 ^ 63" "0 \<le> now" "now < 2 ^ 63"
  shows "CurrentEpochID now secs = Some (now div ((if secs \<le> 0 then 604800 else secs) * 1000))"
proof -
  let ?m = "(if secs \<le> 0 then 604800 else secs) * 1000 :: int"
  have m: "0 < ?m" "i64 ?m = ?m" using assms(1) by (auto simp: i64_iff in_i64_def)
  have "0 \<le> now div ?m" "now div ?m \<le> now"
    using m assms(2) by (auto simp: pos_imp_zdiv_nonneg_iff intro!: div_le_self_int)
  then have "i64 (now div ?m) = now div ?m" using assms(3) by (intro i64_id) (simp add: in_i64_def)
  with m assms(2) show ?thesis
    unfolding CurrentEpochID_def Let_def by (simp add: go_div_nonneg)
qed


text \<open>Heartbeats of one node in a row: the time, the node id and the tier of each.\<close>

fun record_all :: "Store \<Rightarrow> string \<Rightarrow> int \<Rightarrow> (int \<times> string \<times> string) list \<Rightarrow> Store option" where
  "record_all s a secs [] = Some s"
| "record_all s a secs ((now, nid, t) # hs) =
     (case RecordHeartbeat s now a nid t secs of
        None \<Rightarrow> None
      | Some (_, s') \<Rightarrow> record_all s' a secs hs)"

lemma heartbeat_of_set [simp]:
  "heartbeat_of (kv_set (epochScoreKey e a) v (kv_set (hbKey a) (HeartbeatV r) d)) a = r"
  by (simp add: heartbeat_of_def)

text \<open>The record after a run of heartbeats that all fall into epoch \<open>e\<close>.\<close>

definition counted :: "DB \<Rightarrow> string \<Rightarrow> int \<Rightarrow> int \<Rightarrow> int \<Rightarrow> int \<Rightarrow> bool" where
  "counted d a e n first seen \<longleftrightarrow>
     (\<exists>r. map_of d (hbKey a) = Some (HeartbeatV r) \<and> map_of d (epochScoreKey e a) = Some (HeartbeatV r)
        \<and> hb_Address r = ToLower a \<and> hb_EpochID r = e \<and> hb_Count r = n \<and> hb_FirstSeen r = first \<and> hb_LastSeen r = seen)"

lemma counted_next:
  assumes "counted d a e n first seen" "0 \<le> n" "n + 1 < 2 ^ 63" "first \<noteq> 0"
    and r: "r = next_heartbeat (heartbeat_of d a) a nid t now e"
  shows "counted (kv_set (epochScoreKey e a) (HeartbeatV r) (kv_set (hbKey a) (HeartbeatV r) d)) a e (n + 1) first now"
  using assms
  by (auto simp: counted_def heartbeat_of_def next_heartbeat_def i64_id in_i64_def)

lemma counted_first:
  assumes "hb_EpochID (heartbeat_of d a) \<noteq> e \<or> heartbeat_of d a = zero_heartbeat" "now \<noteq> 0"
    and r: "r = next_heartbeat (heartbeat_of d a) a nid t now e"
  shows "counted (kv_set (epochScoreKey e a) (HeartbeatV r) (kv_set (hbKey a) (HeartbeatV r) d)) a e 1 now now"
  using assms
  by (auto simp: counted_def next_heartbeat_def zero_heartbeat_def i64_id in_i64_def)

lemma record_one:
  assumes "healthy s" "a \<noteq> []" "CurrentEpochID now secs = Some e"
  obtains r s1 where "RecordHeartbeat s now a nid t secs = Some (Inr r, s1)" "healthy s1"
    "\<And>k. k \<noteq> hbKey a \<Longrightarrow> k \<noteq> epochScoreKey e a \<Longrightarrow> map_of (db s1) k = map_of (db s) k"
    "\<And>n first seen. counted (db s) a e n first seen \<Longrightarrow> 0 \<le> n \<Longrightarrow> n + 1 < 2 ^ 63 \<Longrightarrow> first \<noteq> 0 \<Longrightarrow>
       counted (db s1) a e (n + 1) first now"
    "hb_EpochID (heartbeat_of (db s) a) \<noteq> e \<or> heartbeat_of (db s) a = zero_heartbeat \<Longrightarrow> now \<noteq> 0 \<Longrightarrow>
       counted (db s1) a e 1 now now"
proof -
  define r where "r = next_heartbeat (heartbeat_of (db s) a) a nid (tier_of t) now e"
  define s1 where "s1 = s\<lparr>db := kv_set (epochScoreKey e a) (HeartbeatV r) (kv_set (hbKey a) (HeartbeatV r) (db s))\<rparr>"
  show thesis
  proof (rule that [of r s1])
    show "RecordHeartbeat s now a nid t secs = Some (Inr r, s1)"
      using RecordHeartbeat_healthy [OF assms, of nid t] by (simp add: r_def s1_def Let_def)
    show "healthy s1" using assms(1) by (simp add: s1_def)
  qed (use counted_next [OF _ _ _ _ r_def] counted_first [OF _ _ r_def] in \<open>auto simp: s1_def\<close>)
qed

lemma record_all_counted:
  assumes "healthy s" "a \<noteq> []" "\<forall>h \<in> set hs. CurrentEpochID (fst h) secs = Some e"
    "counted (db s) a e n first seen" "0 \<le> n" "n + int (length hs) < 2 ^ 63" "first \<noteq> 0"
  shows "\<exists>s'. record_all s a secs hs = Some s' \<and> healthy s'
    \<and> counted (db s') a e (n + int (length hs)) first (if hs = [] then seen else fst (List.last hs))
    \<and> (\<forall>k. k \<noteq> hbKey a \<longrightarrow> k \<noteq> epochScoreKey e a \<longrightarrow> map_of (db s') k = map_of (db s) k)"
  using assms
proof (induction hs arbitrary: s n seen)
  case (Cons h hs)
  obtain now nid t where h: "h = (now, nid, t)" by (cases h) auto
  have e: "CurrentEpochID now secs = Some e" using Cons.prems(3) by (simp add: h)
  have n1: "n + 1 < 2 ^ 63" using Cons.prems(6) by simp
  obtain r s1 where
    rec: "RecordHeartbeat s now a nid t secs = Some (Inr r, s1)" "healthy s1"
    and frame: "\<And>k. k \<noteq> hbKey a \<Longrightarrow> k \<noteq> epochScoreKey e a \<Longrightarrow> map_of (db s1) k = map_of (db s) k"
    and again: "\<And>n first seen. counted (db s) a e n first seen \<Longrightarrow> 0 \<le> n \<Longrightarrow> n + 1 < 2 ^ 63 \<Longrightarrow> first \<noteq> 0 \<Longrightarrow>
       counted (db s1) a e (n + 1) first now"
    and fresh: "hb_EpochID (heartbeat_of (db s) a) \<noteq> e \<or> heartbeat_of (db s) a = zero_heartbeat \<Longrightarrow> now \<noteq> 0 \<Longrightarrow>
       counted (db s1) a e 1 now now"
    by (rule record_one [OF Cons.prems(1,2) e, of nid t]) blast
  have c1: "counted (db s1) a e (n + 1) first now"
    using Cons.prems(4,5,7) n1 by (intro again)
  obtain s' where s': "record_all s1 a secs hs = Some s'" "healthy s'"
    "counted (db s') a e (n + 1 + int (length hs)) first (if hs = [] then now else fst (List.last hs))"
    "\<forall>k. k \<noteq> hbKey a \<longrightarrow> k \<noteq> epochScoreKey e a \<longrightarrow> map_of (db s') k = map_of (db s1) k"
    using Cons.IH [OF rec(2) Cons.prems(2) _ c1] Cons.prems(3,5-7) by auto
  have "n + int (length (h # hs)) = n + 1 + int (length hs)" by simp
  then have "counted (db s') a e (n + int (length (h # hs))) first (fst (List.last (h # hs)))"
    using s'(3) by (simp only:) (simp add: h split: if_splits)
  moreover have "record_all s a secs (h # hs) = Some s'" using rec(1) s'(1) by (simp add: h)
  moreover have "\<forall>k. k \<noteq> hbKey a \<longrightarrow> k \<noteq> epochScoreKey e a \<longrightarrow> map_of (db s') k = map_of (db s) k"
    using s'(4) frame by simp
  ultimately show ?case using s'(2) by (intro exI [of _ s']) simp
qed auto

text \<open>
  In an epoch a node has not yet been seen in, a run of heartbeats leaves one record per node
  with the number of heartbeats, the time of the first and of the last one, stored both under the
  node and in the index of the epoch; nothing else in the store changes, and no heartbeat fails.
\<close>

theorem heartbeats_counted:
  assumes h: "healthy s" and a: "a \<noteq> []" and hs: "hs \<noteq> []" "int (length hs) < 2 ^ 63"
    and e: "\<forall>h \<in> set hs. CurrentEpochID (fst h) secs = Some e" and now: "fst (hd hs) \<noteq> 0"
    and new: "hb_EpochID (heartbeat_of (db s) a) \<noteq> e \<or> map_of (db s) (hbKey a) = None"
  shows "\<exists>s' r. record_all s a secs hs = Some s' \<and> GetHeartbeat s' a = Inr r
    \<and> hb_Address r = ToLower a \<and> hb_EpochID r = e \<and> hb_Count r = int (length hs)
    \<and> hb_FirstSeen r = fst (hd hs) \<and> hb_LastSeen r = fst (List.last hs)
    \<and> map_of (db s') (epochScoreKey e a) = Some (HeartbeatV r)
    \<and> (\<forall>k. k \<noteq> hbKey a \<longrightarrow> k \<noteq> epochScoreKey e a \<longrightarrow> map_of (db s') k = map_of (db s) k)"
proof -
  obtain now nid t hs' where hs': "hs = (now, nid, t) # hs'" using hs(1) by (cases hs) auto
  have e': "CurrentEpochID now secs = Some e" using e by (simp add: hs')
  have z: "hb_EpochID (heartbeat_of (db s) a) \<noteq> e \<or> heartbeat_of (db s) a = zero_heartbeat"
    using new by (auto simp: heartbeat_of_def)
  obtain r s1 where
    rec: "RecordHeartbeat s now a nid t secs = Some (Inr r, s1)" "healthy s1"
    and frame: "\<And>k. k \<noteq> hbKey a \<Longrightarrow> k \<noteq> epochScoreKey e a \<Longrightarrow> map_of (db s1) k = map_of (db s) k"
    and again: "\<And>n first seen. counted (db s) a e n first seen \<Longrightarrow> 0 \<le> n \<Longrightarrow> n + 1 < 2 ^ 63 \<Longrightarrow> first \<noteq> 0 \<Longrightarrow>
       counted (db s1) a e (n + 1) first now"
    and fresh: "hb_EpochID (heartbeat_of (db s) a) \<noteq> e \<or> heartbeat_of (db s) a = zero_heartbeat \<Longrightarrow> now \<noteq> 0 \<Longrightarrow>
       counted (db s1) a e 1 now now"
    by (rule record_one [OF h a e', of nid t]) blast
  have c1: "counted (db s1) a e 1 now now" using z now by (intro fresh) (simp_all add: hs')
  obtain s' where s': "record_all s1 a secs hs' = Some s'" "healthy s'"
    "counted (db s') a e (1 + int (length hs')) now (if hs' = [] then now else fst (List.last hs'))"
    "\<forall>k. k \<noteq> hbKey a \<longrightarrow> k \<noteq> epochScoreKey e a \<longrightarrow> map_of (db s') k = map_of (db s1) k"
    using record_all_counted [OF rec(2) a _ c1, of hs' secs] e hs(2) now by (auto simp: hs')
  have l: "int (length hs) = 1 + int (length hs')" "fst (List.last hs) = (if hs' = [] then now else fst (List.last hs'))"
    by (simp_all add: hs')
  from s'(3) obtain r' where r': "map_of (db s') (hbKey a) = Some (HeartbeatV r')"
    "map_of (db s') (epochScoreKey e a) = Some (HeartbeatV r')" "hb_Address r' = ToLower a" "hb_EpochID r' = e"
    "hb_Count r' = int (length hs)" "hb_FirstSeen r' = now" "hb_LastSeen r' = fst (List.last hs)"
    unfolding counted_def l by blast
  have "GetHeartbeat s' a = Inr r'" using r'(1) s'(2) by (simp add: GetHeartbeat_def txn_Get_def)
  moreover have "record_all s a secs hs = Some s'" using rec(1) s'(1) by (simp add: hs')
  moreover have "fst (hd hs) = now" by (simp add: hs')
  moreover have "\<forall>k. k \<noteq> hbKey a \<longrightarrow> k \<noteq> epochScoreKey e a \<longrightarrow> map_of (db s') k = map_of (db s) k"
    using s'(4) frame by simp
  ultimately show ?thesis using r' by blast
qed


definition demo_heartbeats :: "(int \<times> string \<times> string) list" where
  "demo_heartbeats = [(1700000000000, ''n1'', ''full''), (1700000180000, ''n1'', ''light''), (1700000360000, ''n2'', ''full'')]"

definition uptime_store :: Store where
  "uptime_store = \<lparr>db = [], getFault = (\<lambda>_. False), setFault = (\<lambda>_. False), commitFault = False,
     totalMaxSupply = 0, minValidatorStake = 0, chainSigningAddr = [], numericChainID = 1\<rparr>"

lemma uptime_store_simps [simp]: "db uptime_store = []" "healthy uptime_store"
  by (simp_all add: uptime_store_def healthy_def)

theorem heartbeats_counted_witness:
  "\<exists>s' r. record_all uptime_store ''0xAb'' 604800 demo_heartbeats = Some s' \<and> GetHeartbeat s' ''0xAb'' = Inr r
    \<and> hb_Address r = ToLower ''0xAb'' \<and> hb_EpochID r = 2810 \<and> hb_Count r = int (length demo_heartbeats)"
proof -
  have "CurrentEpochID 1700000000000 604800 = Some 2810" "CurrentEpochID 1700000180000 604800 = Some 2810"
    "CurrentEpochID 1700000360000 604800 = Some 2810"
    by (simp_all add: CurrentEpochID_def i64_def go_div_def)
  then show ?thesis
    using heartbeats_counted [of uptime_store "''0xAb''" demo_heartbeats 604800 2810]
    by (auto simp: demo_heartbeats_def)
qed

section \<open>Scores of an epoch\<close>

text \<open>The index of the epochs: every entry is a record of the node and the epoch its key names.\<close>

definition epoch_indexed :: "DB \<Rightarrow> bool" where
  "epoch_indexed d \<longleftrightarrow> (\<forall>e \<in> set d. prefix ''epoch:'' (fst e) \<longrightarrow>
     (\<exists>r. snd e = HeartbeatV r \<and> fst e = epochScoreKey (hb_EpochID r) (hb_Address r)))"

lemma next_heartbeat_simps [simp]:
  "hb_EpochID (next_heartbeat r a nid t now e) = e" "hb_Address (next_heartbeat r a nid t now e) = ToLower a"
  by (simp_all add: next_heartbeat_def)

lemma epochScoreKey_lower [simp]: "epochScoreKey e (ToLower a) = epochScoreKey e a"
  by (simp add: epochScoreKey_def)

lemma RecordHeartbeat_indexed:
  assumes "RecordHeartbeat s now a nid t secs = Some (res, s')" "kv_sorted (db s)" "epoch_indexed (db s)"
  shows "kv_sorted (db s') \<and> epoch_indexed (db s')"
proof (cases "s' = s")
  case False
  with assms(1) obtain r0 ms where s': "\<not> commitFault s"
    "s' = s\<lparr>db := (let r = next_heartbeat r0 a nid (tier_of t) now (i64 (go_div now ms)) in
       kv_set (epochScoreKey (i64 (go_div now ms)) a) (HeartbeatV r) (kv_set (hbKey a) (HeartbeatV r) (db s)))\<rparr>"
    by (auto simp: RecordHeartbeat_def db_Update_def txn_Set_def Let_def tier_of_def split: if_splits sum.splits)
  have "\<not> prefix ''epoch:'' (hbKey a)" by (simp add: hbKey_def)
  then show ?thesis
    using assms(2,3) unfolding s'(2) by (auto simp: Let_def epoch_indexed_def set_kv_set)
qed (use assms in simp)

lemma list_scores_take:
  assumes "healthy s" "\<forall>e \<in> set es. \<exists>r. snd e = HeartbeatV r" "length out < cap"
  shows "list_scores s cap es out = Inr (out @ take (cap - length out) (map (\<lambda>e. case snd e of HeartbeatV r \<Rightarrow> r) es))"
  using assms
proof (induction es arbitrary: out)
  case (Cons e es)
  obtain k r where e: "e = (k, HeartbeatV r)" using Cons.prems(2) by (cases e) auto
  have cap: "cap - length out = Suc (cap - Suc (length out))" using Cons.prems(3) by simp
  show ?case
  proof (cases "Suc (length out) < cap")
    case True
    then show ?thesis using Cons.IH [of "out @ [r]"] Cons.prems(1,2) by (simp add: e cap)
  next
    case False
    then have "cap - Suc (length out) = 0" by simp
    with False Cons.prems(1) show ?thesis by (simp add: e cap)
  qed
qed simp

text \<open>The records of an epoch in the order of their keys.\<close>

definition scores_of :: "DB \<Rightarrow> int \<Rightarrow> HeartbeatRecord list" where
  "scores_of d epochID = map (\<lambda>e. case snd e of HeartbeatV r \<Rightarrow> r) (iter_prefix (''epoch:'' @ show_int epochID @ '':'') d)"

lemma epoch_prefix: "prefix (''epoch:'' @ show_int e @ '':'') k \<Longrightarrow> prefix ''epoch:'' k"
  by (auto simp: prefix_def)

lemma scores_of_iff:
  assumes "kv_sorted d" "epoch_indexed d"
  shows "r \<in> set (scores_of d e) \<longleftrightarrow> hb_EpochID r = e \<and> map_of d (epochScoreKey e (hb_Address r)) = Some (HeartbeatV r)"
proof -
  have dist: "distinct (map fst d)" by (rule kv_sorted_distinct [OF assms(1)])
  show ?thesis
  proof
    assume "r \<in> set (scores_of d e)"
    then obtain k v where k: "(k, v) \<in> set d" "prefix (''epoch:'' @ show_int e @ '':'') k" "r = (case v of HeartbeatV r \<Rightarrow> r)"
      by (auto simp: scores_of_def iter_prefix_def)
    with assms(2) epoch_prefix obtain r' where "v = HeartbeatV r'" "k = epochScoreKey (hb_EpochID r') (hb_Address r')"
      unfolding epoch_indexed_def by (metis fst_conv snd_conv)
    with k dist show "hb_EpochID r = e \<and> map_of d (epochScoreKey e (hb_Address r)) = Some (HeartbeatV r)"
      by (auto simp: prefix_epochScoreKey [simplified])
  next
    assume r: "hb_EpochID r = e \<and> map_of d (epochScoreKey e (hb_Address r)) = Some (HeartbeatV r)"
    then have "(epochScoreKey e (hb_Address r), HeartbeatV r) \<in> set (iter_prefix (''epoch:'' @ show_int e @ '':'') d)"
      by (auto simp: iter_prefix_def prefix_epochScoreKey [simplified] dest: map_of_SomeD)
    then show "r \<in> set (scores_of d e)" unfolding scores_of_def by force
  qed
qed

text \<open>Listing an epoch returns its records up to the cap, which defaults to 100 and is at most 500.\<close>

theorem ListEpochScores_exact:
  assumes "healthy s" "kv_sorted (db s)" "epoch_indexed (db s)"
  shows "ListEpochScores s e limit =
    Inr (take (nat (if limit \<le> 0 \<or> limit > 500 then 100 else limit)) (scores_of (db s) e))"
proof -
  have "\<forall>x \<in> set (iter_prefix (''epoch:'' @ show_int e @ '':'') (db s)). \<exists>r. snd x = HeartbeatV r"
    using assms(3) epoch_prefix unfolding epoch_indexed_def iter_prefix_def set_filter by blast
  then show ?thesis
    using list_scores_take [OF assms(1), of _ "[]"] by (simp add: ListEpochScores_def Let_def scores_of_def)
qed

text \<open>
  The ratio of a score lies between 0 and 1 and is 1 for a node with at least one heartbeat every
  three minutes of the epoch, for every rounding that is monotone and exact on 0 and 1.
\<close>

theorem GetUptimeScore_ratio:
  assumes "mono rnd" "rnd 0 = 0" "rnd 1 = 1" "GetHeartbeat s a = Inr r" "0 \<le> hb_Count r"
  shows "\<exists>u. GetUptimeScore rnd s a secs = Inr u \<and> us_Count u = hb_Count r
    \<and> 0 \<le> us_ApproxRatio u \<and> us_ApproxRatio u \<le> 1
    \<and> (0 < secs \<longrightarrow> secs \<le> 180 * hb_Count r \<longrightarrow> 0 < hb_Count r \<longrightarrow> us_ApproxRatio u = 1)"
proof -
  define ex where "ex = (let q = go_div (if secs \<le> 0 then 604800 else secs) 180 in if q < 1 then 1 else q)"
  have ex: "1 \<le> ex" by (simp add: ex_def Let_def)
  have pos: "1 \<le> rnd (of_int i)" if "1 \<le> i" for i
    using monoD [OF assms(1), of 1 "of_int i"] that assms(3) by simp
  have nonneg: "0 \<le> rnd (of_int (hb_Count r))"
    using monoD [OF assms(1), of 0 "of_int (hb_Count r)"] assms(2,5) by simp
  have q0: "0 \<le> rnd (of_int (hb_Count r)) / rnd (of_int ex)" using nonneg pos [OF ex] by simp
  have ratio0: "0 \<le> rnd (rnd (of_int (hb_Count r)) / rnd (of_int ex))"
    using monoD [OF assms(1) q0] assms(2) by simp
  have full: "1 \<le> rnd (rnd (of_int (hb_Count r)) / rnd (of_int ex))"
    if "0 < secs" "secs \<le> 180 * hb_Count r" "0 < hb_Count r"
  proof -
    have "secs div 180 \<le> hb_Count r" using that(2) by linarith
    then have "ex \<le> hb_Count r" using that by (simp add: ex_def Let_def go_div_nonneg)
    then have "rnd (of_int ex) \<le> rnd (of_int (hb_Count r))" by (intro monoD [OF assms(1)]) simp
    then have "1 \<le> rnd (of_int (hb_Count r)) / rnd (of_int ex)" using pos [OF ex] by simp
    from monoD [OF assms(1) this] show ?thesis using assms(3) by simp
  qed
  show ?thesis
    unfolding GetUptimeScore_def assms(4) using ratio0 full by (auto simp: Let_def ex_def)
qed

section \<open>What a heartbeat writes\<close>

lemma heartbeat_writes:
  assumes "RecordHeartbeat s now a nid t secs = Some (r, s')"
  shows "\<exists>x e. s' = s \<or> s' = s\<lparr>db := kv_set (epochScoreKey e a) (HeartbeatV x) (kv_set (hbKey a) (HeartbeatV x) (db s))\<rparr>"
proof -
  let ?w = "\<lambda>x e. db_Update s (\<lambda>d. txn_Set_all s d [(hbKey a, HeartbeatV x), (epochScoreKey e a, HeartbeatV x)])"
  have w: "snd (?w x e) = s \<or> snd (?w x e) = s\<lparr>db := kv_set (epochScoreKey e a) (HeartbeatV x) (kv_set (hbKey a) (HeartbeatV x) (db s))\<rparr>" for x e
    by (auto simp: db_Update_def txn_Set_def split: sum.split)
  let ?ms = "i64 ((if secs \<le> 0 then 604800 else secs) * 1000)"
  let ?e = "i64 (go_div now ?ms)"
  have "s' = s \<or> (\<exists>x e. s' = snd (?w x e))"
  proof (cases "a = [] \<or> ?ms = 0")
    case True
    then show ?thesis
    proof
      assume "a = []"
      with assms show ?thesis by (simp add: RecordHeartbeat_def)
    next
      assume "?ms = 0"
      then have "CurrentEpochID now secs = None" by (simp only: CurrentEpochID_def Let_def refl if_True)
      with assms show ?thesis using RecordHeartbeat_panics [of a s now nid t secs] by (cases "a = []") (simp_all add: RecordHeartbeat_def)
    qed
  next
    case False
    show ?thesis
    proof (cases "old_heartbeat s a")
      case (Inl e)
      have "Some (r, s') = Some (Inl e, s)"
        using assms False unfolding RecordHeartbeat_def Let_def Inl by (simp only: if_False de_Morgan_disj sum.case simp_thms)
      then show ?thesis by simp
    next
      case (Inr r0)
      let ?x = "next_heartbeat r0 a nid (if t \<noteq> ''full'' then TierLight else TierFull) now ?e"
      have "Some (r, s') = Some (case ?w ?x ?e of (Inl e, s') \<Rightarrow> (Inl e, s') | (Inr _, s') \<Rightarrow> (Inr ?x, s'))"
        using assms False unfolding RecordHeartbeat_def Let_def Inr by (simp only: if_False de_Morgan_disj sum.case simp_thms)
      then have "s' = snd (?w ?x ?e)" by (cases "?w ?x ?e") (auto split: sum.splits)
      then show ?thesis by blast
    qed
  qed
  with w show ?thesis by metis
qed

end
