(* ===== verification/GoNet.thy ===== *)
theory GoNet
  imports GoLib
begin

text \<open>
  The parts of Go's package \<^verbatim>\<open>net\<close> the sources call: \<^verbatim>\<open>SplitHostPort\<close> and \<^verbatim>\<open>ParseIP\<close> (of which only
  whether it succeeds is used), and \<^verbatim>\<open>strings.LastIndex\<close>, \<^verbatim>\<open>strings.Split\<close> for one byte.
\<close>

section \<open>Searching bytes\<close>

fun IndexByte :: "string \<Rightarrow> char \<Rightarrow> nat option" where
  "IndexByte [] c = None"
| "IndexByte (x # s) c = (if x = c then Some 0 else map_option Suc (IndexByte s c))"

definition LastIndexByte :: "string \<Rightarrow> char \<Rightarrow> nat option" where
  "LastIndexByte s c = map_option (\<lambda>i. length s - 1 - i) (IndexByte (rev s) c)"

text \<open>\<^verbatim>\<open>strings.Split(s, sep)\<close> for a separator of one byte: always at least one piece.\<close>

fun SplitByte :: "string \<Rightarrow> char \<Rightarrow> string list" where
  "SplitByte [] c = [[]]"
| "SplitByte (x # s) c =
     (if x = c then [] # SplitByte s c
      else case SplitByte s c of p # ps \<Rightarrow> (x # p) # ps | [] \<Rightarrow> [[x]])"

lemma IndexByte_None [simp]: "IndexByte s c = None \<longleftrightarrow> c \<notin> set s"
  by (induction s) auto

lemma IndexByte_Some: "IndexByte s c = Some i \<Longrightarrow> \<exists>u v. s = u @ c # v \<and> length u = i \<and> c \<notin> set u"
proof (induction s arbitrary: i)
  case (Cons x s)
  show ?case
  proof (cases "x = c")
    case False
    with Cons.prems obtain j where j: "IndexByte s c = Some j" "i = Suc j" by auto
    from Cons.IH [OF j(1)] obtain u v where "s = u @ c # v" "length u = j" "c \<notin> set u" by blast
    with j False show ?thesis by (intro exI [of _ "x # u"] exI [of _ v]) auto
  qed (use Cons.prems in \<open>auto intro: exI [of _ "[]"]\<close>)
qed simp

lemma IndexByte_append: "c \<notin> set u \<Longrightarrow> IndexByte (u @ c # v) c = Some (length u)"
  by (induction u) auto

lemma LastIndexByte_append: "c \<notin> set v \<Longrightarrow> LastIndexByte (u @ c # v) c = Some (length u)"
  by (simp add: LastIndexByte_def IndexByte_append)

lemma LastIndexByte_None [simp]: "LastIndexByte s c = None \<longleftrightarrow> c \<notin> set s"
  by (simp add: LastIndexByte_def)

lemma LastIndexByte_Some:
  assumes "LastIndexByte s c = Some i"
  shows "\<exists>u v. s = u @ c # v \<and> length u = i \<and> c \<notin> set v"
proof -
  from assms obtain j where j: "IndexByte (rev s) c = Some j" "i = length s - 1 - j"
    by (auto simp: LastIndexByte_def)
  from IndexByte_Some [OF j(1)] obtain u v where uv: "rev s = u @ c # v" "length u = j" "c \<notin> set u" by blast
  then have "s = rev v @ c # rev u" by (metis append_Cons append_Nil append_assoc rev.simps(2) rev_append rev_rev_ident)
  with uv j(2) show ?thesis by (intro exI [of _ "rev v"] exI [of _ "rev u"]) auto
qed

lemma SplitByte_not_Nil [simp]: "SplitByte s c \<noteq> []"
  by (induction s) (auto split: list.splits)

lemma SplitByte_clean: "p \<in> set (SplitByte s c) \<Longrightarrow> c \<notin> set p"
  by (induction s arbitrary: p) (auto split: list.splits if_splits)

lemma SplitByte_single: "c \<notin> set s \<Longrightarrow> SplitByte s c = [s]"
  by (induction s) auto

lemma SplitByte_cons: "c \<notin> set p \<Longrightarrow> SplitByte (p @ c # s) c = p # SplitByte s c"
  by (induction p) auto

section \<open>\<^verbatim>\<open>SplitHostPort\<close>\<close>

definition missingPort :: error where "missingPort = Errorf ''missing port in address''"

definition tooManyColons :: error where "tooManyColons = Errorf ''too many colons in address''"

text \<open>The last checks and the result: no bracket may stand outside the positions already consumed.\<close>

definition split_finish :: "string \<Rightarrow> string \<Rightarrow> nat \<Rightarrow> nat \<Rightarrow> nat \<Rightarrow> (string \<times> string) res" where
  "split_finish hp host i j k =
     (if CHR ''['' \<in> set (drop j hp) then Inl (Errorf ''unexpected '[' in address'')
      else if CHR '']'' \<in> set (drop k hp) then Inl (Errorf ''unexpected ']' in address'')
      else Inr (host, drop (i + 1) hp))"

definition SplitHostPort :: "string \<Rightarrow> (string \<times> string) res" where
  "SplitHostPort hp =
     (case LastIndexByte hp (CHR '':'') of
        None \<Rightarrow> Inl missingPort
      | Some i \<Rightarrow>
          if hd hp = CHR ''['' then
            (case IndexByte hp (CHR '']'') of
               None \<Rightarrow> Inl (Errorf ''missing ']' in address'')
             | Some e \<Rightarrow>
                 if e + 1 = length hp then Inl missingPort
                 else if e + 1 = i then split_finish hp (take (e - 1) (drop 1 hp)) i 1 (e + 1)
                 else if hp ! (e + 1) = CHR '':'' then Inl tooManyColons
                 else Inl missingPort)
          else if CHR '':'' \<in> set (take i hp) then Inl tooManyColons
          else split_finish hp (take i hp) i 0 0)"

definition host_char :: "char \<Rightarrow> bool" where
  "host_char c \<longleftrightarrow> c \<notin> {CHR '':'', CHR ''['', CHR '']''}"

lemma SplitHostPort_plain:
  assumes "list_all host_char h" "list_all host_char p"
  shows "SplitHostPort (h @ CHR '':'' # p) = Inr (h, p)"
proof -
  have p: "CHR '':'' \<notin> set p" "CHR ''['' \<notin> set p" "CHR '']'' \<notin> set p"
    and h: "CHR '':'' \<notin> set h" "CHR ''['' \<notin> set h" "CHR '']'' \<notin> set h"
    using assms by (auto simp: list_all_iff host_char_def)
  have "hd (h @ CHR '':'' # p) \<noteq> CHR ''[''" using h(2) by (cases h) auto
  then show ?thesis
    using p h by (simp add: SplitHostPort_def LastIndexByte_append split_finish_def)
qed

section \<open>\<^verbatim>\<open>ParseIP\<close>\<close>

text \<open>Four decimal fields of one to three digits, at most 255, without leading zeros.\<close>

definition ipv4_field :: "string \<Rightarrow> bool" where
  "ipv4_field f \<longleftrightarrow> f \<noteq> [] \<and> list_all is_digit f \<and> (length f > 1 \<longrightarrow> hd f \<noteq> CHR ''0'') \<and> parse_nat f \<le> 255"

definition is_ipv4 :: "string \<Rightarrow> bool" where
  "is_ipv4 s \<longleftrightarrow> (let fs = SplitByte s (CHR ''.'') in length fs = 4 \<and> list_all ipv4_field fs)"

definition is_hex :: "char \<Rightarrow> bool" where
  "is_hex c \<longleftrightarrow> is_digit c \<or> (CHR ''a'' \<le> c \<and> c \<le> CHR ''f'') \<or> (CHR ''A'' \<le> c \<and> c \<le> CHR ''F'')"

text \<open>
  The loop of \<^verbatim>\<open>parseIPv6\<close>: \<open>i\<close> bytes are filled, \<open>ell\<close> says that a \<^verbatim>\<open>::\<close> was seen, \<open>s\<close> is the rest.
  The result says whether the address is well-formed.
\<close>

definition ipv6_done :: "bool \<Rightarrow> nat \<Rightarrow> string \<Rightarrow> bool" where
  "ipv6_done ell i s \<longleftrightarrow> s = [] \<and> (if i < 16 then ell else \<not> ell)"

function ipv6_loop :: "bool \<Rightarrow> nat \<Rightarrow> string \<Rightarrow> bool" where
  "ipv6_loop ell i s =
     (if i \<ge> 16 then ipv6_done ell i s
      else
        let g = takeWhile is_hex s; rest = dropWhile is_hex s in
        if g = [] \<or> length g > 4 then False
        else case rest of
          [] \<Rightarrow> ipv6_done ell (i + 2) []
        | c # r \<Rightarrow>
            if c = CHR ''.'' then
              (ell \<or> i = 12) \<and> i + 4 \<le> 16 \<and> is_ipv4 s \<and> ipv6_done ell (i + 4) []
            else if c \<noteq> CHR '':'' then False
            else if r = [] then False
            else if hd r = CHR '':'' then
              (if ell then False
               else if tl r = [] then ipv6_done True (i + 2) []
               else ipv6_loop True (i + 2) (tl r))
            else ipv6_loop ell (i + 2) r)"
  by pat_completeness auto
termination
  by (relation "measure (\<lambda>(ell, i, s). 16 - i)") auto

declare ipv6_loop.simps [simp del]

definition is_ipv6 :: "string \<Rightarrow> bool" where
  "is_ipv6 s \<longleftrightarrow>
     (if CHR ''%'' \<in> set s then False
      else if prefix ''::'' s then (if drop 2 s = [] then True else ipv6_loop True 0 (drop 2 s))
      else ipv6_loop False 0 s)"

text \<open>The first of the bytes \<^verbatim>\<open>.\<close>, \<^verbatim>\<open>:\<close> and \<^verbatim>\<open>%\<close> decides the syntax. Zones are refused.\<close>

fun ip_kind :: "string \<Rightarrow> char option" where
  "ip_kind [] = None"
| "ip_kind (c # s) = (if c \<in> {CHR ''.'', CHR '':'', CHR ''%''} then Some c else ip_kind s)"

definition ParseIP_ok :: "string \<Rightarrow> bool" where
  "ParseIP_ok s \<longleftrightarrow>
     (case ip_kind s of
        Some c \<Rightarrow> if c = CHR ''.'' then is_ipv4 s else if c = CHR '':'' then is_ipv6 s else False
      | None \<Rightarrow> False)"

end
