(* ===== verification/PeerAddr.thy ===== *)
theory PeerAddr
  imports GoNet
begin

text \<open>
  Package \<^verbatim>\<open>internal/p2p\<close>, file \<^verbatim>\<open>peeraddr.go\<close>: peer addresses in either of two notations are brought
  into the multiaddr notation of libp2p.
\<close>

definition bad_peer_addr :: error where
  "bad_peer_addr = Errorf ''expected multiaddr or id@host:port''"

definition NormalizePeerAddr :: "string \<Rightarrow> string res" where
  "NormalizePeerAddr raw0 =
     (let raw = TrimSpace raw0 in
      if raw = [] then Inl (Errorf ''empty peer addr'')
      else if HasPrefix raw ''/'' then Inr raw
      else case LastIndexByte raw (CHR ''@'') of
        None \<Rightarrow> Inl bad_peer_addr
      | Some at \<Rightarrow>
          if at = 0 \<or> at = length raw - 1 then Inl bad_peer_addr
          else
            let id' = TrimSpace (take at raw);
                hostPort = TrimSpace (drop (at + 1) raw);
                (host, port) = (case SplitHostPort hostPort of
                                  Inl _ \<Rightarrow> (hostPort, ''26656'')
                                | Inr hp \<Rightarrow> hp)
            in if id' = [] \<or> host = [] then Inl (Errorf ''invalid id@host:port'')
               else if ParseIP_ok host
                 then Inr (''/ip4/'' @ host @ ''/tcp/'' @ port @ ''/p2p/'' @ id')
                 else Inr (''/dns4/'' @ host @ ''/tcp/'' @ port @ ''/p2p/'' @ id'))"

definition NormalizePeerAddrList :: "string \<Rightarrow> string list" where
  "NormalizePeerAddrList raw =
     concat (map (\<lambda>p0. let p = TrimSpace p0 in
                       if p = [] then []
                       else case NormalizePeerAddr p of Inl _ \<Rightarrow> [p] | Inr n \<Rightarrow> [n])
              (SplitByte raw (CHR '','')))"

section \<open>Trimmed strings\<close>

lemma last_TrimSpace: "TrimSpace s \<noteq> [] \<Longrightarrow> \<not> is_space (List.last (TrimSpace s))"
  unfolding TrimSpace_def by (metis hd_dropWhile last_rev rev_is_Nil_conv)

lemma TrimSpace_id:
  assumes "s \<noteq> []" "\<not> is_space (hd s)" "\<not> is_space (List.last s)"
  shows "TrimSpace s = s"
proof -
  have "dropWhile is_space s = s" using assms by (cases s) auto
  moreover have "dropWhile is_space (rev s) = rev s"
  proof (cases "rev s")
    case (Cons x xs)
    then have "x = List.last s" by (metis hd_rev list.sel(1))
    with assms(3) show ?thesis unfolding Cons by simp
  qed simp
  ultimately show ?thesis by (simp add: TrimSpace_def)
qed

lemma slash_not_space [simp]: "\<not> is_space (CHR ''/'')"
  by (simp add: is_space_def)

text \<open>A multiaddr: it starts with a slash and has no surrounding blanks.\<close>

definition multiaddr :: "string \<Rightarrow> bool" where
  "multiaddr m \<longleftrightarrow> prefix ''/'' m \<and> TrimSpace m = m"

lemma multiaddr_Cons: "t \<noteq> [] \<Longrightarrow> \<not> is_space (List.last t) \<Longrightarrow> multiaddr (CHR ''/'' # t)"
  unfolding multiaddr_def by (auto intro!: TrimSpace_id)

lemma multiaddr_normal: "multiaddr m \<Longrightarrow> NormalizePeerAddr m = Inr m"
  by (auto simp: multiaddr_def NormalizePeerAddr_def HasPrefix_def Let_def)

lemma NormalizePeerAddr_multiaddr:
  assumes "NormalizePeerAddr raw = Inr m"
  shows "multiaddr m"
proof (cases "prefix ''/'' (TrimSpace raw)")
  case True
  with assms show ?thesis
    by (auto simp: NormalizePeerAddr_def Let_def HasPrefix_def multiaddr_def split: if_splits)
next
  case False
  with assms obtain net host port i where
    m: "m = CHR ''/'' # net @ host @ ''/tcp/'' @ port @ ''/p2p/'' @ TrimSpace i" and i: "TrimSpace i \<noteq> []"
    by (auto simp: NormalizePeerAddr_def Let_def HasPrefix_def split: if_splits option.splits prod.splits)
      (metis append_Cons append_Nil)+
  show ?thesis
    unfolding m using last_TrimSpace [OF i] i by (intro multiaddr_Cons) auto
qed

text \<open>
  What the normalisation returns is a multiaddr, and normalising it again returns it unchanged;
  the entries of a normalised list are the trimmed entries of the input, in order, each either a
  multiaddr or, if it has neither notation, as it was.
\<close>

theorem NormalizePeerAddr_idem:
  "(case NormalizePeerAddr raw of
      Inr m \<Rightarrow> prefix ''/'' m \<and> NormalizePeerAddr m = Inr m
    | Inl _ \<Rightarrow> True)
   \<and> NormalizePeerAddrList raw =
       map (\<lambda>p. case NormalizePeerAddr p of Inr m \<Rightarrow> m | Inl _ \<Rightarrow> p)
         (filter (\<lambda>p. p \<noteq> []) (map TrimSpace (SplitByte raw (CHR '',''))))"
proof
  show "case NormalizePeerAddr raw of Inr m \<Rightarrow> prefix ''/'' m \<and> NormalizePeerAddr m = Inr m | Inl _ \<Rightarrow> True"
  proof (cases "NormalizePeerAddr raw")
    case (Inr m)
    then have "multiaddr m" by (rule NormalizePeerAddr_multiaddr)
    then have "prefix ''/'' m" "NormalizePeerAddr m = Inr m" by (simp_all only: multiaddr_def multiaddr_normal)
    then show ?thesis unfolding Inr by simp
  qed simp
  have "concat (map (\<lambda>p0. let p = TrimSpace p0 in
       if p = [] then [] else case NormalizePeerAddr p of Inl _ \<Rightarrow> [p] | Inr n \<Rightarrow> [n]) ps) =
     map (\<lambda>p. case NormalizePeerAddr p of Inr m \<Rightarrow> m | Inl _ \<Rightarrow> p) (filter (\<lambda>p. p \<noteq> []) (map TrimSpace ps))" for ps
    by (induction ps) (auto simp: Let_def split: sum.splits)
  then show "NormalizePeerAddrList raw =
       map (\<lambda>p. case NormalizePeerAddr p of Inr m \<Rightarrow> m | Inl _ \<Rightarrow> p)
         (filter (\<lambda>p. p \<noteq> []) (map TrimSpace (SplitByte raw (CHR '',''))))"
    by (simp add: NormalizePeerAddrList_def)
qed

text \<open>The notation \<^verbatim>\<open>id@host:port\<close> is taken apart as intended.\<close>

definition word_char :: "char \<Rightarrow> bool" where
  "word_char c \<longleftrightarrow> \<not> is_space c \<and> host_char c \<and> c \<notin> {CHR ''@'', CHR ''/''}"

lemma TrimSpace_clean: "list_all (\<lambda>c. \<not> is_space c) s \<Longrightarrow> TrimSpace s = s"
  by (cases "s = []") (simp add: TrimSpace_def, simp add: TrimSpace_id list_all_iff)

theorem NormalizePeerAddr_id_host_port:
  assumes "i \<noteq> []" "h \<noteq> []" "list_all word_char i" "list_all word_char h" "list_all word_char p"
  shows "NormalizePeerAddr (i @ ''@'' @ h @ '':'' @ p) =
    Inr ((if ParseIP_ok h then ''/ip4/'' else ''/dns4/'') @ h @ ''/tcp/'' @ p @ ''/p2p/'' @ i)"
proof -
  let ?r = "i @ CHR ''@'' # (h @ CHR '':'' # p)"
  have c: "\<not> is_space (CHR '':'')" "\<not> is_space (CHR ''@'')" by (simp_all add: is_space_def)
  have sp: "list_all (\<lambda>c. \<not> is_space c) i" "list_all (\<lambda>c. \<not> is_space c) (h @ CHR '':'' # p)"
    using assms(3-5) c by (simp_all add: list_all_iff word_char_def ball_Un)
  have at: "LastIndexByte ?r (CHR ''@'') = Some (length i)"
    using assms(4,5) by (intro LastIndexByte_append) (auto simp: list_all_iff word_char_def)
  have slash: "\<not> prefix ''/'' ?r" using assms(1,3) by (cases i) (auto simp: word_char_def)
  have hp: "SplitHostPort (h @ CHR '':'' # p) = Inr (h, p)"
    using assms(4,5) by (intro SplitHostPort_plain) (auto simp: list_all_iff word_char_def)
  have t: "TrimSpace ?r = ?r" "TrimSpace i = i" "TrimSpace (h @ CHR '':'' # p) = h @ CHR '':'' # p"
    using sp c by (intro TrimSpace_clean, simp)+
  show ?thesis
    using assms(1,2) slash t by (simp add: NormalizePeerAddr_def HasPrefix_def at hp Let_def)
qed

text \<open>An IPv6 host is written out under the protocol name of IPv4.\<close>

theorem ipv6_peer_as_ip4: "NormalizePeerAddr ''12D3@[::1]:26656'' = Inr ''/ip4/::1/tcp/26656/p2p/12D3''"
  by code_simp

end
