(* ===== verification/Middleware.thy ===== *)
theory Middleware
  imports GoNet
begin

text \<open>
  Package \<^verbatim>\<open>internal/api\<close>, file \<^verbatim>\<open>middleware.go\<close>: the guard in front of every public endpoint.
  Instants and durations are integers in one unit. The mutex of the limiter makes \<^verbatim>\<open>allow\<close> and each
  pass of the cleaning goroutine one atomic step; both read the clock while they hold it, so the
  readings of successive steps do not decrease.
\<close>

section \<open>The limiter\<close>

record ipRateLimiter =
  rl_hits :: "string \<rightharpoonup> int list"
  rl_max :: int
  rl_window :: int

definition newIPRateLimiter :: "int \<Rightarrow> int \<Rightarrow> ipRateLimiter" where
  "newIPRateLimiter max' window = \<lparr>rl_hits = Map.empty, rl_max = max', rl_window = window\<rparr>"

definition hits_of :: "ipRateLimiter \<Rightarrow> string \<Rightarrow> int list" where
  "hits_of rl ip = (case rl_hits rl ip of None \<Rightarrow> [] | Some ts \<Rightarrow> ts)"

text \<open>One tick of the cleaning goroutine.\<close>

definition clean :: "ipRateLimiter \<Rightarrow> int \<Rightarrow> ipRateLimiter" where
  "clean rl now =
     (let cutoff = now - rl_window rl in
      rl\<lparr>rl_hits := (\<lambda>ip. case rl_hits rl ip of
                          None \<Rightarrow> None
                        | Some ts \<Rightarrow>
                            (let kept = filter (\<lambda>t. t > cutoff) ts
                             in if kept = [] then None else Some kept))\<rparr>)"

definition allow :: "ipRateLimiter \<Rightarrow> int \<Rightarrow> string \<Rightarrow> bool \<times> ipRateLimiter" where
  "allow rl now ip =
     (let cutoff = now - rl_window rl;
          recent = filter (\<lambda>t. t > cutoff) (hits_of rl ip)
      in if int (length recent) \<ge> rl_max rl
         then (False, rl\<lparr>rl_hits := (rl_hits rl)(ip \<mapsto> recent)\<rparr>)
         else (True, rl\<lparr>rl_hits := (rl_hits rl)(ip \<mapsto> recent @ [now])\<rparr>))"

section \<open>The guard\<close>

text \<open>
  What the guard reads of a request: its method, path, remote address and the header fields (the
  empty string stands for an absent field, as \<^verbatim>\<open>Header.Get\<close> returns it); \<open>req_limit\<close> is the limit a
  \<^verbatim>\<open>MaxBytesReader\<close> puts on its body. A response is a status, the header fields and the body.
\<close>

record Request =
  req_Method :: string
  req_Path :: string
  req_RemoteAddr :: string
  req_Header :: "string \<Rightarrow> string"
  req_hasBody :: bool
  req_limit :: "int option"

record Response =
  rsp_Status :: int
  rsp_Header :: "(string \<times> string) list"
  rsp_Body :: string

definition maxBodyBytes :: int where
  "maxBodyBytes = 2 ^ 20"

definition clientIP :: "Request \<Rightarrow> string" where
  "clientIP r =
     (let xff = req_Header r ''X-Forwarded-For'';
          xri = req_Header r ''X-Real-IP''
      in if xff \<noteq> [] then takeWhile (\<lambda>c. c \<noteq> CHR '','') xff
         else if xri \<noteq> [] then xri
         else case SplitHostPort (req_RemoteAddr r) of
                Inl _ \<Rightarrow> req_RemoteAddr r
              | Inr (host, _) \<Rightarrow> host)"

definition http_Error :: "string \<Rightarrow> int \<Rightarrow> Response" where
  "http_Error msg code =
     \<lparr>rsp_Status = code,
      rsp_Header = [(''Content-Type'', ''text/plain; charset=utf-8''), (''X-Content-Type-Options'', ''nosniff'')],
      rsp_Body = msg @ [CHR 0x0A]\<rparr>"

definition securityHeaders :: "(string \<times> string) list" where
  "securityHeaders = [(''X-Content-Type-Options'', ''nosniff''), (''X-Frame-Options'', ''DENY''),
     (''Referrer-Policy'', ''no-referrer'')]"

text \<open>
  The handler behind the guard gets the header fields that are already set; \<open>answer\<close> is how an answer
  of the guard itself is reported.
\<close>

definition withPublicGuards ::
  "(Request \<Rightarrow> (string \<times> string) list \<Rightarrow> 'o) \<Rightarrow> (Response \<Rightarrow> 'o) \<Rightarrow> ipRateLimiter \<Rightarrow> int \<Rightarrow> Request \<Rightarrow> 'o \<times> ipRateLimiter" where
  "withPublicGuards serve answer rl now r =
     (case allow rl now (clientIP r) of
        (False, rl') \<Rightarrow> (answer (http_Error ''{\"ok\":false,\"error\":\"rate_limited\"}'' 429), rl')
      | (True, rl') \<Rightarrow>
          if req_Method r = ''OPTIONS'' then
            (answer \<lparr>rsp_Status = 204,
              rsp_Header = securityHeaders @
                [(''Access-Control-Allow-Origin'', ''*''),
                 (''Access-Control-Allow-Methods'', ''GET, POST, OPTIONS''),
                 (''Access-Control-Allow-Headers'', ''Content-Type, X-API-Secret''),
                 (''Access-Control-Max-Age'', ''86400'')],
              rsp_Body = []\<rparr>, rl')
          else
            (serve (if req_hasBody r then r\<lparr>req_limit := Some maxBodyBytes\<rparr> else r)
               (securityHeaders @ [(''Access-Control-Allow-Origin'', ''*'')]), rl'))"

section \<open>The reference: a limiter that remembers everything\<close>

datatype rl_event = Hit int string | Clean int

fun ev_time :: "rl_event \<Rightarrow> int" where
  "ev_time (Hit t ip) = t" | "ev_time (Clean t) = t"

text \<open>The admitted requests of a run of the limiter.\<close>

fun rl_run :: "ipRateLimiter \<Rightarrow> rl_event list \<Rightarrow> (int \<times> string) list" where
  "rl_run rl [] = []"
| "rl_run rl (Hit t ip # es) =
     (case allow rl t ip of (ok, rl') \<Rightarrow> (if ok then [(t, ip)] else []) @ rl_run rl' es)"
| "rl_run rl (Clean t # es) = rl_run (clean rl t) es"

text \<open>The admitted requests of one client in the window that ends at \<open>t\<close>.\<close>

definition in_window :: "int \<Rightarrow> int \<Rightarrow> string \<Rightarrow> (int \<times> string) list \<Rightarrow> int list" where
  "in_window w t ip log = map fst (filter (\<lambda>(u, i). i = ip \<and> t - w < u \<and> u \<le> t) log)"

text \<open>The reference admits a request iff fewer than \<open>m\<close> were admitted in the window that ends with it.\<close>

fun ref_run :: "int \<Rightarrow> int \<Rightarrow> (int \<times> string) list \<Rightarrow> rl_event list \<Rightarrow> (int \<times> string) list" where
  "ref_run m w log [] = []"
| "ref_run m w log (Hit t ip # es) =
     (if int (length (in_window w t ip log)) < m then (t, ip) # ref_run m w (log @ [(t, ip)]) es
      else ref_run m w log es)"
| "ref_run m w log (Clean t # es) = ref_run m w log es"

text \<open>The limiter agrees with a log of the past on every window that ends from now on.\<close>

definition agrees :: "ipRateLimiter \<Rightarrow> int \<Rightarrow> (int \<times> string) list \<Rightarrow> bool" where
  "agrees rl now log \<longleftrightarrow>
     (\<forall>u \<in> set log. fst u \<le> now)
   \<and> (\<forall>ip t. now \<le> t \<longrightarrow>
        filter (\<lambda>u. t - rl_window rl < u) (hits_of rl ip) =
        map fst (filter (\<lambda>(u, i). i = ip \<and> t - rl_window rl < u) log))"

lemma in_window_later: "(\<forall>u \<in> set log. fst u \<le> t) \<Longrightarrow>
    in_window w t ip log = map fst (filter (\<lambda>(u, i). i = ip \<and> t - w < u) log)"
  unfolding in_window_def by (intro arg_cong [where f = "map fst"] filter_cong) auto

lemma filter_window: "a \<le> b \<Longrightarrow> filter (\<lambda>u. b < u) (filter (\<lambda>u. a < (u :: int)) us) = filter (\<lambda>u. b < u) us"
  by (induction us) auto

lemma filter_log:
  "a \<le> b \<Longrightarrow> filter ((<) b) (map fst (filter (\<lambda>(u, i). i = ip \<and> a < u) log)) =
     map fst (filter (\<lambda>(u, i). i = ip \<and> b < (u :: int)) log)"
  by (induction log) auto

lemma hits_of_clean: "hits_of (clean rl now) ip = filter (\<lambda>t. now - rl_window rl < t) (hits_of rl ip)"
  by (auto simp: hits_of_def clean_def Let_def split: option.splits)

lemma window_keep [simp]:
  "rl_window (clean rl now) = rl_window rl" "rl_max (clean rl now) = rl_max rl"
  "rl_window (snd (allow rl now ip)) = rl_window rl" "rl_max (snd (allow rl now ip)) = rl_max rl"
  by (simp_all add: clean_def allow_def Let_def)

lemma agrees_clean: "agrees rl now log \<Longrightarrow> now \<le> t \<Longrightarrow> agrees (clean rl t) t log"
  by (auto simp: agrees_def hits_of_clean filter_window filter_log)

lemma hits_of_allow:
  "hits_of (snd (allow rl now ip)) i =
     (if i = ip then filter (\<lambda>t. now - rl_window rl < t) (hits_of rl ip) @ (if fst (allow rl now ip) then [now] else [])
      else hits_of rl i)"
  by (simp add: allow_def Let_def hits_of_def)

lemma allow_decision:
  assumes "agrees rl now log" "now \<le> t"
  shows "fst (allow rl t ip) \<longleftrightarrow> int (length (in_window (rl_window rl) t ip log)) < rl_max rl"
proof -
  have "\<forall>u \<in> set log. fst u \<le> t" using assms by (auto simp: agrees_def)
  with assms have "filter (\<lambda>u. t - rl_window rl < u) (hits_of rl ip) = in_window (rl_window rl) t ip log"
    by (simp add: agrees_def in_window_later)
  then show ?thesis by (auto simp: allow_def Let_def)
qed

lemma agrees_allow:
  assumes "agrees rl now log" "now \<le> t"
  shows "agrees (snd (allow rl t ip)) t (log @ (if fst (allow rl t ip) then [(t, ip)] else []))"
  using assms by (auto simp: agrees_def hits_of_allow filter_window filter_log)

lemma rl_run_ref:
  assumes "agrees rl now log" "sorted (now # map ev_time es)"
  shows "rl_run rl es = ref_run (rl_max rl) (rl_window rl) log es"
  using assms
proof (induction es arbitrary: rl now log)
  case (Cons e es)
  show ?case
  proof (cases e)
    case (Hit t ip)
    have t: "now \<le> t" "sorted (t # map ev_time es)" using Cons.prems(2) by (auto simp: Hit)
    have d: "fst (allow rl t ip) \<longleftrightarrow> int (length (in_window (rl_window rl) t ip log)) < rl_max rl"
      by (rule allow_decision [OF Cons.prems(1) t(1)])
    have "rl_run (snd (allow rl t ip)) es =
        ref_run (rl_max rl) (rl_window rl) (log @ (if fst (allow rl t ip) then [(t, ip)] else [])) es"
      using Cons.IH [OF agrees_allow [OF Cons.prems(1) t(1)] t(2)] by simp
    then show ?thesis using d by (simp add: Hit case_prod_beta)
  next
    case (Clean t)
    have t: "now \<le> t" "sorted (t # map ev_time es)" using Cons.prems(2) by (auto simp: Clean)
    show ?thesis
      using Cons.IH [OF agrees_clean [OF Cons.prems(1) t(1)] t(2)] by (simp add: Clean)
  qed
qed simp


lemma agrees_new: "agrees (newIPRateLimiter m w) now []"
  by (simp add: agrees_def newIPRateLimiter_def hits_of_def)

lemma rl_run_new:
  assumes "sorted (map ev_time es)"
  shows "rl_run (newIPRateLimiter m w) es = ref_run m w [] es"
proof (cases es)
  case (Cons e es')
  with assms have "sorted (ev_time e # map ev_time es)" by auto
  from rl_run_ref [OF agrees_new this] show ?thesis by (simp add: newIPRateLimiter_def)
qed simp

section \<open>The bound\<close>

lemma in_window_snoc:
  "in_window w t ip (log @ [(u, i)]) = in_window w t ip log @ (if i = ip \<and> t - w < u \<and> u \<le> t then [u] else [])"
  by (simp add: in_window_def)

lemma in_window_shrinks:
  assumes "u \<le> t" "\<forall>x \<in> set log. fst x \<le> u"
  shows "length (in_window w t ip log) \<le> length (in_window w u ip log)"
  using assms(2) unfolding in_window_def
  by (induction log) (use assms(1) in auto)

lemma ref_run_bound:
  assumes "\<And>t ip. int (length (in_window w t ip log)) \<le> m" "\<forall>x \<in> set log. fst x \<le> now"
    "sorted (now # map ev_time es)"
  shows "int (length (in_window w t ip (log @ ref_run m w log es))) \<le> m"
  using assms
proof (induction es arbitrary: log now)
  case (Cons e es)
  show ?case
  proof (cases e)
    case (Hit u i)
    have u: "now \<le> u" "sorted (u # map ev_time es)" using Cons.prems(3) by (auto simp: Hit)
    have log: "\<forall>x \<in> set log. fst x \<le> u" using Cons.prems(2) u(1) by auto
    show ?thesis
    proof (cases "int (length (in_window w u i log)) < m")
      case True
      have "int (length (in_window w t' ip' (log @ [(u, i)]))) \<le> m" for t' ip'
        using Cons.prems(1) [of t' ip'] in_window_shrinks [of u t' log w i] log True
        by (auto simp: in_window_snoc)
      then show ?thesis
        using Cons.IH [of "log @ [(u, i)]" u] log u(2) True by (simp add: Hit)
    next
      case False
      then show ?thesis using Cons.IH [of log u] Cons.prems(1) log u(2) by (simp add: Hit)
    qed
  next
    case (Clean u)
    have u: "now \<le> u" "sorted (u # map ev_time es)" using Cons.prems(3) by (auto simp: Clean)
    show ?thesis
      using Cons.IH [of log u] Cons.prems(1,2) u by (force simp: Clean)
  qed
qed simp

text \<open>
  C39: however requests and cleaning passes interleave, the limiter admits a request exactly if
  fewer than the maximum of the client's requests were admitted in the window that ends with it,
  although it forgets old requests; so no window of that length ever contains more admitted
  requests of one client than the maximum.
\<close>

theorem rate_limit_exact:
  assumes "sorted (map ev_time es)" "0 \<le> m"
  shows "rl_run (newIPRateLimiter m w) es = ref_run m w [] es
    \<and> int (length (in_window w t ip (rl_run (newIPRateLimiter m w) es))) \<le> m"
proof
  show eq: "rl_run (newIPRateLimiter m w) es = ref_run m w [] es"
    by (rule rl_run_new [OF assms(1)])
  show "int (length (in_window w t ip (rl_run (newIPRateLimiter m w) es))) \<le> m"
  proof (cases es)
    case Nil
    with assms(2) show ?thesis by (simp add: in_window_def)
  next
    case (Cons e es')
    with assms(1) have "sorted (ev_time e # map ev_time es)" by auto
    then show ?thesis
      unfolding eq using ref_run_bound [of w "[]" m "ev_time e" es t ip] assms(2) by (simp add: in_window_def)
  qed
qed

definition burst :: "rl_event list" where
  "burst = [Hit 0 ''a'', Hit 10 ''a'', Hit 20 ''a'', Hit 30 ''b'', Clean 60, Hit 61 ''a'', Hit 62 ''a'']"

theorem rate_limit_exact_witness:
  "rl_run (newIPRateLimiter 2 60) burst = [(0, ''a''), (10, ''a''), (30, ''b''), (61, ''a'')]
    \<and> int (length (in_window 60 62 ''a'' (rl_run (newIPRateLimiter 2 60) burst))) \<le> 2"
  using rate_limit_exact [of burst 2 60 62 "''a''"]
  by (simp add: burst_def in_window_def)

text \<open>The handler is reached only by admitted requests, and its body is then limited.\<close>

theorem withPublicGuards_reaches:
  assumes "rsp_Status (fst (withPublicGuards serve id rl now r)) \<notin> {204, 429}"
  shows "fst (allow rl now (clientIP r)) \<and> req_Method r \<noteq> ''OPTIONS''
    \<and> (\<exists>q hs. fst (withPublicGuards serve id rl now r) = serve q hs \<and> set securityHeaders \<subseteq> set hs
         \<and> (req_hasBody r \<longrightarrow> req_limit q = Some maxBodyBytes))"
  using assms unfolding withPublicGuards_def
  by (auto simp: http_Error_def split: prod.splits bool.splits if_splits intro!: exI [of _ "if req_hasBody r then r\<lparr>req_limit := Some maxBodyBytes\<rparr> else r"])

text \<open>A client that sends a fresh forwarding header with every request is never refused.\<close>

theorem forged_header_bypasses:
  assumes "0 < rl_max rl" "req_Header r ''X-Forwarded-For'' = ip" "ip \<noteq> []" "CHR '','' \<notin> set ip" "rl_hits rl ip = None"
  shows "fst (allow rl now (clientIP r))"
proof -
  have "takeWhile (\<lambda>c. c \<noteq> CHR '','') ip = ip" using assms(4) by (simp add: takeWhile_eq_all_conv) metis
  then have "clientIP r = ip" using assms(2,3) by (simp add: clientIP_def Let_def)
  then show ?thesis using assms(1,5) by (simp add: allow_def Let_def hits_of_def)
qed

end
