(* ===== verification/Scoring.thy ===== *)
theory Scoring
  imports Prelude
begin

text \<open>
  Package \<^verbatim>\<open>internal/p2p\<close>, file \<^verbatim>\<open>scoring.go\<close>, and \<^verbatim>\<open>ReportPeer\<close> of \<^verbatim>\<open>node.go\<close>: scores and temporary bans
  of peers. Peer ids are strings; \<open>decode\<close> is libp2p's \<^verbatim>\<open>peer.Decode\<close>. \<open>now\<close> is a reading of the clock,
  in the unit of \<open>banFor\<close>. The mutex makes each operation one step.
\<close>

record PeerScorer =
  ps_score :: "string \<rightharpoonup> int"
  ps_banned :: "string \<rightharpoonup> int"
  ps_banBelow :: int
  ps_banFor :: int

text \<open>Thirty minutes, in nanoseconds.\<close>

definition banMinutes :: int where
  "banMinutes = 30 * 60 * 10 ^ 9"

definition NewPeerScorer :: PeerScorer where
  "NewPeerScorer = \<lparr>ps_score = Map.empty, ps_banned = Map.empty, ps_banBelow = -50, ps_banFor = banMinutes\<rparr>"

text \<open>Indexing a Go map yields zero for an absent key.\<close>

definition Score :: "PeerScorer \<Rightarrow> string \<Rightarrow> int" where
  "Score s p = (case ps_score s p of None \<Rightarrow> 0 | Some n \<Rightarrow> n)"

definition Add_score :: "PeerScorer \<Rightarrow> int \<Rightarrow> string \<Rightarrow> int \<Rightarrow> PeerScorer" where
  "Add_score s now p delta =
     (if p = [] then s
      else
        let sc = i64 (Score s p + delta);
            s' = s\<lparr>ps_score := (ps_score s)(p \<mapsto> sc)\<rparr>
        in if sc \<le> ps_banBelow s then s'\<lparr>ps_banned := (ps_banned s)(p \<mapsto> now + ps_banFor s)\<rparr> else s')"

definition IsBanned :: "PeerScorer \<Rightarrow> int \<Rightarrow> string \<Rightarrow> bool \<times> PeerScorer" where
  "IsBanned s now p =
     (case ps_banned s p of
        None \<Rightarrow> (False, s)
      | Some until \<Rightarrow>
          if now > until then
            (False, s\<lparr>ps_banned := (ps_banned s)(p := None),
                     ps_score := (if Score s p < 0 then (ps_score s)(p \<mapsto> go_div (ps_banBelow s) 2) else ps_score s)\<rparr>)
          else (True, s))"

text \<open>The scores and the bans that still run, as \<^verbatim>\<open>Snapshot\<close> reports them.\<close>

definition Snapshot_scorer :: "PeerScorer \<Rightarrow> int \<Rightarrow> (string \<rightharpoonup> int) \<times> (string \<rightharpoonup> int)" where
  "Snapshot_scorer s now =
     (ps_score s, \<lambda>p. case ps_banned s p of Some until \<Rightarrow> if now < until then Some until else None | None \<Rightarrow> None)"

text \<open>A node without a scorer, an empty or an undecodable id is ignored.\<close>

definition ReportPeer ::
  "(string \<Rightarrow> string option) \<Rightarrow> PeerScorer option \<Rightarrow> int \<Rightarrow> string \<Rightarrow> int \<Rightarrow> PeerScorer option" where
  "ReportPeer decode scorer now idStr delta =
     (case scorer of
        None \<Rightarrow> None
      | Some s \<Rightarrow>
          if idStr = [] then Some s
          else case decode idStr of
            None \<Rightarrow> Some s
          | Some pid \<Rightarrow>
              if delta < 0 then
                (case IsBanned s now pid of
                   (True, s') \<Rightarrow> Some s'
                 | (False, s') \<Rightarrow> Some (Add_score s' now pid delta))
              else Some (Add_score s now pid delta))"

section \<open>Invariant\<close>

text \<open>
  The score of a peer is above the threshold or the peer has a ban on record, and the thresholds
  are those of a new scorer.
\<close>

definition scorer_ok :: "PeerScorer \<Rightarrow> bool" where
  "scorer_ok s \<longleftrightarrow> ps_banBelow s = -50 \<and> ps_banFor s = banMinutes
     \<and> (\<forall>p. -50 < Score s p \<or> ps_banned s p \<noteq> None)"

lemma scorer_ok_new: "scorer_ok NewPeerScorer"
  by (simp add: scorer_ok_def NewPeerScorer_def Score_def)

lemma scorer_ok_Add: "scorer_ok s \<Longrightarrow> scorer_ok (Add_score s now p d)"
  by (auto simp: scorer_ok_def Add_score_def Let_def Score_def)

lemma scorer_ok_IsBanned: "scorer_ok s \<Longrightarrow> scorer_ok (snd (IsBanned s now p))"
  by (auto simp: scorer_ok_def IsBanned_def Score_def go_div_def split: option.splits)

lemma scorer_ok_Report:
  assumes "scorer_ok s"
  shows "\<exists>s'. ReportPeer decode (Some s) now i d = Some s' \<and> scorer_ok s'"
  using assms scorer_ok_Add [OF assms] scorer_ok_IsBanned [OF assms]
  by (auto simp: ReportPeer_def scorer_ok_Add split: option.splits prod.splits bool.splits if_splits)
    (metis scorer_ok_Add snd_conv)+

section \<open>Bans\<close>

text \<open>Reports on one peer, each with its time and delta.\<close>

fun reports :: "(string \<Rightarrow> string option) \<Rightarrow> PeerScorer option \<Rightarrow> string \<Rightarrow> (int \<times> int) list \<Rightarrow> PeerScorer option" where
  "reports decode s i [] = s"
| "reports decode s i ((now, d) # rs) = reports decode (ReportPeer decode s now i d) i rs"

lemma reports_append: "reports decode s i (xs @ ys) = reports decode (reports decode s i xs) i ys"
  by (induction xs arbitrary: s) auto

lemma Report_negative:
  assumes "decode i = Some p" "i \<noteq> []" "p \<noteq> []" "ps_banned s p = None" "d < 0" "in_i64 (Score s p + d)"
  shows "\<exists>s'. ReportPeer decode (Some s) now i d = Some s' \<and> Score s' p = Score s p + d
    \<and> ps_banned s' p = (if Score s p + d \<le> ps_banBelow s then Some (now + ps_banFor s) else None)
    \<and> ps_banBelow s' = ps_banBelow s \<and> ps_banFor s' = ps_banFor s"
  using assms by (auto simp: ReportPeer_def IsBanned_def Add_score_def Let_def Score_def i64_id)

text \<open>
  C40: a peer without a record is banned with the fifth of five invalid blocks in a row and not
  before; the ban lasts half an hour from the fifth, further invalid blocks change nothing while it
  runs, and once it is over the peer starts again from half the threshold.
\<close>

theorem ban_lifecycle:
  assumes s: "scorer_ok s" and p: "decode i = Some p" "i \<noteq> []" "p \<noteq> []"
    and new: "ps_score s p = None" "ps_banned s p = None" and t: "length ts = 5"
  shows "\<exists>s4 s5. reports decode (Some s) i (map (\<lambda>t. (t, -10)) (take 4 ts)) = Some s4 \<and> ps_banned s4 p = None
    \<and> reports decode (Some s) i (map (\<lambda>t. (t, -10)) ts) = Some s5
    \<and> ps_banned s5 p = Some (ts ! 4 + banMinutes) \<and> Score s5 p = -50
    \<and> (\<forall>now. now \<le> ts ! 4 + banMinutes \<longrightarrow> fst (IsBanned s5 now p) \<and> ReportPeer decode (Some s5) now i (-10) = Some s5)
    \<and> (\<forall>now. ts ! 4 + banMinutes < now \<longrightarrow> \<not> fst (IsBanned s5 now p) \<and> Score (snd (IsBanned s5 now p)) p = -25)"
proof -
  obtain t0 t1 t2 t3 t4 where ts: "ts = [t0, t1, t2, t3, t4]"
    using t by (auto simp: numeral_eq_Suc length_Suc_conv)
  have step: "\<exists>u'. ReportPeer decode (Some u) now i (-10) = Some u' \<and> scorer_ok u' \<and> Score u' p = n - 10
      \<and> ps_banned u' p = (if n - 10 \<le> -50 then Some (now + banMinutes) else None)"
    if "scorer_ok u" "Score u p = n" "ps_banned u p = None" "-50 \<le> n" "n \<le> 0" for u now n
  proof -
    have "in_i64 (Score u p + -10)" using that by (simp add: in_i64_def)
    from Report_negative [of decode i p u "-10" now] this p that(3) scorer_ok_Report [OF that(1), of decode now i "-10"] that(1,2)
    show ?thesis by (auto simp: scorer_ok_def)
  qed
  have z: "Score s p = 0" using new by (simp add: Score_def)
  from step [OF s z new(2), of t0] obtain u1 where u1: "ReportPeer decode (Some s) t0 i (-10) = Some u1"
    "scorer_ok u1" "Score u1 p = -10" "ps_banned u1 p = None" by auto
  from step [OF u1(2-4), of t1] obtain u2 where u2: "ReportPeer decode (Some u1) t1 i (-10) = Some u2"
    "scorer_ok u2" "Score u2 p = -20" "ps_banned u2 p = None" by auto
  from step [OF u2(2-4), of t2] obtain u3 where u3: "ReportPeer decode (Some u2) t2 i (-10) = Some u3"
    "scorer_ok u3" "Score u3 p = -30" "ps_banned u3 p = None" by auto
  from step [OF u3(2-4), of t3] obtain u4 where u4: "ReportPeer decode (Some u3) t3 i (-10) = Some u4"
    "scorer_ok u4" "Score u4 p = -40" "ps_banned u4 p = None" by auto
  from step [OF u4(2-4), of t4] obtain u5 where u5: "ReportPeer decode (Some u4) t4 i (-10) = Some u5"
    "scorer_ok u5" "Score u5 p = -50" "ps_banned u5 p = Some (t4 + banMinutes)" by auto
  have quiet: "IsBanned u5 now p = (True, u5)" if "now \<le> t4 + banMinutes" for now
    using that u5(4) by (simp add: IsBanned_def)
  then have "ReportPeer decode (Some u5) now i (-10) = Some u5" if "now \<le> t4 + banMinutes" for now
    using that p by (simp add: ReportPeer_def)
  moreover have "\<not> fst (IsBanned u5 now p) \<and> Score (snd (IsBanned u5 now p)) p = -25" if "t4 + banMinutes < now" for now
    using that u5(2-4) by (simp add: IsBanned_def scorer_ok_def Score_def go_div_def)
  ultimately show ?thesis
    using u1(1) u2(1) u3(1) u4(1,4) u5(1,3,4) quiet by (simp add: ts)
qed

theorem ban_lifecycle_witness:
  "\<exists>s5. reports Some (Some NewPeerScorer) ''peer'' (map (\<lambda>t. (t, -10)) [1, 2, 3, 4, 5]) = Some s5
     \<and> fst (IsBanned s5 6 ''peer'') \<and> \<not> fst (IsBanned s5 (banMinutes + 6) ''peer'')"
proof -
  have "scorer_ok NewPeerScorer" "ps_score NewPeerScorer ''peer'' = None" "ps_banned NewPeerScorer ''peer'' = None"
    by (simp_all add: scorer_ok_new) (simp_all add: NewPeerScorer_def)
  with ban_lifecycle [of NewPeerScorer Some "''peer''" "''peer''" "[1, 2, 3, 4, 5]"]
  show ?thesis by (auto simp: banMinutes_def)
qed

text \<open>
  A ban is renewed by a valid block: a peer whose score was below the threshold by more than the
  reward of a valid block stays below it, so the report of that block starts a new ban.
\<close>

theorem valid_block_renews_ban:
  assumes "scorer_ok s" "decode i = Some p" "i \<noteq> []" "p \<noteq> []" "in_i64 (Score s p + 2)" "Score s p + 2 \<le> -50"
  shows "\<exists>s'. ReportPeer decode (Some s) now i 2 = Some s' \<and> ps_banned s' p = Some (now + banMinutes)"
  using assms by (auto simp: ReportPeer_def Add_score_def Let_def Score_def i64_id scorer_ok_def)

end
