(* ===== verification/BlockSync.thy ===== *)
theory BlockSync
  imports Wire Blocks
begin

text \<open>
  Package \<^verbatim>\<open>internal/p2p\<close>, files \<^verbatim>\<open>sync.go\<close> and \<^verbatim>\<open>block_provider.go\<close>: ranges of block headers served to
  peers over a stream. A request or a response that cannot be decoded is \<open>None\<close> resp. an error; JSON
  encoding of the rest is the identity. The loop over the heights counts in \<^verbatim>\<open>uint64\<close>, so it need not
  end: it is a partial function whose value \<open>None\<close> stands for an endless loop. Deadlines of
  streams and the capacity hint of \<^verbatim>\<open>make\<close> are left out.
\<close>

record SyncRequest =
  sr_FromHeight :: uint64
  sr_ToHeight :: uint64

record SyncResponse =
  sp_Blocks :: "BlockAnnounce list"
  sp_Error :: string

definition maxBlocksPerResponse :: uint64 where
  "maxBlocksPerResponse = 50"

section \<open>The provider\<close>

definition announce_of :: "BlockHeader \<Rightarrow> BlockAnnounce" where
  "announce_of blk =
     \<lparr>ba_Height = hdr_Height blk, ba_Hash = hdr_Hash blk, ba_PrevHash = hdr_PrevHash blk,
      ba_Timestamp = hdr_Timestamp blk, ba_Proposer = hdr_Proposer blk, ba_Signature = hdr_Signature blk,
      ba_TxHashes = hdr_TxHashes blk, ba_Txs = [], ba_FromPeer = []\<rparr>"

partial_function (option) range_loop ::
  "Store \<Rightarrow> uint64 \<Rightarrow> uint64 \<Rightarrow> BlockAnnounce list \<Rightarrow> BlockAnnounce list option" where
  "range_loop s h to out =
     (if h \<le> to then
        (case GetBlock s h of
           Inl _ \<Rightarrow> Some out
         | Inr blk \<Rightarrow> range_loop s (h + 1) to (out @ [announce_of blk]))
      else Some out)"

definition GetBlockRange :: "Store \<Rightarrow> uint64 \<Rightarrow> uint64 \<Rightarrow> BlockAnnounce list res option" where
  "GetBlockRange s from to =
     (if to < from then Some (Inl (Errorf ''invalid range''))
      else map_option Inr (range_loop s from to []))"

section \<open>The two ends of the stream\<close>

definition error_string :: "error \<Rightarrow> string" where
  "error_string e =
     (case e of Errorf m \<Rightarrow> m | KeyNotFound \<Rightarrow> ''Key not found'' | BadgerErr \<Rightarrow> ''badger'' | JsonErr \<Rightarrow> ''json'')"

definition cap_range :: "uint64 \<Rightarrow> uint64 \<Rightarrow> uint64" where
  "cap_range from to =
     (if to - from + 1 > maxBlocksPerResponse then from + maxBlocksPerResponse - 1 else to)"

definition strip_txs :: "BlockAnnounce \<Rightarrow> BlockAnnounce" where
  "strip_txs b = (if length (ba_Txs b) > 200 then b\<lparr>ba_Txs := []\<rparr> else b)"

definition sync_handler ::
  "(uint64 \<Rightarrow> uint64 \<Rightarrow> BlockAnnounce list res option) \<Rightarrow> SyncRequest option \<Rightarrow> SyncResponse option" where
  "sync_handler provider req0 =
     (case req0 of
        None \<Rightarrow> Some \<lparr>sp_Blocks = [], sp_Error = ''invalid_request''\<rparr>
      | Some req \<Rightarrow>
          if sr_ToHeight req < sr_FromHeight req
          then Some \<lparr>sp_Blocks = [], sp_Error = ''invalid_range''\<rparr>
          else
            (case provider (sr_FromHeight req) (cap_range (sr_FromHeight req) (sr_ToHeight req)) of
               None \<Rightarrow> None
             | Some (Inl e) \<Rightarrow> Some \<lparr>sp_Blocks = [], sp_Error = error_string e\<rparr>
             | Some (Inr blocks) \<Rightarrow> Some \<lparr>sp_Blocks = map strip_txs blocks, sp_Error = []\<rparr>))"

text \<open>\<open>ask\<close> is what comes back from the peer: opening the stream, writing or decoding may fail.\<close>

definition RequestBlocks ::
  "bool \<Rightarrow> (SyncRequest \<Rightarrow> SyncResponse res) \<Rightarrow> uint64 \<Rightarrow> uint64 \<Rightarrow> BlockAnnounce list res" where
  "RequestBlocks has_host ask from to =
     (if \<not> has_host then Inl (Errorf ''p2p disabled'')
      else if to < from then Inl (Errorf ''invalid range'')
      else case ask \<lparr>sr_FromHeight = from, sr_ToHeight = cap_range from to\<rparr> of
        Inl e \<Rightarrow> Inl e
      | Inr resp \<Rightarrow>
          if sp_Error resp \<noteq> [] then Inl (Errorf (''peer error: '' @ sp_Error resp))
          else Inr (sp_Blocks resp))"

section \<open>The loop ends\<close>

text \<open>The loop ends at the latest at the first height without a block, wherever that is.\<close>

lemma range_loop_stops:
  "\<not> is_ok (GetBlock s (h + of_nat k)) \<Longrightarrow> \<exists>r. range_loop s h to out = Some r \<and> length r \<le> length out + k"
proof (induction k arbitrary: h out)
  case 0
  then show ?case by (subst range_loop.simps) (auto elim: not_is_okE)
next
  case (Suc k)
  then have "\<not> is_ok (GetBlock s (h + 1 + of_nat k))" by (simp add: add.assoc)
  then have "\<exists>r. range_loop s (h + 1) to out' = Some r \<and> length r \<le> length out' + k" for out' by (rule Suc.IH)
  from this [of "out @ [announce_of blk]" for blk] show ?case
    by (subst range_loop.simps) (fastforce split: sum.split)
qed

text \<open>A store with fewer than \<open>2 ^ 64\<close> entries has such a height, no further away than it has entries.\<close>

lemma GetBlock_in: "is_ok (GetBlock s h) \<Longrightarrow> blockKey h \<in> fst ` set (db s)"
  by (cases "map_of (db s) (blockKey h)")
    (auto simp: GetBlock_def txn_Get_def is_ok_def dest!: map_of_SomeD split: if_splits intro: rev_image_eqI)

lemma missing_block:
  assumes "length (db s) < 2 ^ 64"
  shows "\<exists>k \<le> length (db s). \<not> is_ok (GetBlock s (h + of_nat k))"
proof (rule ccontr)
  let ?n = "length (db s)"
  assume "\<not> ?thesis"
  then have all: "is_ok (GetBlock s (h + of_nat k))" if "k \<le> ?n" for k using that by blast
  let ?key = "\<lambda>k. blockKey (h + of_nat k)"
  have "?key ` {..?n} \<subseteq> fst ` set (db s)" using GetBlock_in [OF all] by auto
  then have "card (?key ` {..?n}) \<le> card (fst ` set (db s))" by (intro card_mono) auto
  also have "\<dots> \<le> ?n" using card_image_le [of "set (db s)" fst] card_length [of "db s"] by simp
  finally have "card (?key ` {..?n}) \<le> ?n" .
  moreover have "inj_on ?key {..?n}"
  proof (rule inj_onI)
    fix i j assume ij: "i \<in> {..?n}" "j \<in> {..?n}" "?key i = ?key j"
    then have "(of_nat i :: uint64) = of_nat j" by simp
    then have "unat (of_nat i :: uint64) = unat (of_nat j :: uint64)" by simp
    then show "i = j" using ij assms by (simp add: unsigned_of_nat take_bit_nat_eq_self)
  qed
  then have "card (?key ` {..?n}) = Suc ?n" by (simp add: card_image)
  ultimately show False by simp
qed

section \<open>What is served\<close>

text \<open>The blocks of a store from height \<open>h\<close> on: \<open>hs\<close> are consecutive and end before a gap or at \<open>to\<close>.\<close>

definition run_of :: "Store \<Rightarrow> uint64 \<Rightarrow> uint64 \<Rightarrow> BlockHeader list \<Rightarrow> bool" where
  "run_of s h to hs \<longleftrightarrow>
     (\<forall>k < length hs. GetBlock s (h + of_nat k) = Inr (hs ! k))
   \<and> length hs \<le> unat (to - h) + 1
   \<and> (length hs = unat (to - h) + 1 \<or> \<not> is_ok (GetBlock s (h + of_nat (length hs))))"

lemma run_of_Cons:
  assumes "GetBlock s h = Inr blk" "run_of s (h + 1) to hs" "unat (to - h) = Suc (unat (to - (h + 1)))"
  shows "run_of s h to (blk # hs)"
  unfolding run_of_def
proof (intro conjI allI impI)
  fix k assume "k < length (blk # hs)"
  then show "GetBlock s (h + of_nat k) = Inr ((blk # hs) ! k)"
    using assms(1,2) by (cases k) (auto simp: run_of_def add.assoc)
qed (use assms(2,3) in \<open>auto simp: run_of_def add.assoc\<close>)

lemma unat_diff_step:
  assumes "h < (to :: uint64)"
  shows "unat (to - h) = Suc (unat (to - (h + 1)))"
proof -
  have le: "h + 1 \<le> to" using assms by (rule inc_le)
  have u: "unat (h + 1) = unat h + 1" using assms by (metis eq_neg_iff_add_eq_0 word_order.extremum_strict Suc_eq_plus1 unat_succ)
  moreover have "unat (to - (h + 1)) = unat to - unat (h + 1)" "unat (to - h) = unat to - unat h"
    using le assms by (simp_all add: unat_sub)
  moreover have "unat (h + 1) \<le> unat to" using le by (simp add: word_le_nat_alt)
  ultimately show ?thesis by simp
qed

lemma range_loop_run:
  assumes "h \<le> to" "to \<noteq> - 1 \<or> \<not> is_ok (GetBlock s (h + of_nat m)) \<and> m \<le> unat (to - h)"
  shows "\<exists>hs. range_loop s h to out = Some (out @ map announce_of hs) \<and> run_of s h to hs"
  using assms
proof (induction "unat (to - h)" arbitrary: h out m)
  case 0
  then have eq: "to = h" by (simp add: unat_eq_0)
  show ?case
  proof (cases "GetBlock s h")
    case (Inl e)
    then show ?thesis
      by (intro exI [of _ "[]"]) (simp add: range_loop.simps [of s h] run_of_def)
  next
    case (Inr blk)
    then have "to \<noteq> - 1" using "0.prems" "0.hyps" by auto
    then have "\<not> h + 1 \<le> to" using eq u64_succ [of h] by (metis eq_neg_iff_add_eq_0 leD)
    then have "range_loop s (h + 1) to (out @ [announce_of blk]) = Some (out @ [announce_of blk])"
      by (subst range_loop.simps) simp
    with Inr show ?thesis
      by (intro exI [of _ "[blk]"]) (simp add: range_loop.simps [of s h] run_of_def eq)
  qed
next
  case (Suc n)
  have ne: "to \<noteq> h" using Suc.hyps(2) by auto
  then have lt: "h < to" using Suc.prems(1) by simp
  then have le: "h + 1 \<le> to" by (rule inc_le)
  have n: "n = unat (to - (h + 1))" using unat_diff_step [OF lt] Suc.hyps(2) by simp
  show ?case
  proof (cases "GetBlock s h")
    case (Inl e)
    then show ?thesis
      using Suc.prems(1) by (intro exI [of _ "[]"]) (simp add: range_loop.simps [of s h] run_of_def)
  next
    case (Inr blk)
    have side: "to \<noteq> - 1 \<or> \<not> is_ok (GetBlock s (h + 1 + of_nat (m - 1))) \<and> m - 1 \<le> unat (to - (h + 1))"
    proof (cases m)
      case 0
      with Suc.prems(2) Inr show ?thesis by auto
    next
      case (Suc m')
      with Suc.prems(2) n \<open>Suc n = unat (to - h)\<close> show ?thesis by (auto simp: add.assoc)
    qed
    from Suc.hyps(1) [OF n le side, of "out @ [announce_of blk]"] obtain hs where
      hs: "range_loop s (h + 1) to (out @ [announce_of blk]) = Some ((out @ [announce_of blk]) @ map announce_of hs)"
      "run_of s (h + 1) to hs" by blast
    have "run_of s h to (blk # hs)" by (rule run_of_Cons [OF Inr hs(2) unat_diff_step [OF lt]])
    with hs(1) Inr Suc.prems(1) show ?thesis
      by (intro exI [of _ "blk # hs"]) (simp add: range_loop.simps [of s h])
  qed
qed


lemma unat_max: "unat (- 1 :: uint64) = 2 ^ 64 - 1"
  by (simp add: unsigned_minus_1_eq_mask mask_eq_exp_minus_1)

lemma diff_overflow: "to - from + 1 = 0 \<Longrightarrow> from \<le> to \<Longrightarrow> from = 0 \<and> to = (- 1 :: uint64)"
proof -
  assume a: "to - from + 1 = 0" "from \<le> to"
  then have "to - from = - 1" by (simp add: eq_neg_iff_add_eq_0)
  moreover have "unat (to - from) = unat to - unat from" using a(2) by (simp add: unat_sub)
  moreover have "unat (- 1 :: uint64) = 2 ^ 64 - 1" by (rule unat_max)
  moreover have "unat to < 2 ^ 64" using unsigned_less [of to, where 'a = nat] by simp
  ultimately have "unat from = 0 \<and> unat to = unat (- 1 :: uint64)" by (intro conjI) (simp_all add: unat_max)
  then show "from = 0 \<and> to = - 1" by (metis unat_eq_0 word_unat_eq_iff)
qed

lemma cap_range_bounds:
  assumes "from \<le> to" "\<not> (from = 0 \<and> to = - 1)"
  shows "from \<le> cap_range from to" "cap_range from to \<le> to" "unat (cap_range from to - from) + 1 \<le> 50"
proof -
  have u: "unat (to - from + 1) = unat (to - from) + 1"
    using diff_overflow [of to "from"] assms unat_succ [of "to - from"] by auto
  have d: "unat (to - from) = unat to - unat from" using assms(1) by (simp add: unat_sub)
  have "from \<le> cap_range from to \<and> cap_range from to \<le> to \<and> unat (cap_range from to - from) + 1 \<le> 50"
  proof (cases "to - from + 1 > maxBlocksPerResponse")
    case True
    then have g: "50 < unat (to - from) + 1" using u by (simp add: word_less_nat_alt maxBlocksPerResponse_def)
    have c: "cap_range from to = from + 49" using True by (simp add: cap_range_def maxBlocksPerResponse_def)
    have "unat from + 49 < 2 ^ 64" using g d unsigned_less [of to, where 'a = nat] by simp
    then have "unat (from + 49) = unat from + 49" by (simp add: unat_word_ariths)
    then show ?thesis using g d by (simp add: c word_le_nat_alt)
  next
    case False
    then have "unat (to - from) + 1 \<le> 50" using u by (simp add: word_less_nat_alt maxBlocksPerResponse_def)
    then show ?thesis using False assms(1) by (simp add: cap_range_def)
  qed
  then show "from \<le> cap_range from to" "cap_range from to \<le> to" "unat (cap_range from to - from) + 1 \<le> 50" by auto
qed

lemma strip_announce [simp]: "strip_txs (announce_of h) = announce_of h"
  by (simp add: strip_txs_def announce_of_def)

lemma sync_served_run:
  assumes "from \<le> to" "\<not> (from = 0 \<and> to = - 1)" "to \<noteq> - 1 \<or> \<not> is_ok (GetBlock s (- 1))"
  shows "\<exists>hs. sync_handler (GetBlockRange s) (Some \<lparr>sr_FromHeight = from, sr_ToHeight = to\<rparr>) =
      Some \<lparr>sp_Blocks = map announce_of hs, sp_Error = []\<rparr>
    \<and> run_of s from (cap_range from to) hs \<and> length hs \<le> 50"
proof -
  note c = cap_range_bounds [OF assms(1,2)]
  have "cap_range from to \<noteq> - 1 \<or> \<not> is_ok (GetBlock s (from + of_nat (unat (- 1 - from)))) \<and> unat (- 1 - from) \<le> unat (cap_range from to - from)"
    using assms(3) c(2) by (cases "cap_range from to = - 1") (auto simp: word_order.extremum_unique)
  from range_loop_run [OF c(1) this, of "[]"] obtain hs where
    hs: "range_loop s from (cap_range from to) [] = Some (map announce_of hs)" "run_of s from (cap_range from to) hs" by auto
  have "length hs \<le> 50" using hs(2) c(3) by (simp add: run_of_def)
  with hs c(1) assms(1) show ?thesis
    by (auto simp: sync_handler_def GetBlockRange_def comp_def)
qed

text \<open>
  C38: the server of block ranges. On a store with fewer than \<open>2 ^ 64\<close> entries every request is answered, even
  one for which the height counter wraps around, and never with more headers than the store has entries. A valid
  range below the largest height is answered with at most 50 headers, without an error: those of the consecutive stored
  blocks from the start of the range, up to the first gap or the end of the capped range.
\<close>

theorem sync_handler_total:
  assumes "length (db s) < 2 ^ 64"
  shows "\<exists>resp. sync_handler (GetBlockRange s) req = Some resp \<and> length (sp_Blocks resp) \<le> length (db s)
    \<and> (\<forall>from to. req = Some \<lparr>sr_FromHeight = from, sr_ToHeight = to\<rparr> \<longrightarrow> from \<le> to \<longrightarrow> to \<noteq> - 1 \<longrightarrow>
         (\<exists>hs. resp = \<lparr>sp_Blocks = map announce_of hs, sp_Error = []\<rparr> \<and> run_of s from (cap_range from to) hs \<and> length hs \<le> 50))"
proof (cases req)
  case (Some r)
  obtain k where k: "k \<le> length (db s)" "\<not> is_ok (GetBlock s (sr_FromHeight r + of_nat k))" using missing_block [OF assms] by blast
  from range_loop_stops [OF k(2)] obtain bs where
    "range_loop s (sr_FromHeight r) (cap_range (sr_FromHeight r) (sr_ToHeight r)) [] = Some bs" "length bs \<le> k" by fastforce
  then have "\<exists>resp. sync_handler (GetBlockRange s) req = Some resp \<and> length (sp_Blocks resp) \<le> length (db s)"
    using k(1) by (simp add: sync_handler_def Some GetBlockRange_def)
  then obtain resp where resp: "sync_handler (GetBlockRange s) req = Some resp" "length (sp_Blocks resp) \<le> length (db s)" by blast
  moreover have "\<exists>hs. resp = \<lparr>sp_Blocks = map announce_of hs, sp_Error = []\<rparr> \<and> run_of s from (cap_range from to) hs \<and> length hs \<le> 50"
    if "req = Some \<lparr>sr_FromHeight = from, sr_ToHeight = to\<rparr>" "from \<le> to" "to \<noteq> - 1" for "from" to
    using sync_served_run [of "from" to s] that resp(1) by auto
  ultimately show ?thesis by blast
qed (simp add: sync_handler_def)

text \<open>A peer that runs this program and does not fail in between.\<close>

definition honest_peer :: "Store \<Rightarrow> SyncRequest \<Rightarrow> SyncResponse res" where
  "honest_peer s req =
     (case sync_handler (GetBlockRange s) (Some req) of None \<Rightarrow> Inl BadgerErr | Some resp \<Rightarrow> Inr resp)"

lemma cap_range_idem:
  assumes "from \<le> to" "\<not> (from = 0 \<and> to = - 1)"
  shows "cap_range from (cap_range from to) = cap_range from to"
proof -
  note c = cap_range_bounds [OF assms]
  have "cap_range from to - from + 1 \<le> 50"
  proof (cases "cap_range from to - from + 1 = 0")
    case False
    then have "unat (cap_range from to - from + 1) = unat (cap_range from to - from) + 1" by (simp add: unat_succ)
    with c(3) show ?thesis by (simp add: word_le_nat_alt)
  qed simp
  then show ?thesis by (simp add: cap_range_def [of "from" "cap_range from to"] maxBlocksPerResponse_def leD)
qed

lemma RequestBlocks_run:
  assumes "from \<le> to" "\<not> (from = 0 \<and> to = - 1)" "\<not> is_ok (GetBlock s (- 1))"
  shows "\<exists>hs. RequestBlocks True (honest_peer s) from to = Inr (map announce_of hs)
    \<and> run_of s from (cap_range from to) hs \<and> length hs \<le> 50 \<and> cap_range from to \<le> to"
proof -
  note c = cap_range_bounds [OF assms(1,2)]
  have "\<not> (from = 0 \<and> cap_range from to = - 1)"
    using c(3) by (auto simp: unat_max)
  from sync_served_run [OF c(1) this disjI2 [OF assms(3)]] show ?thesis
    using assms(1) c(2) by (auto simp: RequestBlocks_def honest_peer_def cap_range_idem [OF assms(1,2)] split: option.splits)
qed


text \<open>
  Asking an honest peer for a range returns the longest run of its stored headers that starts
  at the first height asked for, in order and without gaps, at most fifty of them and none beyond
  the last height asked for.
\<close>

theorem RequestBlocks_honest:
  assumes "from \<le> to" "\<not> (from = 0 \<and> to = - 1)" "\<not> is_ok (GetBlock s (- 1))"
  shows "\<exists>hs. RequestBlocks True (honest_peer s) from to = Inr (map announce_of hs)
    \<and> run_of s from (cap_range from to) hs \<and> length hs \<le> 50 \<and> cap_range from to \<le> to"
  by (rule RequestBlocks_run [OF assms])

text \<open>A store with the blocks of heights 1, 2 and 4.\<close>

definition sync_header :: "uint64 \<Rightarrow> BlockHeader" where
  "sync_header h = \<lparr>hdr_Height = h, hdr_Hash = show_u64 h, hdr_PrevHash = show_u64 (h - 1), hdr_StateRoot = [],
     hdr_TxHashes = [], hdr_Timestamp = 0, hdr_Proposer = ''0xab'', hdr_TxCount = 0, hdr_Signature = [],
     hdr_LastCommitRound = 0, hdr_LastCommitVotes = 0, hdr_LastCommitHash = []\<rparr>"

definition sync_store :: Store where
  "sync_store = empty_store\<lparr>db := fold (\<lambda>h. kv_set (blockKey h) (BlockV (sync_header h))) [1, 2, 4] []\<rparr>"

lemma sync_store_block:
  "GetBlock sync_store h = (if h \<in> {1, 2, 4} then Inr (sync_header h) else Inl KeyNotFound)"
  by (auto simp: GetBlock_def txn_Get_def sync_store_def)

theorem sync_handler_total_witness:
  "(\<exists>resp. sync_handler (GetBlockRange sync_store) (Some \<lparr>sr_FromHeight = 0, sr_ToHeight = - 1\<rparr>) = Some resp \<and> length (sp_Blocks resp) \<le> 3)
   \<and> (\<exists>hs. sync_handler (GetBlockRange sync_store) (Some \<lparr>sr_FromHeight = 1, sr_ToHeight = 9\<rparr>) = Some \<lparr>sp_Blocks = map announce_of hs, sp_Error = []\<rparr>
        \<and> run_of sync_store 1 9 hs)"
proof -
  have l: "length (db sync_store) = 3" "length (db sync_store) < 2 ^ 64" by (simp_all add: sync_store_def)
  have c: "cap_range 1 9 = 9" by (simp add: cap_range_def maxBlocksPerResponse_def)
  show ?thesis
    using sync_handler_total [OF l(2), of "Some \<lparr>sr_FromHeight = 0, sr_ToHeight = - 1\<rparr>"]
      sync_handler_total [OF l(2), of "Some \<lparr>sr_FromHeight = 1, sr_ToHeight = 9\<rparr>"] by (auto simp: l(1) c)
qed

theorem RequestBlocks_honest_witness:
  "RequestBlocks True (honest_peer sync_store) 1 9 = Inr (map announce_of [sync_header 1, sync_header 2])"
proof -
  have m: "\<not> is_ok (GetBlock sync_store (- 1))" by (simp add: sync_store_block)
  from RequestBlocks_honest [of 1 9 sync_store] m obtain hs where
    hs: "RequestBlocks True (honest_peer sync_store) 1 9 = Inr (map announce_of hs)" "run_of sync_store 1 (cap_range 1 9) hs"
    by auto
  have c: "cap_range 1 9 = 9" by (simp add: cap_range_def maxBlocksPerResponse_def)
  have l: "length hs = 2"
  proof -
    have "\<not> 2 < length hs" using hs(2) by (auto simp: run_of_def sync_store_block dest!: spec [of _ 2])
    moreover have "length hs \<noteq> 0" "length hs \<noteq> 1" using hs(2) by (auto simp: run_of_def c sync_store_block)
    ultimately show ?thesis by linarith
  qed
  have "hs ! 0 = sync_header 1" "hs ! 1 = sync_header 2"
    using hs(2) l by (auto simp: run_of_def sync_store_block dest: spec [of _ 0] spec [of _ 1])
  then have "hs = [sync_header 1, sync_header 2]" using l by (cases hs; cases "tl hs") auto
  with hs(1) show ?thesis by simp
qed

text \<open>The cap is computed in \<^verbatim>\<open>uint64\<close>: the widest possible request wraps to zero and is not capped.\<close>

theorem widest_request_uncapped: "cap_range 0 (- 1) = - 1"
  by (simp add: cap_range_def maxBlocksPerResponse_def)

end
