(* ===== verification/Archive.thy ===== *)
theory Archive
  imports BlockSync Seal
begin

text \<open>
  Package \<^verbatim>\<open>internal/sync\<close>, file \<^verbatim>\<open>archive.go\<close>: filling in block headers from an HTTP archive or from a
  connected peer. \<open>http\<close> is what comes back from a GET of a URL: a failure to send it or to read the
  answer, or the status with the result of decoding the body. The two loops count heights in
  \<^verbatim>\<open>uint64\<close> and depend on what the other side answers, so they are partial functions whose value
  \<open>None\<close> stands for an endless loop; a peer may answer each request differently, so its answers are
  indexed by the number of the request.
\<close>

record archiveBlock =
  ab_Success :: bool
  ab_Height :: uint64
  ab_Hash :: string
  ab_PreviousHash :: string
  ab_MerkleRoot :: string
  ab_Validator :: string
  ab_Timestamp :: int
  ab_Signature :: string
  ab_Transactions :: "string list"

record archiveRangeResponse =
  arr_Blocks :: "archiveBlock list"
  arr_Error :: string

record heightResponse =
  hr_Height :: int
  hr_Error :: string

definition archiveRangeSize :: uint64 where
  "archiveRangeSize = 500"

section \<open>The archive\<close>

definition FetchArchiveHeight :: "(string \<Rightarrow> (int \<times> heightResponse res) res) \<Rightarrow> string \<Rightarrow> int res" where
  "FetchArchiveHeight http baseURL =
     (case http (baseURL @ ''/api/archive/headers?tip=1'') of
        Inl e \<Rightarrow> Inl e
      | Inr (code, body) \<Rightarrow>
          if code \<noteq> 200 then Inl (Errorf ''archive tip: HTTP'')
          else case body of
            Inl _ \<Rightarrow> Inl (Errorf ''archive tip: decode'')
          | Inr hr \<Rightarrow>
              if hr_Error hr \<noteq> [] then Inl (Errorf (''archive tip: '' @ hr_Error hr))
              else if hr_Height hr < 0 then Inl (Errorf ''archive tip: archive is empty'')
              else Inr (hr_Height hr))"

definition fetchArchiveRange ::
  "(string \<Rightarrow> (int \<times> archiveRangeResponse res) res) \<Rightarrow> string \<Rightarrow> uint64 \<Rightarrow> uint64 \<Rightarrow> archiveBlock list res" where
  "fetchArchiveRange http baseURL from to =
     (case http (baseURL @ ''/api/archive/blocks-range?from='' @ show_u64 from @ ''&to='' @ show_u64 to) of
        Inl e \<Rightarrow> Inl e
      | Inr (code, body) \<Rightarrow>
          if code \<noteq> 200 then Inl (Errorf ''blocks-range: HTTP'')
          else case body of
            Inl _ \<Rightarrow> Inl (Errorf ''blocks-range: decode'')
          | Inr rr \<Rightarrow>
              if arr_Error rr \<noteq> [] then Inl (Errorf (''blocks-range: '' @ arr_Error rr))
              else Inr (arr_Blocks rr))"

text \<open>Whether a block passes the signature check; without an expected signer every block does.\<close>

definition archive_signed :: "Geth \<Rightarrow> string \<Rightarrow> archiveBlock \<Rightarrow> bool" where
  "archive_signed E expectedSigner b \<longleftrightarrow>
     (if expectedSigner \<noteq> [] then
        (if ab_Signature b = [] then False
         else VerifyEIP191 E (BuildChainSigningMessage (ab_Height b) (ab_Hash b)) (ab_Signature b) expectedSigner = Inr True)
      else True)"

definition archive_header :: "archiveBlock \<Rightarrow> BlockHeader" where
  "archive_header b =
     (let txHashes = filter (\<lambda>t. t \<noteq> []) (ab_Transactions b) in
      \<lparr>hdr_Height = ab_Height b, hdr_Hash = ab_Hash b, hdr_PrevHash = ab_PreviousHash b, hdr_StateRoot = [],
       hdr_TxHashes = txHashes, hdr_Timestamp = ab_Timestamp b, hdr_Proposer = ab_Validator b,
       hdr_TxCount = int (length txHashes), hdr_Signature = ab_Signature b,
       hdr_LastCommitRound = 0, hdr_LastCommitVotes = 0, hdr_LastCommitHash = []\<rparr>)"

fun save_archive :: "Geth \<Rightarrow> string \<Rightarrow> Store \<Rightarrow> archiveBlock list \<Rightarrow> unit res \<times> Store" where
  "save_archive E signer s [] = (Inr (), s)"
| "save_archive E signer s (b # bs) =
     (if \<not> ab_Success b \<or> ab_Hash b = [] then save_archive E signer s bs
      else if \<not> archive_signed E signer b then save_archive E signer s bs
      else case GetLatestHeight s of
        Inl e \<Rightarrow> (Inl (Errorf ''recheck local height before saving block''), s)
      | Inr current \<Rightarrow>
          if ab_Height b \<le> current then save_archive E signer s bs
          else (case SaveBlock s (archive_header b) of
                  (Inl e, s') \<Rightarrow> (Inl (Errorf ''save block''), s')
                | (Inr _, s') \<Rightarrow> save_archive E signer s' bs))"

partial_function (option) archive_loop ::
  "Geth \<Rightarrow> string \<Rightarrow> (uint64 \<Rightarrow> uint64 \<Rightarrow> archiveBlock list res) \<Rightarrow> Store \<Rightarrow> uint64 \<Rightarrow> uint64 \<Rightarrow> (unit res \<times> Store) option" where
  "archive_loop E signer fetch s from target =
     (if from \<le> target then
        (let to0 = from + archiveRangeSize - 1;
             to = (if to0 > target then target else to0)
         in case fetch from to of
              Inl e \<Rightarrow> Some (Inl (Errorf ''fetch range''), s)
            | Inr blocks \<Rightarrow>
                (case save_archive E signer s blocks of
                   (Inl e, s') \<Rightarrow> Some (Inl e, s')
                 | (Inr _, s') \<Rightarrow> archive_loop E signer fetch s' (from + archiveRangeSize) target))
      else Some (Inr (), s))"

definition SyncFromArchive ::
  "Geth \<Rightarrow> (string \<Rightarrow> (int \<times> archiveRangeResponse res) res) \<Rightarrow> Store \<Rightarrow> string \<Rightarrow> string \<Rightarrow> uint64 \<Rightarrow> (unit res \<times> Store) option" where
  "SyncFromArchive E http s baseURL expectedSigner targetHeight =
     (if baseURL = [] then Some (Inl (Errorf ''archive base URL is empty''), s)
      else case GetLatestHeight s of
        Inl e \<Rightarrow> Some (Inl (Errorf ''read local height''), s)
      | Inr localHeight \<Rightarrow>
          if localHeight \<ge> targetHeight then Some (Inr (), s)
          else archive_loop E expectedSigner (fetchArchiveRange http baseURL) s (localHeight + 1) targetHeight)"

section \<open>A connected peer\<close>

definition synced_header :: "BlockAnnounce \<Rightarrow> BlockHeader" where
  "synced_header b =
     \<lparr>hdr_Height = ba_Height b, hdr_Hash = ba_Hash b, hdr_PrevHash = ba_PrevHash b, hdr_StateRoot = [],
      hdr_TxHashes = ba_TxHashes b, hdr_Timestamp = ba_Timestamp b, hdr_Proposer = ba_Proposer b,
      hdr_TxCount = int (length (ba_TxHashes b)), hdr_Signature = ba_Signature b,
      hdr_LastCommitRound = 0, hdr_LastCommitVotes = 0, hdr_LastCommitHash = []\<rparr>"

text \<open>The blocks of one response; the result carries the next height to ask for.\<close>

fun save_synced :: "Store \<Rightarrow> uint64 \<Rightarrow> BlockAnnounce list \<Rightarrow> uint64 res \<times> Store" where
  "save_synced s from [] = (Inr from, s)"
| "save_synced s from (b # bs) =
     (case GetLatestHeight s of
        Inl e \<Rightarrow> (Inl (Errorf ''recheck local height before saving block''), s)
      | Inr current \<Rightarrow>
          if ba_Height b \<le> current then save_synced s from bs
          else (case SaveBlock s (synced_header b) of
                  (Inl e, s') \<Rightarrow> (Inl (Errorf ''save block''), s')
                | (Inr _, s') \<Rightarrow> save_synced s' (ba_Height b + 1) bs))"

partial_function (option) peers_loop ::
  "(nat \<Rightarrow> SyncRequest \<Rightarrow> SyncResponse res) \<Rightarrow> nat \<Rightarrow> Store \<Rightarrow> uint64 \<Rightarrow> uint64 \<Rightarrow> (unit res \<times> Store) option" where
  "peers_loop ask n s from target =
     (if from \<le> target then
        (case RequestBlocks True (ask n) from target of
           Inl e \<Rightarrow> Some (Inl (Errorf ''request blocks''), s)
         | Inr blocks \<Rightarrow>
             if blocks = [] then Some (Inr (), s)
             else (case save_synced s from blocks of
                     (Inl e, s') \<Rightarrow> Some (Inl e, s')
                   | (Inr from', s') \<Rightarrow> peers_loop ask (n + 1) s' from' target))
      else Some (Inr (), s))"

text \<open>The answers of the first connected peer; \<open>peers\<close> lists the connected ones.\<close>

definition SyncFromPeers ::
  "Store \<Rightarrow> Node option \<Rightarrow> (nat \<Rightarrow> SyncRequest \<Rightarrow> SyncResponse res) list \<Rightarrow> uint64 \<Rightarrow> (unit res \<times> Store) option" where
  "SyncFromPeers s node peers targetHeight =
     (case GetLatestHeight s of
        Inl e \<Rightarrow> Some (Inl (Errorf ''read local height''), s)
      | Inr localHeight \<Rightarrow>
          if localHeight \<ge> targetHeight then Some (Inr (), s)
          else if (case node of None \<Rightarrow> True | Some n \<Rightarrow> \<not> Enabled n) then Some (Inl (Errorf ''p2p not enabled''), s)
          else if peers = [] then Some (Inl (Errorf ''no connected peers to sync from''), s)
          else peers_loop (hd peers) 0 s (localHeight + 1) targetHeight)"

section \<open>Catching up\<close>

text \<open>
  What both do to a store: the height does not go down, only headers above the old height are
  added, all of them with the property \<open>P\<close>, and nothing but headers and the height changes.
\<close>

definition header_key :: "string \<Rightarrow> bool" where
  "header_key k \<longleftrightarrow> prefix ''blk:'' k \<or> k = metaKey ''latest_height''"

definition catch_up :: "(BlockHeader \<Rightarrow> bool) \<Rightarrow> Store \<Rightarrow> Store \<Rightarrow> bool" where
  "catch_up P s s' \<longleftrightarrow>
     (\<exists>l l'. GetLatestHeight s = Inr l \<and> GetLatestHeight s' = Inr l' \<and> l \<le> l'
        \<and> (\<forall>h. GetBlock s' h = GetBlock s h
              \<or> l < h \<and> h \<le> l' \<and> (\<exists>b. GetBlock s' h = Inr b \<and> hdr_Height b = h \<and> P b)))
   \<and> (\<forall>k. \<not> header_key k \<longrightarrow> map_of (db s') k = map_of (db s) k) \<and> healthy s'"

lemma catch_up_refl: "healthy s \<Longrightarrow> is_ok (GetLatestHeight s) \<Longrightarrow> catch_up P s s"
  by (auto simp: catch_up_def elim: is_okE)

lemma catch_up_mono:
  assumes "catch_up P s s'" "\<And>b. P b \<Longrightarrow> Q b"
  shows "catch_up Q s s'"
proof -
  from assms(1) obtain l l' where a: "GetLatestHeight s = Inr l" "GetLatestHeight s' = Inr l'" "l \<le> l'"
    "\<forall>h. GetBlock s' h = GetBlock s h \<or> l < h \<and> h \<le> l' \<and> (\<exists>b. GetBlock s' h = Inr b \<and> hdr_Height b = h \<and> P b)"
    by (auto simp: catch_up_def)
  then have "\<forall>h. GetBlock s' h = GetBlock s h \<or> l < h \<and> h \<le> l' \<and> (\<exists>b. GetBlock s' h = Inr b \<and> hdr_Height b = h \<and> Q b)"
    using assms(2) by blast
  with a(1-3) assms(1) show ?thesis by (auto simp: catch_up_def)
qed

lemma catch_up_trans:
  assumes "catch_up P s s'" "catch_up P s' s''"
  shows "catch_up P s s''"
proof -
  from assms(1) obtain l l' where a: "GetLatestHeight s = Inr l" "GetLatestHeight s' = Inr l'" "l \<le> l'"
    "\<And>h. GetBlock s' h = GetBlock s h \<or> l < h \<and> h \<le> l' \<and> (\<exists>b. GetBlock s' h = Inr b \<and> hdr_Height b = h \<and> P b)"
    by (auto simp: catch_up_def)
  from assms(2) a(2) obtain l'' where b: "GetLatestHeight s'' = Inr l''" "l' \<le> l''"
    "\<And>h. GetBlock s'' h = GetBlock s' h \<or> l' < h \<and> h \<le> l'' \<and> (\<exists>b. GetBlock s'' h = Inr b \<and> hdr_Height b = h \<and> P b)"
    by (auto simp: catch_up_def)
  have "GetBlock s'' h = GetBlock s h \<or> l < h \<and> h \<le> l'' \<and> (\<exists>b. GetBlock s'' h = Inr b \<and> hdr_Height b = h \<and> P b)" for h
    using a(3) a(4) [of h] b(2) b(3) [of h] by (metis le_less_trans order_trans)
  moreover have "l \<le> l''" using a(3) b(2) by (rule order_trans)
  ultimately show ?thesis using assms a(1) b(1) by (auto simp: catch_up_def)
qed

lemma catch_up_save:
  assumes "healthy s" "GetLatestHeight s = Inr l" "l < hdr_Height b" "P b" "SaveBlock s b = (r, s')"
  shows "r = Inr () \<and> catch_up P s s' \<and> GetLatestHeight s' = Inr (hdr_Height b) \<and> GetBlock s' (hdr_Height b) = Inr b"
proof -
  obtain s1 where s1: "SaveBlock s b = (Inr (), s1)" "healthy s1" "GetBlock s1 (hdr_Height b) = Inr b"
    "GetLatestHeight s1 = Inr (hdr_Height b)" using SaveBlock_healthy [OF assms(1), of b] by blast
  with assms(5) have e: "r = Inr ()" "s1 = s'" by auto
  note d = SaveBlock_run [OF s1(1)]
  have other: "GetBlock s' h = GetBlock s h" if "h \<noteq> hdr_Height b" for h
    using that assms(1) unfolding d [unfolded e] by (simp add: GetBlock_def txn_Get_def)
  have frame: "map_of (db s') k = map_of (db s) k" if "\<not> header_key k" for k
    using that unfolding d [unfolded e] by (auto simp: header_key_def)
  have "\<forall>h. GetBlock s' h = GetBlock s h
      \<or> l < h \<and> h \<le> hdr_Height b \<and> (\<exists>c. GetBlock s' h = Inr c \<and> hdr_Height c = h \<and> P c)"
    using assms(3,4) s1(3) e other by (metis order_refl)
  then have "catch_up P s s'"
    unfolding catch_up_def using assms(2,3) s1(2,4) e frame less_imp_le by blast
  with s1 e show ?thesis by simp
qed


lemma save_archive_catch_up:
  assumes "healthy s" "is_ok (GetLatestHeight s)" "save_archive E signer s bs = (r, s')"
  shows "r = Inr () \<and> catch_up (\<lambda>b. \<exists>a. b = archive_header a \<and> archive_signed E signer a) s s'"
  using assms
proof (induction bs arbitrary: s)
  case Nil
  then show ?case by (auto intro: catch_up_refl)
next
  case (Cons b bs)
  let ?P = "\<lambda>b. \<exists>a. b = archive_header a \<and> archive_signed E signer a"
  obtain l where l: "GetLatestHeight s = Inr l" using Cons.prems(2) by (auto elim: is_okE)
  show ?case
  proof (cases "ab_Success b \<and> ab_Hash b \<noteq> [] \<and> archive_signed E signer b \<and> l < ab_Height b")
    case False
    then have "save_archive E signer s bs = (r, s')" using Cons.prems(3) l by (auto split: if_splits)
    then show ?thesis by (rule Cons.IH [OF Cons.prems(1,2)])
  next
    case True
    obtain r1 s1 where s1: "SaveBlock s (archive_header b) = (r1, s1)" by (cases "SaveBlock s (archive_header b)")
    have hh: "hdr_Height (archive_header b) = ab_Height b" by (simp add: archive_header_def Let_def)
    have c: "r1 = Inr ()" "catch_up ?P s s1" "GetLatestHeight s1 = Inr (ab_Height b)"
      using catch_up_save [OF Cons.prems(1) l _ _ s1, of ?P] True hh by auto
    have "\<not> ab_Height b \<le> l" using True by (simp add: not_le)
    then have "save_archive E signer s1 bs = (r, s')" using Cons.prems(3) True l s1 c(1) by simp
    moreover have "healthy s1" using c(2) by (simp add: catch_up_def)
    ultimately have "r = Inr () \<and> catch_up ?P s1 s'" using c(3) by (intro Cons.IH) auto
    with c(2) show ?thesis by (auto intro: catch_up_trans)
  qed
qed

lemma catch_up_ok: "catch_up P s s' \<Longrightarrow> healthy s' \<and> is_ok (GetLatestHeight s')"
  by (auto simp: catch_up_def)

lemma archive_loop_sound:
  assumes "healthy s" "is_ok (GetLatestHeight s)" "unat from \<le> unat target + 500" "unat target + 1000 < 2 ^ 64"
  shows "\<exists>r s'. archive_loop E signer fetch s from target = Some (r, s')
    \<and> catch_up (\<lambda>b. \<exists>a. b = archive_header a \<and> archive_signed E signer a) s s'"
  using assms
proof (induction "unat target + 500 - unat from" arbitrary: s "from" rule: less_induct)
  case less
  show ?case
  proof (cases "from \<le> target \<and> (\<exists>bs. fetch from (if from + archiveRangeSize - 1 > target then target else from + archiveRangeSize - 1) = Inr bs)")
    case False
    then show ?thesis
      using less.prems(1,2) by (subst archive_loop.simps) (auto simp: Let_def catch_up_refl split: sum.split)
  next
    case True
    then obtain bs where bs: "fetch from (if from + archiveRangeSize - 1 > target then target else from + archiveRangeSize - 1) = Inr bs" and le: "from \<le> target" by blast
    obtain r1 s1 where s1: "save_archive E signer s bs = (r1, s1)" by (cases "save_archive E signer s bs")
    note c = save_archive_catch_up [OF less.prems(1,2) s1]
    have u: "unat (from + archiveRangeSize) = unat from + 500"
      using le less.prems(4) by (simp add: archiveRangeSize_def word_le_nat_alt unat_word_ariths)
    have "\<exists>r s'. archive_loop E signer fetch s1 (from + archiveRangeSize) target = Some (r, s')
        \<and> catch_up (\<lambda>b. \<exists>a. b = archive_header a \<and> archive_signed E signer a) s1 s'"
      using le u c catch_up_ok less.prems(4) by (intro less.hyps) (auto simp: word_le_nat_alt)
    with c show ?thesis
      using bs le s1 by (subst archive_loop.simps) (auto simp: Let_def intro: catch_up_trans)
  qed
qed

text \<open>
  C36: synchronisation from the archive ends for every target height the chain can reach, whatever
  the archive answers; the height never goes down, headers the node already had stay as they are,
  every header that is added lies above the old height and is signed by the expected signer over
  its height and hash, and accounts, buckets and all other entries are untouched.
\<close>

theorem SyncFromArchive_safe:
  assumes "healthy s" "is_ok (GetLatestHeight s)" "unat target + 1000 < 2 ^ 64" "signer \<noteq> []"
  shows "\<exists>r s'. SyncFromArchive E http s base signer target = Some (r, s')
    \<and> catch_up (\<lambda>b. \<exists>a. b = archive_header a
        \<and> VerifyEIP191 E (BuildChainSigningMessage (hdr_Height b) (hdr_Hash b)) (hdr_Signature b) signer = Inr True) s s'"
proof -
  obtain l where l: "GetLatestHeight s = Inr l" using assms(2) by (auto elim: is_okE)
  have mono: "catch_up (\<lambda>b. \<exists>a. b = archive_header a
      \<and> VerifyEIP191 E (BuildChainSigningMessage (hdr_Height b) (hdr_Hash b)) (hdr_Signature b) signer = Inr True) u u'"
    if "catch_up (\<lambda>b. \<exists>a. b = archive_header a \<and> archive_signed E signer a) u u'" for u u'
    using that by (rule catch_up_mono)
      (use assms(4) in \<open>auto simp: archive_signed_def archive_header_def Let_def split: if_splits\<close>)
  show ?thesis
  proof (cases "base = [] \<or> target \<le> l")
    case True
    then show ?thesis using l assms(1,2) by (auto simp: SyncFromArchive_def intro: catch_up_refl)
  next
    case False
    then have "l < target" by (simp add: not_le)
    then have "unat (l + 1) \<le> unat target + 500"
      by (metis add.commute inc_le le_add1 le_trans word_le_nat_alt)
    from archive_loop_sound [OF assms(1,2) this assms(3), of E signer "fetchArchiveRange http base"] mono
    show ?thesis using l False by (auto simp: SyncFromArchive_def)
  qed
qed


theorem SyncFromArchive_safe_witness:
  "\<exists>r s'. SyncFromArchive toy_geth (\<lambda>_. Inr (200, Inr \<lparr>arr_Blocks = [], arr_Error = []\<rparr>)) empty_store ''http'' ''0xab'' 7 = Some (r, s')
    \<and> catch_up (\<lambda>b. \<exists>a. b = archive_header a
        \<and> VerifyEIP191 toy_geth (BuildChainSigningMessage (hdr_Height b) (hdr_Hash b)) (hdr_Signature b) ''0xab'' = Inr True) empty_store s'"
proof -
  have "is_ok (GetLatestHeight empty_store)" by (simp add: GetLatestHeight_def txn_Get_def)
  then show ?thesis by (intro SyncFromArchive_safe) simp_all
qed

section \<open>Catching up with an honest peer\<close>

text \<open>
  \<open>filled ps l m s s'\<close>: \<open>s'\<close> is \<open>s\<close> with height \<open>m\<close> and the headers of the peer's store \<open>ps\<close> above \<open>l\<close>, up
  to \<open>m\<close>, added.
\<close>

definition filled :: "Store \<Rightarrow> uint64 \<Rightarrow> uint64 \<Rightarrow> Store \<Rightarrow> Store \<Rightarrow> bool" where
  "filled ps l m s s' \<longleftrightarrow> healthy s' \<and> GetLatestHeight s' = Inr m
     \<and> (\<forall>h. GetBlock s' h =
           (if l < h \<and> h \<le> m then map_sum id (\<lambda>b. synced_header (announce_of b)) (GetBlock ps h) else GetBlock s h))
     \<and> (\<forall>k. \<not> header_key k \<longrightarrow> map_of (db s') k = map_of (db s) k)"

lemma filled_refl: "healthy s \<Longrightarrow> GetLatestHeight s = Inr l \<Longrightarrow> filled ps l l s s"
  by (auto simp: filled_def)

lemma filled_step:
  assumes "filled ps l m s s1" "l \<le> m" "m < m + 1" "GetBlock ps (m + 1) = Inr b" "hdr_Height b = m + 1"
    "SaveBlock s1 (synced_header (announce_of b)) = (r, s2)"
  shows "r = Inr () \<and> filled ps l (m + 1) s s2"
proof -
  let ?b = "synced_header (announce_of b)"
  have hb: "hdr_Height ?b = m + 1" using assms(5) by (simp add: synced_header_def announce_of_def)
  have s1: "healthy s1" "GetLatestHeight s1 = Inr m" using assms(1) by (simp_all add: filled_def)
  have c: "r = Inr ()" "catch_up (\<lambda>b. True) s1 s2" "GetLatestHeight s2 = Inr (m + 1)" "GetBlock s2 (m + 1) = Inr ?b"
    using catch_up_save [OF s1, of ?b "\<lambda>b. True" r s2] assms(3,6) hb by auto
  have other: "GetBlock s2 h = GetBlock s1 h" if "h \<noteq> m + 1" for h
    using SaveBlock_run [of s1 ?b s2] assms(6) c(1) that hb s1(1) by (simp add: GetBlock_def txn_Get_def)
  have "GetBlock s2 h = (if l < h \<and> h \<le> m + 1 then map_sum id (\<lambda>b. synced_header (announce_of b)) (GetBlock ps h) else GetBlock s h)" for h
  proof (cases "h = m + 1")
    case True
    then show ?thesis using c(4) assms(2-4) by auto
  next
    case False
    have "unat (m + 1) = Suc (unat m)" using assms(3) by (intro unat_succ) auto
    then have "h \<le> m + 1 \<longleftrightarrow> h \<le> m"
      using False unfolding word_le_nat_alt word_unat_eq_iff by linarith
    then show ?thesis using other [OF False] assms(1) by (simp add: filled_def)
  qed
  moreover have "map_of (db s2) k = map_of (db s) k" if "\<not> header_key k" for k
    using that c(2) assms(1) by (simp add: catch_up_def filled_def)
  moreover have "healthy s2" using c(2) by (simp add: catch_up_def)
  ultimately show ?thesis using c(1,3) by (simp add: filled_def)
qed

lemma save_synced_run:
  assumes "filled ps l m s s1" "l \<le> m" "unat m + length hs < 2 ^ 64" "from = m + 1"
    "\<And>k. k < length hs \<Longrightarrow> GetBlock ps (m + 1 + of_nat k) = Inr (hs ! k) \<and> hdr_Height (hs ! k) = m + 1 + of_nat k"
  shows "\<exists>s2. save_synced s1 from (map announce_of hs) = (Inr (m + of_nat (length hs) + 1), s2)
    \<and> filled ps l (m + of_nat (length hs)) s s2"
  using assms
proof (induction hs arbitrary: m s1 "from")
  case (Cons b hs)
  have "unat m + 1 < 2 ^ 64" using Cons.prems(3) by simp
  then have um: "unat (m + 1) = unat m + 1" by (simp add: unat_word_ariths)
  then have up: "m < m + 1" by (simp add: word_less_nat_alt)
  have b: "GetBlock ps (m + 1) = Inr b" "hdr_Height b = m + 1" using Cons.prems(5) [of 0] by auto
  obtain r s2 where s2: "SaveBlock s1 (synced_header (announce_of b)) = (r, s2)"
    by (cases "SaveBlock s1 (synced_header (announce_of b))")
  note st = filled_step [OF Cons.prems(1,2) up b s2]
  have "\<exists>s3. save_synced s2 (m + 1 + 1) (map announce_of hs) = (Inr (m + 1 + of_nat (length hs) + 1), s3)
      \<and> filled ps l (m + 1 + of_nat (length hs)) s s3"
  proof (rule Cons.IH)
    show "filled ps l (m + 1) s s2" using st by simp
    show "l \<le> m + 1" using Cons.prems(2) up by (meson less_imp_le order_trans)
    show "GetBlock ps (m + 1 + 1 + of_nat k) = Inr (hs ! k) \<and> hdr_Height (hs ! k) = m + 1 + 1 + of_nat k"
      if "k < length hs" for k
      using Cons.prems(5) [of "Suc k"] that by (simp add: ac_simps)
  qed (use Cons.prems(3) um in auto)
  moreover have "GetLatestHeight s1 = Inr m" using Cons.prems(1) by (simp add: filled_def)
  moreover have "ba_Height (announce_of b) = m + 1" using b(2) by (simp add: announce_of_def)
  moreover have "\<not> m + 1 \<le> m" using up by (simp add: not_le)
  ultimately show ?case using s2 st by (auto simp: ac_simps)
qed simp


text \<open>What one answer of an honest peer holds: consecutive blocks of its chain above \<open>m\<close>, up to the target.\<close>

lemma batch_served:
  assumes mt: "m \<noteq> - 1" "m + 1 \<le> target" "l \<le> m" and hs: "run_of ps (m + 1) to hs" "m + 1 \<le> to" "to \<le> target"
    and chain: "\<And>h. l < h \<Longrightarrow> h \<le> tip \<Longrightarrow> \<exists>b. GetBlock ps h = Inr b \<and> hdr_Height b = h"
    and above: "\<And>h. tip < h \<Longrightarrow> \<not> is_ok (GetBlock ps h)"
  shows "unat m + length hs < 2 ^ 64" "unat m + length hs \<le> unat target"
    "k \<le> length hs \<Longrightarrow> unat (m + of_nat k) = unat m + k"
    "k < length hs \<Longrightarrow> GetBlock ps (m + 1 + of_nat k) = Inr (hs ! k) \<and> hdr_Height (hs ! k) = m + 1 + of_nat k
        \<and> m + 1 + of_nat k \<le> tip"
proof -
  have um: "unat (m + 1) = Suc (unat m)" using mt(1) by (intro unat_succ) (simp add: eq_neg_iff_add_eq_0 [symmetric])
  have "length hs \<le> unat (to - (m + 1)) + 1" using hs(1) by (simp add: run_of_def)
  also have "\<dots> = unat to - unat m" using hs(2) um by (simp add: unat_sub word_le_nat_alt)
  finally have "unat m + length hs \<le> unat to" using hs(2) um by (simp add: word_le_nat_alt)
  then show b: "unat m + length hs < 2 ^ 64" "unat m + length hs \<le> unat target"
    using unsigned_less [of to, where 'a = nat] hs(3) by (simp_all add: word_le_nat_alt)
  then show u: "k \<le> length hs \<Longrightarrow> unat (m + of_nat k) = unat m + k" for k
    by (simp add: unat_word_ariths unat_of_nat)
  assume k: "k < length hs"
  then have g: "GetBlock ps (m + 1 + of_nat k) = Inr (hs ! k)" using hs(1) by (simp add: run_of_def)
  have "l < m + 1 + of_nat k"
    using u [of "Suc k"] k mt(3) by (simp add: word_less_nat_alt word_le_nat_alt add.assoc)
  moreover have "m + 1 + of_nat k \<le> tip" using above [of "m + 1 + of_nat k"] g by (force simp: not_le)
  ultimately show "GetBlock ps (m + 1 + of_nat k) = Inr (hs ! k) \<and> hdr_Height (hs ! k) = m + 1 + of_nat k
      \<and> m + 1 + of_nat k \<le> tip" using chain g by force
qed

lemma peers_loop_honest:
  assumes "filled ps l m s s1" "l \<le> m" "tip \<noteq> - 1" "m \<le> tip"
    and chain: "\<And>h. l < h \<Longrightarrow> h \<le> tip \<Longrightarrow> \<exists>b. GetBlock ps h = Inr b \<and> hdr_Height b = h"
    and above: "\<And>h. tip < h \<Longrightarrow> \<not> is_ok (GetBlock ps h)"
  shows "\<exists>s2 m'. peers_loop (\<lambda>_. honest_peer ps) n s1 (m + 1) target = Some (Inr (), s2)
    \<and> filled ps l m' s s2 \<and> m \<le> m' \<and> m' \<le> tip \<and> m' \<le> max m target \<and> (m' = tip \<or> target \<le> m')"
  using assms(1,2,4)
proof (induction "unat tip - unat m" arbitrary: m s1 n rule: less_induct)
  case less
  have mt: "m \<noteq> - 1" using less.prems(3) assms(3) by (metis word_order.extremum_unique)
  then have m1: "m + 1 \<noteq> 0" by (simp add: eq_neg_iff_add_eq_0 [symmetric])
  then have um: "unat (m + 1) = Suc (unat m)" by (rule unat_succ)
  have top: "\<not> is_ok (GetBlock ps (- 1))"
    using assms(3) by (intro above) (simp add: word_order.not_eq_extremum)
  show ?case
  proof (cases "m + 1 \<le> target")
    case False
    then have "target \<le> m" using um by (simp add: word_le_nat_alt)
    then show ?thesis
      using False less.prems by (subst peers_loop.simps) (auto intro!: exI [of _ m] simp: max_def)
  next
    case True
    have ne: "\<not> (m + 1 = 0 \<and> target = - 1)" using m1 by simp
    obtain hs where hs: "RequestBlocks True (honest_peer ps) (m + 1) target = Inr (map announce_of hs)"
      "run_of ps (m + 1) (cap_range (m + 1) target) hs"
      "cap_range (m + 1) target \<le> target"
      using RequestBlocks_run [OF True ne top] by blast
    have cap: "m + 1 \<le> cap_range (m + 1) target" by (rule cap_range_bounds(1) [OF True ne])
    note b = batch_served [OF mt True less.prems(2) hs(2) cap hs(3) chain above]
    show ?thesis
    proof (cases "hs = []")
      case True': True
      then have "\<not> is_ok (GetBlock ps (m + 1))" using hs(2) by (simp add: run_of_def)
      moreover have "l < m + 1" using less.prems(2) um by (simp add: word_less_nat_alt word_le_nat_alt)
      ultimately have "\<not> m + 1 \<le> tip" using chain [of "m + 1"] by auto
      then have "m = tip" using less.prems(3) um by (simp add: word_le_nat_alt word_unat_eq_iff)
      then show ?thesis
        using True True' hs(1) less.prems by (subst peers_loop.simps) (auto intro!: exI [of _ m])
    next
      case False
      obtain s2 where s2: "save_synced s1 (m + 1) (map announce_of hs) = (Inr (m + of_nat (length hs) + 1), s2)"
        "filled ps l (m + of_nat (length hs)) s s2"
        using save_synced_run [OF less.prems(1,2) b(1) refl] b(4) by blast
      let ?m = "m + of_nat (length hs) :: uint64"
      have um': "unat ?m = unat m + length hs" by (simp add: b(3))
      have "m + 1 + of_nat (length hs - 1) = ?m" using False by (cases hs) auto
      then have tip: "?m \<le> tip" using b(4) [where k = "length hs - 1"] False by (simp add: Suc_le_eq)
      have "\<exists>s3 m'. peers_loop (\<lambda>_. honest_peer ps) (n + 1) s2 (?m + 1) target = Some (Inr (), s3)
        \<and> filled ps l m' s s3 \<and> ?m \<le> m' \<and> m' \<le> tip \<and> m' \<le> max ?m target \<and> (m' = tip \<or> target \<le> m')"
      proof (rule less.hyps)
        show "unat tip - unat ?m < unat tip - unat m"
          using False tip um' length_greater_0_conv [of hs] unfolding word_le_nat_alt by linarith
        show "l \<le> ?m" using less.prems(2) um' by (simp add: word_le_nat_alt)
      qed (use s2(2) tip in auto)
      then obtain s3 m' where s3: "peers_loop (\<lambda>_. honest_peer ps) (n + 1) s2 (?m + 1) target = Some (Inr (), s3)"
        "filled ps l m' s s3" "?m \<le> m'" "m' \<le> tip" "m' \<le> max ?m target" "m' = tip \<or> target \<le> m'" by blast
      have "m \<le> ?m" "?m \<le> target" using um' b(2) by (simp_all add: word_le_nat_alt)
      then have "m \<le> m'" "max ?m target = target" "max m target = target"
        using s3(3) by (auto simp: max_def intro: order_trans)
      moreover have "peers_loop (\<lambda>_. honest_peer ps) n s1 (m + 1) target = Some (Inr (), s3)"
        using True False hs(1) s2(1) s3(1) by (subst peers_loop.simps) simp
      ultimately show ?thesis using s3 by auto
    qed
  qed
qed



definition peer_store :: Store where
  "peer_store = empty_store\<lparr>db := fold (\<lambda>h. kv_set (blockKey h) (BlockV (sync_header h))) [1, 2, 3] []\<rparr>"

definition peer_node :: Node where
  "peer_node = \<lparr>nd_Enabled = True, nd_host = Some ''me'', nd_peerCount = 1, nd_blocks = [], nd_hb = [], nd_cons = []\<rparr>"

lemma peer_store_block:
  "GetBlock peer_store h = (if h \<in> {1, 2, 3} then Inr (sync_header h) else Inl KeyNotFound)"
  by (auto simp: GetBlock_def txn_Get_def peer_store_def)

lemma u64_upto_3: "0 < h \<Longrightarrow> h \<le> 3 \<Longrightarrow> h \<in> {1, 2, 3 :: uint64}"
proof -
  assume "0 < h" "h \<le> 3"
  then have "unat h \<in> {1, 2, 3}" by (auto simp: word_less_nat_alt word_le_nat_alt)
  then have "unat h = unat (1 :: uint64) \<or> unat h = unat (2 :: uint64) \<or> unat h = unat (3 :: uint64)" by auto
  then show ?thesis by (metis insertCI word_unat_eq_iff)
qed


text \<open>
  A peer that keeps answering with a header the node already has keeps the loop running for ever:
  the height to ask for only moves when a header is saved.
\<close>

lemma save_synced_stale:
  "GetLatestHeight s = Inr l \<Longrightarrow> ba_Height b \<le> l \<Longrightarrow> save_synced s from [b] = (Inr from, s)"
  by simp

theorem stale_peer_blocks_sync:
  assumes "GetLatestHeight s = Inr l" "ba_Height b \<le> l" "from \<le> target"
  shows "peers_loop (\<lambda>_ _. Inr \<lparr>sp_Blocks = [b], sp_Error = []\<rparr>) n s from target = None"
proof -
  let ?ask = "\<lambda>(_ :: nat) (_ :: SyncRequest). Inr \<lparr>sp_Blocks = [b], sp_Error = []\<rparr> :: SyncResponse res"
  let ?P = "\<lambda>a (k :: nat) u f t (y :: unit res \<times> Store). \<not> (a = ?ask \<and> u = s \<and> f = from \<and> t = target)"
  have "?P ?ask n s from target y" if y: "peers_loop ?ask n s from target = Some y" for y
  proof (rule peers_loop.raw_induct [where P = ?P, OF _ y])
    fix loop a k u f t and y :: "unit res \<times> Store"
    assume IH: "\<And>a k u f t y. loop a k u f t = Some y \<Longrightarrow> ?P a k u f t y"
      and run: "(if f \<le> t then case RequestBlocks True (a k) f t of
             Inl e \<Rightarrow> Some (Inl (Errorf ''request blocks''), u)
           | Inr blocks \<Rightarrow>
               if blocks = [] then Some (Inr (), u)
               else (case save_synced u f blocks of
                       (Inl e, s') \<Rightarrow> Some (Inl e, s')
                     | (Inr from', s') \<Rightarrow> loop a (k + 1) s' from' t)
         else Some (Inr (), u)) = Some y"
    show "?P a k u f t y"
    proof
      assume eq: "a = ?ask \<and> u = s \<and> f = from \<and> t = target"
      have "\<not> target < from" using assms(3) by (simp add: not_less)
      then have "loop ?ask (k + 1) s from target = Some y"
        using run assms eq by (simp add: RequestBlocks_def)
      from IH [OF this] show False by simp
    qed
  qed
  then show ?thesis by (cases "peers_loop ?ask n s from target") auto
qed

end
