(* ===== verification/Backup.thy ===== *)
theory Backup
  imports Validators Merkle Seal
begin

text \<open>
  Package \<^verbatim>\<open>internal/state\<close>, file \<^verbatim>\<open>backup.go\<close>: snapshots of a store and their import into another one.
  The file a snapshot is written to and the HTTP answer it is downloaded from hold its JSON text, whose
  encoding and decoding is the identity here; \<open>io\<close> is the error of the file operations, if any.
  The accounts of a snapshot are a Go map, whose entries a loop visits in any order: the list
  gives the order of the visit, and the theorems hold for every order. Copying the headers counts
  heights in \<^verbatim>\<open>uint64\<close> and does not end at the largest height: \<open>None\<close> is that endless loop.
\<close>

record BackupSnapshot =
  bs_Version :: int
  bs_CreatedAt :: string
  bs_LatestHeight :: uint64
  bs_NumericChainID :: int
  bs_TotalMaxSupply :: int
  bs_ValidatorSet :: "ValidatorSetRecord option"
  bs_Buckets :: "Value list"
  bs_Accounts :: "(string \<times> Account) list"
  bs_RecentBlocks :: "BlockHeader list"
  bs_Jailed :: "JailRecord list"

section \<open>Export\<close>

text \<open>The pass over all entries: accounts are decoded, buckets are copied as they are.\<close>

fun scan_state :: "Store \<Rightarrow> DB \<Rightarrow> ((string \<times> Account) list \<times> Value list) res" where
  "scan_state s [] = Inr ([], [])"
| "scan_state s ((k, v) # es) =
     (if length k > 4 \<and> take 4 k = ''acc:'' then
        (if getFault s k then Inl BadgerErr
         else case as_Account v of
           Inl e \<Rightarrow> Inl e
         | Inr a \<Rightarrow>
             (case scan_state s es of Inl e \<Rightarrow> Inl e | Inr (accs, bks) \<Rightarrow> Inr ((drop 4 k, a) # accs, bks)))
      else if length k > 7 \<and> take 7 k = ''bucket:'' then
        (if getFault s k then Inl BadgerErr
         else case scan_state s es of Inl e \<Rightarrow> Inl e | Inr (accs, bks) \<Rightarrow> Inr (accs, v # bks))
      else scan_state s es)"

partial_function (option) collect_blocks ::
  "Store \<Rightarrow> uint64 \<Rightarrow> uint64 \<Rightarrow> BlockHeader list \<Rightarrow> BlockHeader list option" where
  "collect_blocks s h latest out =
     (if h \<le> latest then
        (case GetBlock s h of
           Inl _ \<Rightarrow> collect_blocks s (h + 1) latest out
         | Inr b \<Rightarrow> collect_blocks s (h + 1) latest (out @ [b]))
      else Some out)"

text \<open>
  The error of \<^verbatim>\<open>ListJailed\<close> is dropped and what it had collected is kept: the records up to the first
  one that cannot be read.
\<close>

fun jailed_seen :: "Store \<Rightarrow> int \<Rightarrow> nat \<Rightarrow> DB \<Rightarrow> JailRecord list \<Rightarrow> JailRecord list" where
  "jailed_seen s now limit [] out = out"
| "jailed_seen s now limit ((k, v) # es) out =
     (if getFault s k then out
      else case as_Jail v of
             Inl _ \<Rightarrow> out
           | Inr rec \<Rightarrow>
               if jail_Until rec > 0 \<and> now > jail_Until rec then jailed_seen s now limit es out
               else if length (out @ [rec]) \<ge> limit then out @ [rec]
               else jailed_seen s now limit es (out @ [rec]))"

definition first_kept :: "uint64 \<Rightarrow> int \<Rightarrow> uint64" where
  "first_kept latest maxBlocks =
     (if latest > word_of_int maxBlocks then latest - word_of_int maxBlocks + 1 else 1)"

definition ExportBackup ::
  "error option \<Rightarrow> string \<Rightarrow> int \<Rightarrow> Store \<Rightarrow> int \<Rightarrow> BackupSnapshot res option" where
  "ExportBackup io created now s maxBlocks0 =
     (let maxBlocks = (if maxBlocks0 \<le> 0 then 500 else maxBlocks0) in
      case GetLatestHeight s of
        Inl e \<Rightarrow> Some (Inl e)
      | Inr latest \<Rightarrow>
          let vset = (case GetValidatorSet s of Inr v \<Rightarrow> v | Inl _ \<Rightarrow> None);
              jailed = jailed_seen s now 200 (iter_prefix ''jail:'' (db s)) []
          in (case scan_state s (db s) of
                Inl e \<Rightarrow> Some (Inl e)
              | Inr (accounts, buckets) \<Rightarrow>
                  (case collect_blocks s (first_kept latest maxBlocks) latest [] of
                     None \<Rightarrow> None
                   | Some blocks \<Rightarrow>
                       (case io of
                          Some e \<Rightarrow> Some (Inl e)
                        | None \<Rightarrow>
                            Some (Inr \<lparr>bs_Version = 1, bs_CreatedAt = created, bs_LatestHeight = latest,
                                       bs_NumericChainID = numericChainID s, bs_TotalMaxSupply = totalMaxSupply s,
                                       bs_ValidatorSet = vset, bs_Buckets = buckets, bs_Accounts = accounts,
                                       bs_RecentBlocks = blocks, bs_Jailed = jailed\<rparr>)))))"

text \<open>\<^verbatim>\<open>ExportSnapshot\<close> reads the file back; \<open>io2\<close> is the error of that.\<close>

definition ExportSnapshot ::
  "error option \<Rightarrow> error option \<Rightarrow> string \<Rightarrow> int \<Rightarrow> Store \<Rightarrow> int \<Rightarrow> BackupSnapshot res option" where
  "ExportSnapshot io io2 created now s maxBlocks =
     (case ExportBackup io created now s maxBlocks of
        None \<Rightarrow> None
      | Some (Inl e) \<Rightarrow> Some (Inl e)
      | Some (Inr snap) \<Rightarrow> (case io2 of Some e \<Rightarrow> Some (Inl e) | None \<Rightarrow> Some (Inr snap)))"

section \<open>Import\<close>

definition occupied :: "Account \<Rightarrow> bool" where
  "occupied cur \<longleftrightarrow> acc_Balance cur \<noteq> 0 \<or> acc_Staked cur \<noteq> 0 \<or> acc_Nonce cur \<noteq> 0"

text \<open>The error of the write is dropped: the account counts as applied in any case.\<close>

fun restore_bytes :: "bool \<Rightarrow> Store \<Rightarrow> (string \<times> Account) list \<Rightarrow> int \<Rightarrow> (int \<times> unit res) \<times> Store" where
  "restore_bytes force s [] applied = ((applied, Inr ()), s)"
| "restore_bytes force s ((addr, acc) # accs) applied =
     (case GetAccount s addr of
        Inl e \<Rightarrow> ((applied, Inl e), s)
      | Inr cur \<Rightarrow>
          if \<not> force \<and> occupied cur then restore_bytes force s accs applied
          else restore_bytes force (snd (db_Update s (\<lambda>d. txn_Set s d (accountKey addr) (AccountV acc)))) accs (applied + 1))"

definition restore_set :: "int \<Rightarrow> Store \<Rightarrow> ValidatorSetRecord option \<Rightarrow> Store" where
  "restore_set now s vset =
     (case vset of
        Some r \<Rightarrow> if vsr_Addresses r \<noteq> [] then snd (SaveValidatorSet s now (vsr_Addresses r)) else s
      | None \<Rightarrow> s)"

definition RestoreAccountsFromSnapshotBytes ::
  "int \<Rightarrow> Store \<Rightarrow> BackupSnapshot \<Rightarrow> bool \<Rightarrow> (int \<times> unit res) \<times> Store" where
  "RestoreAccountsFromSnapshotBytes now s snap force =
     (case restore_bytes force s (bs_Accounts snap) 0 of
        ((applied, Inl e), s') \<Rightarrow> ((applied, Inl e), s')
      | ((applied, Inr _), s') \<Rightarrow> ((applied, Inr ()), restore_set now s' (bs_ValidatorSet snap)))"

fun restore_file :: "bool \<Rightarrow> Store \<Rightarrow> (string \<times> Account) list \<Rightarrow> int \<Rightarrow> (int \<times> unit res) \<times> Store" where
  "restore_file force s [] applied = ((applied, Inr ()), s)"
| "restore_file force s ((addr, acc) # accs) applied =
     (case GetAccount s addr of
        Inl e \<Rightarrow> ((applied, Inl e), s)
      | Inr cur \<Rightarrow>
          if \<not> force \<and> occupied cur then restore_file force s accs applied
          else (case SeedBalance s addr (acc_Balance acc) of
                  (Inl e, s') \<Rightarrow> ((applied, Inl e), s')
                | (Inr _, s') \<Rightarrow>
                    restore_file force (snd (db_Update s' (\<lambda>d. txn_Set s' d (accountKey addr) (AccountV acc)))) accs (applied + 1)))"

text \<open>\<open>file\<close> is the decoded content of the file, or the error of reading or decoding it.\<close>

definition RestoreAccountsFromSnapshot ::
  "int \<Rightarrow> Store \<Rightarrow> BackupSnapshot res \<Rightarrow> bool \<Rightarrow> (int \<times> unit res) \<times> Store" where
  "RestoreAccountsFromSnapshot now s file force =
     (case file of
        Inl e \<Rightarrow> ((0, Inl e), s)
      | Inr snap \<Rightarrow>
          (case restore_file force s (bs_Accounts snap) 0 of
             ((applied, Inl e), s') \<Rightarrow> ((applied, Inl e), s')
           | ((applied, Inr _), s') \<Rightarrow> ((applied, Inr ()), restore_set now s' (bs_ValidatorSet snap))))"

fun import_blocks :: "Store \<Rightarrow> BlockHeader list \<Rightarrow> int \<Rightarrow> int \<times> Store" where
  "import_blocks s [] blocks = (blocks, s)"
| "import_blocks s (h # hs) blocks =
     (case SaveBlock s h of
        (Inl _, s') \<Rightarrow> import_blocks s' hs blocks
      | (Inr _, s') \<Rightarrow> import_blocks s' hs (blocks + 1))"

definition ImportFullSnapshot ::
  "int \<Rightarrow> Store \<Rightarrow> BackupSnapshot option \<Rightarrow> bool \<Rightarrow> (int \<times> int) res \<times> Store" where
  "ImportFullSnapshot now s snap0 force =
     (case snap0 of
        None \<Rightarrow> (Inl (Errorf ''nil snapshot''), s)
      | Some snap \<Rightarrow>
          if bs_NumericChainID snap \<noteq> 0 \<and> numericChainID s \<noteq> 0 \<and> bs_NumericChainID snap \<noteq> numericChainID s
          then (Inl (Errorf ''chain id mismatch''), s)
          else case RestoreAccountsFromSnapshotBytes now s snap force of
            ((_, Inl e), s1) \<Rightarrow> (Inl e, s1)
          | ((accounts, Inr _), s1) \<Rightarrow>
              (case import_blocks s1 (bs_RecentBlocks snap) 0 of
                 (blocks, s2) \<Rightarrow>
                   (Inr (accounts, blocks),
                    if bs_LatestHeight snap > 0
                    then snd (db_Update s2 (\<lambda>d. txn_Set s2 d (metaKey ''latest_height'') (RawV (show_u64 (bs_LatestHeight snap)))))
                    else s2)))"

text \<open>The status and the decoded body of the answer to the GET of a URL, or the error of sending it.\<close>

definition TrimRightSlash :: "string \<Rightarrow> string" where
  "TrimRightSlash s = rev (dropWhile (\<lambda>c. c = CHR ''/'') (rev s))"

definition SyncFromURL ::
  "(string \<Rightarrow> string \<Rightarrow> (int \<times> BackupSnapshot res) res) \<Rightarrow> int \<Rightarrow> Store \<Rightarrow> string \<Rightarrow> string \<Rightarrow> bool \<Rightarrow> unit res \<times> Store" where
  "SyncFromURL http now s baseURL apiSecret force =
     (case http (TrimRightSlash baseURL @ ''/admin/snapshot?max_blocks=2000'') apiSecret of
        Inl e \<Rightarrow> (Inl e, s)
      | Inr (code, body) \<Rightarrow>
          if code \<noteq> 200 then (Inl (Errorf ''snapshot HTTP''), s)
          else case body of
            Inl e \<Rightarrow> (Inl e, s)
          | Inr snap \<Rightarrow>
              (case ImportFullSnapshot now s (Some snap) force of
                 (Inl e, s') \<Rightarrow> (Inl e, s')
               | (Inr _, s') \<Rightarrow> (Inr (), s')))"


section \<open>What an export contains\<close>

lemma take_prefix: "take 4 k = ''acc:'' \<longleftrightarrow> prefix ''acc:'' k"
  by (metis append_eq_conv_conj append_take_drop_id length_Cons list.size(3) numeral_eq_Suc pred_numeral_simps(2,3) prefix_def semiring_norm(26,27) numeral_3_eq_3 numeral_2_eq_2 Suc_numeral)

definition acc_part :: "DB \<Rightarrow> (string \<times> Account) list" where
  "acc_part d = map (\<lambda>(k, v). (drop 4 k, case v of AccountV a \<Rightarrow> a | _ \<Rightarrow> zero_account)) (iter_prefix ''acc:'' d)"

lemma scan_state_wf:
  assumes "healthy s" "\<forall>e \<in> set es. wf_entry (fst e) (snd e) \<and> fst e \<noteq> ''acc:''"
  shows "\<exists>bks. scan_state s es = Inr (acc_part es, bks)"
  using assms(2)
proof (induction es)
  case (Cons e es)
  obtain k v where e: "e = (k, v)" by (cases e)
  obtain bks where IH: "scan_state s es = Inr (acc_part es, bks)" using Cons by auto
  have w: "wf_entry k v" "k \<noteq> ''acc:''" using Cons.prems e by auto
  have len: "4 < length k" if "prefix ''acc:'' k" using that w(2) by (auto simp: prefix_def)
  show ?case
  proof (cases "prefix ''acc:'' k")
    case True
    then obtain a where "v = AccountV a" using w(1) by (auto simp: wf_entry_def split: Value.splits)
    then show ?thesis
      using True len IH assms(1) by (simp add: e take_prefix acc_part_def iter_prefix_def)
  next
    case False
    then show ?thesis using IH assms(1) by (simp add: e take_prefix acc_part_def iter_prefix_def)
  qed
qed (simp add: acc_part_def iter_prefix_def)

lemma acc_part_entries:
  assumes "wf_db d"
  shows "map (\<lambda>(a, x). (accountKey a, AccountV x)) (acc_part d) = iter_prefix ''acc:'' d"
proof -
  have "(accountKey (drop 4 k), AccountV (case v of AccountV a \<Rightarrow> a | _ \<Rightarrow> zero_account)) = (k, v)"
    if "(k, v) \<in> set (iter_prefix ''acc:'' d)" for k v
  proof -
    have w: "wf_entry k v" "prefix ''acc:'' k" using that assms by (auto simp: iter_prefix_def wf_db_def)
    then have "normalizeAddr (drop 4 k) = drop 4 k" "\<exists>a. v = AccountV a"
      by (auto simp: wf_entry_def split: Value.splits)
    moreover have "k = ''acc:'' @ drop 4 k" using w(2) by (auto simp: prefix_def eval_nat_numeral)
    ultimately show ?thesis unfolding accountKey_def by auto
  qed
  then show ?thesis
    unfolding acc_part_def by (induction "iter_prefix ''acc:'' d" arbitrary: d) (auto simp: comp_def intro!: map_idI)
qed

lemma map_of_iter_prefix: "map_of (iter_prefix p d) k = (if prefix p k then map_of d k else None)"
  by (induction d) (auto simp: iter_prefix_def)

lemma acc_part_ok:
  assumes "wf_db d" "(a, x) \<in> set (acc_part d)"
  shows "acc_ok x"
proof -
  have "(accountKey a, AccountV x) \<in> set (map (\<lambda>(a, x). (accountKey a, AccountV x)) (acc_part d))"
    using assms(2) by force
  then have "(accountKey a, AccountV x) \<in> set d"
    unfolding acc_part_entries [OF assms(1)] by (simp add: iter_prefix_def)
  then have "wf_entry (accountKey a) (AccountV x)" using assms(1) by (auto simp: wf_db_def)
  then show ?thesis by simp
qed

lemma collect_blocks_all:
  assumes "latest \<noteq> - 1" "unat h \<le> unat latest + 1"
  shows "\<exists>bs. collect_blocks s h latest out = Some (out @ bs)
    \<and> (\<forall>b. b \<in> set bs \<longleftrightarrow> (\<exists>g. h \<le> g \<and> g \<le> latest \<and> GetBlock s g = Inr b))"
  using assms(2)
proof (induction "unat latest + 1 - unat h" arbitrary: h out)
  case 0
  then have "\<not> h \<le> latest" by (simp add: word_le_nat_alt)
  then show ?case by (subst collect_blocks.simps) (auto intro: order_trans)
next
  case (Suc n)
  then have le: "h \<le> latest" by (simp add: word_le_nat_alt)
  then have "h \<noteq> - 1" using assms(1) by (metis word_order.extremum_unique)
  then have "h + 1 \<noteq> 0" by (simp add: eq_neg_iff_add_eq_0 [symmetric])
  then have u: "unat (h + 1) = Suc (unat h)" by (rule unat_succ)
  have split: "h \<le> g \<longleftrightarrow> g = h \<or> h + 1 \<le> g" for g
    using u by (auto simp: word_le_nat_alt word_unat_eq_iff)
  have "n = unat latest + 1 - unat (h + 1)" "unat (h + 1) \<le> unat latest + 1"
    using Suc.hyps(2) u by auto
  from Suc.hyps(1) [OF this] have IH: "\<exists>bs. collect_blocks s (h + 1) latest out' = Some (out' @ bs)
    \<and> (\<forall>b. b \<in> set bs \<longleftrightarrow> (\<exists>g. h + 1 \<le> g \<and> g \<le> latest \<and> GetBlock s g = Inr b))" for out' .
  show ?case
  proof (cases "GetBlock s h")
    case (Inl e)
    from IH [of out] obtain bs where "collect_blocks s (h + 1) latest out = Some (out @ bs)"
      "\<forall>b. b \<in> set bs \<longleftrightarrow> (\<exists>g. h + 1 \<le> g \<and> g \<le> latest \<and> GetBlock s g = Inr b)" by blast
    with Inl le show ?thesis
      by (subst collect_blocks.simps) (intro exI [of _ bs], auto simp: split)
  next
    case (Inr b)
    from IH [of "out @ [b]"] obtain bs where "collect_blocks s (h + 1) latest (out @ [b]) = Some ((out @ [b]) @ bs)"
      "\<forall>b. b \<in> set bs \<longleftrightarrow> (\<exists>g. h + 1 \<le> g \<and> g \<le> latest \<and> GetBlock s g = Inr b)" by blast
    with Inr le show ?thesis
      by (subst collect_blocks.simps) (intro exI [of _ "b # bs"], auto simp: split)
  qed
qed

section \<open>What an import does\<close>

definition account_writes :: "(string \<times> Account) list \<Rightarrow> (string \<times> Value) list" where
  "account_writes accs = map (\<lambda>(a, x). (accountKey a, AccountV x)) accs"

lemma restore_bytes_force:
  assumes "healthy t" "wf_db (db t)" "\<forall>(a, x) \<in> set accs. acc_ok x"
  shows "\<exists>n t'. restore_bytes True t accs m = ((n, Inr ()), t') \<and> healthy t' \<and> wf_db (db t')
    \<and> t' = t\<lparr>db := fold (\<lambda>(k, v). kv_set k v) (account_writes accs) (db t)\<rparr>"
  using assms
proof (induction accs arbitrary: t m)
  case (Cons e accs)
  obtain a x where e: "e = (a, x)" by (cases e)
  define t1 where "t1 = t\<lparr>db := kv_set (accountKey a) (AccountV x) (db t)\<rparr>"
  have g: "GetAccount t a = Inr (acct (db t) a)" using Cons.prems by (intro GetAccount_healthy)
  have u: "snd (db_Update t (\<lambda>d. txn_Set t d (accountKey a) (AccountV x))) = t1"
    using Cons.prems(1) by (simp add: db_Update_def txn_Set_def t1_def)
  have "healthy t1" "wf_db (db t1)" using Cons.prems by (auto simp: t1_def e intro!: wf_db_set)
  from Cons.IH [OF this, of "m + 1"] Cons.prems(3) obtain n t' where
    "restore_bytes True t1 accs (m + 1) = ((n, Inr ()), t')" "healthy t'" "wf_db (db t')"
    "t' = t1\<lparr>db := fold (\<lambda>(k, v). kv_set k v) (account_writes accs) (db t1)\<rparr>" by auto
  then show ?case using g u by (simp add: e account_writes_def t1_def)
qed (simp add: account_writes_def)

lemma restore_set_frame:
  assumes "healthy t" "wf_db (db t)"
  shows "healthy (restore_set now t v) \<and> wf_db (db (restore_set now t v))
    \<and> (\<forall>k. k \<noteq> validatorSetKey \<longrightarrow> map_of (db (restore_set now t v)) k = map_of (db t) k)"
proof -
  have "wf_entry validatorSetKey w" for w by (simp add: validatorSetKey_def wf_entry_def)
  then show ?thesis
    using assms by (auto simp: restore_set_def SaveValidatorSet_def Let_def db_Update_def txn_Set_def
        intro!: wf_db_set split: option.splits)
qed

lemma find_append_case: "find P (xs @ ys) = (case find P xs of Some x \<Rightarrow> Some x | None \<Rightarrow> find P ys)"
  by (induction xs) auto

lemma import_blocks_frame:
  assumes "healthy t" "wf_db (db t)"
  shows "\<exists>t'. import_blocks t bs n = (n + int (length bs), t') \<and> healthy t' \<and> wf_db (db t')
    \<and> (\<forall>k. prefix ''acc:'' k \<or> prefix ''bucket:'' k \<or> k = validatorSetKey \<longrightarrow> map_of (db t') k = map_of (db t) k)
    \<and> (\<forall>h. GetBlock t' h = (case find (\<lambda>b. hdr_Height b = h) (rev bs) of Some b \<Rightarrow> Inr b | None \<Rightarrow> GetBlock t h))"
  using assms
proof (induction bs arbitrary: t n)
  case (Cons b bs)
  obtain t1 where t1: "SaveBlock t b = (Inr (), t1)" "healthy t1" using SaveBlock_healthy [OF Cons.prems(1)] by blast
  note d = SaveBlock_run [OF t1(1)]
  have "wf_db (db t1)" using Cons.prems(2) unfolding d by (auto intro!: wf_db_set)
  from Cons.IH [OF t1(2) this, of "n + 1"] obtain t' where
    t': "import_blocks t1 bs (n + 1) = (n + 1 + int (length bs), t')" "healthy t'" "wf_db (db t')"
    "\<forall>k. prefix ''acc:'' k \<or> prefix ''bucket:'' k \<or> k = validatorSetKey \<longrightarrow> map_of (db t') k = map_of (db t1) k"
    "\<forall>h. GetBlock t' h = (case find (\<lambda>b. hdr_Height b = h) (rev bs) of Some b \<Rightarrow> Inr b | None \<Rightarrow> GetBlock t1 h)" by blast
  have f: "map_of (db t1) k = map_of (db t) k" if "prefix ''acc:'' k \<or> prefix ''bucket:'' k \<or> k = validatorSetKey" for k
    using that unfolding d by (auto simp: key_defs validatorSetKey_def)
  have g: "GetBlock t1 h = (if h = hdr_Height b then Inr b else GetBlock t h)" for h
    using Cons.prems(1) unfolding d by (simp add: GetBlock_def txn_Get_def)
  have "find (\<lambda>b. hdr_Height b = h) (rev (b # bs)) = (case find (\<lambda>b. hdr_Height b = h) (rev bs) of Some c \<Rightarrow> Some c
      | None \<Rightarrow> if hdr_Height b = h then Some b else None)" for h
    by (simp add: find_append_case split: option.split)
  with t' f g t1(1) show ?case by (intro exI [of _ t']) (auto split: option.split)
qed simp


lemma GetBlock_wf_height: "wf_db (db s) \<Longrightarrow> GetBlock s g = Inr b \<Longrightarrow> hdr_Height b = g"
  by (auto simp: GetBlock_def txn_Get_def dest!: wf_db_lookup split: if_splits option.splits)
    (auto split: Value.splits)

lemma import_blocks_copy:
  assumes "wf_db (db s)" "GetBlock s h = Inr b"
    and bs: "\<And>b. b \<in> set bs \<Longrightarrow> \<exists>g. GetBlock s g = Inr b" "b \<in> set bs"
  shows "find (\<lambda>b. hdr_Height b = h) (rev bs) = Some b"
proof -
  have hb: "hdr_Height b = h" by (rule GetBlock_wf_height [OF assms(1,2)])
  then have "find (\<lambda>b. hdr_Height b = h) (rev bs) \<noteq> None" using bs(2) by (auto simp: find_None_iff)
  then obtain c where c: "find (\<lambda>b. hdr_Height b = h) (rev bs) = Some c" by blast
  then have "c \<in> set bs" "hdr_Height c = h" by (auto simp: find_Some_iff) (metis nth_mem set_rev length_rev)
  then have "GetBlock s h = Inr c" using bs(1) GetBlock_wf_height [OF assms(1)] by metis
  with c assms(2) show ?thesis by simp
qed

text \<open>Stores that agree on their accounts have the same state root.\<close>

lemma same_state_root:
  assumes "healthy s" "wf_db (db s)" "healthy t" "wf_db (db t)"
    and "\<And>k. prefix ''acc:'' k \<Longrightarrow> map_of (db t) k = map_of (db s) k"
  shows "ComputeStateRoot t = ComputeStateRoot s"
proof -
  have "kv_sorted (iter_prefix ''acc:'' d)" if "wf_db d" for d
    using that by (simp add: iter_prefix_def kv_sorted_filter)
  then have "iter_prefix ''acc:'' (db t) = iter_prefix ''acc:'' (db s)"
    using assms by (intro kv_sorted_ext) (auto simp: map_of_iter_prefix)
  then show ?thesis
    using assms by (simp add: ComputeStateRoot_def ComputeMerkleStateRoot_def loadSortedLeaves_wf)
qed

lemma account_writes_lookup:
  assumes wf: "wf_db d" and accs: "mset accs = mset (acc_part d)" and p: "prefix ''acc:'' k"
  shows "map_of (fold (\<lambda>(k, v). kv_set k v) (account_writes accs) d0) k =
    (case map_of d k of Some v \<Rightarrow> Some v | None \<Rightarrow> map_of d0 k)"
proof -
  have e: "account_writes (acc_part d) = iter_prefix ''acc:'' d"
    unfolding account_writes_def by (rule acc_part_entries [OF wf])
  have m: "mset (account_writes accs) = mset (iter_prefix ''acc:'' d)"
    unfolding e [symmetric] account_writes_def using accs by simp
  have "distinct (map fst (iter_prefix ''acc:'' d))"
    using kv_sorted_distinct [OF kv_sorted_filter, of d "\<lambda>e. prefix ''acc:'' (fst e)"] wf by (simp add: iter_prefix_def)
  moreover have "mset (map fst (rev (account_writes accs))) = mset (map fst (iter_prefix ''acc:'' d))" using m by simp
  ultimately have "distinct (map fst (rev (account_writes accs)))" by (metis mset_eq_imp_distinct_iff)
  moreover have "set (rev (account_writes accs)) = set (iter_prefix ''acc:'' d)" using mset_eq_setD [OF m] by simp
  ultimately have "map_of (rev (account_writes accs)) = map_of (iter_prefix ''acc:'' d)"
    using \<open>distinct (map fst (iter_prefix ''acc:'' d))\<close> by (metis map_of_inject_set)
  then show ?thesis using p by (simp add: kvl.get_after_sets map_of_iter_prefix)
qed

lemma account_writes_other:
  "\<not> prefix ''acc:'' k \<Longrightarrow> map_of (fold (\<lambda>(k, v). kv_set k v) (account_writes accs) d) k = map_of d k"
  by (induction accs arbitrary: d) (auto simp: account_writes_def)

lemma first_kept_le:
  assumes "0 < mb" "mb < 2 ^ 63"
  shows "unat (first_kept latest mb) \<le> unat latest + 1"
proof (cases "latest > word_of_int mb")
  case True
  have w: "unat (word_of_int mb :: uint64) = nat mb" using assms by (simp add: unsigned_of_int take_bit_int_eq_self)
  then have "unat (latest - word_of_int mb) = unat latest - nat mb" using True by (simp add: unat_sub less_imp_le)
  then have "unat (latest - word_of_int mb + 1) \<le> unat latest - nat mb + 1"
    by (metis unat_succ unsigned_0 Suc_eq_plus1 le_add2 order_refl zero_le)
  then show ?thesis using True assms(1) by (simp add: first_kept_def)
qed (simp add: first_kept_def)

lemma ExportSnapshot_total:
  assumes s: "healthy s" "wf_db (db s)" "GetLatestHeight s = Inr latest" "latest \<noteq> - 1" "map_of (db s) ''acc:'' = None"
    and mb: "0 < mb" "mb < 2 ^ 63"
  shows "\<exists>snap. ExportSnapshot None None created now s mb = Some (Inr snap)
    \<and> bs_LatestHeight snap = latest \<and> bs_NumericChainID snap = numericChainID s \<and> bs_Accounts snap = acc_part (db s)
    \<and> bs_ValidatorSet snap = (case GetValidatorSet s of Inr v \<Rightarrow> v | Inl _ \<Rightarrow> None)
    \<and> (\<forall>b. b \<in> set (bs_RecentBlocks snap) \<longleftrightarrow> (\<exists>g. first_kept latest mb \<le> g \<and> g \<le> latest \<and> GetBlock s g = Inr b))"
proof -
  have ne: "\<forall>e \<in> set (db s). wf_entry (fst e) (snd e) \<and> fst e \<noteq> ''acc:''"
    using s(2,5) unfolding wf_db_def map_of_eq_None_iff by (metis image_eqI)
  obtain bks where scan: "scan_state s (db s) = Inr (acc_part (db s), bks)" using scan_state_wf [OF s(1) ne] by blast
  obtain bs where "collect_blocks s (first_kept latest mb) latest [] = Some bs"
    "\<forall>b. b \<in> set bs \<longleftrightarrow> (\<exists>g. first_kept latest mb \<le> g \<and> g \<le> latest \<and> GetBlock s g = Inr b)"
    using collect_blocks_all [OF s(4) first_kept_le [OF mb], of s "[]"] by auto
  then show ?thesis using mb(1) s(3) scan by (simp add: ExportSnapshot_def ExportBackup_def Let_def)
qed

lemma ImportFullSnapshot_force:
  assumes t: "healthy t" "wf_db (db t)" and id: "numericChainID t = bs_NumericChainID snap"
    and accs: "\<forall>(a, x) \<in> set (bs_Accounts snap). acc_ok x" and l: "0 < bs_LatestHeight snap"
  shows "\<exists>n m t'. ImportFullSnapshot now t (Some snap) True = (Inr (n, m), t') \<and> healthy t' \<and> wf_db (db t')
    \<and> (\<forall>k. prefix ''acc:'' k \<or> prefix ''bucket:'' k \<longrightarrow>
         map_of (db t') k = map_of (fold (\<lambda>(k, v). kv_set k v) (account_writes (bs_Accounts snap)) (db t)) k)
    \<and> GetLatestHeight t' = Inr (bs_LatestHeight snap)
    \<and> (\<forall>r. bs_ValidatorSet snap = Some r \<longrightarrow> vsr_Addresses r \<noteq> [] \<longrightarrow>
         (\<exists>r'. GetValidatorSet t' = Inr (Some r') \<and> vsr_Addresses r' = roster (vsr_Addresses r)))
    \<and> (\<forall>h b. find (\<lambda>b. hdr_Height b = h) (rev (bs_RecentBlocks snap)) = Some b \<longrightarrow> GetBlock t' h = Inr b)"
proof -
  from restore_bytes_force [OF t accs, of 0] obtain n t1 where
    t1: "restore_bytes True t (bs_Accounts snap) 0 = ((n, Inr ()), t1)" "healthy t1" "wf_db (db t1)"
    "t1 = t\<lparr>db := fold (\<lambda>(k, v). kv_set k v) (account_writes (bs_Accounts snap)) (db t)\<rparr>" by blast
  define t2 where "t2 = restore_set now t1 (bs_ValidatorSet snap)"
  have t2: "healthy t2" "wf_db (db t2)" "\<And>k. k \<noteq> validatorSetKey \<Longrightarrow> map_of (db t2) k = map_of (db t1) k"
    using restore_set_frame [OF t1(2,3)] by (auto simp: t2_def)
  from import_blocks_frame [OF t2(1,2), of "bs_RecentBlocks snap" 0] obtain m t3 where
    t3: "import_blocks t2 (bs_RecentBlocks snap) 0 = (m, t3)" "healthy t3" "wf_db (db t3)"
    "\<And>k. prefix ''acc:'' k \<or> prefix ''bucket:'' k \<or> k = validatorSetKey \<Longrightarrow> map_of (db t3) k = map_of (db t2) k"
    "\<And>h. GetBlock t3 h = (case find (\<lambda>b. hdr_Height b = h) (rev (bs_RecentBlocks snap)) of Some b \<Rightarrow> Inr b | None \<Rightarrow> GetBlock t2 h)"
    by auto
  define t4 where "t4 = t3\<lparr>db := kv_set (metaKey ''latest_height'') (RawV (show_u64 (bs_LatestHeight snap))) (db t3)\<rparr>"
  have run: "ImportFullSnapshot now t (Some snap) True = (Inr (n, m), t4)"
    using id l t1(1) t3(1,2)
    by (simp add: ImportFullSnapshot_def RestoreAccountsFromSnapshotBytes_def t2_def [symmetric] db_Update_def txn_Set_def t4_def)
  have k: "k \<noteq> validatorSetKey" "k \<noteq> metaKey ''latest_height''" if "prefix ''acc:'' k \<or> prefix ''bucket:'' k" for k
    using that by (auto simp: validatorSetKey_def metaKey_def)
  have "map_of (db t4) k = map_of (fold (\<lambda>(k, v). kv_set k v) (account_writes (bs_Accounts snap)) (db t)) k"
    if "prefix ''acc:'' k \<or> prefix ''bucket:'' k" for k
    using that k [OF that] t3(4) [of k] t2(3) t1(4) by (simp add: t4_def)
  moreover have "healthy t4" "wf_db (db t4)" using t3(2,3) by (simp_all add: t4_def wf_db_set)
  moreover have "GetLatestHeight t4 = Inr (bs_LatestHeight snap)"
    using t3(2) by (simp add: GetLatestHeight_def txn_Get_def t4_def)
  moreover have "GetBlock t4 h = GetBlock t3 h" for h using t3(2) by (simp add: GetBlock_def txn_Get_def t4_def)
  moreover have "\<exists>r'. GetValidatorSet t4 = Inr (Some r') \<and> vsr_Addresses r' = roster (vsr_Addresses r)"
    if r: "bs_ValidatorSet snap = Some r" "vsr_Addresses r \<noteq> []" for r
  proof -
    have "t2 = snd (SaveValidatorSet t1 now (vsr_Addresses r))" using r by (simp add: t2_def restore_set_def)
    then obtain r' where "GetValidatorSet t2 = Inr (Some r')" "vsr_Addresses r' = roster (vsr_Addresses r)"
      using SaveValidatorSet_roundtrip [OF t1(2), of now "vsr_Addresses r"] by auto
    moreover have "GetValidatorSet t4 = GetValidatorSet t2"
      using t3(2,4) t2(1) by (simp add: GetValidatorSet_def txn_Get_def t4_def) (simp add: validatorSetKey_def metaKey_def)
    ultimately show ?thesis by simp
  qed
  ultimately show ?thesis using run t3(5) by auto
qed

text \<open>
  C35: a snapshot carries the state over: exporting always succeeds on a well-formed store, and
  importing the result by force, in whatever order the accounts are visited, into a store of the
  same chain without further accounts gives every account its exact value, the same state root, the
  exported headers, the exporter's height and, if it has stored one, its validator set; the buckets of the importing
  store stay as they are.
\<close>

theorem snapshot_roundtrip:
  assumes s: "healthy s" "wf_db (db s)" "GetLatestHeight s = Inr latest" "latest \<noteq> - 1" "0 < latest" "map_of (db s) ''acc:'' = None"
    and t: "healthy t" "wf_db (db t)" "numericChainID t = numericChainID s"
      "\<forall>k. prefix ''acc:'' k \<longrightarrow> map_of (db s) k = None \<longrightarrow> map_of (db t) k = None"
    and mb: "0 < mb" "mb < 2 ^ 63"
  shows "\<exists>snap. ExportSnapshot None None created now s mb = Some (Inr snap)
    \<and> (\<forall>accs. mset accs = mset (bs_Accounts snap) \<longrightarrow>
         (\<exists>n m t'. ImportFullSnapshot now' t (Some (snap\<lparr>bs_Accounts := accs\<rparr>)) True = (Inr (n, m), t')
            \<and> (\<forall>a. acct (db t') a = acct (db s) a) \<and> ComputeStateRoot t' = ComputeStateRoot s
            \<and> GetLatestHeight t' = Inr latest
            \<and> (\<forall>r xs. GetValidatorSet s = Inr (Some r) \<longrightarrow> vsr_Addresses r = roster xs \<longrightarrow> roster xs \<noteq> [] \<longrightarrow>
                 (\<exists>r'. GetValidatorSet t' = Inr (Some r') \<and> vsr_Addresses r' = roster xs))
            \<and> (\<forall>h b. first_kept latest mb \<le> h \<longrightarrow> h \<le> latest \<longrightarrow> GetBlock s h = Inr b \<longrightarrow> GetBlock t' h = Inr b)
            \<and> (\<forall>name. GetBucket t' name = GetBucket t name)))"
proof -
  obtain snap where ex: "ExportSnapshot None None created now s mb = Some (Inr snap)"
    and snap: "bs_LatestHeight snap = latest" "bs_NumericChainID snap = numericChainID s" "bs_Accounts snap = acc_part (db s)"
      "bs_ValidatorSet snap = (case GetValidatorSet s of Inr v \<Rightarrow> v | Inl _ \<Rightarrow> None)"
    and bl: "\<And>b. b \<in> set (bs_RecentBlocks snap) \<longleftrightarrow> (\<exists>g. first_kept latest mb \<le> g \<and> g \<le> latest \<and> GetBlock s g = Inr b)"
    using ExportSnapshot_total [OF s(1-4,6) mb, of created now] by blast
  have "\<exists>n m t'. ImportFullSnapshot now' t (Some (snap\<lparr>bs_Accounts := accs\<rparr>)) True = (Inr (n, m), t')
      \<and> (\<forall>a. acct (db t') a = acct (db s) a) \<and> ComputeStateRoot t' = ComputeStateRoot s
      \<and> GetLatestHeight t' = Inr latest
      \<and> (\<forall>r xs. GetValidatorSet s = Inr (Some r) \<longrightarrow> vsr_Addresses r = roster xs \<longrightarrow> roster xs \<noteq> [] \<longrightarrow>
           (\<exists>r'. GetValidatorSet t' = Inr (Some r') \<and> vsr_Addresses r' = roster xs))
      \<and> (\<forall>h b. first_kept latest mb \<le> h \<longrightarrow> h \<le> latest \<longrightarrow> GetBlock s h = Inr b \<longrightarrow> GetBlock t' h = Inr b)
      \<and> (\<forall>name. GetBucket t' name = GetBucket t name)"
    if m: "mset accs = mset (bs_Accounts snap)" for accs
  proof -
    have m': "mset accs = mset (acc_part (db s))" using m by (simp add: snap(3))
    have "\<forall>(a, x) \<in> set accs. acc_ok x" using mset_eq_setD [OF m'] acc_part_ok [OF s(2)] by auto
    then obtain n k t' where t': "ImportFullSnapshot now' t (Some (snap\<lparr>bs_Accounts := accs\<rparr>)) True = (Inr (n, k), t')"
      "healthy t'" "wf_db (db t')" "GetLatestHeight t' = Inr latest"
      and lk: "\<And>k. prefix ''acc:'' k \<or> prefix ''bucket:'' k \<Longrightarrow>
         map_of (db t') k = map_of (fold (\<lambda>(k, v). kv_set k v) (account_writes accs) (db t)) k"
      and vs: "\<And>r. bs_ValidatorSet snap = Some r \<Longrightarrow> vsr_Addresses r \<noteq> [] \<Longrightarrow>
         \<exists>r'. GetValidatorSet t' = Inr (Some r') \<and> vsr_Addresses r' = roster (vsr_Addresses r)"
      and gb: "\<And>h b. find (\<lambda>b. hdr_Height b = h) (rev (bs_RecentBlocks snap)) = Some b \<Longrightarrow> GetBlock t' h = Inr b"
      using ImportFullSnapshot_force [OF t(1,2), of "snap\<lparr>bs_Accounts := accs\<rparr>" now'] t(3) s(5) snap by auto blast
    have acc: "map_of (db t') k = map_of (db s) k" if "prefix ''acc:'' k" for k
      using that lk [of k] account_writes_lookup [OF s(2) m' that, of "db t"] t(4) that by (auto split: option.splits)
    have "GetBucket t' name = GetBucket t name" for name
      using t(1) t'(2) lk [of "bucketKey name"] by (simp add: GetBucket_def txn_Get_def account_writes_other)
    moreover have "GetBlock t' h = Inr b" if "first_kept latest mb \<le> h" "h \<le> latest" "GetBlock s h = Inr b" for h b
      using that bl by (intro gb import_blocks_copy [OF s(2) that(3)]) blast+
    moreover have "acct (db t') a = acct (db s) a" for a by (simp add: acct_def acc)
    moreover have "ComputeStateRoot t' = ComputeStateRoot s" by (rule same_state_root [OF s(1,2) t'(2,3) acc])
    moreover have "\<exists>r'. GetValidatorSet t' = Inr (Some r') \<and> vsr_Addresses r' = roster xs"
      if "GetValidatorSet s = Inr (Some r)" "vsr_Addresses r = roster xs" "roster xs \<noteq> []" for r xs
      using vs [of r] that snap(4) by (simp add: roster_roster)
    ultimately show ?thesis using t'(1,4) by auto
  qed
  with ex show ?thesis by blast
qed


lemma demo_no_empty_account: "map_of (db prune_store) ''acc:'' = None"
  by (simp add: prune_store_def demo_store_def metaKey_def blockKey_def accountKey_def bucketKey_def)

theorem snapshot_roundtrip_witness:
  "\<exists>snap. ExportSnapshot None None ''now'' 9 prune_store 100 = Some (Inr snap)
    \<and> (\<exists>n m t'. ImportFullSnapshot 9 (prune_store\<lparr>db := []\<rparr>) (Some (snap\<lparr>bs_Accounts := rev (bs_Accounts snap)\<rparr>)) True = (Inr (n, m), t')
         \<and> ComputeStateRoot t' = ComputeStateRoot prune_store \<and> GetBlock t' 1 = Inr (demo_header\<lparr>hdr_Height := 1\<rparr>))"
proof -
  let ?t = "prune_store\<lparr>db := []\<rparr>"
  have t: "healthy ?t" "wf_db (db ?t)" "numericChainID ?t = numericChainID prune_store"
    "\<forall>k. prefix ''acc:'' k \<longrightarrow> map_of (db prune_store) k = None \<longrightarrow> map_of (db ?t) k = None"
    using prune_store_ok(1) by (simp_all add: wf_db_def)
  have l: "(5 :: uint64) \<noteq> - 1" "(0 :: uint64) < 5" "(0 :: int) < 100" "(100 :: int) < 2 ^ 63" by simp_all
  from snapshot_roundtrip [OF prune_store_ok(1) ledger_inv_wf [OF prune_store_ok(2)] prune_store_ok(3) l(1,2) demo_no_empty_account t l(3,4),
      of "''now''" 9 9]
  obtain snap where ex: "ExportSnapshot None None ''now'' 9 prune_store 100 = Some (Inr snap)"
    and im: "mset (rev (bs_Accounts snap)) = mset (bs_Accounts snap) \<longrightarrow>
         (\<exists>n m t'. ImportFullSnapshot 9 ?t (Some (snap\<lparr>bs_Accounts := rev (bs_Accounts snap)\<rparr>)) True = (Inr (n, m), t')
            \<and> (\<forall>a. acct (db t') a = acct (db prune_store) a) \<and> ComputeStateRoot t' = ComputeStateRoot prune_store
            \<and> GetLatestHeight t' = Inr 5
            \<and> (\<forall>r xs. GetValidatorSet prune_store = Inr (Some r) \<longrightarrow> vsr_Addresses r = roster xs \<longrightarrow> roster xs \<noteq> [] \<longrightarrow>
                 (\<exists>r'. GetValidatorSet t' = Inr (Some r') \<and> vsr_Addresses r' = roster xs))
            \<and> (\<forall>h b. first_kept 5 100 \<le> h \<longrightarrow> h \<le> 5 \<longrightarrow> GetBlock prune_store h = Inr b \<longrightarrow> GetBlock t' h = Inr b)
            \<and> (\<forall>name. GetBucket t' name = GetBucket ?t name))"
    by (elim exE conjE allE) (rule that)
  then obtain n m t' where t': "ImportFullSnapshot 9 ?t (Some (snap\<lparr>bs_Accounts := rev (bs_Accounts snap)\<rparr>)) True = (Inr (n, m), t')"
    "ComputeStateRoot t' = ComputeStateRoot prune_store"
    "\<And>h b. first_kept 5 100 \<le> h \<Longrightarrow> h \<le> 5 \<Longrightarrow> GetBlock prune_store h = Inr b \<Longrightarrow> GetBlock t' h = Inr b" by auto
  have "first_kept 5 100 \<le> 1" "(1 :: uint64) \<le> 5" by (simp_all add: first_kept_def)
  then have "GetBlock t' 1 = Inr (demo_header\<lparr>hdr_Height := 1\<rparr>)" by (intro t'(3) prune_store_ok(4))
  with ex t'(1,2) show ?thesis by blast
qed

section \<open>Imports without force\<close>

lemma restore_bytes_keeps:
  assumes "healthy t" "wf_db (db t)" "\<forall>(a, x) \<in> set accs. acc_ok x" "occupied (acct (db t) b)"
  shows "\<exists>n t'. restore_bytes False t accs m = ((n, Inr ()), t') \<and> healthy t' \<and> wf_db (db t') \<and> acct (db t') b = acct (db t) b"
  using assms
proof (induction accs arbitrary: t m)
  case (Cons e accs)
  obtain a x where e: "e = (a, x)" by (cases e)
  have g: "GetAccount t a = Inr (acct (db t) a)" using Cons.prems by (intro GetAccount_healthy)
  show ?case
  proof (cases "occupied (acct (db t) a)")
    case True
    with Cons.IH [OF Cons.prems(1,2) _ Cons.prems(4), of m] Cons.prems(3) g show ?thesis by (simp add: e)
  next
    case False
    define t1 where "t1 = t\<lparr>db := kv_set (accountKey a) (AccountV x) (db t)\<rparr>"
    have u: "snd (db_Update t (\<lambda>d. txn_Set t d (accountKey a) (AccountV x))) = t1"
      using Cons.prems(1) by (simp add: db_Update_def txn_Set_def t1_def)
    have ne: "accountKey b \<noteq> accountKey a" using False Cons.prems(4) unfolding acct_def by metis
    have b: "acct (db t1) b = acct (db t) b" using ne by (simp add: t1_def acct_def)
    have "healthy t1" "wf_db (db t1)" using Cons.prems by (auto simp: t1_def e intro!: wf_db_set)
    from Cons.IH [OF this, of "m + 1"] Cons.prems(3,4) b g u False show ?thesis by (simp add: e)
  qed
qed simp

text \<open>Without force an account that is in use keeps its value, whatever the snapshot says.\<close>

theorem import_unforced_keeps:
  assumes "healthy t" "wf_db (db t)" "\<forall>(a, x) \<in> set (bs_Accounts snap). acc_ok x" "occupied (acct (db t) b)"
  shows "acct (db (snd (RestoreAccountsFromSnapshotBytes now t snap False))) b = acct (db t) b"
proof -
  obtain n t' where t': "restore_bytes False t (bs_Accounts snap) 0 = ((n, Inr ()), t')" "healthy t'" "wf_db (db t')"
    "acct (db t') b = acct (db t) b" using restore_bytes_keeps [OF assms] by blast
  have "map_of (db (restore_set now t' (bs_ValidatorSet snap))) (accountKey b) = map_of (db t') (accountKey b)"
    using restore_set_frame [OF t'(2,3)] by (simp add: validatorSetKey_def)
  then show ?thesis using t'(1,4) by (simp add: RestoreAccountsFromSnapshotBytes_def acct_def)
qed

end
