(* ===== verification/StateSync.thy ===== *)
theory StateSync
  imports Backup
begin

text \<open>
  Package \<^verbatim>\<open>internal/sync\<close>, file \<^verbatim>\<open>statesync.go\<close>. The routine ends in a call of \<^verbatim>\<open>Store.ImportSnapshot\<close>, which the repository
  does not define, so the import is a parameter; the node itself uses \<^verbatim>\<open>SyncFromURL\<close>. The environment and
  the HTTP client, with the decoding of its answer, are parameters too.
\<close>

definition sync_secret :: "(string \<Rightarrow> string) \<Rightarrow> string" where
  "sync_secret env =
     (let secret = TrimSpace (env ''API_SECRET'')
      in if secret = [] then TrimSpace (env ''EAST_VALIDATOR_API_SECRET'') else secret)"

definition sync_url :: "(string \<Rightarrow> string) \<Rightarrow> string" where
  "sync_url env =
     (let maxBlocks = (if env ''STATE_SYNC_MAX_BLOCKS'' \<noteq> [] then env ''STATE_SYNC_MAX_BLOCKS'' else ''2000'')
      in TrimRightSlash (TrimSpace (env ''STATE_SYNC_URL'')) @ ''/admin/snapshot?max_blocks='' @ maxBlocks)"

definition PullAndImportSnapshot ::
  "(string \<Rightarrow> string) \<Rightarrow> (string \<Rightarrow> string \<Rightarrow> (int \<times> BackupSnapshot res) res)
     \<Rightarrow> (Store \<Rightarrow> BackupSnapshot \<Rightarrow> bool \<Rightarrow> int res \<times> Store) \<Rightarrow> Store \<Rightarrow> unit res \<times> Store" where
  "PullAndImportSnapshot env http imp s =
     (if TrimSpace (env ''STATE_SYNC_URL'') = [] then (Inr (), s)
      else if sync_secret env = [] then (Inl (Errorf ''STATE_SYNC_URL set but API_SECRET missing''), s)
      else
        let force = (env ''STATE_SYNC_FORCE'' = ''true'' \<or> env ''STATE_SYNC_FORCE'' = ''1'')
        in case http (sync_url env) (sync_secret env) of
             Inl e \<Rightarrow> (Inl (Errorf ''state-sync GET''), s)
           | Inr (code, body) \<Rightarrow>
               if code \<noteq> 200 then (Inl (Errorf ''state-sync GET status''), s)
               else case body of
                 Inl e \<Rightarrow> (Inl (Errorf ''state-sync decode''), s)
               | Inr snap \<Rightarrow>
                   (case imp s snap force of
                      (Inl e, s') \<Rightarrow> (Inl e, s')
                    | (Inr n, s') \<Rightarrow> (Inr (), s')))"

text \<open>
  The store changes only by the import of a snapshot that the configured address answered with status 200
  to a request carrying the secret; without the address nothing happens, without the secret nothing is asked.
\<close>

theorem pull_imports_only:
  assumes "PullAndImportSnapshot env http imp s = (r, s')" "s' \<noteq> s"
  shows "TrimSpace (env ''STATE_SYNC_URL'') \<noteq> [] \<and> sync_secret env \<noteq> []
    \<and> (\<exists>snap n. http (sync_url env) (sync_secret env) = Inr (200, Inr snap)
          \<and> imp s snap (env ''STATE_SYNC_FORCE'' = ''true'' \<or> env ''STATE_SYNC_FORCE'' = ''1'') = (n, s') \<and> (r = Inr () \<longleftrightarrow> is_ok n))"
  using assms
  by (auto simp: PullAndImportSnapshot_def Let_def is_ok_def split: if_splits sum.splits prod.splits)

end
