(* ===== verification/Typing.thy ===== *)
theory Typing
  imports Backup Uptime Blocks
begin

text \<open>
  The store as a whole: every entry has the record type its key stands for, whatever operations run
  and whatever accesses fail, and the stored validator set is sorted, normalised and free of duplicates.
  This is what the readers rely on when they decode a stored record.
\<close>

datatype vtype = TAccount | TBucket | TBlock | TTx | TTxs | TValSet | TJail | THeartbeat | TGenesis | TMark | THeight

fun has_type :: "Value \<Rightarrow> vtype \<Rightarrow> bool" where
  "has_type (AccountV _) t = (t = TAccount)"
| "has_type (BucketV _) t = (t = TBucket)"
| "has_type (BlockV _) t = (t = TBlock)"
| "has_type (TxV _) t = (t = TTx)"
| "has_type (TxsV _) t = (t = TTxs)"
| "has_type (ValSetV r) t = (t = TValSet \<and> roster (vsr_Addresses r) = vsr_Addresses r)"
| "has_type (JailV _) t = (t = TJail)"
| "has_type (HeartbeatV _) t = (t = THeartbeat)"
| "has_type (GenesisV _) t = (t = TGenesis)"
| "has_type (RawV r) t = (t = TMark \<or> t = THeight \<and> is_ok (Sscanf_u64 r))"

text \<open>The prefixes of the keys and the fixed keys below \<^verbatim>\<open>meta:\<close>.\<close>

definition key_types :: "(string \<times> vtype) list" where
  "key_types = [(''acc:'', TAccount), (''bucket:'', TBucket), (''blk:'', TBlock), (''blktxs:'', TTxs), (''tx:'', TTx),
     (''jail:'', TJail), (''hb:'', THeartbeat), (''epoch:'', THeartbeat)]"

definition meta_types :: "(string \<times> vtype) list" where
  "meta_types = [(''validator_set'', TValSet), (''genesis'', TGenesis), (''genesis_hash'', TMark), (''latest_height'', THeight)]"

definition typed_entry :: "string \<Rightarrow> Value \<Rightarrow> bool" where
  "typed_entry k v \<longleftrightarrow>
     (\<forall>(p, t) \<in> set key_types. prefix p k \<longrightarrow> has_type v t) \<and> (\<forall>(m, t) \<in> set meta_types. k = metaKey m \<longrightarrow> has_type v t)"

definition typed_db :: "DB \<Rightarrow> bool" where
  "typed_db d \<longleftrightarrow> (\<forall>e \<in> set d. typed_entry (fst e) (snd e))"

section \<open>Entries\<close>

lemma typed_entry_simps [simp]:
  "typed_entry (accountKey a) v \<longleftrightarrow> has_type v TAccount"
  "typed_entry (bucketKey b) v \<longleftrightarrow> has_type v TBucket"
  "typed_entry (blockKey h) v \<longleftrightarrow> has_type v TBlock"
  "typed_entry (blockTxsKey h) v \<longleftrightarrow> has_type v TTxs"
  "typed_entry (txIndexKey x) v \<longleftrightarrow> has_type v TTx"
  "typed_entry (jailKey a) v \<longleftrightarrow> has_type v TJail"
  "typed_entry (hbKey a) v \<longleftrightarrow> has_type v THeartbeat"
  "typed_entry (epochScoreKey e a) v \<longleftrightarrow> has_type v THeartbeat"
  "typed_entry validatorSetKey v \<longleftrightarrow> has_type v TValSet"
  "typed_entry (metaKey ''genesis'') v \<longleftrightarrow> has_type v TGenesis"
  "typed_entry (metaKey ''genesis_hash'') v \<longleftrightarrow> has_type v TMark"
  "typed_entry (metaKey ''latest_height'') v \<longleftrightarrow> has_type v THeight"
  by (simp_all add: typed_entry_def key_types_def meta_types_def key_defs jailKey_def hbKey_def epochScoreKey_def validatorSetKey_def)

lemma typed_set: "typed_db d \<Longrightarrow> typed_entry k v \<Longrightarrow> typed_db (kv_set k v d)"
proof -
  have "e \<in> set (kv_set k v d) \<Longrightarrow> e = (k, v) \<or> e \<in> set d" for e
    by (induction k v d rule: kv_set.induct) (auto split: if_splits)
  then show "typed_db d \<Longrightarrow> typed_entry k v \<Longrightarrow> typed_db (kv_set k v d)" by (fastforce simp: typed_db_def)
qed

lemma typed_del: "typed_db d \<Longrightarrow> typed_db (kv_del k d)"
  by (simp add: typed_db_def kv_del_def)

lemma typed_lookup: "typed_db d \<Longrightarrow> map_of d k = Some v \<Longrightarrow> typed_entry k v"
  by (auto simp: typed_db_def dest!: map_of_SomeD)

lemma typed_sets:
  "typed_db d \<Longrightarrow> list_all (\<lambda>(k, v). typed_entry k v) kvs \<Longrightarrow> typed_db (fold (\<lambda>(k, v). kv_set k v) kvs d)"
  by (induction kvs arbitrary: d) (auto simp: typed_set)

text \<open>An update keeps the types if its body does.\<close>

definition typed_res :: "DB res \<Rightarrow> bool" where
  "typed_res r \<longleftrightarrow> (case r of Inl _ \<Rightarrow> True | Inr d \<Rightarrow> typed_db d)"

lemma typed_res_simps [simp]: "typed_res (Inl e)" "typed_res (Inr d) = typed_db d"
  by (simp_all add: typed_res_def)

lemma typed_txn_Set [intro]: "typed_db d \<Longrightarrow> typed_entry k v \<Longrightarrow> typed_res (txn_Set s d k v)"
  by (simp add: txn_Set_def typed_set)

lemma typed_txn_Delete [intro]: "typed_db d \<Longrightarrow> typed_res (txn_Delete s d k)"
  by (simp add: txn_Delete_def typed_del)

lemma typed_txn_Set_all: "typed_db d \<Longrightarrow> list_all (\<lambda>(k, v). typed_entry k v) kvs \<Longrightarrow> typed_res (txn_Set_all s d kvs)"
  by (induction s d kvs rule: txn_Set_all.induct) (auto simp: txn_Set_def typed_set)

lemma typed_Update: "typed_db (db s) \<Longrightarrow> typed_res (f (db s)) \<Longrightarrow> typed_db (db (snd (db_Update s f)))"
  by (auto simp: db_Update_def split: sum.split)

lemma snd_case_res: "snd (case x of (Inl e, s) \<Rightarrow> (Inl e, s) | (Inr _, s) \<Rightarrow> (Inr r, s)) = snd x"
  by (auto split: prod.split sum.split)

section \<open>Operations\<close>

lemma typed_setAccount [intro]: "typed_db d \<Longrightarrow> typed_res (setAccountTxn s d a x)"
  by (simp add: setAccountTxn_def typed_txn_Set)

lemma typed_mint: "typed_db d \<Longrightarrow> typed_res (mintFromBucketTxn s d n x)"
  by (auto simp: mintFromBucketTxn_def split: sum.split)

lemma typed_applyTransfer:
  assumes "typed_db d"
  shows "typed_res (applyTransfer s d a t)"
proof -
  have "typed_res (case setAccountTxn s d f x of Inl e \<Rightarrow> Inl e | Inr d' \<Rightarrow> setAccountTxn s d' g y)" for f x g y
    using typed_setAccount [OF assms, of s f x] by (cases "setAccountTxn s d f x") auto
  then show ?thesis by (auto simp: applyTransfer_def Let_def split: sum.split)
qed

lemma typed_applyClaimMining:
  assumes "typed_db d"
  shows "typed_res (applyClaimMining s d a t)"
proof -
  have "typed_db d'" if "mintFromBucketTxn s d n x = Inr d'" for n x d'
    using typed_mint [OF assms, of s n x] that by simp
  then show ?thesis by (auto simp: applyClaimMining_def Let_def split: sum.split)
qed

lemma typed_applyTxBody:
  assumes "typed_db d"
  shows "typed_res (applyTxBody s t d)"
  using assms typed_applyTransfer [OF assms] typed_applyClaimMining [OF assms]
  by (auto simp: applyTxBody_def applyStake_def applyRequestUnstake_def applyClaimUnstake_def split: sum.split)

lemma typed_ApplyTx: "typed_db (db s) \<Longrightarrow> typed_db (db (snd (ApplyTx s t)))"
  unfolding ApplyTx_def by (intro typed_Update typed_applyTxBody)

lemma typed_genesis_writes: "list_all (\<lambda>(k, v). typed_entry k v) (genesis_writes g)"
proof -
  have "show_u64 0 = ''0''" by code_simp
  then have "is_ok (Sscanf_u64 ''0'')" using Sscanf_show_u64 [of 0] by simp
  then show ?thesis by (auto simp: genesis_writes_def list_all_iff)
qed

lemma typed_InitGenesis: "typed_db (db s) \<Longrightarrow> typed_db (db (snd (InitGenesis s g)))"
proof -
  assume t: "typed_db (db s)"
  have p: "db (set_params g' s) = db s" for g' by (simp add: set_params_def)
  have w: "typed_res (txn_Set_all s (db s) (genesis_writes g'))" for g'
    by (rule typed_txn_Set_all [OF t typed_genesis_writes])
  have "typed_db (db (snd (case txn_Set_all s (db s) (genesis_writes g') of Inl e \<Rightarrow> (Inl e, s)
      | Inr d \<Rightarrow> db_Update (set_params g' s) (\<lambda>_. Inr d))))" for g'
    using w [of g'] t by (cases "txn_Set_all s (db s) (genesis_writes g')") (auto intro!: typed_Update simp: p)
  then show ?thesis
    unfolding InitGenesis_def using t typed_Update [of "set_params g' s" Inr for g']
    by (auto simp: p split: prod.split sum.split)
qed

lemma typed_SaveBlock: "typed_db (db s) \<Longrightarrow> typed_db (db (snd (SaveBlock s h)))"
  unfolding SaveBlock_def by (intro typed_Update typed_txn_Set_all) auto

lemma typed_SaveBlockWithTxs: "typed_db (db s) \<Longrightarrow> typed_db (db (snd (SaveBlockWithTxs s h ts)))"
  unfolding SaveBlockWithTxs_def Let_def by (intro typed_Update typed_txn_Set_all) (auto simp: list_all_iff)

lemma typed_prune_loop: "typed_db d \<Longrightarrow> typed_res (prune_loop s c ks d)"
  by (induction s c ks d rule: prune_loop.induct) (auto simp: txn_Delete_def typed_del split: sum.split)

lemma typed_Prune: "typed_db (db s) \<Longrightarrow> typed_db (db (snd (PruneOldBlocks s keep)))"
  unfolding PruneOldBlocks_def by (auto intro!: typed_Update typed_prune_loop split: sum.split)

lemma typed_Seed: "typed_db (db s) \<Longrightarrow> typed_db (db (snd (SeedAccount s a b st pu m)))"
  unfolding SeedAccount_def Let_def by (intro typed_Update) (auto split: sum.split)

lemma typed_SaveValidatorSet: "typed_db (db s) \<Longrightarrow> typed_db (db (snd (SaveValidatorSet s now addrs)))"
proof -
  assume t: "typed_db (db s)"
  have "typed_db (db (snd (db_Update s (\<lambda>d. txn_Set s d validatorSetKey (ValSetV r)))))"
    if "roster (vsr_Addresses r) = vsr_Addresses r" for r
    using t that by (intro typed_Update) auto
  then show ?thesis unfolding SaveValidatorSet_def Let_def snd_case_res by (simp add: exch_collect_roster)
qed

lemma typed_Jail: "typed_db (db s) \<Longrightarrow> typed_db (db (snd (JailValidator s now now2 a r e d)))"
  unfolding JailValidator_def Let_def by (auto intro!: typed_Update)

lemma typed_Unjail: "typed_db (db s) \<Longrightarrow> typed_db (db (snd (UnjailValidator s a)))"
  unfolding UnjailValidator_def Let_def by (auto intro!: typed_Update)

lemma typed_Heartbeat:
  "typed_db (db s) \<Longrightarrow> RecordHeartbeat s now a nid t secs = Some (r, s') \<Longrightarrow> typed_db (db s')"
  by (auto dest!: heartbeat_writes intro!: typed_set)

lemma typed_account_write:
  "typed_db (db s) \<Longrightarrow> typed_db (db (snd (db_Update s (\<lambda>d. txn_Set s d (accountKey a) (AccountV x)))))"
  by (intro typed_Update) auto

lemma typed_restore_bytes: "typed_db (db s) \<Longrightarrow> typed_db (db (snd (restore_bytes f s accs n)))"
  by (induction f s accs n rule: restore_bytes.induct) (simp_all add: typed_account_write split: sum.split)

lemma typed_import_blocks: "typed_db (db s) \<Longrightarrow> typed_db (db (snd (import_blocks s bs n)))"
proof (induction s bs n rule: import_blocks.induct)
  case (2 s h hs n)
  obtain r s' where e: "SaveBlock s h = (r, s')" by (cases "SaveBlock s h")
  then have "typed_db (db s')" using typed_SaveBlock [OF 2(3), of h] by simp
  with 2 e show ?case by (auto split: sum.split)
qed simp


section \<open>Runs of operations\<close>

text \<open>Every operation of the program that writes to the store, with its arguments.\<close>

datatype store_op =
    Op_InitGenesis Genesis | Op_ApplyTx Transaction | Op_Mint string int | Op_SaveBlock BlockHeader
  | Op_SaveBlockWithTxs BlockHeader "Transaction option list" | Op_Prune int
  | Op_Seed string int int int string | Op_SaveValidatorSet int "string list"
  | Op_Jail int int string string string int | Op_Unjail string | Op_IsJailed int string
  | Op_Heartbeat int string string string int | Op_Import int "BackupSnapshot option" bool
  | Op_RestoreFile int "BackupSnapshot res" bool

text \<open>A heartbeat that panics leaves the store as it was.\<close>

fun exec_op :: "store_op \<Rightarrow> Store \<Rightarrow> Store" where
  "exec_op (Op_InitGenesis g) s = snd (InitGenesis s g)"
| "exec_op (Op_ApplyTx t) s = snd (ApplyTx s t)"
| "exec_op (Op_Mint n a) s = snd (MintFromBucket s n a)"
| "exec_op (Op_SaveBlock h) s = snd (SaveBlock s h)"
| "exec_op (Op_SaveBlockWithTxs h ts) s = snd (SaveBlockWithTxs s h ts)"
| "exec_op (Op_Prune k) s = snd (PruneOldBlocks s k)"
| "exec_op (Op_Seed a b st pu m) s = snd (SeedAccount s a b st pu m)"
| "exec_op (Op_SaveValidatorSet now addrs) s = snd (SaveValidatorSet s now addrs)"
| "exec_op (Op_Jail now now2 a r e d) s = snd (JailValidator s now now2 a r e d)"
| "exec_op (Op_Unjail a) s = snd (UnjailValidator s a)"
| "exec_op (Op_IsJailed now a) s = snd (Validators.IsJailed s now a)"
| "exec_op (Op_Heartbeat now a nid t secs) s =
     (case RecordHeartbeat s now a nid t secs of None \<Rightarrow> s | Some (_, s') \<Rightarrow> s')"
| "exec_op (Op_Import now snap force) s = snd (ImportFullSnapshot now s snap force)"
| "exec_op (Op_RestoreFile now file force) s = snd (RestoreAccountsFromSnapshot now s file force)"

lemma typed_IsJailed: "typed_db (db s) \<Longrightarrow> typed_db (db (snd (Validators.IsJailed s now a)))"
  unfolding Validators.IsJailed_def Let_def by (auto simp: typed_Unjail split: sum.split error.split)

lemma typed_restore_set: "typed_db (db s) \<Longrightarrow> typed_db (db (restore_set now s v))"
  by (simp add: restore_set_def typed_SaveValidatorSet split: option.split)

lemma typed_restore_file: "typed_db (db s) \<Longrightarrow> typed_db (db (snd (restore_file f s accs n)))"
proof (induction f s accs n rule: restore_file.induct)
  case (2 f s a x accs n)
  obtain r s' where e: "SeedBalance s a (acc_Balance x) = (r, s')" by (cases "SeedBalance s a (acc_Balance x)")
  then have "typed_db (db s')" using typed_Seed [OF 2(3)] unfolding SeedBalance_def by (metis snd_conv)
  with 2 e show ?case by (auto simp: typed_account_write split: sum.split)
qed simp

lemma typed_Import:
  assumes "typed_db (db s)"
  shows "typed_db (db (snd (ImportFullSnapshot now s snap0 force)))"
proof (cases snap0)
  case (Some snap)
  obtain n r s1 where r1: "restore_bytes force s (bs_Accounts snap) 0 = ((n, r), s1)"
    by (cases "restore_bytes force s (bs_Accounts snap) 0") auto
  then have s1: "typed_db (db s1)" using typed_restore_bytes [OF assms, of force "bs_Accounts snap" 0] by simp
  define s2 where "s2 = restore_set now s1 (bs_ValidatorSet snap)"
  obtain m s3 where s3: "import_blocks s2 (bs_RecentBlocks snap) 0 = (m, s3)"
    by (cases "import_blocks s2 (bs_RecentBlocks snap) 0")
  have "typed_db (db s2)" unfolding s2_def by (rule typed_restore_set [OF s1])
  then have t3: "typed_db (db s3)" using typed_import_blocks [of s2 "bs_RecentBlocks snap" 0] s3 by simp
  then have "typed_db (db (snd (db_Update s3 (\<lambda>d. txn_Set s3 d (metaKey ''latest_height'') (RawV (show_u64 (bs_LatestHeight snap)))))))"
    by (intro typed_Update) auto
  with assms r1 s1 s3 t3 show ?thesis
    by (auto simp: Some ImportFullSnapshot_def RestoreAccountsFromSnapshotBytes_def s2_def [symmetric] split: sum.split)
qed (simp add: ImportFullSnapshot_def assms)

lemma typed_RestoreFile:
  assumes "typed_db (db s)"
  shows "typed_db (db (snd (RestoreAccountsFromSnapshot now s file force)))"
proof (cases "file")
  case (Inr snap)
  obtain n r s1 where r1: "restore_file force s (bs_Accounts snap) 0 = ((n, r), s1)"
    by (cases "restore_file force s (bs_Accounts snap) 0") auto
  then have "typed_db (db s1)" using typed_restore_file [OF assms, of force "bs_Accounts snap" 0] by simp
  with r1 show ?thesis by (auto simp: Inr RestoreAccountsFromSnapshot_def typed_restore_set split: sum.split)
qed (simp add: RestoreAccountsFromSnapshot_def assms)

lemma typed_exec: "typed_db (db s) \<Longrightarrow> typed_db (db (exec_op op s))"
proof (cases op)
  case (Op_Mint n a)
  then show "typed_db (db s) \<Longrightarrow> typed_db (db (exec_op op s))"
    by (auto simp: MintFromBucket_def intro!: typed_Update typed_mint)
qed (auto simp: typed_InitGenesis typed_ApplyTx typed_SaveBlock typed_SaveBlockWithTxs typed_Prune typed_Seed
    typed_SaveValidatorSet typed_Jail typed_Unjail typed_IsJailed typed_Import typed_RestoreFile
    intro: typed_Heartbeat split: option.split)

lemma typed_run: "typed_db (db s) \<Longrightarrow> typed_db (db (fold exec_op ops s))"
  by (induction ops arbitrary: s) (simp_all add: typed_exec)

section \<open>Reads of a typed store\<close>

lemma iter_values_typed: "\<forall>e \<in> set es. dec (snd e) \<noteq> Inl JsonErr \<Longrightarrow> iter_values s dec es \<noteq> Inl JsonErr"
proof (induction es)
  case (Cons e es)
  then show ?case by (cases e; cases "dec (snd e)"; cases "iter_values s dec es") auto
qed simp

lemma has_typeD:
  "has_type v TAccount \<Longrightarrow> \<exists>x. v = AccountV x" "has_type v TBucket \<Longrightarrow> \<exists>x. v = BucketV x" "has_type v TBlock \<Longrightarrow> \<exists>x. v = BlockV x"
  "has_type v TTx \<Longrightarrow> \<exists>x. v = TxV x" "has_type v TTxs \<Longrightarrow> \<exists>x. v = TxsV x" "has_type v TValSet \<Longrightarrow> \<exists>x. v = ValSetV x"
  "has_type v TJail \<Longrightarrow> \<exists>x. v = JailV x" "has_type v THeartbeat \<Longrightarrow> \<exists>x. v = HeartbeatV x"
  "has_type v THeight \<Longrightarrow> \<exists>x. v = RawV x \<and> is_ok (Sscanf_u64 x)"
  by (cases v; simp)+

lemma typed_Get:
  assumes "typed_db (db s)"
  obtains (fault) "txn_Get s (db s) k = Inl BadgerErr" | (missing) "txn_Get s (db s) k = Inl KeyNotFound"
    | (found) v where "txn_Get s (db s) k = Inr v" "typed_entry k v"
  using assms typed_lookup [of "db s" k] by (cases "getFault s k"; cases "map_of (db s) k") (auto simp: txn_Get_def)

lemma typed_reads:
  assumes "typed_db (db s)"
  shows "GetAccount s a \<noteq> Inl JsonErr" "GetBucket s n \<noteq> Inl JsonErr" "GetBlock s h \<noteq> Inl JsonErr"
    "GetBlockTransactions s h \<noteq> Inl JsonErr" "GetTransaction s x \<noteq> Inl JsonErr"
    "GetValidatorSet s \<noteq> Inl JsonErr" "GetHeartbeat s a \<noteq> Inl JsonErr" "GetLatestHeight s \<noteq> Inl JsonErr"
proof -
  show "GetAccount s a \<noteq> Inl JsonErr"
    by (rule typed_Get [OF assms, of "accountKey a"]) (auto simp: GetAccount_def dest: has_typeD)
  show "GetBucket s n \<noteq> Inl JsonErr"
    by (rule typed_Get [OF assms, of "bucketKey n"]) (auto simp: GetBucket_def dest: has_typeD)
  show "GetBlock s h \<noteq> Inl JsonErr"
    by (rule typed_Get [OF assms, of "blockKey h"]) (auto simp: GetBlock_def dest: has_typeD)
  show "GetBlockTransactions s h \<noteq> Inl JsonErr"
    by (rule typed_Get [OF assms, of "blockTxsKey h"]) (auto simp: GetBlockTransactions_def dest: has_typeD)
  show "GetTransaction s x \<noteq> Inl JsonErr"
    by (rule typed_Get [OF assms, of "txIndexKey x"]) (auto simp: GetTransaction_def dest: has_typeD)
  show "GetValidatorSet s \<noteq> Inl JsonErr"
    by (rule typed_Get [OF assms, of validatorSetKey]) (auto simp: GetValidatorSet_def dest: has_typeD)
  show "GetHeartbeat s a \<noteq> Inl JsonErr"
    by (rule typed_Get [OF assms, of "hbKey a"]) (auto simp: GetHeartbeat_def dest: has_typeD)
  show "GetLatestHeight s \<noteq> Inl JsonErr"
    by (rule typed_Get [OF assms, of "metaKey ''latest_height''"]) (auto simp: GetLatestHeight_def dest!: has_typeD elim!: is_okE)
qed

lemma typed_entry_prefix: "typed_entry k v \<Longrightarrow> (p, t) \<in> set key_types \<Longrightarrow> prefix p k \<Longrightarrow> has_type v t"
  by (auto simp: typed_entry_def)

lemma typed_lists:
  assumes "typed_db (db s)"
  shows "ListBuckets s \<noteq> Inl JsonErr" "Validators.IsJailed s now a = (r, s') \<Longrightarrow> r \<noteq> Inl JsonErr"
proof -
  have "\<exists>b. v = BucketV b" if "(k, v) \<in> set (iter_prefix ''bucket:'' (db s))" for k v
    using that has_typeD(2) [of v] assms typed_entry_prefix [of k v "''bucket:''" TBucket] by (auto simp: iter_prefix_def typed_db_def key_types_def)
  then show "ListBuckets s \<noteq> Inl JsonErr"
    unfolding ListBuckets_def by (intro iter_values_typed) fastforce
  show "r \<noteq> Inl JsonErr" if "Validators.IsJailed s now a = (r, s')"
    by (rule typed_Get [OF assms, of "jailKey (ToLower (TrimSpace a))"])
      (use that in \<open>auto simp: Validators.IsJailed_def Let_def dest!: has_typeD split: if_splits\<close>)
qed

text \<open>
  C34: whatever sequence of operations runs on a store, and whatever accesses to the database fail in
  between, every entry keeps the type of its key, so no read of an account, bucket, block,
  transaction, validator set, jail record, heartbeat or height ever fails to decode what is stored.
\<close>

theorem store_type_sound:
  assumes "typed_db (db s)" "s' = fold exec_op ops s"
  shows "typed_db (db s')
    \<and> GetAccount s' a \<noteq> Inl JsonErr \<and> GetBucket s' n \<noteq> Inl JsonErr \<and> GetBlock s' h \<noteq> Inl JsonErr
    \<and> GetBlockTransactions s' h \<noteq> Inl JsonErr \<and> GetTransaction s' x \<noteq> Inl JsonErr \<and> GetLatestHeight s' \<noteq> Inl JsonErr
    \<and> GetValidatorSet s' \<noteq> Inl JsonErr \<and> GetHeartbeat s' a \<noteq> Inl JsonErr \<and> ListBuckets s' \<noteq> Inl JsonErr
    \<and> fst (Validators.IsJailed s' now a) \<noteq> Inl JsonErr"
proof -
  have t: "typed_db (db s')" unfolding assms(2) by (rule typed_run [OF assms(1)])
  have "fst (Validators.IsJailed s' now a) \<noteq> Inl JsonErr"
    using typed_lists(2) [OF t, of now a] by (cases "Validators.IsJailed s' now a") simp
  with t typed_reads [OF t] typed_lists(1) [OF t] show ?thesis by simp
qed

theorem store_type_sound_witness:
  "typed_db (db (fold exec_op [Op_InitGenesis demo_genesis, Op_Jail 1 2 ''0xab'' ''r'' ''e'' 5] empty_store))
    \<and> fst (Validators.IsJailed (fold exec_op [Op_InitGenesis demo_genesis, Op_Jail 1 2 ''0xab'' ''r'' ''e'' 5] empty_store) 3 ''0xab'') \<noteq> Inl JsonErr"
proof -
  have "typed_db (db empty_store)" by (simp add: typed_db_def)
  from store_type_sound [OF this refl, of "[Op_InitGenesis demo_genesis, Op_Jail 1 2 ''0xab'' ''r'' ''e'' 5]" "''0xab''" _ _ _ 3]
  show ?thesis by blast
qed

end
