(* ===== verification/GoConv.thy ===== *)
theory GoConv
  imports GoLib
begin

text \<open>
  Package \<^verbatim>\<open>strconv\<close> as the sources call it: \<^verbatim>\<open>ParseUint\<close> in a given base, \<^verbatim>\<open>ParseInt\<close>/\<^verbatim>\<open>Atoi\<close> in base ten,
  and the hexadecimal verb \<^verbatim>\<open>%x\<close> of \<^verbatim>\<open>fmt\<close>. A failing conversion returns a value besides its error (zero
  for a syntax error, the nearest bound for a value out of range), which some callers use.
\<close>

datatype num_error = ErrSyntax | ErrRange

section \<open>Conversion of texts\<close>

text \<open>The value of a digit in bases up to 36, letters in either case.\<close>

definition base_digit :: "char \<Rightarrow> nat option" where
  "base_digit c =
     (if is_digit c then Some (of_char c - 48)
      else if CHR ''a'' \<le> lower_char c \<and> lower_char c \<le> CHR ''z'' then Some (of_char (lower_char c) - 87)
      else None)"

text \<open>The scan from the left that stops at the first offence.\<close>

fun scan_uint :: "nat \<Rightarrow> nat \<Rightarrow> string \<Rightarrow> nat \<times> num_error option" where
  "scan_uint base n [] = (n, None)"
| "scan_uint base n (c # cs) =
     (case base_digit c of
        None \<Rightarrow> (0, Some ErrSyntax)
      | Some d \<Rightarrow>
          if d \<ge> base then (0, Some ErrSyntax)
          else if n * base + d \<ge> 2 ^ 64 then (2 ^ 64 - 1, Some ErrRange)
          else scan_uint base (n * base + d) cs)"

definition ParseUint :: "string \<Rightarrow> nat \<Rightarrow> nat \<times> num_error option" where
  "ParseUint s base = (if s = [] then (0, Some ErrSyntax) else scan_uint base 0 s)"

definition parse_u64 :: "string \<Rightarrow> nat \<Rightarrow> uint64 res" where
  "parse_u64 s base =
     (case ParseUint s base of (n, None) \<Rightarrow> Inr (word_of_nat n) | (_, Some _) \<Rightarrow> Inl (Errorf ''strconv.ParseUint''))"

text \<open>\<^verbatim>\<open>ParseInt(s, 10, 64)\<close>; \<^verbatim>\<open>Atoi\<close> agrees with it where \<^verbatim>\<open>int\<close> has 64 bits.\<close>

definition ParseInt10 :: "string \<Rightarrow> int \<times> num_error option" where
  "ParseInt10 s0 =
     (if s0 = [] then (0, Some ErrSyntax)
      else
        let neg = (hd s0 = CHR ''-'');
            s = (if hd s0 = CHR ''+'' \<or> hd s0 = CHR ''-'' then tl s0 else s0)
        in case ParseUint s 10 of
             (_, Some ErrSyntax) \<Rightarrow> (0, Some ErrSyntax)
           | (un, _) \<Rightarrow>
               if \<not> neg \<and> un \<ge> 2 ^ 63 then (2 ^ 63 - 1, Some ErrRange)
               else if neg \<and> un > 2 ^ 63 then (- (2 ^ 63), Some ErrRange)
               else (if neg then - int un else int un, None))"

section \<open>Hexadecimal texts\<close>

definition hex_digit :: "nat \<Rightarrow> char" where
  "hex_digit d = char_of (if d < 10 then 48 + d else 87 + d)"

fun show_hex :: "nat \<Rightarrow> string" where
  "show_hex n = (if n < 16 then [hex_digit n] else show_hex (n div 16) @ [hex_digit (n mod 16)])"

declare show_hex.simps [simp del]

text \<open>\<^verbatim>\<open>%x\<close> and \<^verbatim>\<open>big.Int.Text(16)\<close> of a signed number: the sign, then the digits of the magnitude.\<close>

definition show_hex_int :: "int \<Rightarrow> string" where
  "show_hex_int i = (if i < 0 then ''-'' @ show_hex (nat (- i)) else show_hex (nat i))"

lemma of_char_hex_digit: "d < 16 \<Longrightarrow> (of_char (hex_digit d) :: nat) = (if d < 10 then 48 + d else 87 + d)"
  by (simp add: hex_digit_def)

lemma base_digit_hex [simp]: "d < 16 \<Longrightarrow> base_digit (hex_digit d) = Some d"
  by (auto simp: base_digit_def is_digit_def less_eq_char_def of_char_hex_digit of_char_lower_char)

lemma lower_hex_digit [simp]: "d < 16 \<Longrightarrow> lower_char (hex_digit d) = hex_digit d"
  by (simp add: lower_char_def less_eq_char_def of_char_hex_digit)

lemma space_hex_digit [simp]: "d < 16 \<Longrightarrow> \<not> is_space (hex_digit d)"
  by (auto simp: is_space_iff of_char_hex_digit)

lemma show_hex_not_Nil [simp]: "show_hex n \<noteq> []"
  by (simp add: show_hex.simps [of n])

lemma show_hex_digits: "c \<in> set (show_hex n) \<Longrightarrow> \<exists>d < 16. c = hex_digit d"
proof (induction n rule: show_hex.induct)
  case (1 n)
  show ?case
  proof (cases "n < 16")
    case True
    with "1.prems" show ?thesis by (auto simp: show_hex.simps [of n])
  next
    case False
    have m: "n mod 16 < 16" by simp
    have "c \<in> set (show_hex (n div 16)) \<or> c = hex_digit (n mod 16)"
      using "1.prems" False by (auto simp: show_hex.simps [of n])
    with "1.IH" [OF False] m show ?thesis by blast
  qed
qed

lemma scan_uint_snoc:
  "scan_uint b n cs = (m, None) \<Longrightarrow> base_digit c = Some d \<Longrightarrow> d < b \<Longrightarrow> m * b + d < 2 ^ 64
    \<Longrightarrow> scan_uint b n (cs @ [c]) = (m * b + d, None)"
  by (induction b n cs rule: scan_uint.induct) (auto split: option.splits if_splits)

lemma scan_show_hex: "n < 2 ^ 64 \<Longrightarrow> scan_uint 16 0 (show_hex n) = (n, None)"
proof (induction n rule: show_hex.induct)
  case (1 n)
  show ?case
  proof (cases "n < 16")
    case True
    then show ?thesis by (simp add: show_hex.simps [of n])
  next
    case False
    have "scan_uint 16 0 (show_hex (n div 16)) = (n div 16, None)" using 1 False by simp
    from scan_uint_snoc [OF this base_digit_hex [of "n mod 16"]] "1.prems" False
    show ?thesis by (simp add: show_hex.simps [of n])
  qed
qed

text \<open>Printing in hexadecimal and parsing in base 16 are inverse on all values of a \<^verbatim>\<open>uint64\<close>.\<close>

lemma parse_show_hex: "parse_u64 (show_hex (unat w)) 16 = Inr w"
proof -
  have "unat w < 2 ^ LENGTH(64)" by (rule unsigned_less)
  then have "unat w < 2 ^ 64" by simp
  from scan_show_hex [OF this] show ?thesis by (simp add: parse_u64_def ParseUint_def)
qed

lemma show_hex_lower [simp]: "ToLower (show_hex n) = show_hex n"
  unfolding ToLower_def by (rule map_idI) (use show_hex_digits lower_hex_digit in blast)

lemma trim_no_space: "(\<And>c. c \<in> set s \<Longrightarrow> \<not> is_space c) \<Longrightarrow> TrimSpace s = s"
proof -
  have *: "(\<And>c. c \<in> set t \<Longrightarrow> \<not> is_space c) \<Longrightarrow> dropWhile is_space t = t" for t by (cases t) auto
  show "(\<And>c. c \<in> set s \<Longrightarrow> \<not> is_space c) \<Longrightarrow> TrimSpace s = s"
    unfolding TrimSpace_def using * [of s] * [of "rev s"] by simp
qed

section \<open>Decimal texts\<close>

lemma base_digit_dec: "is_digit c \<Longrightarrow> base_digit c = Some (digit_val c)"
  by (simp add: base_digit_def digit_val_def)

lemma digit_val_less: "is_digit c \<Longrightarrow> digit_val c < 10"
  by (auto simp: is_digit_def digit_val_def less_eq_char_def)

abbreviation dec_value :: "nat \<Rightarrow> string \<Rightarrow> nat" where
  "dec_value \<equiv> foldl (\<lambda>n c. 10 * n + digit_val c)"

lemma dec_value_ge: "n \<le> dec_value n cs"
proof (induction cs arbitrary: n)
  case (Cons c cs)
  have "n \<le> 10 * n + digit_val c" by simp
  also have "\<dots> \<le> dec_value (10 * n + digit_val c) cs" by (rule Cons)
  finally show ?case by simp
qed simp

lemma scan_dec:
  "(\<And>c. c \<in> set cs \<Longrightarrow> is_digit c) \<Longrightarrow> dec_value n cs < 2 ^ 64 \<Longrightarrow> scan_uint 10 n cs = (dec_value n cs, None)"
proof (induction cs arbitrary: n)
  case (Cons c cs)
  have c: "is_digit c" using Cons.prems by simp
  have "10 * n + digit_val c \<le> dec_value (10 * n + digit_val c) cs" by (rule dec_value_ge)
  also have "\<dots> < 2 ^ 64" using Cons.prems(2) by (simp only: foldl_Cons)
  finally have lt: "n * 10 + digit_val c < 2 ^ 64" by (simp only: mult.commute)
  have "scan_uint 10 n (c # cs) = scan_uint 10 (n * 10 + digit_val c) cs"
    using lt digit_val_less [OF c] unfolding scan_uint.simps base_digit_dec [OF c]
    by (simp only: option.case not_le [symmetric] if_False)
  also have "\<dots> = (dec_value (n * 10 + digit_val c) cs, None)"
    using Cons.prems by (intro Cons.IH) (auto simp: mult.commute)
  finally show ?case by (simp add: mult.commute)
qed simp

text \<open>Decimal printing and parsing are inverse on the values of an \<^verbatim>\<open>int64\<close>.\<close>

lemma parse_show_int:
  assumes "in_i64 i"
  shows "ParseInt10 (show_int i) = (i, None)"
proof -
  have scan: "scan_uint 10 0 (show_nat n) = (n, None)" if "n < 2 ^ 64" for n
    using scan_dec [of "show_nat n" 0] show_nat_digits that parse_show_nat [of n] by (simp add: parse_nat_def)
  have hd: "hd (show_nat n) \<noteq> CHR ''+''" "hd (show_nat n) \<noteq> CHR ''-''" for n
    using show_nat_digits [of "hd (show_nat n)" n] by (auto simp: is_digit_def less_eq_char_def)
  show ?thesis
  proof (cases "i < 0")
    case True
    with assms have "nat (- i) < 2 ^ 64" "\<not> nat (- i) > 2 ^ 63" by (auto simp: in_i64_def)
    with True scan [of "nat (- i)"] show ?thesis
      by (simp add: ParseInt10_def show_int_def ParseUint_def Let_def)
  next
    case False
    with assms have "nat i < 2 ^ 64" "\<not> nat i \<ge> 2 ^ 63" by (auto simp: in_i64_def)
    with False scan [of "nat i"] hd [of "nat i"] show ?thesis
      by (simp add: ParseInt10_def show_int_def ParseUint_def Let_def)
  qed
qed

text \<open>Whatever the text, the value is in the range of an \<^verbatim>\<open>int64\<close>.\<close>

lemma ParseInt10_range: "in_i64 (fst (ParseInt10 s))"
  by (auto simp: ParseInt10_def Let_def in_i64_def split: prod.split option.split num_error.split)

end
