(* ===== verification/ConfigLoad.thy ===== *)
theory ConfigLoad
  imports GoConv PeerAddr
begin

text \<open>
  Packages \<^verbatim>\<open>internal/config\<close> (\<^verbatim>\<open>config.go\<close>) and \<^verbatim>\<open>internal/p2p\<close> (\<^verbatim>\<open>LoadConfigFromEnv\<close> of \<^verbatim>\<open>node.go\<close>): what the
  environment configures. \<open>env\<close> gives the value of an environment variable, the empty string for one
  that is not set, as \<^verbatim>\<open>os.Getenv\<close> does. Durations are in nanoseconds.
\<close>

record AppConfig =
  ac_HTTPAddr :: string
  ac_DataDir :: string
  ac_NodeID :: string
  ac_NodeName :: string
  ac_APISecret :: string
  ac_KeepRecentBlocks :: int
  ac_GenesisPath :: string
  ac_ShutdownTimeout :: int
  ac_BlockInterval :: int
  ac_AutoProduce :: bool
  ac_EpochSeconds :: int

definition getEnv :: "(string \<Rightarrow> string) \<Rightarrow> string \<Rightarrow> string \<Rightarrow> string" where
  "getEnv env key fallback = (let v = env key in if v \<noteq> [] then v else fallback)"

text \<open>The errors of the conversions are dropped, their values are used.\<close>

definition Load :: "(string \<Rightarrow> string) \<Rightarrow> AppConfig" where
  "Load env =
     (let keepBlocks = fst (ParseInt10 (getEnv env ''KEEP_RECENT_BLOCKS'' ''3000''));
          interval0 = fst (ParseInt10 (getEnv env ''BLOCK_INTERVAL_SEC'' ''120''));
          intervalSec = (if interval0 \<le> 0 then 120 else interval0);
          autoProduce = (getEnv env ''AUTO_PRODUCE'' ''true'' \<noteq> ''false'');
          epoch0 = fst (ParseInt10 (getEnv env ''EPOCH_SECONDS'' ''604800''));
          epochSec = (if epoch0 \<le> 0 then 604800 else epoch0);
          addr0 = getEnv env ''HTTP_ADDR'' [];
          httpAddr = (if addr0 = [] then
                        if env ''PORT'' \<noteq> [] then '':'' @ env ''PORT'' else '':8080''
                      else addr0)
      in \<lparr>ac_HTTPAddr = httpAddr, ac_DataDir = getEnv env ''DATA_DIR'' ''./data'',
          ac_NodeID = getEnv env ''NODE_ID'' ''validator-1'', ac_NodeName = getEnv env ''NODE_NAME'' ''east-validator'',
          ac_APISecret = getEnv env ''API_SECRET'' [], ac_KeepRecentBlocks = keepBlocks,
          ac_GenesisPath = getEnv env ''GENESIS_PATH'' ''./genesis.json'', ac_ShutdownTimeout = 10 * 10 ^ 9,
          ac_BlockInterval = i64 (intervalSec * 10 ^ 9), ac_AutoProduce = autoProduce,
          ac_EpochSeconds = epochSec\<rparr>)"

section \<open>The peer-to-peer node\<close>

record P2PConfig =
  pc_Enabled :: bool
  pc_ListenPort :: int
  pc_PrivateKeyHex :: string
  pc_Bootstrap :: "string list"
  pc_NodeID :: string
  pc_ConnLow :: int
  pc_ConnHigh :: int
  pc_AnnounceAddr :: string

text \<open>
  \<^verbatim>\<open>fmt.Sscanf(v, "%d", &x)\<close> for an \<^verbatim>\<open>int\<close>: blanks, a sign, a run of digits; the variable keeps its
  value when there is no number or it is out of range.
\<close>

definition Sscanf_int :: "string \<Rightarrow> int \<Rightarrow> int" where
  "Sscanf_int v x =
     (let t = dropWhile (\<lambda>c. c \<in> {CHR '' '', CHR 0x09, CHR 0x0D}) v;
          sign = (if t \<noteq> [] \<and> (hd t = CHR ''+'' \<or> hd t = CHR ''-'') then [hd t] else []);
          digits = takeWhile is_digit (drop (length sign) t)
      in if digits = [] then x
         else case ParseInt10 (sign @ digits) of (n, None) \<Rightarrow> n | (_, Some _) \<Rightarrow> x)"

definition normalizeAnnounce :: "string \<Rightarrow> string" where
  "normalizeAnnounce raw =
     (if raw = [] then [] else case NormalizePeerAddr raw of Inl _ \<Rightarrow> raw | Inr n \<Rightarrow> n)"

definition env_int :: "(string \<Rightarrow> string) \<Rightarrow> string \<Rightarrow> int \<Rightarrow> int" where
  "env_int env key x = (let v = env key in if v \<noteq> [] then Sscanf_int v x else x)"

definition LoadConfigFromEnv :: "(string \<Rightarrow> string) \<Rightarrow> string \<Rightarrow> P2PConfig" where
  "LoadConfigFromEnv env nodeID =
     (let enabled = (env ''P2P_ENABLED'' \<noteq> ''false'');
          port = env_int env ''P2P_PORT'' 26656;
          bootstrap = (let raw = env ''P2P_BOOTSTRAP'' in if raw \<noteq> [] then NormalizePeerAddrList raw else []);
          low0 = env_int env ''P2P_CONN_LOW'' 50;
          high0 = env_int env ''P2P_CONN_HIGH'' 200;
          low = (if low0 < 10 then 10 else low0);
          high = (if high0 \<le> low then i64 (low + 50) else high0)
      in \<lparr>pc_Enabled = enabled, pc_ListenPort = port, pc_PrivateKeyHex = env ''P2P_PRIVATE_KEY'',
          pc_Bootstrap = bootstrap, pc_NodeID = nodeID, pc_ConnLow = low, pc_ConnHigh = high,
          pc_AnnounceAddr = normalizeAnnounce (TrimSpace (env ''P2P_ANNOUNCE_ADDR''))\<rparr>)"

section \<open>What every environment gives\<close>

lemma i64_pos_seconds:
  assumes "0 < n" "n \<le> 9223372036"
  shows "i64 (n * 10 ^ 9) = n * 10 ^ 9"
  using assms by (intro i64_id) (simp add: in_i64_def)

text \<open>
  The bounds of a configuration: whatever the environment holds, the epoch length and the
  shutdown time are positive, the block interval is positive as long as it is below 292 years, the
  lower connection bound is at least ten, and the upper one is above it unless the lower one is
  within 50 of the largest integer.
\<close>

theorem config_bounds:
  shows "0 < ac_EpochSeconds (Load env)"
    and "0 < ac_ShutdownTimeout (Load env)"
    and "fst (ParseInt10 (getEnv env ''BLOCK_INTERVAL_SEC'' ''120'')) \<le> 9223372036 \<Longrightarrow> 10 ^ 9 \<le> ac_BlockInterval (Load env)"
    and "10 \<le> pc_ConnLow (LoadConfigFromEnv env nid)"
    and "pc_ConnLow (LoadConfigFromEnv env nid) < 2 ^ 63 - 50
      \<Longrightarrow> pc_ConnLow (LoadConfigFromEnv env nid) < pc_ConnHigh (LoadConfigFromEnv env nid)"
proof -
  show "0 < ac_EpochSeconds (Load env)" "0 < ac_ShutdownTimeout (Load env)" by (simp_all add: Load_def Let_def)
  show "10 ^ 9 \<le> ac_BlockInterval (Load env)"
    if "fst (ParseInt10 (getEnv env ''BLOCK_INTERVAL_SEC'' ''120'')) \<le> 9223372036"
    using that i64_pos_seconds [of "fst (ParseInt10 (getEnv env ''BLOCK_INTERVAL_SEC'' ''120''))"] i64_pos_seconds [of 120]
    by (simp add: Load_def Let_def)
  show "10 \<le> pc_ConnLow (LoadConfigFromEnv env nid)" by (simp add: LoadConfigFromEnv_def Let_def)
  let ?low = "if env_int env ''P2P_CONN_LOW'' 50 < 10 then 10 else env_int env ''P2P_CONN_LOW'' 50"
  have low: "pc_ConnLow (LoadConfigFromEnv env nid) = ?low" by (simp add: LoadConfigFromEnv_def Let_def)
  show "pc_ConnLow (LoadConfigFromEnv env nid) < pc_ConnHigh (LoadConfigFromEnv env nid)"
    if "pc_ConnLow (LoadConfigFromEnv env nid) < 2 ^ 63 - 50"
  proof -
    have "in_i64 (?low + 50)" using that unfolding low by (simp add: in_i64_def)
    from i64_id [OF this] show ?thesis by (simp add: LoadConfigFromEnv_def Let_def)
  qed
qed

text \<open>An environment that sets nothing gives the documented defaults; no secret protects the API.\<close>

lemma Load_default:
  "Load (\<lambda>_. []) =
    \<lparr>ac_HTTPAddr = '':8080'', ac_DataDir = ''./data'', ac_NodeID = ''validator-1'', ac_NodeName = ''east-validator'',
     ac_APISecret = [], ac_KeepRecentBlocks = 3000, ac_GenesisPath = ''./genesis.json'', ac_ShutdownTimeout = 10 * 10 ^ 9,
     ac_BlockInterval = 120 * 10 ^ 9, ac_AutoProduce = True, ac_EpochSeconds = 604800\<rparr>"
proof -
  have "ParseInt10 ''3000'' = (3000, None)" "ParseInt10 ''120'' = (120, None)" "ParseInt10 ''604800'' = (604800, None)"
    by (simp_all add: ParseInt10_def ParseUint_def base_digit_def is_digit_def less_eq_char_def)
  with i64_pos_seconds [of 120] show ?thesis by (simp add: Load_def Let_def getEnv_def)
qed

end
