(* ===== verification/Discovery.thy ===== *)
theory Discovery
  imports Wire
begin

text \<open>
  Package \<^verbatim>\<open>internal/p2p\<close>, file \<^verbatim>\<open>discovery.go\<close>: which peers a node has met. The DHT, the multicast service and the
  dialling of peers belong to libp2p: the peers they turn up, whether each dial succeeds and the time at which
  a peer is remembered come with the calls. Advertising on the DHT keeps no state.
\<close>

record AddrInfo =
  ai_ID :: string
  ai_Addrs :: "string list"

record discoveryService =
  ds_host :: string
  ds_knownPeers :: "(string \<times> int) list"
  ds_bootstrapN :: int

definition DiscoveryNamespace :: string where "DiscoveryNamespace = ''eastchain-validators-v1''"
definition mdnsServiceTag :: string where "mdnsServiceTag = ''eastchain._udp''"

definition remember :: "string \<Rightarrow> int \<Rightarrow> discoveryService \<Rightarrow> discoveryService" where
  "remember pid now ds = ds\<lparr>ds_knownPeers := kv_set pid now (ds_knownPeers ds)\<rparr>"

definition KnownPeerCount :: "discoveryService \<Rightarrow> int" where
  "KnownPeerCount ds = int (length (ds_knownPeers ds))"

text \<open>Each peer comes with the outcome of its dial and the time after it.\<close>

fun dial_bootstrap :: "(AddrInfo \<times> bool \<times> int) list \<Rightarrow> discoveryService \<Rightarrow> discoveryService" where
  "dial_bootstrap [] ds = ds"
| "dial_bootstrap ((info, ok, now) # is) ds =
     (if ai_ID info = ds_host ds then dial_bootstrap is ds
      else if \<not> ok then dial_bootstrap is ds
      else dial_bootstrap is (remember (ai_ID info) now ds))"

text \<open>Errors of the DHT's own bootstrap and of the multicast service are only logged.\<close>

definition startDiscovery :: "unit res \<Rightarrow> string \<Rightarrow> (AddrInfo \<times> bool \<times> int) list \<Rightarrow> discoveryService res" where
  "startDiscovery dht host infos =
     (case dht of
        Inl e \<Rightarrow> Inl (Errorf ''kad-dht'')
      | Inr _ \<Rightarrow> Inr (dial_bootstrap infos
                   \<lparr>ds_host = host, ds_knownPeers = [], ds_bootstrapN = int (length infos)\<rparr>))"

definition HandlePeerFound :: "AddrInfo \<Rightarrow> bool \<Rightarrow> int \<Rightarrow> discoveryService \<Rightarrow> discoveryService" where
  "HandlePeerFound pi ok now ds =
     (if ai_ID pi = ds_host ds then ds
      else if \<not> ok then ds
      else remember (ai_ID pi) now ds)"

text \<open>A peer the DHT found: whether it is connected already, whether the dial succeeds, and the time.\<close>

fun found_peers :: "(AddrInfo \<times> bool \<times> bool \<times> int) list \<Rightarrow> discoveryService \<Rightarrow> discoveryService" where
  "found_peers [] ds = ds"
| "found_peers ((pi, connected, ok, now) # ps) ds =
     (if ai_ID pi = ds_host ds \<or> ai_Addrs pi = [] then found_peers ps ds
      else if connected then found_peers ps (remember (ai_ID pi) now ds)
      else if \<not> ok then found_peers ps ds
      else found_peers ps (remember (ai_ID pi) now ds))"

definition intervals :: "int list" where
  "intervals = [10 * 10 ^ 9, 30 * 10 ^ 9, 2 * 60 * 10 ^ 9]"

text \<open>
  The loop until the context is done: for each round the answer of \<^verbatim>\<open>FindPeers\<close>, where \<open>None\<close> is an error. The result
  holds the waits in nanoseconds; an index outside the table is a panic, \<open>None\<close>.
\<close>

fun findPeersLoop :: "nat \<Rightarrow> (AddrInfo \<times> bool \<times> bool \<times> int) list option list \<Rightarrow> discoveryService
    \<Rightarrow> (int list \<times> discoveryService) option" where
  "findPeersLoop idx [] ds = Some ([], ds)"
| "findPeersLoop idx (r # rs) ds =
     (if idx \<ge> length intervals then None
      else
        let idx' = (if idx < length intervals - 1 then idx + 1 else idx)
        in case findPeersLoop idx' rs (case r of None \<Rightarrow> ds | Some ps \<Rightarrow> found_peers ps ds) of
             None \<Rightarrow> None
           | Some (ws, ds') \<Rightarrow> Some (intervals ! idx # ws, ds'))"

section \<open>The peers a node knows\<close>

text \<open>The peers that answered: connected by a dial or found connected, and not the node itself.\<close>

definition met_dials :: "string \<Rightarrow> (AddrInfo \<times> bool \<times> int) list \<Rightarrow> string set" where
  "met_dials me is = {ai_ID i | i t. (i, True, t) \<in> set is} - {me}"

definition met_found :: "string \<Rightarrow> (AddrInfo \<times> bool \<times> bool \<times> int) list \<Rightarrow> string set" where
  "met_found me ps = {ai_ID p | p c ok t. (p, c, ok, t) \<in> set ps \<and> (c \<or> ok) \<and> ai_Addrs p \<noteq> []} - {me}"

lemma met_simps [simp]:
  "met_dials me [] = {}" "met_found me [] = {}"
  "met_dials me ((i, ok, t) # is) = (if ok \<and> ai_ID i \<noteq> me then {ai_ID i} else {}) \<union> met_dials me is"
  "met_found me ((p, c, b, t) # ps) = (if (c \<or> b) \<and> ai_Addrs p \<noteq> [] \<and> ai_ID p \<noteq> me then {ai_ID p} else {}) \<union> met_found me ps"
  by (auto simp: met_dials_def met_found_def)

definition known :: "discoveryService \<Rightarrow> string set" where
  "known ds = fst ` set (ds_knownPeers ds)"

definition disc_ok :: "discoveryService \<Rightarrow> bool" where
  "disc_ok ds \<longleftrightarrow> kv_sorted (ds_knownPeers ds) \<and> ds_host ds \<notin> known ds"

lemma remember_simps [simp]:
  "ds_host (remember i t ds) = ds_host ds" "known (remember i t ds) = insert i (known ds)"
  "disc_ok ds \<Longrightarrow> i \<noteq> ds_host ds \<Longrightarrow> disc_ok (remember i t ds)"
  by (auto simp: remember_def known_def disc_ok_def fst_set_kv_set)

lemma dial_bootstrap_known:
  "disc_ok ds \<Longrightarrow> disc_ok (dial_bootstrap is ds) \<and> ds_host (dial_bootstrap is ds) = ds_host ds
     \<and> known (dial_bootstrap is ds) = known ds \<union> met_dials (ds_host ds) is"
  by (induction "is" ds rule: dial_bootstrap.induct) auto

lemma found_peers_known:
  "disc_ok ds \<Longrightarrow> disc_ok (found_peers ps ds) \<and> ds_host (found_peers ps ds) = ds_host ds
     \<and> known (found_peers ps ds) = known ds \<union> met_found (ds_host ds) ps"
  by (induction ps ds rule: found_peers.induct) auto

lemma HandlePeerFound_known:
  "disc_ok ds \<Longrightarrow> disc_ok (HandlePeerFound p b t ds) \<and> ds_host (HandlePeerFound p b t ds) = ds_host ds
     \<and> known (HandlePeerFound p b t ds) = known ds \<union> met_dials (ds_host ds) [(p, b, t)]"
  by (auto simp: HandlePeerFound_def)

lemma KnownPeerCount_card: "disc_ok ds \<Longrightarrow> KnownPeerCount ds = int (card (known ds))"
  unfolding KnownPeerCount_def known_def disc_ok_def
  by (metis distinct_card kv_sorted_distinct length_map set_map)

lemma startDiscovery_known:
  assumes "startDiscovery (Inr ()) me infos = Inr ds"
  shows "disc_ok ds \<and> ds_host ds = me \<and> known ds = met_dials me infos"
proof -
  let ?d = "\<lparr>ds_host = me, ds_knownPeers = [], ds_bootstrapN = int (length infos)\<rparr>"
  have "disc_ok ?d" "known ?d = {}" by (simp_all add: disc_ok_def known_def)
  with dial_bootstrap_known [of ?d infos] assms show ?thesis by (simp add: startDiscovery_def)
qed

text \<open>The answers of all rounds of the loop.\<close>

definition met_rounds :: "string \<Rightarrow> (AddrInfo \<times> bool \<times> bool \<times> int) list option list \<Rightarrow> string set" where
  "met_rounds me rs = (\<Union>r \<in> set rs. case r of None \<Rightarrow> {} | Some ps \<Rightarrow> met_found me ps)"

text \<open>The waits before the searches, when the first one reads entry \<open>i\<close> of the table.\<close>

definition waits :: "nat \<Rightarrow> nat \<Rightarrow> int list" where
  "waits i n = map (\<lambda>k. intervals ! min (i + k) 2) [0..<n]"

lemma waits_Suc: "i < 3 \<Longrightarrow> waits i (Suc n) = intervals ! i # waits (if i < 2 then i + 1 else i) n"
  by (auto simp: waits_def min_def map_upt_Suc simp del: upt_Suc intro!: arg_cong [where f = "(!) intervals"])

lemma loop_result:
  "disc_ok ds \<Longrightarrow> i < 3 \<Longrightarrow> \<exists>ds'. findPeersLoop i rs ds = Some (waits i (length rs), ds')
     \<and> disc_ok ds' \<and> ds_host ds' = ds_host ds \<and> known ds' = known ds \<union> met_rounds (ds_host ds) rs"
proof (induction rs arbitrary: i ds)
  case (Cons r rs)
  let ?ds = "case r of None \<Rightarrow> ds | Some ps \<Rightarrow> found_peers ps ds" and ?i = "if i < 2 then i + 1 else i"
  have ds: "disc_ok ?ds" "ds_host ?ds = ds_host ds" "known ?ds \<union> met_rounds (ds_host ds) rs = known ds \<union> met_rounds (ds_host ds) (r # rs)"
    using found_peers_known [OF Cons.prems(1)] Cons.prems(1) by (auto simp: met_rounds_def split: option.splits)
  have "length intervals = 3" by (simp add: intervals_def)
  moreover have "?i < 3" using Cons.prems(2) by simp
  moreover from Cons.IH [OF ds(1) this] ds obtain ds' where
    "findPeersLoop ?i rs ?ds = Some (waits ?i (length rs), ds')" "disc_ok ds'" "ds_host ds' = ds_host ds"
    "known ds' = known ds \<union> met_rounds (ds_host ds) (r # rs)" by auto
  ultimately show ?case using Cons.prems(2) waits_Suc [OF Cons.prems(2), of "length rs"] by simp
qed (simp add: met_rounds_def waits_def)

text \<open>
  A node that starts with its bootstrap list, hears from its local network and then searches the DHT knows exactly
  the peers that answered it, never itself, and counts each once; it waits ten seconds before the
  first search, thirty before the second, two minutes before every later one, and never reads past the table of waits.
\<close>

theorem discovery_peers:
  assumes start: "startDiscovery (Inr ()) me infos = Inr ds"
  shows "\<exists>ds'. findPeersLoop 0 rounds (fold (\<lambda>(p, ok, t). HandlePeerFound p ok t) lan ds)
      = Some (waits 0 (length rounds), ds')
    \<and> known ds' = met_dials me infos \<union> met_dials me lan \<union> met_rounds me rounds \<and> me \<notin> known ds'
    \<and> KnownPeerCount ds' = int (card (known ds'))"
proof -
  have lan: "disc_ok (fold (\<lambda>(p, ok, t). HandlePeerFound p ok t) lan d)
      \<and> ds_host (fold (\<lambda>(p, ok, t). HandlePeerFound p ok t) lan d) = ds_host d
      \<and> known (fold (\<lambda>(p, ok, t). HandlePeerFound p ok t) lan d) = known d \<union> met_dials (ds_host d) lan" if "disc_ok d" for d
    using that
  proof (induction lan arbitrary: d)
    case (Cons e lan)
    obtain p b t where e: "e = (p, b, t)" by (cases e)
    from Cons.IH [of "HandlePeerFound p b t d"] HandlePeerFound_known [OF Cons.prems, of p b t] show ?case by (auto simp: e)
  qed simp
  from startDiscovery_known [OF start] lan [of ds] loop_result [of "fold (\<lambda>(p, ok, t). HandlePeerFound p ok t) lan ds" 0 rounds]
  obtain ds' where "findPeersLoop 0 rounds (fold (\<lambda>(p, ok, t). HandlePeerFound p ok t) lan ds)
      = Some (waits 0 (length rounds), ds')"
    "disc_ok ds'" "ds_host ds' = me" "known ds' = met_dials me infos \<union> met_dials me lan \<union> met_rounds me rounds" by auto
  then show ?thesis using KnownPeerCount_card by (auto simp: disc_ok_def)
qed

end
