(* ===== verification/NodeStart.thy ===== *)
theory NodeStart
  imports ConfigLoad Discovery Scoring Hashing
begin

text \<open>
  Package \<^verbatim>\<open>internal/p2p\<close>, file \<^verbatim>\<open>node.go\<close>: how a peer-to-peer node is started and closed. What libp2p offers is the
  record \<open>Libp2p\<close>: each constructor answers or fails, and a host is known by its peer id. \<open>Live\<close> says which of
  the resources a start opens are still open: the context, the host and the discovery service.
\<close>

record Libp2p =
  lp_UnmarshalPrivateKey :: "string \<Rightarrow> string option"
  lp_GenerateKey :: "string res"
  lp_NewMultiaddr :: "string \<Rightarrow> unit res"
  lp_NewConnManager :: "int \<Rightarrow> int \<Rightarrow> unit res"
  lp_NewHost :: "string \<Rightarrow> string \<Rightarrow> string option \<Rightarrow> string res"
  lp_NewGossipSub :: "unit res"
  lp_Join :: "string \<Rightarrow> unit res"
  lp_AddrInfo :: "string \<Rightarrow> AddrInfo res"
  lp_Dht :: "unit res"
  lp_Dial :: "nat \<Rightarrow> AddrInfo \<Rightarrow> bool \<times> int"
  lp_Subscribe :: "string \<Rightarrow> unit res"

record Live =
  lv_ctx :: bool
  lv_host :: bool
  lv_disc :: bool

record P2PNode =
  pn_node :: Node
  pn_cfg :: P2PConfig
  pn_disc :: "discoveryService option"
  pn_scorer :: "PeerScorer option"

definition TopicBlocks :: string where "TopicBlocks = ''eastchain/blocks/1.0.0''"
definition TopicHeartbeats :: string where "TopicHeartbeats = ''eastchain/heartbeats/1.0.0''"
definition TopicConsensus :: string where "TopicConsensus = ''eastchain/consensus/1.0.0''"

definition loadOrGenerateKey :: "Libp2p \<Rightarrow> string \<Rightarrow> string res" where
  "loadOrGenerateKey L hexKey =
     (case (if hexKey = [] then None
            else case DecodeString (TrimPrefix hexKey ''0x'') of
              Inl _ \<Rightarrow> None
            | Inr b \<Rightarrow> if b = [] then None else lp_UnmarshalPrivateKey L b) of
        Some pk \<Rightarrow> Inr pk
      | None \<Rightarrow> lp_GenerateKey L)"

definition addrStrings :: "string list \<Rightarrow> string \<Rightarrow> string list" where
  "addrStrings addrs pid = map (\<lambda>a. a @ ''/p2p/'' @ pid) addrs"

text \<open>The connection limits as the node keeps them.\<close>

definition conn_limits :: "P2PConfig \<Rightarrow> P2PConfig" where
  "conn_limits cfg =
     (let c1 = (if pc_ConnLow cfg \<le> 0 then cfg\<lparr>pc_ConnLow := 50\<rparr> else cfg)
      in if pc_ConnHigh c1 \<le> pc_ConnLow c1 then c1\<lparr>pc_ConnHigh := i64 (pc_ConnLow c1 + 50)\<rparr> else c1)"

text \<open>Bootstrap entries that are no multiaddress, or name no peer, are skipped.\<close>

fun boot_infos :: "Libp2p \<Rightarrow> string list \<Rightarrow> AddrInfo list" where
  "boot_infos L [] = []"
| "boot_infos L (raw0 # rest) =
     (let raw = (case NormalizePeerAddr raw0 of Inr norm \<Rightarrow> norm | Inl _ \<Rightarrow> raw0)
      in case lp_NewMultiaddr L raw of
           Inl _ \<Rightarrow> boot_infos L rest
         | Inr _ \<Rightarrow> (case lp_AddrInfo L raw of
                      Inl _ \<Rightarrow> boot_infos L rest
                    | Inr info \<Rightarrow> info # boot_infos L rest))"

definition Close_node :: "P2PNode \<Rightarrow> Live \<Rightarrow> Live" where
  "Close_node n lv =
     (let l1 = (if pn_disc n \<noteq> None then lv\<lparr>lv_disc := False\<rparr> else lv);
          l2 = l1\<lparr>lv_ctx := False\<rparr>
      in if nd_host (pn_node n) \<noteq> None then l2\<lparr>lv_host := False\<rparr> else l2)"

fun join_topics :: "Libp2p \<Rightarrow> string list \<Rightarrow> unit res" where
  "join_topics L [] = Inr ()"
| "join_topics L (t # ts) = (case lp_Join L t of Inl e \<Rightarrow> Inl e | Inr _ \<Rightarrow> join_topics L ts)"

fun subscribe_topics :: "Libp2p \<Rightarrow> string list \<Rightarrow> unit res" where
  "subscribe_topics L [] = Inr ()"
| "subscribe_topics L (t # ts) = (case lp_Subscribe L t of Inl e \<Rightarrow> Inl e | Inr _ \<Rightarrow> subscribe_topics L ts)"

definition all_topics :: "string list" where
  "all_topics = [TopicBlocks, TopicHeartbeats, TopicConsensus]"

text \<open>From the host on: topics, bootstrap list, discovery, subscriptions. A failing discovery is only logged.\<close>

definition start_on_host :: "Libp2p \<Rightarrow> P2PConfig \<Rightarrow> string \<Rightarrow> P2PNode res \<times> Live" where
  "start_on_host L cfg pid =
     (case (case lp_NewGossipSub L of Inl e \<Rightarrow> Inl (Errorf ''gossipsub'') | Inr _ \<Rightarrow> join_topics L all_topics) of
        Inl e \<Rightarrow> (Inl e, \<lparr>lv_ctx = False, lv_host = False, lv_disc = False\<rparr>)
      | Inr _ \<Rightarrow>
          let infos = boot_infos L (pc_Bootstrap cfg);
              disc = (case startDiscovery (lp_Dht L) pid (map2 (\<lambda>i info. (info, lp_Dial L i info)) [0..<length infos] infos) of
                        Inl _ \<Rightarrow> None | Inr ds \<Rightarrow> Some ds);
              n = \<lparr>pn_node = \<lparr>nd_Enabled = pc_Enabled cfg, nd_host = Some pid, nd_peerCount = 0, nd_blocks = [], nd_hb = [], nd_cons = []\<rparr>,
                    pn_cfg = cfg, pn_disc = disc, pn_scorer = Some NewPeerScorer\<rparr>;
              live = \<lparr>lv_ctx = True, lv_host = True, lv_disc = (disc \<noteq> None)\<rparr>
          in case subscribe_topics L all_topics of
               Inl e \<Rightarrow> (Inl e, Close_node n live)
             | Inr _ \<Rightarrow> (Inr n, live))"

definition New_node :: "Libp2p \<Rightarrow> P2PConfig \<Rightarrow> P2PNode res \<times> Live" where
  "New_node L cfg0 =
     (let none = \<lparr>lv_ctx = False, lv_host = False, lv_disc = False\<rparr> in
      if \<not> pc_Enabled cfg0 then
        (Inr \<lparr>pn_node = \<lparr>nd_Enabled = False, nd_host = None, nd_peerCount = 0, nd_blocks = [], nd_hb = [], nd_cons = []\<rparr>,
              pn_cfg = cfg0, pn_disc = None, pn_scorer = None\<rparr>, none)
      else case loadOrGenerateKey L (pc_PrivateKeyHex cfg0) of
        Inl e \<Rightarrow> (Inl (Errorf ''p2p key''), none)
      | Inr priv \<Rightarrow>
          let listen = ''/ip4/0.0.0.0/tcp/'' @ show_int (pc_ListenPort cfg0)
          in case lp_NewMultiaddr L listen of
               Inl e \<Rightarrow> (Inl e, none)
             | Inr _ \<Rightarrow>
                 let cfg = conn_limits cfg0
                 in case lp_NewConnManager L (pc_ConnLow cfg) (pc_ConnHigh cfg) of
                      Inl e \<Rightarrow> (Inl (Errorf ''connmgr''), none)
                    | Inr _ \<Rightarrow>
                        (case (if pc_AnnounceAddr cfg = [] then Inr ()
                               else case lp_NewMultiaddr L (pc_AnnounceAddr cfg) of
                                 Inl e \<Rightarrow> Inl (Errorf ''invalid P2P_ANNOUNCE_ADDR'') | Inr u \<Rightarrow> Inr u) of
                           Inl e \<Rightarrow> (Inl e, none)
                         | Inr _ \<Rightarrow>
                             (case lp_NewHost L priv listen (if pc_AnnounceAddr cfg = [] then None else Some (pc_AnnounceAddr cfg)) of
                                Inl e \<Rightarrow> (Inl (Errorf ''libp2p host''), none)
                              | Inr pid \<Rightarrow> start_on_host L cfg pid)))"

section \<open>What a start leaves open\<close>

lemma start_on_host_live:
  "start_on_host L cfg pid = (r, lv) \<Longrightarrow>
     (case r of
        Inl _ \<Rightarrow> lv = \<lparr>lv_ctx = False, lv_host = False, lv_disc = False\<rparr>
      | Inr n \<Rightarrow> lv = \<lparr>lv_ctx = True, lv_host = True, lv_disc = (pn_disc n \<noteq> None)\<rparr> \<and> nd_host (pn_node n) = Some pid
          \<and> pn_cfg n = cfg \<and> nd_Enabled (pn_node n) = pc_Enabled cfg \<and> pn_scorer n = Some NewPeerScorer
          \<and> (\<forall>ds. pn_disc n = Some ds \<longrightarrow> disc_ok ds \<and> ds_host ds = pid))"
proof -
  have "disc_ok ds \<and> ds_host ds = pid" if "startDiscovery d pid infos = Inr ds" for d infos ds
    using startDiscovery_known [of pid infos ds] that by (cases d) (auto simp: startDiscovery_def)
  then show "start_on_host L cfg pid = (r, lv) \<Longrightarrow> ?thesis"
    by (auto simp: start_on_host_def Let_def Close_node_def split: sum.splits)
qed

text \<open>
  A start that fails leaves nothing open, whichever step fails. A start that succeeds leaves open what the node
  needs, with no peer counted, the limits of the connection manager in order, and closing the node
  closes all of it.
\<close>

theorem start_releases:
  assumes run: "New_node L cfg = (r, lv)"
  shows "(\<forall>e. r = Inl e \<longrightarrow> \<not> lv_ctx lv \<and> \<not> lv_host lv \<and> \<not> lv_disc lv)
    \<and> (\<forall>n. r = Inr n \<longrightarrow>
         (lv_ctx lv \<longleftrightarrow> pc_Enabled cfg) \<and> (lv_host lv \<longleftrightarrow> pc_Enabled cfg) \<and> (lv_disc lv \<longleftrightarrow> pn_disc n \<noteq> None)
       \<and> Enabled (pn_node n) = pc_Enabled cfg \<and> nd_peerCount (pn_node n) = 0
       \<and> (pc_Enabled cfg \<and> pc_ConnLow cfg < 2 ^ 63 - 50 \<longrightarrow> 0 < pc_ConnLow (pn_cfg n) \<and> pc_ConnLow (pn_cfg n) < pc_ConnHigh (pn_cfg n))
       \<and> (let lv' = Close_node n lv in \<not> lv_ctx lv' \<and> \<not> lv_host lv' \<and> \<not> lv_disc lv'))"
proof (cases "pc_Enabled cfg")
  case False
  with run show ?thesis by (auto simp: New_node_def Let_def Enabled_def Close_node_def)
next
  case True
  have lim: "pc_Enabled (conn_limits cfg)" "pc_ConnLow cfg < 2 ^ 63 - 50 \<Longrightarrow>
      0 < pc_ConnLow (conn_limits cfg) \<and> pc_ConnLow (conn_limits cfg) < pc_ConnHigh (conn_limits cfg)"
    using True by (auto simp: conn_limits_def Let_def i64_def)
  have "(\<exists>e. r = Inl e) \<and> lv = \<lparr>lv_ctx = False, lv_host = False, lv_disc = False\<rparr> \<or> (\<exists>pid. start_on_host L (conn_limits cfg) pid = (r, lv))"
    using run True by (auto simp: New_node_def Let_def split: sum.splits if_splits)
  then show ?thesis
  proof
    assume "\<exists>pid. start_on_host L (conn_limits cfg) pid = (r, lv)"
    then obtain pid where st: "start_on_host L (conn_limits cfg) pid = (r, lv)" ..
    have pc: "nd_peerCount (pn_node n) = 0" if "r = Inr n" for n
      using st that by (auto simp: start_on_host_def Let_def split: sum.splits)
    show ?thesis
      using start_on_host_live [OF st] lim True pc by (cases r) (auto simp: Enabled_def Close_node_def Let_def)
  qed auto
qed

text \<open>
  A configured key of 32 bytes, a raw seed, is not used: the log announces a stable key, but the node gets a new
  identity with every start.
\<close>

theorem raw_seed_is_ephemeral:
  "DecodeString (TrimPrefix k ''0x'') = Inr b \<Longrightarrow> length b = 32 \<Longrightarrow> lp_UnmarshalPrivateKey L b = None
    \<Longrightarrow> loadOrGenerateKey L k = lp_GenerateKey L"
  by (auto simp: loadOrGenerateKey_def)

text \<open>
  Without the DHT nobody dials the bootstrap list: the start succeeds with no discovery at all, whatever the list holds.
\<close>

theorem no_dht_no_bootstrap:
  "lp_Dht L = Inl e \<Longrightarrow> New_node L cfg = (Inr n, lv) \<Longrightarrow> pn_disc n = None"
  by (auto simp: New_node_def start_on_host_def startDiscovery_def Let_def split: sum.splits if_splits)

end
