(* ===== verification/Server.thy ===== *)
theory Server
  imports Middleware Uptime Backup Mempool Bft NodeStart
begin

text \<open>
  Package \<^verbatim>\<open>internal/api\<close>, files \<^verbatim>\<open>server.go\<close> and \<^verbatim>\<open>metrics.go\<close>: the state of the HTTP server and its handlers.
  The server holds pointers to the components it serves; its record holds their states. A handler
  takes the request and returns its outcome and the state after it. A panic of a handler is caught by
  \<^verbatim>\<open>net/http\<close>, which drops the connection (\<open>Panicked\<close>); a handler that never returns is \<open>Diverges\<close>.

  Outside the model are: the JSON text of requests and answers (decoders and the encoder are
  functions of the record \<open>Codec\<close>, which may be anything), the clock, the file system, the listening
  addresses and known peers of libp2p, the sizes reported by Badger and the Go runtime. A body longer than
  the limit of the guard is cut, which makes the decoder see an incomplete text.
\<close>

section \<open>Values of the answers\<close>

text \<open>
  A record stands for its JSON object; \<open>VRpcBlock\<close> is the object of a header with the two fields the
  RPC interface adds.
\<close>

datatype Answer =
    VNull | VBool bool | VInt int | VStr string | VArr "Answer list" | VObj "(string \<times> Answer) list"
  | VAccount Account | VHeader BlockHeader | VBucket Bucket | VTx Transaction | VStoredTx StoredTx
  | VProof MerkleProof | VHeartbeat HeartbeatRecord | VScore UptimeScore | VSnapshot BackupSnapshot
  | VJail JailRecord | VLeaderStats LeaderStats | VBftStats BFTStats
  | VRpcBlock BlockHeader string int
  | VScoring "(string \<rightharpoonup> int) \<times> (string \<rightharpoonup> int)"

record seedRequest =
  sd_Address :: string
  sd_Balance :: int
  sd_Staked :: int
  sd_PendingUnstake :: int
  sd_Mode :: string

record heartbeatRequest =
  hr_Address :: string
  hr_NodeID :: string
  hr_Tier :: string
  hr_UnixMs :: int
  hr_Signature :: string

record setValidatorsRequest =
  svr_Validators :: "string list"

record validatorRegisterRequest =
  vr_Address :: string
  vr_UnixMs :: int
  vr_Signature :: string

record rpcRequest =
  rr_JSONRPC :: string
  rr_ID :: Answer
  rr_Method :: string
  rr_Params :: string

text \<open>
  The JSON package: what decoding a text into each of the request types gives, and the text of a
  value. \<open>dc_anys\<close> prints the elements of a parameter list with \<^verbatim>\<open>fmt.Sprint\<close>. A failed decoding of an RPC
  request may have filled in some fields. \<open>dc_err\<close> is the text of an error.
\<close>

record Codec =
  dc_tx :: "string \<Rightarrow> Transaction res"
  dc_seed :: "string \<Rightarrow> seedRequest res"
  dc_hb :: "string \<Rightarrow> heartbeatRequest res"
  dc_register :: "string \<Rightarrow> validatorRegisterRequest res"
  dc_set :: "string \<Rightarrow> setValidatorsRequest res"
  dc_snap :: "string \<Rightarrow> BackupSnapshot res"
  dc_restore :: "string \<Rightarrow> (string \<times> bool) res"
  dc_unjail :: "string \<Rightarrow> string res"
  dc_rpc :: "string \<Rightarrow> rpcRequest \<times> unit res"
  dc_strings :: "string \<Rightarrow> string list res"
  dc_anys :: "string \<Rightarrow> string list res"
  dc_encode :: "Answer \<Rightarrow> string"
  dc_err :: "error \<Rightarrow> string"

text \<open>
  What the handlers take from outside: \<open>ax_nanos\<close>, \<open>ax_now\<close> and \<open>ax_later\<close> are successive readings of
  the clock (nanoseconds, milliseconds, milliseconds).
\<close>

record ApiEnv =
  ax_geth :: Geth
  ax_oracle :: string
  ax_codec :: Codec
  ax_nanos :: int
  ax_now :: int
  ax_later :: int
  ax_date :: string
  ax_seen :: "(string \<times> int) list \<Rightarrow> (string \<times> int) list"
  ax_io :: "error option"
  ax_io2 :: "error option"
  ax_backupPath :: string
  ax_file :: "string \<Rightarrow> BackupSnapshot res"
  ax_rnd :: "rat \<Rightarrow> rat"
  ax_f64 :: "uint64 \<Rightarrow> uint64"
  ax_listen :: "string list"
  ax_known :: int
  ax_dbSize :: "int \<times> int"
  ax_heap :: int
  ax_uptime :: string

section \<open>The server\<close>

record ServerState =
  sv_cfg :: AppConfig
  sv_store :: Store
  sv_bft :: "BFTEngine option"
  sv_p2p :: "Node option"
  sv_pcfg :: P2PConfig
  sv_scorer :: "PeerScorer option"
  sv_pool :: "Mempool option"
  sv_leader :: "LeaderSchedule option"

record ApiRequest =
  rq_req :: Request
  rq_Body :: string
  rq_Query :: "string \<Rightarrow> string"

datatype Outcome = Reply Response | Panicked | Diverges

type_synonym handler = "ApiEnv \<Rightarrow> (string \<Rightarrow> string) \<Rightarrow> ApiRequest \<Rightarrow> ServerState \<Rightarrow> Outcome \<times> ServerState"

definition body_text :: "ApiRequest \<Rightarrow> string" where
  "body_text r = (case req_limit (rq_req r) of None \<Rightarrow> rq_Body r | Some n \<Rightarrow> take (nat n) (rq_Body r))"

definition writeJSON :: "ApiEnv \<Rightarrow> int \<Rightarrow> Answer \<Rightarrow> Outcome" where
  "writeJSON X code v =
     Reply \<lparr>rsp_Status = code, rsp_Header = [(''Content-Type'', ''application/json'')],
            rsp_Body = dc_encode (ax_codec X) v @ [CHR 0x0A]\<rparr>"

definition fail :: "string \<Rightarrow> int \<Rightarrow> Outcome" where
  "fail msg code = Reply (http_Error msg code)"

definition fail_err :: "ApiEnv \<Rightarrow> error \<Rightarrow> int \<Rightarrow> Outcome" where
  "fail_err X e code = fail (dc_err (ax_codec X) e) code"

text \<open>With an empty secret every caller is let through.\<close>

definition auth :: "handler \<Rightarrow> handler" where
  "auth next X vars r sv =
     (if ac_APISecret (sv_cfg sv) = [] then next X vars r sv
      else if req_Header (rq_req r) ''X-API-Secret'' \<noteq> ac_APISecret (sv_cfg sv) then (fail ''unauthorized'' 401, sv)
      else next X vars r sv)"

definition SetBFT :: "BFTEngine option \<Rightarrow> ServerState \<Rightarrow> ServerState" where
  "SetBFT e sv = sv\<lparr>sv_bft := e\<rparr>"

text \<open>The height is read without looking at the error.\<close>

definition latest_or_zero :: "Store \<Rightarrow> uint64" where
  "latest_or_zero s = (case GetLatestHeight s of Inr h \<Rightarrow> h | Inl _ \<Rightarrow> 0)"

text \<open>The engine works on the store, roster, pool and node of the server.\<close>

definition engine_view :: "ServerState \<Rightarrow> BFTEngine \<Rightarrow> BFTEngine" where
  "engine_view sv e =
     e\<lparr>be_store := sv_store sv, be_leader := sv_leader sv, be_pool := sv_pool sv, be_p2p := sv_p2p sv\<rparr>"

section \<open>Status\<close>

definition Scorer :: "PeerScorer option \<Rightarrow> PeerScorer" where
  "Scorer s = (case s of None \<Rightarrow> NewPeerScorer | Some sc \<Rightarrow> sc)"

definition Node_Stats :: "ApiEnv \<Rightarrow> Node \<Rightarrow> ServerState \<Rightarrow> Answer \<times> ServerState" where
  "Node_Stats X n sv =
     (if \<not> Enabled n then (VObj [(''enabled'', VBool False)], sv)
      else
        let sc = Scorer (sv_scorer sv)
        in (VObj [(''enabled'', VBool True), (''peer_id'', VStr (PeerID n)), (''peers'', VInt (nd_peerCount n)),
                  (''known_peers'', VInt (ax_known X)), (''listen'', VArr (map VStr (ax_listen X))),
                  (''topics'', VArr [VStr TopicBlocks, VStr TopicHeartbeats, VStr TopicConsensus]),
                  (''bootstrap_n'', VInt (int (length (pc_Bootstrap (sv_pcfg sv))))),
                  (''discovery'', VStr DiscoveryNamespace), (''mdns_tag'', VStr mdnsServiceTag),
                  (''sync_protocol'', VStr ''/eastchain/blocksync/1.0.0''),
                  (''conn_low'', VInt (pc_ConnLow (sv_pcfg sv))), (''conn_high'', VInt (pc_ConnHigh (sv_pcfg sv))),
                  (''scoring'', VScoring (Snapshot_scorer sc (ax_nanos X)))],
            sv\<lparr>sv_scorer := Some sc\<rparr>))"

definition p2pStats :: "ApiEnv \<Rightarrow> ServerState \<Rightarrow> Answer \<times> ServerState" where
  "p2pStats X sv =
     (case sv_p2p sv of
        None \<Rightarrow> (VObj [(''enabled'', VBool False)], sv)
      | Some n \<Rightarrow> Node_Stats X n sv)"

definition pool_Stats :: "Mempool \<Rightarrow> (string \<times> Answer) list" where
  "pool_Stats m =
     [(''size'', VInt (int (length (mp_byHash m)))), (''max_txs'', VInt (cfg_MaxTxs (mp_cfg m))),
      (''seen'', VInt (int (length (mp_seen m)))), (''cache'', VInt (cfg_CacheSize (mp_cfg m)))]"

definition mempoolStats :: "ServerState \<Rightarrow> Answer" where
  "mempoolStats sv =
     (case sv_pool sv of
        None \<Rightarrow> VObj [(''enabled'', VBool False)]
      | Some m \<Rightarrow> VObj (pool_Stats m @ [(''enabled'', VBool True)]))"

text \<open>Listing the eligible validators drops expired jail records from the store.\<close>

definition leaderStats :: "ApiEnv \<Rightarrow> ServerState \<Rightarrow> Answer \<times> ServerState" where
  "leaderStats X sv =
     (case sv_leader sv of
        None \<Rightarrow> (VObj [(''enabled'', VBool False)], sv)
      | Some l \<Rightarrow>
          (case Stats l (sv_store sv) (ax_now X) (latest_or_zero (sv_store sv) + 1) of
             (st, s') \<Rightarrow> (VLeaderStats st, sv\<lparr>sv_store := s'\<rparr>)))"

text \<open>\<^verbatim>\<open>Seconds()\<close> goes through a float64, which is exact on an interval of whole seconds.\<close>

definition handleHealth :: handler where
  "handleHealth X vars r sv =
     (case CurrentEpochID (ax_now X) (ac_EpochSeconds (sv_cfg sv)) of
        None \<Rightarrow> (Panicked, sv)
      | Some epoch \<Rightarrow>
          (case p2pStats X sv of
             (p2p, sv1) \<Rightarrow>
               let pool = mempoolStats sv1 in
               (case leaderStats X sv1 of
                  (leader, sv2) \<Rightarrow>
                    (writeJSON X 200 (VObj
                       ([(''status'', VStr ''ok''), (''node_id'', VStr (ac_NodeID (sv_cfg sv))),
                         (''name'', VStr (ac_NodeName (sv_cfg sv))), (''role'', VStr ''sealer''),
                         (''chain_id'', VStr ''eastchain-1''), (''numeric_chain_id'', VInt (numericChainID (sv_store sv))),
                         (''auto_produce'', VBool (ac_AutoProduce (sv_cfg sv))),
                         (''block_interval_s'', VInt (go_div (ac_BlockInterval (sv_cfg sv)) (10 ^ 9))),
                         (''epoch_seconds'', VInt (ac_EpochSeconds (sv_cfg sv))), (''current_epoch'', VInt epoch),
                         (''p2p'', p2p), (''mempool'', pool), (''leader'', leader),
                         (''bft'', case sv_bft sv2 of
                                     Some e \<Rightarrow> VBftStats (engine_Stats (engine_view sv2 e))
                                   | None \<Rightarrow> VObj [(''enabled'', VBool False)])])), sv2))))"

definition handleBFTStatus :: handler where
  "handleBFTStatus X vars r sv =
     (case sv_bft sv of
        None \<Rightarrow> (writeJSON X 200 (VObj [(''enabled'', VBool False), (''mode'', VStr ''legacy_producer'')]), sv)
      | Some e \<Rightarrow> (writeJSON X 200 (VBftStats (engine_Stats (engine_view sv e))), sv))"

definition Store_Stats :: "ApiEnv \<Rightarrow> Store \<Rightarrow> Answer" where
  "Store_Stats X s =
     VObj [(''latest_height'', VInt (uint (latest_or_zero s))), (''chain_id'', VStr ''eastchain-1''),
           (''numeric_chain_id'', VInt (numericChainID s)), (''total_max_supply'', VInt (totalMaxSupply s)),
           (''min_validator_stake'', VInt (minValidatorStake s)), (''chain_signing_address'', VStr (chainSigningAddr s)),
           (''lsm_size'', VInt (fst (ax_dbSize X))), (''vlog_size'', VInt (snd (ax_dbSize X))),
           (''time'', VStr (ax_date X))]"

definition handleStats :: handler where
  "handleStats X vars r sv = (writeJSON X 200 (Store_Stats X (sv_store sv)), sv)"

text \<open>The lines of one gauge of the Prometheus text.\<close>

definition gauge :: "string \<Rightarrow> string \<Rightarrow> string \<Rightarrow> string" where
  "gauge name help sample =
     ''# HELP '' @ name @ '' '' @ help @ [CHR 0x0A] @ ''# TYPE '' @ name @ '' gauge'' @ [CHR 0x0A] @ sample @ [CHR 0x0A]"

text \<open>The names of the steps need no quoting.\<close>

definition handleMetrics :: handler where
  "handleMetrics X vars r sv =
     (let h = latest_or_zero (sv_store sv);
          peers = (case sv_p2p sv of None \<Rightarrow> 0 | Some n \<Rightarrow> nd_peerCount n);
          mpSize = (case sv_pool sv of None \<Rightarrow> 0 | Some m \<Rightarrow> int (length (mp_byHash m)));
          step = (case sv_bft sv of None \<Rightarrow> [] | Some e \<Rightarrow> bs_step (engine_Stats (engine_view sv e)));
          round' = (case sv_bft sv of None \<Rightarrow> 0 | Some e \<Rightarrow> bs_round (engine_Stats (engine_view sv e)))
      in (Reply \<lparr>rsp_Status = 200, rsp_Header = [(''Content-Type'', ''text/plain; version=0.0.4'')],
            rsp_Body =
              gauge ''east_block_height'' ''Latest sealed block height'' (''east_block_height '' @ show_u64 h)
            @ gauge ''east_peers'' ''Connected libp2p peers'' (''east_peers '' @ show_int peers)
            @ gauge ''east_mempool_size'' ''Mempool transaction count'' (''east_mempool_size '' @ show_int mpSize)
            @ gauge ''east_uptime_seconds'' ''Process uptime'' (''east_uptime_seconds '' @ ax_uptime X)
            @ gauge ''east_go_heap_bytes'' ''Heap alloc'' (''east_go_heap_bytes '' @ show_int (ax_heap X))
            @ gauge ''east_bft_round'' ''Current BFT round'' (''east_bft_round '' @ show_int round')
            @ gauge ''east_bft_step_info'' ''BFT step name (see logs/status)''
                (''east_bft_step_info{step='' @ [CHR 0x22] @ step @ [CHR 0x22] @ ''} 1'')\<rparr>, sv))"


section \<open>Reads\<close>

definition handleAccountProof :: handler where
  "handleAccountProof X vars r sv =
     (case ProveAccount (sv_store sv) (vars ''address'') of
        Inl e \<Rightarrow> (fail_err X e 500, sv)
      | Inr proof \<Rightarrow> (writeJSON X 200 (VProof proof), sv))"

definition handleGetAccount :: handler where
  "handleGetAccount X vars r sv =
     (case GetAccount (sv_store sv) (vars ''address'') of
        Inl e \<Rightarrow> (fail_err X e 500, sv)
      | Inr acc \<Rightarrow> (writeJSON X 200 (VAccount acc), sv))"

definition handleLatestBlock :: handler where
  "handleLatestBlock X vars r sv =
     (case GetLatestHeight (sv_store sv) of
        Inl _ \<Rightarrow> (writeJSON X 200 (VObj [(''height'', VInt 0)]), sv)
      | Inr height \<Rightarrow>
          if height = 0 then (writeJSON X 200 (VObj [(''height'', VInt 0)]), sv)
          else case GetBlock (sv_store sv) height of
            Inl e \<Rightarrow> (fail_err X e 404, sv)
          | Inr h \<Rightarrow> (writeJSON X 200 (VHeader h), sv))"

definition handleGetBlock :: handler where
  "handleGetBlock X vars r sv =
     (case parse_u64 (vars ''height'') 10 of
        Inl _ \<Rightarrow> (fail ''invalid height'' 400, sv)
      | Inr height \<Rightarrow>
          (case GetBlock (sv_store sv) height of
             Inl _ \<Rightarrow> (fail ''block not found'' 404, sv)
           | Inr h \<Rightarrow> (writeJSON X 200 (VHeader h), sv)))"

definition handleSupply :: handler where
  "handleSupply X vars r sv =
     (case ListBuckets (sv_store sv) of
        Inl e \<Rightarrow> (fail_err X e 500, sv)
      | Inr buckets \<Rightarrow>
          (writeJSON X 200 (VObj [(''total_max_supply'', VInt (totalMaxSupply (sv_store sv))),
                                  (''buckets'', VArr (map VBucket buckets))]), sv))"

definition handleBucket :: handler where
  "handleBucket X vars r sv =
     (case GetBucket (sv_store sv) (vars ''bucket'') of
        Inl _ \<Rightarrow> (fail ''bucket not found'' 404, sv)
      | Inr b \<Rightarrow> (writeJSON X 200 (VBucket b), sv))"

definition handleUptime :: handler where
  "handleUptime X vars r sv =
     (case GetUptimeScore (ax_rnd X) (sv_store sv) (vars ''address'') (ac_EpochSeconds (sv_cfg sv)) of
        Inl _ \<Rightarrow> (fail ''not found'' 404, sv)
      | Inr score \<Rightarrow> (writeJSON X 200 (VScore score), sv))"

text \<open>A number in the query that can be parsed replaces the default.\<close>

definition query_int :: "ApiRequest \<Rightarrow> string \<Rightarrow> int \<Rightarrow> (int \<Rightarrow> bool) \<Rightarrow> int" where
  "query_int r name dflt ok =
     (let q = rq_Query r name in
      if q \<noteq> [] then (case ParseInt10 q of (n, None) \<Rightarrow> if ok n then n else dflt | (_, Some _) \<Rightarrow> dflt) else dflt)"

definition handleEpochScores :: handler where
  "handleEpochScores X vars r sv =
     (case ParseInt10 (vars ''epoch'') of
        (_, Some _) \<Rightarrow> (fail ''invalid epoch'' 400, sv)
      | (epoch, None) \<Rightarrow>
          (case ListEpochScores (sv_store sv) epoch (query_int r ''limit'' 100 (\<lambda>_. True)) of
             Inl e \<Rightarrow> (fail_err X e 500, sv)
           | Inr rows \<Rightarrow>
               (writeJSON X 200 (VObj [(''epoch'', VInt epoch), (''count'', VInt (int (length rows))),
                                       (''nodes'', VArr (map VHeartbeat rows))]), sv)))"

definition handleMempoolStats :: handler where
  "handleMempoolStats X vars r sv = (writeJSON X 200 (mempoolStats sv), sv)"

definition handleMempoolTxs :: handler where
  "handleMempoolTxs X vars r sv =
     (case sv_pool sv of
        None \<Rightarrow> (writeJSON X 200 (VObj [(''txs'', VArr [])]), sv)
      | Some m \<Rightarrow>
          let txs = Peek m (query_int r ''limit'' 50 (\<lambda>n. n > 0))
          in (writeJSON X 200 (VObj [(''count'', VInt (int (length txs))), (''txs'', VArr (map VTx txs))]), sv))"

definition handleLeader :: handler where
  "handleLeader X vars r sv = (case leaderStats X sv of (st, sv') \<Rightarrow> (writeJSON X 200 st, sv'))"

definition handleGetValidators :: handler where
  "handleGetValidators X vars r sv =
     (case sv_leader sv of
        None \<Rightarrow> (writeJSON X 200 (VObj [(''validators'', VArr [])]), sv)
      | Some l \<Rightarrow> (writeJSON X 200 (VObj [(''validators'', VArr (map VStr (ls_validators l)))]), sv))"

definition handleListJailed :: handler where
  "handleListJailed X vars r sv =
     (case ListJailed (sv_store sv) (ax_now X) 200 of
        Inl e \<Rightarrow> (fail_err X e 500, sv)
      | Inr js \<Rightarrow> (writeJSON X 200 (VObj [(''jailed'', VArr (map VJail js))]), sv))"

section \<open>Writes\<close>

definition handleSubmitTx :: handler where
  "handleSubmitTx X vars r sv =
     (case dc_tx (ax_codec X) (body_text r) of
        Inl _ \<Rightarrow> (fail ''invalid json'' 400, sv)
      | Inr t0 \<Rightarrow>
          (case ValidateBasic (ax_geth X) (ax_oracle X) (ax_now X) t0 of
             (Inl e, _) \<Rightarrow> (fail_err X e 400, sv)
           | (Inr _, t) \<Rightarrow>
               (case sv_pool sv of
                  Some m \<Rightarrow>
                    (case Add (ax_geth X) (ax_oracle X) (ax_later X) (ax_seen X) (sv_store sv) m (Some t) of
                       ((_, Inl e), m') \<Rightarrow> (fail_err X e 400, sv\<lparr>sv_pool := Some m'\<rparr>)
                     | ((h, Inr _), m') \<Rightarrow>
                         (writeJSON X 200 (VObj [(''ok'', VBool True), (''txHash'', VStr h), (''type'', VStr (tx_Type t)),
                                                 (''status'', VStr ''queued'')]), sv\<lparr>sv_pool := Some m'\<rparr>))
                | None \<Rightarrow>
                    (case ApplyTx (sv_store sv) t of
                       (Inl e, s') \<Rightarrow> (fail_err X e 400, sv\<lparr>sv_store := s'\<rparr>)
                     | (Inr _, s') \<Rightarrow>
                         (writeJSON X 200 (VObj [(''ok'', VBool True), (''txHash'', VStr (Hash t)), (''type'', VStr (tx_Type t)),
                                                 (''status'', VStr ''applied'')]), sv\<lparr>sv_store := s'\<rparr>)))))"

definition handlePropose :: handler where
  "handlePropose X vars r sv = (fail ''consensus/propose is disabled'' 410, sv)"

definition handleSeed :: handler where
  "handleSeed X vars r sv =
     (case dc_seed (ax_codec X) (body_text r) of
        Inl _ \<Rightarrow> (fail ''invalid json'' 400, sv)
      | Inr req \<Rightarrow>
          if sd_Address req = [] then (fail ''address required'' 400, sv)
          else
            let mode0 = TrimSpace (sd_Mode req);
                mode = (if mode0 = [] then ''overwrite'' else mode0)
            in case SeedAccount (sv_store sv) (sd_Address req) (sd_Balance req) (sd_Staked req) (sd_PendingUnstake req) mode of
                 (Inl e, s') \<Rightarrow> (fail_err X e 500, sv\<lparr>sv_store := s'\<rparr>)
               | (Inr _, s') \<Rightarrow>
                   (writeJSON X 200 (VObj [(''ok'', VBool True), (''address'', VStr (ToLower (sd_Address req))), (''mode'', VStr mode),
                      (''seeded'', VObj [(''balance'', VInt (sd_Balance req)), (''staked'', VInt (sd_Staked req)),
                                         (''pending_unstake'', VInt (sd_PendingUnstake req))])]), sv\<lparr>sv_store := s'\<rparr>))"

definition handlePrune :: handler where
  "handlePrune X vars r sv =
     (case PruneOldBlocks (sv_store sv) (ac_KeepRecentBlocks (sv_cfg sv)) of
        (Inl e, s') \<Rightarrow> (fail_err X e 500, sv\<lparr>sv_store := s'\<rparr>)
      | (Inr _, s') \<Rightarrow>
          (writeJSON X 200 (VObj [(''ok'', VBool True), (''keep'', VInt (ac_KeepRecentBlocks (sv_cfg sv)))]), sv\<lparr>sv_store := s'\<rparr>))"

text \<open>
  \<^verbatim>\<open>time.Since(time.UnixMilli(ms))\<close> saturates at the bounds of an \<^verbatim>\<open>int64\<close> number of nanoseconds.
\<close>

definition since_milli :: "int \<Rightarrow> int \<Rightarrow> int" where
  "since_milli nanos ms = max (- (2 ^ 63)) (min (2 ^ 63 - 1) (nanos - ms * 10 ^ 6))"

definition fiveMinutes :: int where
  "fiveMinutes = 5 * 60 * 10 ^ 9"

definition stale :: "int \<Rightarrow> int \<Rightarrow> bool" where
  "stale nanos ms \<longleftrightarrow> (let age = since_milli nanos ms in age < - fiveMinutes \<or> age > fiveMinutes)"

text \<open>The checks a signed request passes first, with the answer to the first one that fails.\<close>

definition signed_request :: "ApiEnv \<Rightarrow> string \<Rightarrow> string \<Rightarrow> int \<Rightarrow> string \<Rightarrow> Outcome option" where
  "signed_request X address sig ms msg =
     (if address = [] then Some (fail ''address required'' 400)
      else if sig = [] then Some (fail ''signature required'' 400)
      else if ms = 0 then Some (fail ''unix_ms required'' 400)
      else if stale (ax_nanos X) ms then Some (fail ''unix_ms outside 5-minute freshness window'' 400)
      else case VerifyEIP191 (ax_geth X) msg sig address of
             Inr True \<Rightarrow> None
           | _ \<Rightarrow> Some (fail ''invalid signature'' 401))"

definition tier_text :: "string \<Rightarrow> string" where
  "tier_text tier = (if tier = ''full'' then ''full'' else ''light'')"

definition handleHeartbeat :: handler where
  "handleHeartbeat X vars r sv =
     (case dc_hb (ax_codec X) (body_text r) of
        Inl _ \<Rightarrow> (fail ''invalid json'' 400, sv)
      | Inr req \<Rightarrow>
          (case signed_request X (hr_Address req) (hr_Signature req) (hr_UnixMs req)
                  (BuildHeartbeatMessage (hr_Address req) (hr_NodeID req) (hr_UnixMs req)) of
             Some out \<Rightarrow> (out, sv)
           | None \<Rightarrow>
               (case RecordHeartbeat (sv_store sv) (ax_now X) (hr_Address req) (hr_NodeID req) (tier_text (hr_Tier req))
                       (ac_EpochSeconds (sv_cfg sv)) of
                  None \<Rightarrow> (Panicked, sv)
                | Some (Inl e, s') \<Rightarrow> (fail_err X e 400, sv\<lparr>sv_store := s'\<rparr>)
                | Some (Inr rec, s') \<Rightarrow>
                    let p2p' = (case sv_p2p sv of
                                  None \<Rightarrow> None
                                | Some n \<Rightarrow>
                                    Some (PublishHeartbeat n (ax_later X)
                                      \<lparr>hm_Address = hr_Address req, hm_NodeID = hr_NodeID req, hm_Tier = tier_text (hr_Tier req),
                                       hm_Height = latest_or_zero s', hm_UnixMs = 0, hm_FromPeer = []\<rparr>))
                    in (writeJSON X 200 (VObj [(''ok'', VBool True), (''record'', VHeartbeat rec), (''epoch'', VInt (hb_EpochID rec))]),
                        sv\<lparr>sv_store := s', sv_p2p := p2p'\<rparr>))))"

definition handleRegisterValidator :: handler where
  "handleRegisterValidator X vars r sv =
     (case sv_leader sv of
        None \<Rightarrow> (fail ''leader schedule not enabled'' 503, sv)
      | Some l \<Rightarrow>
          (case dc_register (ax_codec X) (body_text r) of
             Inl _ \<Rightarrow> (fail ''invalid json'' 400, sv)
           | Inr req \<Rightarrow>
               (case signed_request X (vr_Address req) (vr_Signature req) (vr_UnixMs req)
                       (BuildValidatorRegisterMessage (vr_Address req) (vr_UnixMs req)) of
                  Some out \<Rightarrow> (out, sv)
                | None \<Rightarrow>
                    (case IsEligible l (sv_store sv) (vr_Address req) of
                       Inl e \<Rightarrow> (fail_err X e 500, sv)
                     | Inr eligible \<Rightarrow>
                         if \<not> eligible then (fail ''address does not meet minimum validator stake'' 403, sv)
                         else
                           let l' = AddValidator l (vr_Address req)
                           in case Stats l' (sv_store sv) (ax_now X) (latest_or_zero (sv_store sv) + 1) of
                                (st, s') \<Rightarrow>
                                  (writeJSON X 200 (VObj [(''ok'', VBool True), (''leader'', VLeaderStats st)]),
                                   sv\<lparr>sv_leader := Some l', sv_store := s'\<rparr>)))))"

definition handleSetValidators :: handler where
  "handleSetValidators X vars r sv =
     (case sv_leader sv of
        None \<Rightarrow> (fail ''leader schedule not enabled'' 503, sv)
      | Some l \<Rightarrow>
          (case dc_set (ax_codec X) (body_text r) of
             Inl _ \<Rightarrow> (fail ''invalid json'' 400, sv)
           | Inr req \<Rightarrow>
               (case SetValidators l (sv_store sv) (ax_now X) (svr_Validators req) of
                  (l', s1) \<Rightarrow>
                    (case Stats l' s1 (ax_later X) (latest_or_zero s1 + 1) of
                       (st, s2) \<Rightarrow>
                         (writeJSON X 200 (VObj [(''ok'', VBool True), (''leader'', VLeaderStats st)]),
                          sv\<lparr>sv_leader := Some l', sv_store := s2\<rparr>)))))"

definition handleGetSnapshot :: handler where
  "handleGetSnapshot X vars r sv =
     (case ExportSnapshot (ax_io X) (ax_io2 X) (ax_date X) (ax_now X) (sv_store sv)
             (query_int r ''max_blocks'' 2000 (\<lambda>n. n > 0)) of
        None \<Rightarrow> (Diverges, sv)
      | Some (Inl e) \<Rightarrow> (fail_err X e 500, sv)
      | Some (Inr snap) \<Rightarrow> (writeJSON X 200 (VSnapshot snap), sv))"

definition handlePostSnapshot :: handler where
  "handlePostSnapshot X vars r sv =
     (case dc_snap (ax_codec X) (body_text r) of
        Inl _ \<Rightarrow> (fail ''invalid snapshot json'' 400, sv)
      | Inr snap \<Rightarrow>
          let force = (rq_Query r ''force'' = ''true'' \<or> rq_Query r ''force'' = ''1'')
          in case ImportFullSnapshot (ax_now X) (sv_store sv) (Some snap) force of
               (Inl e, s') \<Rightarrow> (fail_err X e 400, sv\<lparr>sv_store := s'\<rparr>)
             | (Inr (acc, blocks), s') \<Rightarrow>
                 (writeJSON X 200 (VObj [(''ok'', VBool True), (''accounts_applied'', VInt acc), (''blocks_applied'', VInt blocks),
                                         (''tip'', VInt (uint (bs_LatestHeight snap)))]), sv\<lparr>sv_store := s'\<rparr>))"

definition handleBackup :: handler where
  "handleBackup X vars r sv =
     (case ExportBackup (ax_io X) (ax_date X) (ax_now X) (sv_store sv) 500 of
        None \<Rightarrow> (Diverges, sv)
      | Some (Inl e) \<Rightarrow> (fail_err X e 500, sv)
      | Some (Inr _) \<Rightarrow> (writeJSON X 200 (VObj [(''ok'', VBool True), (''path'', VStr (ax_backupPath X))]), sv))"

definition handleRestoreAccounts :: handler where
  "handleRestoreAccounts X vars r sv =
     (case dc_restore (ax_codec X) (body_text r) of
        Inl _ \<Rightarrow> (fail ''path required'' 400, sv)
      | Inr (path, force) \<Rightarrow>
          if path = [] then (fail ''path required'' 400, sv)
          else case RestoreAccountsFromSnapshot (ax_now X) (sv_store sv) (ax_file X path) force of
            ((_, Inl e), s') \<Rightarrow> (fail_err X e 500, sv\<lparr>sv_store := s'\<rparr>)
          | ((n, Inr _), s') \<Rightarrow>
              (writeJSON X 200 (VObj [(''ok'', VBool True), (''accounts_applied'', VInt n)]), sv\<lparr>sv_store := s'\<rparr>))"

definition handleUnjail :: handler where
  "handleUnjail X vars r sv =
     (case dc_unjail (ax_codec X) (body_text r) of
        Inl _ \<Rightarrow> (fail ''address required'' 400, sv)
      | Inr addr \<Rightarrow>
          if addr = [] then (fail ''address required'' 400, sv)
          else case UnjailValidator (sv_store sv) addr of
            (Inl e, s') \<Rightarrow> (fail_err X e 500, sv\<lparr>sv_store := s'\<rparr>)
          | (Inr _, s') \<Rightarrow> (writeJSON X 200 (VObj [(''ok'', VBool True), (''address'', VStr addr)]), sv\<lparr>sv_store := s'\<rparr>))"

end
