(* ===== verification/JsonRpc.thy ===== *)
theory JsonRpc
  imports Server
begin

text \<open>
  Package \<^verbatim>\<open>internal/api\<close>, file \<^verbatim>\<open>jsonrpc.go\<close>: the Ethereum-style read interface. The parameters of a call
  are a JSON text that the codec decodes. \<open>ax_f64\<close> is what becomes of a \<^verbatim>\<open>uint64\<close> that goes through a JSON
  number read into a \<^verbatim>\<open>float64\<close>.
\<close>

section \<open>Calls\<close>

definition parseBlockTag :: "Store \<Rightarrow> string \<Rightarrow> uint64 res" where
  "parseBlockTag s tag0 =
     (let tag1 = TrimSpace (ToLower tag0) in
      if tag1 = ''latest'' \<or> tag1 = [] then GetLatestHeight s
      else
        let tag = TrimPrefix tag1 ''0x''
        in case parse_u64 tag 16 of Inl _ \<Rightarrow> parse_u64 tag 10 | Inr v \<Rightarrow> Inr v)"

definition blockToRPC :: "ApiEnv \<Rightarrow> BlockHeader \<Rightarrow> Answer" where
  "blockToRPC X h = VRpcBlock h (''0x'' @ show_hex (unat (ax_f64 X (hdr_Height h)))) SubunitsPerEAST"

text \<open>The first parameter of a call, where at least one is required.\<close>

definition first_param :: "string list res \<Rightarrow> string res" where
  "first_param p = (case p of Inr (x # _) \<Rightarrow> Inr x | _ \<Rightarrow> Inl (Errorf ''invalid params''))"

definition rpc_account :: "ApiEnv \<Rightarrow> Store \<Rightarrow> string \<Rightarrow> (Account \<Rightarrow> Answer) \<Rightarrow> Answer res" where
  "rpc_account X s params f =
     (case first_param (dc_strings (ax_codec X) params) of
        Inl e \<Rightarrow> Inl e
      | Inr addr \<Rightarrow> (case GetAccount s addr of Inl e \<Rightarrow> Inl e | Inr acc \<Rightarrow> Inr (f acc)))"

definition dispatchRPC :: "ApiEnv \<Rightarrow> Store \<Rightarrow> string \<Rightarrow> string \<Rightarrow> Answer res" where
  "dispatchRPC X s method params =
     (if method = ''eth_chainId'' then Inr (VStr (''0x'' @ show_hex_int (numericChainID s)))
      else if method = ''net_version'' then Inr (VStr (show_int (numericChainID s)))
      else if method = ''eth_gasPrice'' then Inr (VStr ''0x0'')
      else if method = ''eth_blockNumber'' then
        (case GetLatestHeight s of Inl e \<Rightarrow> Inl e | Inr h \<Rightarrow> Inr (VStr (''0x'' @ show_hex (unat h))))
      else if method = ''eth_getBalance'' then
        rpc_account X s params (\<lambda>acc. VStr (''0x'' @ show_hex_int (acc_Balance acc)))
      else if method = ''eth_getBlockByNumber'' then
        (case first_param (dc_anys (ax_codec X) params) of
           Inl e \<Rightarrow> Inl e
         | Inr tag \<Rightarrow>
             (case parseBlockTag s tag of
                Inl e \<Rightarrow> Inl e
              | Inr height \<Rightarrow>
                  if height = 0 then Inr VNull
                  else case GetBlock s height of Inl _ \<Rightarrow> Inr VNull | Inr blk \<Rightarrow> Inr (blockToRPC X blk)))
      else if method = ''eth_getTransactionByHash'' then
        (case first_param (dc_strings (ax_codec X) params) of
           Inl e \<Rightarrow> Inl e
         | Inr h \<Rightarrow> (case GetTransaction s h of Inl _ \<Rightarrow> Inr VNull | Inr st \<Rightarrow> Inr (VStoredTx st)))
      else if method = ''eth_getTransactionCount'' then
        rpc_account X s params (\<lambda>acc. VStr (''0x'' @ show_hex (unat (acc_Nonce acc))))
      else if method = ''east_getAccount'' then rpc_account X s params VAccount
      else if method = ''east_getProof'' then
        (case first_param (dc_strings (ax_codec X) params) of
           Inl e \<Rightarrow> Inl e
         | Inr addr \<Rightarrow> (case ProveAccount s addr of Inl e \<Rightarrow> Inl e | Inr p \<Rightarrow> Inr (VProof p)))
      else Inl (Errorf ''method not found''))"

text \<open>Both result and error are left out of the answer when they are nil.\<close>

record rpcErr =
  re_Code :: int
  re_Message :: string

definition writeRPC :: "ApiEnv \<Rightarrow> Answer \<Rightarrow> Answer \<Rightarrow> rpcErr option \<Rightarrow> Outcome" where
  "writeRPC X id' result e =
     Reply \<lparr>rsp_Status = 200, rsp_Header = [(''Content-Type'', ''application/json'')],
            rsp_Body = dc_encode (ax_codec X) (VObj
              ([(''jsonrpc'', VStr ''2.0''), (''id'', id')]
               @ (if result = VNull then [] else [(''result'', result)])
               @ (case e of None \<Rightarrow> [] | Some x \<Rightarrow> [(''error'', VObj [(''code'', VInt (re_Code x)), (''message'', VStr (re_Message x))])])))
              @ [CHR 0x0A]\<rparr>"

definition handleJSONRPC :: handler where
  "handleJSONRPC X vars r sv =
     (if req_Method (rq_req r) \<noteq> ''POST'' then (fail ''POST only'' 405, sv)
      else case dc_rpc (ax_codec X) (body_text r) of
        (req, Inl _) \<Rightarrow> (writeRPC X (rr_ID req) VNull (Some \<lparr>re_Code = -32700, re_Message = ''parse error''\<rparr>), sv)
      | (req, Inr _) \<Rightarrow>
          (case dispatchRPC X (sv_store sv) (rr_Method req) (rr_Params req) of
             Inl e \<Rightarrow> (writeRPC X (rr_ID req) VNull (Some \<lparr>re_Code = -32000, re_Message = dc_err (ax_codec X) e\<rparr>), sv)
           | Inr result \<Rightarrow> (writeRPC X (rr_ID req) result None, sv)))"

section \<open>Block tags\<close>

text \<open>A tag in hexadecimal names its height.\<close>

lemma parseBlockTag_hex: "parseBlockTag s (''0x'' @ show_hex (unat h)) = Inr h"
proof -
  let ?t = "''0x'' @ show_hex (unat h)"
  have "ToLower ''0x'' = ''0x''" by (simp add: ToLower_def lower_char_def less_eq_char_def)
  then have low: "ToLower ?t = ?t" by (simp only: ToLower_append show_hex_lower)
  have "\<not> is_space c" if "c \<in> set ?t" for c
  proof (cases "c \<in> set (show_hex (unat h))")
    case True
    then show ?thesis using show_hex_digits space_hex_digit by metis
  next
    case False
    with that show ?thesis by (auto simp: is_space_def)
  qed
  then have trim: "TrimSpace ?t = ?t" by (rule trim_no_space)
  have "TrimPrefix ?t ''0x'' = show_hex (unat h)" by (simp add: TrimPrefix_def)
  with low trim show ?thesis unfolding parseBlockTag_def Let_def by (simp add: parse_show_hex)
qed

lemma parseBlockTag_latest: "parseBlockTag s ''latest'' = GetLatestHeight s"
proof -
  have "TrimSpace (ToLower ''latest'') = ''latest''"
    by (subst trim_no_space) (auto simp: ToLower_def lower_char_def less_eq_char_def is_space_def)
  then show ?thesis by (simp add: parseBlockTag_def)
qed

text \<open>
  The height a client reads with \<^verbatim>\<open>eth_blockNumber\<close> names the tip when it is passed back: whatever the
  state of the chain, \<^verbatim>\<open>eth_getBlockByNumber\<close> with that text, or with \<^verbatim>\<open>latest\<close>, returns the header stored at
  the latest height, whose number is printed as the same text as long as a float64 holds the height.
\<close>

theorem rpc_tip_roundtrip:
  assumes h: "GetLatestHeight s = Inr h" "h \<noteq> 0" and b: "GetBlock s h = Inr b" "hdr_Height b = h"
    and f: "ax_f64 X h = h"
    and num: "dispatchRPC X s ''eth_blockNumber'' p0 = Inr (VStr tag)"
    and dec: "dc_anys (ax_codec X) p = Inr (tag # rest)" "dc_anys (ax_codec X) q = Inr (''latest'' # rest)"
  shows "dispatchRPC X s ''eth_getBlockByNumber'' p = Inr (VRpcBlock b tag SubunitsPerEAST)
    \<and> dispatchRPC X s ''eth_getBlockByNumber'' q = Inr (VRpcBlock b tag SubunitsPerEAST)"
proof -
  have tag: "tag = ''0x'' @ show_hex (unat h)" using num h by (simp add: dispatchRPC_def)
  have "parseBlockTag s tag = Inr h" unfolding tag by (rule parseBlockTag_hex)
  with h b f dec show ?thesis
    by (simp add: dispatchRPC_def first_param_def parseBlockTag_latest blockToRPC_def) (simp add: tag)
qed

definition demo_codec :: Codec where
  "demo_codec =
     \<lparr>dc_tx = (\<lambda>_. Inl JsonErr), dc_seed = (\<lambda>_. Inl JsonErr), dc_hb = (\<lambda>_. Inl JsonErr), dc_register = (\<lambda>_. Inl JsonErr),
      dc_set = (\<lambda>_. Inl JsonErr), dc_snap = (\<lambda>_. Inl JsonErr), dc_restore = (\<lambda>_. Inl JsonErr), dc_unjail = (\<lambda>_. Inl JsonErr),
      dc_rpc = (\<lambda>_. (\<lparr>rr_JSONRPC = [], rr_ID = VNull, rr_Method = [], rr_Params = []\<rparr>, Inl JsonErr)),
      dc_strings = (\<lambda>p. Inr [p]), dc_anys = (\<lambda>p. Inr [p]), dc_encode = (\<lambda>_. []), dc_err = (\<lambda>_. [])\<rparr>"

definition demo_api :: ApiEnv where
  "demo_api =
     \<lparr>ax_geth = toy_geth, ax_oracle = [], ax_codec = demo_codec, ax_nanos = 10 ^ 12, ax_now = 10 ^ 6, ax_later = 10 ^ 6,
      ax_date = [], ax_seen = (\<lambda>x. x), ax_io = None, ax_io2 = None, ax_backupPath = [], ax_file = (\<lambda>_. Inl JsonErr),
      ax_rnd = (\<lambda>x. x), ax_f64 = (\<lambda>h. h), ax_listen = [], ax_known = 0, ax_dbSize = (0, 0), ax_heap = 0, ax_uptime = []\<rparr>"

definition tip_store :: Store where
  "tip_store = demo_store\<lparr>db := kv_set (metaKey ''latest_height'') (RawV (show_u64 1))
     (kv_set (blockKey 1) (BlockV (demo_header\<lparr>hdr_Height := 1\<rparr>)) (db demo_store))\<rparr>"

theorem rpc_tip_roundtrip_witness:
  "dispatchRPC demo_api tip_store ''eth_getBlockByNumber'' ''0x1'' = Inr (VRpcBlock (demo_header\<lparr>hdr_Height := 1\<rparr>) ''0x1'' SubunitsPerEAST)
    \<and> dispatchRPC demo_api tip_store ''eth_getBlockByNumber'' ''latest'' = Inr (VRpcBlock (demo_header\<lparr>hdr_Height := 1\<rparr>) ''0x1'' SubunitsPerEAST)"
proof -
  have s: "GetLatestHeight tip_store = Inr 1" "GetBlock tip_store 1 = Inr (demo_header\<lparr>hdr_Height := 1\<rparr>)"
    by (simp_all add: tip_store_def demo_store_def GetLatestHeight_def GetBlock_def txn_Get_def)
  have n: "dispatchRPC demo_api tip_store ''eth_blockNumber'' [] = Inr (VStr ''0x1'')"
    using s(1) by (simp add: dispatchRPC_def show_hex.simps hex_digit_def char_of_def bit_0)
  have d: "dc_anys (ax_codec demo_api) p = Inr [p]" "ax_f64 demo_api 1 = 1" for p
    by (simp_all add: demo_api_def demo_codec_def)
  from rpc_tip_roundtrip [OF s(1) _ s(2) _ d(2) n d(1) d(1)] show ?thesis by simp
qed

text \<open>
  A height in decimal digits is read as hexadecimal: the attempt at base 16 comes first and accepts
  every decimal text of up to sixteen digits.
\<close>

theorem decimal_tag_read_as_hex: "parseBlockTag s ''10'' = Inr 16"
proof -
  have "TrimSpace (ToLower ''10'') = ''10''"
    by (subst trim_no_space) (auto simp: ToLower_def lower_char_def less_eq_char_def is_space_def)
  then show ?thesis
    by (simp add: parseBlockTag_def TrimPrefix_def parse_u64_def ParseUint_def base_digit_def is_digit_def less_eq_char_def)
qed

text \<open>A block that is not found is answered without a result member, not with a null one.\<close>

theorem missing_block_no_result:
  assumes "dc_rpc (ax_codec X) (body_text r) = (req, Inr ())" "req_Method (rq_req r) = ''POST''"
    and "dispatchRPC X (sv_store sv) (rr_Method req) (rr_Params req) = Inr VNull"
  shows "handleJSONRPC X vars r sv = (Reply \<lparr>rsp_Status = 200, rsp_Header = [(''Content-Type'', ''application/json'')],
    rsp_Body = dc_encode (ax_codec X) (VObj [(''jsonrpc'', VStr ''2.0''), (''id'', rr_ID req)]) @ [CHR 0x0A]\<rparr>, sv)"
  using assms by (simp add: handleJSONRPC_def writeRPC_def)

end
