(* ===== verification/Router.thy ===== *)
theory Router
  imports JsonRpc
begin

text \<open>
  Package \<^verbatim>\<open>internal/api\<close>, function \<^verbatim>\<open>New\<close> of \<^verbatim>\<open>server.go\<close>: which handler serves which request, and the server
  as a whole behind its guard. The router is gorilla/mux: \<open>mux t p\<close> says whether the path \<open>p\<close> matches
  the template \<open>t\<close> and what its variables then are; routes are tried in the order of their registration,
  and a path that matches only under another method is answered with 405. Redirects of paths that
  are not clean are not modelled; they reach no handler.
\<close>

section \<open>The table of routes\<close>

definition routes :: "(string \<times> handler \<times> string) list" where
  "routes =
    [(''/health'', handleHealth, ''GET''),
     (''/metrics'', handleMetrics, ''GET''),
     (''/rpc'', handleJSONRPC, ''POST''),
     (''/'', handleJSONRPC, ''POST''),
     (''/stats'', handleStats, ''GET''),
     (''/account/{address}'', handleGetAccount, ''GET''),
     (''/account/{address}/proof'', handleAccountProof, ''GET''),
     (''/block/latest'', handleLatestBlock, ''GET''),
     (''/block/{height}'', handleGetBlock, ''GET''),
     (''/supply'', handleSupply, ''GET''),
     (''/supply/{bucket}'', handleBucket, ''GET''),
     (''/heartbeat'', handleHeartbeat, ''POST''),
     (''/uptime/{address}'', handleUptime, ''GET''),
     (''/uptime/epoch/{epoch}'', handleEpochScores, ''GET''),
     (''/tx'', auth handleSubmitTx, ''POST''),
     (''/mempool'', handleMempoolStats, ''GET''),
     (''/mempool/txs'', handleMempoolTxs, ''GET''),
     (''/consensus/propose'', auth handlePropose, ''POST''),
     (''/consensus/leader'', handleLeader, ''GET''),
     (''/consensus/status'', handleBFTStatus, ''GET''),
     (''/validator/register'', handleRegisterValidator, ''POST''),
     (''/admin/validators'', auth handleSetValidators, ''POST''),
     (''/admin/validators'', handleGetValidators, ''GET''),
     (''/admin/seed'', auth handleSeed, ''POST''),
     (''/admin/prune'', auth handlePrune, ''POST''),
     (''/admin/backup'', auth handleBackup, ''POST''),
     (''/admin/snapshot'', auth handleGetSnapshot, ''GET''),
     (''/admin/snapshot'', auth handlePostSnapshot, ''POST''),
     (''/admin/restore-accounts'', auth handleRestoreAccounts, ''POST''),
     (''/admin/jail'', handleListJailed, ''GET''),
     (''/admin/unjail'', auth handleUnjail, ''POST'')]"

type_synonym mux = "string \<Rightarrow> string \<Rightarrow> (string \<Rightarrow> string) option"

fun mux_Match :: "mux \<Rightarrow> (string \<times> handler \<times> string) list \<Rightarrow> string \<Rightarrow> string \<Rightarrow> bool
    \<Rightarrow> bool + (handler \<times> (string \<Rightarrow> string))" where
  "mux_Match mux [] path meth wrong = Inl wrong"
| "mux_Match mux ((t, h, m) # rs) path meth wrong =
     (case mux t path of
        None \<Rightarrow> mux_Match mux rs path meth wrong
      | Some vars \<Rightarrow> if meth = m then Inr (h, vars) else mux_Match mux rs path meth True)"

definition route :: "mux \<Rightarrow> ApiEnv \<Rightarrow> ApiRequest \<Rightarrow> ServerState \<Rightarrow> Outcome \<times> ServerState" where
  "route mux X r sv =
     (case mux_Match mux routes (req_Path (rq_req r)) (req_Method (rq_req r)) False of
        Inr (h, vars) \<Rightarrow> h X vars r sv
      | Inl True \<Rightarrow> (Reply \<lparr>rsp_Status = 405, rsp_Header = [], rsp_Body = []\<rparr>, sv)
      | Inl False \<Rightarrow> (fail ''404 page not found'' 404, sv))"

text \<open>A header field a handler sets replaces the one the guard has set.\<close>

definition add_headers :: "(string \<times> string) list \<Rightarrow> Outcome \<Rightarrow> Outcome" where
  "add_headers hs out =
     (case out of
        Reply rsp \<Rightarrow> Reply (rsp\<lparr>rsp_Header := filter (\<lambda>e. fst e \<notin> fst ` set (rsp_Header rsp)) hs @ rsp_Header rsp\<rparr>)
      | _ \<Rightarrow> out)"

definition ServeHTTP ::
  "mux \<Rightarrow> ApiEnv \<Rightarrow> ipRateLimiter \<Rightarrow> ApiRequest \<Rightarrow> ServerState \<Rightarrow> (Outcome \<times> ServerState) \<times> ipRateLimiter" where
  "ServeHTTP mux X rl r sv =
     withPublicGuards
       (\<lambda>q hs. case route mux X (r\<lparr>rq_req := q\<rparr>) sv of (out, sv') \<Rightarrow> (add_headers hs out, sv'))
       (\<lambda>rsp. (Reply rsp, sv)) rl (ax_nanos X) (rq_req r)"

lemma mux_Match_table: "mux_Match mux rs path meth b = Inr (h, vars) \<Longrightarrow> \<exists>t m. (t, h, m) \<in> set rs"
  by (induction mux rs path meth b rule: mux_Match.induct) (auto split: option.splits if_splits)

text \<open>The request a handler sees.\<close>

definition guarded :: "ApiRequest \<Rightarrow> ApiRequest" where
  "guarded r = r\<lparr>rq_req := (if req_hasBody (rq_req r) then (rq_req r)\<lparr>req_limit := Some maxBodyBytes\<rparr> else rq_req r)\<rparr>"

lemma guarded_simps [simp]:
  "req_Header (rq_req (guarded r)) = req_Header (rq_req r)" "rq_Body (guarded r) = rq_Body r" "rq_Query (guarded r) = rq_Query r"
  by (simp_all add: guarded_def)

text \<open>
  What the server does to its state is what one of its handlers does, or nothing: a property of all
  handlers and of doing nothing holds of the server.
\<close>

lemma ServeHTTP_handler:
  assumes h: "\<And>t hd m vars. (t, hd, m) \<in> set routes \<Longrightarrow> P (snd (hd X vars (guarded r) sv))"
    and n: "P sv"
    and run: "ServeHTTP mux X rl r sv = ((out, sv'), rl')"
  shows "P sv'"
proof -
  have rt: "P (snd (route mux X (guarded r) sv))"
  proof (cases "mux_Match mux routes (req_Path (rq_req (guarded r))) (req_Method (rq_req (guarded r))) False")
    case (Inr a)
    obtain hd vars where a: "a = (hd, vars)" by (cases a)
    with mux_Match_table [OF Inr [unfolded a]] h show ?thesis using Inr by (auto simp: route_def)
  qed (auto simp: route_def n split: bool.split)
  have sv': "sv' = snd (fst (ServeHTTP mux X rl r sv))" by (simp add: run)
  obtain ok rl1 where a: "allow rl (ax_nanos X) (clientIP (rq_req r)) = (ok, rl1)" by fastforce
  show ?thesis
  proof (cases "ok \<and> req_Method (rq_req r) \<noteq> ''OPTIONS''")
    case True
    then have "sv' = snd (route mux X (guarded r) sv)"
      unfolding sv' ServeHTTP_def withPublicGuards_def a guarded_def by (simp add: case_prod_beta)
    with rt show ?thesis by simp
  next
    case False
    then have "sv' = sv" unfolding sv' ServeHTTP_def withPublicGuards_def a by (auto split: bool.split)
    with n show ?thesis by simp
  qed
qed

section \<open>What a caller without the secret can do\<close>

text \<open>The entries of the store that a public request may touch.\<close>

definition public_key :: "string \<Rightarrow> bool" where
  "public_key k \<longleftrightarrow> prefix ''jail:'' k \<or> prefix ''hb:'' k \<or> prefix ''epoch:'' k"

definition ledger_part :: "DB \<Rightarrow> DB" where
  "ledger_part d = filter (\<lambda>e. \<not> public_key (fst e)) d"

definition uptime_part :: "DB \<Rightarrow> DB" where
  "uptime_part d = filter (\<lambda>e. prefix ''hb:'' (fst e) \<or> prefix ''epoch:'' (fst e)) d"

text \<open>\<open>released now s s'\<close>: the stores differ only in jail records that were over at \<open>now\<close> and are gone.\<close>

definition released :: "int \<Rightarrow> Store \<Rightarrow> Store \<Rightarrow> bool" where
  "released now s s' \<longleftrightarrow>
     s' = s\<lparr>db := db s'\<rparr> \<and> ledger_part (db s') = ledger_part (db s) \<and> uptime_part (db s') = uptime_part (db s)
   \<and> (\<forall>k. prefix ''jail:'' k \<longrightarrow> map_of (db s') k = map_of (db s) k
        \<or> (map_of (db s') k = None \<and> (\<exists>r. map_of (db s) k = Some (JailV r) \<and> 0 < jail_Until r \<and> jail_Until r < now)))"

lemma released_refl [simp]: "released now s s"
  by (simp add: released_def)

lemma released_trans:
  assumes "released now s s'" "released now s' s''"
  shows "released now s s''"
proof -
  have "s'' = s\<lparr>db := db s''\<rparr>"
    using assms unfolding released_def by (metis Store.surjective Store.update_convs(1))
  moreover have "map_of (db s'') k = map_of (db s) k
      \<or> (map_of (db s'') k = None \<and> (\<exists>r. map_of (db s) k = Some (JailV r) \<and> 0 < jail_Until r \<and> jail_Until r < now))"
    if "prefix ''jail:'' k" for k
    using assms that unfolding released_def by (elim conjE allE [where x = k]) auto
  ultimately show ?thesis using assms unfolding released_def by auto
qed

lemma parts_del_jail [simp]:
  "ledger_part (kv_del (jailKey a) d) = ledger_part d" "uptime_part (kv_del (jailKey a) d) = uptime_part d"
  by (auto simp: ledger_part_def uptime_part_def kv_del_def public_key_def jailKey_def intro!: filter_cong)

lemma released_IsJailed: "released now s (snd (Validators.IsJailed s now a))"
proof -
  let ?k = "jailKey (ToLower (TrimSpace a))"
  have del: "released now s (snd (UnjailValidator s (ToLower (TrimSpace a))))"
    if "map_of (db s) ?k = Some (JailV r)" "0 < jail_Until r" "jail_Until r < now" for r
  proof (cases "setFault s (jailKey (ToLower (TrimSpace a))) \<or> commitFault s")
    case True
    then show ?thesis by (auto simp: UnjailValidator_def Let_def db_Update_def txn_Delete_def TrimSpace_ToLower)
  next
    case False
    with that show ?thesis
      by (auto simp: UnjailValidator_def Let_def db_Update_def txn_Delete_def TrimSpace_ToLower released_def map_of_kv_del)
  qed
  show ?thesis
  proof (cases "txn_Get s (db s) ?k")
    case (Inr v)
    then have "map_of (db s) ?k = Some v" by (simp add: txn_Get_Inr)
    with del Inr show ?thesis by (cases v) (auto simp: Validators.IsJailed_def)
  next
    case (Inl e)
    then show ?thesis by (cases e) (auto simp: Validators.IsJailed_def)
  qed
qed

lemma released_loop: "released now s (snd (eligible_loop s now m vs))"
proof (induction vs arbitrary: s)
  case (Cons a vs)
  show ?case
    unfolding eligible_loop_store by (rule released_trans [OF released_IsJailed Cons])
qed simp

lemma released_Stats: "released now s (snd (Stats l s now h))"
  by (simp add: Stats_def eligibleValidatorsLocked_def Let_def case_prod_beta released_loop)


text \<open>A heartbeat writes below its own two prefixes.\<close>

lemma filter_kv_set: "\<not> P k \<Longrightarrow> filter (\<lambda>e. P (fst e)) (kv_set k v d) = filter (\<lambda>e. P (fst e)) d"
  by (induction k v d rule: kv_set.induct) auto

lemma hb_keys [simp]:
  "public_key (hbKey a)" "public_key (epochScoreKey e a)" "\<not> prefix ''jail:'' (hbKey a)" "\<not> prefix ''jail:'' (epochScoreKey e a)"
  by (simp_all add: public_key_def hbKey_def epochScoreKey_def)

lemma ledger_part_hb [simp]:
  "ledger_part (kv_set (hbKey a) v d) = ledger_part d" "ledger_part (kv_set (epochScoreKey e a) v d) = ledger_part d"
  unfolding ledger_part_def by (rule filter_kv_set [where P = "\<lambda>k. \<not> public_key k"], simp)+

lemma heartbeat_frame:
  assumes "RecordHeartbeat s now a nid t secs = Some (r, s')"
  shows "s' = s\<lparr>db := db s'\<rparr>" "ledger_part (db s') = ledger_part (db s)"
    "prefix ''jail:'' k \<Longrightarrow> map_of (db s') k = map_of (db s) k"
proof -
  from heartbeat_writes [OF assms] obtain x e where
    s': "s' = s \<or> s' = s\<lparr>db := kv_set (epochScoreKey e a) (HeartbeatV x) (kv_set (hbKey a) (HeartbeatV x) (db s))\<rparr>" by blast
  show "s' = s\<lparr>db := db s'\<rparr>" "ledger_part (db s') = ledger_part (db s)" using s' by auto
  show "map_of (db s') k = map_of (db s) k" if "prefix ''jail:'' k"
    using s' that by (auto simp: map_of_kv_set)
qed


text \<open>A request signed by its sender at most five minutes ago, or dated at most five minutes ahead.\<close>

definition fresh_signature :: "ApiEnv \<Rightarrow> string \<Rightarrow> string \<Rightarrow> int \<Rightarrow> string \<Rightarrow> bool" where
  "fresh_signature X addr sig ms msg \<longleftrightarrow>
     VerifyEIP191 (ax_geth X) msg sig addr = Inr True \<and> \<bar>ax_nanos X - ms * 10 ^ 6\<bar> \<le> 5 * 60 * 10 ^ 9"

lemma signed_request_None:
  assumes "signed_request X addr sig ms msg = None"
  shows "fresh_signature X addr sig ms msg"
proof -
  have "\<not> stale (ax_nanos X) ms" "VerifyEIP191 (ax_geth X) msg sig addr = Inr True"
    using assms by (auto simp: signed_request_def split: if_splits sum.splits bool.splits)
  then show ?thesis
    by (auto simp: fresh_signature_def stale_def since_milli_def fiveMinutes_def Let_def min_def max_def abs_le_iff split: if_splits)
qed

lemma body_text_take: "\<exists>n. body_text r = take n (rq_Body r)"
  by (cases "req_limit (rq_req r)") (auto simp: body_text_def intro: exI [of _ "length (rq_Body r)"])

definition stranger_may :: "ApiEnv \<Rightarrow> ApiRequest \<Rightarrow> ServerState \<Rightarrow> ServerState \<Rightarrow> bool" where
  "stranger_may X r sv sv' \<longleftrightarrow>
     sv_cfg sv' = sv_cfg sv \<and> sv_pool sv' = sv_pool sv \<and> sv_bft sv' = sv_bft sv
   \<and> sv_store sv' = (sv_store sv)\<lparr>db := db (sv_store sv')\<rparr>
   \<and> ledger_part (db (sv_store sv')) = ledger_part (db (sv_store sv))
   \<and> (\<forall>k. prefix ''jail:'' k \<longrightarrow> map_of (db (sv_store sv')) k = map_of (db (sv_store sv)) k
        \<or> (map_of (db (sv_store sv')) k = None
            \<and> (\<exists>j. map_of (db (sv_store sv)) k = Some (JailV j) \<and> 0 < jail_Until j \<and> jail_Until j < ax_now X)))
   \<and> (uptime_part (db (sv_store sv')) = uptime_part (db (sv_store sv))
        \<or> (\<exists>n req. dc_hb (ax_codec X) (take n (rq_Body r)) = Inr req
             \<and> fresh_signature X (hr_Address req) (hr_Signature req) (hr_UnixMs req)
                 (BuildHeartbeatMessage (hr_Address req) (hr_NodeID req) (hr_UnixMs req))))
   \<and> (sv_leader sv' = sv_leader sv
        \<or> (\<exists>n req l. dc_register (ax_codec X) (take n (rq_Body r)) = Inr req \<and> sv_leader sv = Some l
             \<and> fresh_signature X (vr_Address req) (vr_Signature req) (vr_UnixMs req)
                 (BuildValidatorRegisterMessage (vr_Address req) (vr_UnixMs req))
             \<and> IsEligible l (sv_store sv) (vr_Address req) = Inr True
             \<and> sv_leader sv' = Some (AddValidator l (vr_Address req))))"

lemma stranger_same [simp]: "stranger_may X r sv sv"
  by (simp add: stranger_may_def)

lemma stranger_released:
  "released (ax_now X) (sv_store sv) s' \<Longrightarrow> stranger_may X r sv (sv\<lparr>sv_store := s'\<rparr>)"
  by (simp add: stranger_may_def released_def)

lemma stranger_scorer [simp]: "stranger_may X r sv (sv'\<lparr>sv_scorer := c\<rparr>) = stranger_may X r sv sv'"
  by (simp add: stranger_may_def)

lemma released_leaderStats:
  "\<exists>s'. released (ax_now X) (sv_store sv) s' \<and> snd (leaderStats X sv) = sv\<lparr>sv_store := s'\<rparr>"
  using released_Stats [of "ax_now X" "sv_store sv"]
  by (cases "sv_leader sv") (auto simp: leaderStats_def case_prod_beta intro: exI [of _ "sv_store sv"])

lemma p2pStats_scorer: "\<exists>c. snd (p2pStats X sv) = sv\<lparr>sv_scorer := c\<rparr>"
  by (cases "sv_p2p sv") (auto simp: p2pStats_def Node_Stats_def Let_def intro: exI [of _ "sv_scorer sv"])

text \<open>The handlers that only read.\<close>

lemma reads_same [simp]:
  "snd (handleMetrics X vars q sv) = sv" "snd (handleJSONRPC X vars q sv) = sv"
  "snd (handleStats X vars q sv) = sv" "snd (handleGetAccount X vars q sv) = sv"
  "snd (handleAccountProof X vars q sv) = sv" "snd (handleLatestBlock X vars q sv) = sv"
  "snd (handleGetBlock X vars q sv) = sv" "snd (handleSupply X vars q sv) = sv"
  "snd (handleBucket X vars q sv) = sv" "snd (handleUptime X vars q sv) = sv"
  "snd (handleEpochScores X vars q sv) = sv" "snd (handleMempoolStats X vars q sv) = sv"
  "snd (handleMempoolTxs X vars q sv) = sv" "snd (handleBFTStatus X vars q sv) = sv"
  "snd (handleGetValidators X vars q sv) = sv" "snd (handleListJailed X vars q sv) = sv"
  "snd (handleBackup X vars q sv) = sv" "snd (handleGetSnapshot X vars q sv) = sv"
  "snd (handlePropose X vars q sv) = sv"
  by (simp_all add: handleMetrics_def handleJSONRPC_def handleStats_def handleGetAccount_def handleAccountProof_def handleLatestBlock_def handleGetBlock_def
      handleSupply_def handleBucket_def handleUptime_def handleEpochScores_def handleMempoolStats_def handleMempoolTxs_def
      handleBFTStatus_def handleGetValidators_def handleListJailed_def handleBackup_def handleGetSnapshot_def handlePropose_def Let_def
      split: sum.split prod.split option.split)

lemma stranger_status:
  "stranger_may X r sv (snd (handleLeader X vars q sv))" "stranger_may X r sv (snd (handleHealth X vars q sv))"
proof -
  show "stranger_may X r sv (snd (handleLeader X vars q sv))"
    using released_leaderStats [of X sv] stranger_released by (auto simp: handleLeader_def case_prod_beta)
  obtain c where c: "snd (p2pStats X sv) = sv\<lparr>sv_scorer := c\<rparr>" using p2pStats_scorer by blast
  obtain s' where "released (ax_now X) (sv_store sv) s'" "snd (leaderStats X (sv\<lparr>sv_scorer := c\<rparr>)) = sv\<lparr>sv_scorer := c, sv_store := s'\<rparr>"
    using released_leaderStats [of X "sv\<lparr>sv_scorer := c\<rparr>"] by auto
  then show "stranger_may X r sv (snd (handleHealth X vars q sv))"
    using stranger_released [of X sv s' r] c by (auto simp: handleHealth_def case_prod_beta Let_def stranger_may_def split: option.split)
qed

lemma stranger_heartbeat: "stranger_may X r sv (snd (handleHeartbeat X vars (guarded r) sv))"
proof -
  obtain n where n: "body_text (guarded r) = take n (rq_Body r)" using body_text_take [of "guarded r"] by auto
  show ?thesis
  proof (cases "snd (handleHeartbeat X vars (guarded r) sv) = sv")
    case False
    then obtain req where req: "dc_hb (ax_codec X) (take n (rq_Body r)) = Inr req"
      and sig: "signed_request X (hr_Address req) (hr_Signature req) (hr_UnixMs req)
        (BuildHeartbeatMessage (hr_Address req) (hr_NodeID req) (hr_UnixMs req)) = None"
      by (auto simp: handleHeartbeat_def n split: sum.splits option.splits)
    with False obtain res s' where rec: "RecordHeartbeat (sv_store sv) (ax_now X) (hr_Address req) (hr_NodeID req)
        (tier_text (hr_Tier req)) (ac_EpochSeconds (sv_cfg sv)) = Some (res, s')"
      by (auto simp: handleHeartbeat_def n split: option.splits)
    then have "\<exists>p. snd (handleHeartbeat X vars (guarded r) sv) = sv\<lparr>sv_store := s', sv_p2p := p\<rparr>"
      using req sig by (auto simp: handleHeartbeat_def n Let_def intro: exI [of _ "sv_p2p sv"] split: sum.split)
    with heartbeat_frame [OF rec] signed_request_None [OF sig] req show ?thesis
      by (auto simp: stranger_may_def)
  qed simp
qed

lemma stranger_register: "stranger_may X r sv (snd (handleRegisterValidator X vars (guarded r) sv))"
proof -
  obtain n where n: "body_text (guarded r) = take n (rq_Body r)" using body_text_take [of "guarded r"] by auto
  show ?thesis
  proof (cases "snd (handleRegisterValidator X vars (guarded r) sv) = sv")
    case False
    then obtain l req where l: "sv_leader sv = Some l" and req: "dc_register (ax_codec X) (take n (rq_Body r)) = Inr req"
      and sig: "signed_request X (vr_Address req) (vr_Signature req) (vr_UnixMs req)
        (BuildValidatorRegisterMessage (vr_Address req) (vr_UnixMs req)) = None"
      and el: "IsEligible l (sv_store sv) (vr_Address req) = Inr True"
      by (auto simp: handleRegisterValidator_def n split: sum.splits option.splits if_splits)
    let ?l = "AddValidator l (vr_Address req)"
    obtain st s' where st: "Stats ?l (sv_store sv) (ax_now X) (latest_or_zero (sv_store sv) + 1) = (st, s')" by fastforce
    have "released (ax_now X) (sv_store sv) s'" using released_Stats [of "ax_now X" "sv_store sv" ?l] st by (metis snd_conv)
    moreover have "snd (handleRegisterValidator X vars (guarded r) sv) = sv\<lparr>sv_leader := Some ?l, sv_store := s'\<rparr>"
      using l req sig el st by (simp add: handleRegisterValidator_def n)
    ultimately show ?thesis
      using l req el signed_request_None [OF sig] unfolding stranger_may_def released_def by auto
  qed simp
qed

lemma stranger_auth:
  assumes "ac_APISecret (sv_cfg sv) \<noteq> []" "req_Header (rq_req r) ''X-API-Secret'' \<noteq> ac_APISecret (sv_cfg sv)"
  shows "stranger_may X r sv (snd (auth h X vars (guarded r) sv))"
  using assms by (simp add: auth_def)

text \<open>
  C16: with a secret configured, a request that does not carry it, whatever its method, path, headers and body,
  leaves the pool, the engine, the configuration and the ledger alone: accounts, buckets, blocks, transactions,
  the stored validator set and the chain parameters. It can at most release jail terms that are over,
  record a heartbeat that its address signed within five minutes, and enter into the roster an
  address that signed its registration within five minutes and holds the minimum stake.
\<close>

theorem stranger_confined:
  assumes "ac_APISecret (sv_cfg sv) \<noteq> []" "req_Header (rq_req r) ''X-API-Secret'' \<noteq> ac_APISecret (sv_cfg sv)"
    and run: "ServeHTTP mux X rl r sv = ((out, sv'), rl')"
  shows "stranger_may X r sv sv'"
proof (rule ServeHTTP_handler [where P = "stranger_may X r sv", OF _ _ run])
  fix t h m vars
  assume "(t, h, m) \<in> set routes"
  then show "stranger_may X r sv (snd (h X vars (guarded r) sv))"
    unfolding routes_def using stranger_auth [OF assms(1,2)]
    by (auto simp: stranger_status stranger_heartbeat stranger_register)
qed simp


definition exact_mux :: mux where
  "exact_mux t p = (if t = p then Some (\<lambda>_. []) else None)"

definition demo_request :: "string \<Rightarrow> string \<Rightarrow> ApiRequest" where
  "demo_request meth path =
     \<lparr>rq_req = \<lparr>req_Method = meth, req_Path = path, req_RemoteAddr = ''10.0.0.1:9'', req_Header = (\<lambda>_. []), req_hasBody = True, req_limit = None\<rparr>,
      rq_Body = ''{}'', rq_Query = (\<lambda>_. [])\<rparr>"

definition demo_server :: ServerState where
  "demo_server =
     \<lparr>sv_cfg = (Load (\<lambda>_. []))\<lparr>ac_APISecret := ''secret''\<rparr>, sv_store = demo_store, sv_bft = None, sv_p2p = None,
      sv_pcfg = LoadConfigFromEnv (\<lambda>_. []) ''n1'', sv_scorer = None, sv_pool = Some (New DefaultConfig), sv_leader = None\<rparr>"

theorem stranger_confined_witness:
  "ledger_part (db (sv_store (snd (fst (ServeHTTP exact_mux demo_api (newIPRateLimiter 120 60) (demo_request ''POST'' ''/admin/seed'') demo_server)))))
     = ledger_part (db demo_store)"
proof -
  let ?r = "demo_request ''POST'' ''/admin/seed''"
  obtain out sv' rl' where run: "ServeHTTP exact_mux demo_api (newIPRateLimiter 120 60) ?r demo_server = ((out, sv'), rl')"
    by (metis surj_pair)
  have "ac_APISecret (sv_cfg demo_server) \<noteq> []" "req_Header (rq_req ?r) ''X-API-Secret'' \<noteq> ac_APISecret (sv_cfg demo_server)"
    by (simp_all add: demo_server_def demo_request_def)
  from stranger_confined [OF this run] run show ?thesis by (simp add: stranger_may_def demo_server_def)
qed

section \<open>Submitting a transaction\<close>

text \<open>
  C20: when a transaction is submitted to a node with a pool and the answer is 200, then it has a valid
  signature and a known type, its hash is in the pool and is the one in the answer, nothing but the
  pool has changed, and the transaction can be applied to the current store.
\<close>

theorem submit_queued:
  assumes h: "healthy (sv_store sv)" and inv: "ledger_inv G (db (sv_store sv))"
    and pool: "sv_pool sv = Some m" "mp_wf m"
    and run: "handleSubmitTx X vars r sv = (Reply rsp, sv')" and ok: "rsp_Status rsp = 200"
  shows "\<exists>t m'. sv' = sv\<lparr>sv_pool := Some m'\<rparr> \<and> mp_wf m' \<and> Hash t \<in> set (mp_order m')
    \<and> known_type t \<and> VerifySignature (ax_geth X) t = Inr ()
    \<and> (\<exists>s'. ApplyTx (sv_store sv) t = (Inr (), s'))
    \<and> Reply rsp = writeJSON X 200 (VObj [(''ok'', VBool True), (''txHash'', VStr (Hash t)), (''type'', VStr (tx_Type t)), (''status'', VStr ''queued'')])"
proof -
  have "\<exists>t0 t h m'. ValidateBasic (ax_geth X) (ax_oracle X) (ax_now X) t0 = (Inr (), t)
      \<and> Add (ax_geth X) (ax_oracle X) (ax_later X) (ax_seen X) (sv_store sv) m (Some t) = ((h, Inr ()), m')
      \<and> sv' = sv\<lparr>sv_pool := Some m'\<rparr>
      \<and> Reply rsp = writeJSON X 200 (VObj [(''ok'', VBool True), (''txHash'', VStr h), (''type'', VStr (tx_Type t)), (''status'', VStr ''queued'')])"
    using run ok pool(1) unfolding handleSubmitTx_def fail_err_def fail_def http_Error_def
    by (fastforce split: sum.splits prod.splits)
  then obtain t0 t h m' where v0: "ValidateBasic (ax_geth X) (ax_oracle X) (ax_now X) t0 = (Inr (), t)"
    and add: "Add (ax_geth X) (ax_oracle X) (ax_later X) (ax_seen X) (sv_store sv) m (Some t) = ((h, Inr ()), m')"
    and sv': "sv' = sv\<lparr>sv_pool := Some m'\<rparr>"
    and rsp: "Reply rsp = writeJSON X 200 (VObj [(''ok'', VBool True), (''txHash'', VStr h), (''type'', VStr (tx_Type t)), (''status'', VStr ''queued'')])"
    by blast
  obtain t' where chk: "CheckTx (ax_geth X) (ax_oracle X) (ax_later X) (sv_store sv) m (Some t) = (Inr (), Some t')" and h: "h = Hash t'"
    using add by (auto simp: Add_def Let_def split: prod.splits sum.splits option.splits if_splits)
  have v: "ValidateBasic (ax_geth X) (ax_oracle X) (ax_later X) t = (Inr (), t')"
    using chk by (auto simp: CheckTx_def split: prod.splits sum.splits if_splits)
  note vb = ValidateBasic_ok [OF v]
  have ty: "tx_Type t' = tx_Type t" unfolding vb(1) by simp
  have wf: "mp_wf m'" using mp_wf_Add [OF pool(2)] add by (metis snd_conv)
  have "Hash t' \<in> set (mp_order m')"
    using add chk pool(2) by (auto simp: Add_def Let_def pruneSeenLocked_def mp_wf_def dest!: map_of_SomeD split: if_splits) force
  with wf vb(4,7) ty CheckTx_applies [OF assms(1,2) chk] rsp sv' h
  show ?thesis by (intro exI [of _ t'] exI [of _ m']) simp
qed

definition submit_api :: ApiEnv where
  "submit_api = demo_api\<lparr>ax_codec := demo_codec\<lparr>dc_tx := (\<lambda>_. Inr (demo_tx TxStake [] 10 4))\<rparr>, ax_now := 9, ax_later := 9\<rparr>"

theorem submit_queued_witness:
  "\<exists>rsp sv'. handleSubmitTx submit_api (\<lambda>_. []) (demo_request ''POST'' ''/tx'') demo_server = (Reply rsp, sv')
    \<and> rsp_Status rsp = 200 \<and> sv_store sv' = demo_store \<and> (\<exists>t m'. sv_pool sv' = Some m' \<and> Hash t \<in> set (mp_order m'))"
proof -
  let ?t = "demo_tx TxStake [] 10 4" and ?r = "demo_request ''POST'' ''/tx''"
  have v: "ValidateBasic toy_geth [] 9 ?t = (Inr (), ?t)"
    using demo_check by (auto simp: CheckTx_def split: prod.splits sum.splits if_splits)
  have pool: "sv_pool demo_server = Some (New DefaultConfig)" "mp_wf (New DefaultConfig)" "sv_store demo_server = demo_store"
    by (simp_all add: demo_server_def New_def DefaultConfig_def mp_wf_def)
  have add: "\<exists>m'. Add toy_geth [] 9 (\<lambda>x. x) demo_store (New DefaultConfig) (Some ?t) = ((Hash ?t, Inr ()), m')"
    unfolding Add_def demo_check by (simp add: Let_def) (simp add: New_def DefaultConfig_def)
  have "\<exists>rsp sv'. handleSubmitTx submit_api (\<lambda>_. []) ?r demo_server = (Reply rsp, sv') \<and> rsp_Status rsp = 200"
    using add v by (auto simp: handleSubmitTx_def submit_api_def demo_api_def demo_codec_def pool writeJSON_def)
  then obtain rsp sv' where run: "handleSubmitTx submit_api (\<lambda>_. []) ?r demo_server = (Reply rsp, sv')" "rsp_Status rsp = 200" by blast
  from submit_queued [OF _ _ pool(1,2) run, unfolded pool(3), OF demo_healthy demo_ledger_inv] run pool(3) show ?thesis by auto
qed

end
