(* ===== verification/Answers.thy ===== *)
theory Answers
  imports Router Typing
begin

text \<open>
  Which answers the server of \<^verbatim>\<open>internal/api\<close> gives: on a store whose accesses succeed and whose entries have the
  types of their keys, every read and write of a handler succeeds, so that every request gets an
  answer and none of them is an internal error.
\<close>

section \<open>Operations on a healthy, typed store\<close>

lemma ok_GetAccount:
  assumes "healthy s" "typed_db (db s)"
  obtains x where "GetAccount s a = Inr x"
  using assms typed_lookup [of "db s" "accountKey a"] that
  by (cases "map_of (db s) (accountKey a)") (auto simp: GetAccount_def txn_Get_def dest!: has_typeD)

lemma ok_getAccountTxn:
  assumes h: "healthy s" and t: "typed_db d"
  obtains x where "getAccountTxn s d a = Inr x"
proof -
  have look: "\<exists>x. v = AccountV x" if "map_of d k = Some v" "prefix ''acc:'' k" for k v
    using typed_entry_prefix [OF typed_lookup [OF t that(1)], of "''acc:''" TAccount] that(2) has_typeD(1)
    by (auto simp: key_types_def)
  have get: "txn_Get s d k = Inl KeyNotFound \<or> (\<exists>x. txn_Get s d k = Inr (AccountV x))" if "prefix ''acc:'' k" for k
    using h look that by (cases "map_of d k") (auto simp: txn_Get_def)
  have "\<exists>x. getAccountTxn s d a = Inr x"
    using get [of "accountKey (normalizeAddr a)"] get [of "''acc:'' @ a"]
    by (auto simp: getAccountTxn_def Let_def accountKey_def)
  then show thesis using that by blast
qed

lemma ok_iter:
  assumes "healthy s" "\<And>k v. (k, v) \<in> set es \<Longrightarrow> \<exists>x. dec v = Inr x"
  shows "\<exists>xs. iter_values s dec es = Inr xs"
  using assms(2)
proof (induction es)
  case (Cons e es)
  obtain k v where e: "e = (k, v)" by (cases e)
  obtain x where "dec v = Inr x" using Cons.prems e by auto
  moreover obtain xs where "iter_values s dec es = Inr xs" using Cons by auto
  ultimately show ?case using assms(1) by (simp add: e)
qed simp

text \<open>The entries below a prefix have its type.\<close>

lemma prefix_typed:
  assumes "typed_db d" "(q, t) \<in> set key_types" "prefix q p"
  shows "list_all (\<lambda>e. has_type (snd e) t) (iter_prefix p d)"
  using assms typed_entry_prefix [of _ _ q t] prefix_order.trans
  by (fastforce simp: list_all_iff iter_prefix_def typed_db_def)

lemma ok_ListBuckets:
  assumes "healthy s" "typed_db (db s)"
  shows "\<exists>bs. ListBuckets s = Inr bs"
proof -
  have "list_all (\<lambda>e. has_type (snd e) TBucket) (iter_prefix ''bucket:'' (db s))"
    by (rule prefix_typed [OF assms(2) _ prefix_order.refl]) (simp add: key_types_def)
  then show ?thesis
    unfolding ListBuckets_def by (intro ok_iter [OF assms(1)]) (fastforce simp: list_all_iff dest: has_typeD(2))
qed

lemma ok_ListEpochScores:
  assumes "healthy s" "typed_db (db s)"
  shows "\<exists>rs. ListEpochScores s e n = Inr rs"
proof -
  have "\<exists>rs. list_scores s m es out = Inr rs" if "list_all (\<lambda>e. has_type (snd e) THeartbeat) es" for m es out
    using that
  proof (induction es arbitrary: out)
    case (Cons e es)
    then obtain k x where e: "e = (k, HeartbeatV x)" using has_typeD(8) [of "snd e"] by (cases e) auto
    with Cons assms(1) show ?case by auto
  qed simp
  moreover have "list_all (\<lambda>e. has_type (snd e) THeartbeat) (iter_prefix (''epoch:'' @ show_int e @ '':'') (db s))"
    by (rule prefix_typed [OF assms(2), where q = "''epoch:''"]) (simp_all add: key_types_def)
  ultimately show ?thesis unfolding ListEpochScores_def Let_def by blast
qed

lemma ok_ListJailed:
  assumes "healthy s" "typed_db (db s)"
  shows "\<exists>rs. ListJailed s now n = Inr rs"
proof -
  have "\<exists>rs. list_jailed s now m es out = Inr rs" if "list_all (\<lambda>e. has_type (snd e) TJail) es" for m es out
    using that
  proof (induction es arbitrary: out)
    case (Cons e es)
    then obtain k x where e: "e = (k, JailV x)" using has_typeD(7) [of "snd e"] by (cases e) auto
    with Cons assms(1) show ?case by auto
  qed simp
  moreover have "list_all (\<lambda>e. has_type (snd e) TJail) (iter_prefix ''jail:'' (db s))"
    by (rule prefix_typed [OF assms(2) _ prefix_order.refl]) (simp add: key_types_def)
  ultimately show ?thesis unfolding ListJailed_def Let_def by blast
qed

lemma ok_ProveAccount:
  assumes "healthy s" "typed_db (db s)"
  shows "\<exists>p. ProveAccount s a = Inr p"
proof -
  have "\<exists>ls. load_leaves s es = Inr ls" if "list_all (\<lambda>e. has_type (snd e) TAccount) es" for es
    using that
  proof (induction es)
    case (Cons e es)
    then obtain k x where e: "e = (k, AccountV x)" using has_typeD(1) [of "snd e"] by (cases e) auto
    with Cons assms(1) show ?case by (auto simp: Let_def)
  qed simp
  moreover have "list_all (\<lambda>e. has_type (snd e) TAccount) (iter_prefix ''acc:'' (db s))"
    by (rule prefix_typed [OF assms(2) _ prefix_order.refl]) (simp add: key_types_def)
  ultimately obtain ls where "load_leaves s (iter_prefix ''acc:'' (db s)) = Inr ls" by blast
  then show ?thesis
    by (auto simp: ProveAccount_def ProveAccountMerkle_def loadSortedLeaves_def Let_def case_prod_beta split: option.split)
qed

lemma ok_GetLatestHeight:
  assumes "healthy s" "typed_db (db s)"
  obtains h where "GetLatestHeight s = Inr h"
proof (cases "map_of (db s) (metaKey ''latest_height'')")
  case None
  then show thesis using assms(1) that by (simp add: GetLatestHeight_def txn_Get_def)
next
  case (Some v)
  then obtain x where "v = RawV x" "is_ok (Sscanf_u64 x)"
    using typed_lookup [OF assms(2) Some] has_typeD(9) [of v] by auto
  with Some assms(1) show thesis by (auto simp: GetLatestHeight_def txn_Get_def elim!: is_okE intro: that)
qed

section \<open>Writes\<close>

lemma ok_Update: "healthy s \<Longrightarrow> f (db s) = Inr d \<Longrightarrow> db_Update s f = (Inr (), s\<lparr>db := d\<rparr>)"
  by (simp add: db_Update_def)

lemma ok_Seed:
  assumes "healthy s" "typed_db (db s)"
  shows "\<exists>s'. SeedAccount s a b st pu m = (Inr (), s') \<and> healthy s' \<and> typed_db (db s')"
proof -
  obtain x where x: "getAccountTxn s (db s) a = Inr x" using ok_getAccountTxn [OF assms] by blast
  have "\<exists>s'. SeedAccount s a b st pu m = (Inr (), s') \<and> healthy s'"
    using assms(1) x by (simp add: SeedAccount_def setAccountTxn_def txn_Set_def Let_def ok_Update)
  then show ?thesis using typed_Seed [OF assms(2), of a b st pu m] by auto
qed

lemma ok_Unjail: "healthy s \<Longrightarrow> \<exists>s'. UnjailValidator s a = (Inr (), s')"
  by (simp add: UnjailValidator_def Let_def txn_Delete_def ok_Update)

lemma ok_Prune:
  assumes "healthy s" "typed_db (db s)"
  shows "\<exists>s'. PruneOldBlocks s keep = (Inr (), s')"
proof -
  obtain h where h: "GetLatestHeight s = Inr h" using ok_GetLatestHeight [OF assms] by blast
  have "\<exists>d'. prune_loop s c ks d = Inr d'" for c ks d
    by (induction ks arbitrary: d) (use assms(1) in \<open>auto simp: txn_Delete_def\<close>)
  then have "\<exists>s'. db_Update s (\<lambda>d. prune_loop s c (ks d) d) = (Inr (), s')" for c ks
    using ok_Update [OF assms(1)] by metis
  with h show ?thesis by (simp add: PruneOldBlocks_def)
qed

lemma ok_restore_file:
  assumes "healthy s" "typed_db (db s)"
  shows "\<exists>n s'. restore_file f s accs k = ((n, Inr ()), s')"
  using assms
proof (induction accs arbitrary: s k)
  case (Cons ax accs)
  obtain a x where ax: "ax = (a, x)" by (cases ax)
  obtain c where c: "GetAccount s a = Inr c" using ok_GetAccount [OF Cons.prems] by blast
  obtain s1 where s1: "SeedBalance s a (acc_Balance x) = (Inr (), s1)" "healthy s1" "typed_db (db s1)"
    using ok_Seed [OF Cons.prems] unfolding SeedBalance_def by blast
  let ?s2 = "snd (db_Update s1 (\<lambda>d. txn_Set s1 d (accountKey a) (AccountV x)))"
  have "healthy ?s2" using s1(2) by (simp add: txn_Set_def ok_Update)
  then have "\<exists>n s'. restore_file f ?s2 accs (k + 1) = ((n, Inr ()), s')"
    using typed_account_write [OF s1(3)] by (rule Cons.IH)
  with Cons.IH [OF Cons.prems, of k] c s1 show ?case by (cases f) (simp_all add: ax)
qed simp

lemma ok_Restore:
  assumes "healthy s" "typed_db (db s)" "is_ok fl"
  shows "\<exists>n s'. RestoreAccountsFromSnapshot now s fl force = ((n, Inr ()), s')"
proof -
  obtain snap where "fl = Inr snap" using assms(3) by (auto elim!: is_okE)
  with ok_restore_file [OF assms(1,2), of force "bs_Accounts snap" 0] show ?thesis
    by (auto simp: RestoreAccountsFromSnapshot_def)
qed

lemma ok_scan:
  assumes "healthy s" "\<forall>e \<in> set es. typed_entry (fst e) (snd e)"
  shows "\<exists>r. scan_state s es = Inr r"
  using assms(2)
proof (induction es)
  case (Cons e es)
  obtain k v where e: "e = (k, v)" by (cases e)
  obtain r where r: "scan_state s es = Inr r" using Cons by auto
  have "\<exists>x. v = AccountV x" if "take 4 k = ''acc:''"
    using that Cons.prems e has_typeD(1) [of v] by (auto simp: take_prefix typed_entry_def key_types_def)
  with r assms(1) show ?case by (auto simp: e case_prod_beta split: sum.split)
qed simp

lemma ok_ExportBackup:
  assumes "healthy s" "typed_db (db s)" "GetLatestHeight s \<noteq> Inr (- 1)" "mb < 2 ^ 63"
  shows "\<exists>snap. ExportBackup None created now s mb = Some (Inr snap)"
proof -
  obtain h where h: "GetLatestHeight s = Inr h" using ok_GetLatestHeight [OF assms(1,2)] by blast
  let ?m = "if mb \<le> 0 then 500 else mb"
  have "unat (first_kept h ?m) \<le> unat h + 1" using assms(4) by (intro first_kept_le) auto
  then obtain bs where "collect_blocks s (first_kept h ?m) h [] = Some bs"
    using collect_blocks_all [of h "first_kept h ?m" s "[]"] h assms(3) by auto
  moreover obtain r where "scan_state s (db s) = Inr r" using ok_scan [OF assms(1)] assms(2) unfolding typed_db_def by blast
  ultimately show ?thesis using h by (auto simp: ExportBackup_def Let_def case_prod_beta)
qed


section \<open>Every request is answered\<close>

definition answered :: "Outcome \<Rightarrow> bool" where
  "answered out \<longleftrightarrow> (case out of Reply rsp \<Rightarrow> rsp_Status rsp \<noteq> 500 | _ \<Rightarrow> False)"

lemma answered_simps [simp]:
  "answered (writeJSON X c v) \<longleftrightarrow> c \<noteq> 500" "answered (fail m c) \<longleftrightarrow> c \<noteq> 500" "answered (fail_err X e c) \<longleftrightarrow> c \<noteq> 500"
  "answered (writeRPC X i v er)" "answered (add_headers hs out) = answered out" "answered (Reply (http_Error m c)) \<longleftrightarrow> c \<noteq> 500"
  by (simp_all add: answered_def writeJSON_def fail_def fail_err_def http_Error_def writeRPC_def add_headers_def split: Outcome.split)

text \<open>What the handlers need: the store and the files can be accessed, the epoch length and the height have no extreme value.\<close>

definition serviceable :: "ApiEnv \<Rightarrow> ServerState \<Rightarrow> bool" where
  "serviceable X sv \<longleftrightarrow>
     healthy (sv_store sv) \<and> typed_db (db (sv_store sv)) \<and> ax_io X = None \<and> ax_io2 X = None \<and> (\<forall>p. is_ok (ax_file X p))
   \<and> CurrentEpochID (ax_now X) (ac_EpochSeconds (sv_cfg sv)) \<noteq> None
   \<and> GetLatestHeight (sv_store sv) \<noteq> Inr (- 1) \<and> (\<forall>l. sv_leader sv = Some l \<longrightarrow> ls_store l)"

lemma answered_reads:
  assumes "serviceable X sv"
  shows "answered (fst (handleMetrics X vars r sv))" "answered (fst (handleJSONRPC X vars r sv))"
    "answered (fst (handleStats X vars r sv))" "answered (fst (handleGetAccount X vars r sv))"
    "answered (fst (handleAccountProof X vars r sv))" "answered (fst (handleLatestBlock X vars r sv))"
    "answered (fst (handleGetBlock X vars r sv))" "answered (fst (handleSupply X vars r sv))"
    "answered (fst (handleBucket X vars r sv))" "answered (fst (handleUptime X vars r sv))"
    "answered (fst (handleEpochScores X vars r sv))" "answered (fst (handleMempoolStats X vars r sv))"
    "answered (fst (handleMempoolTxs X vars r sv))" "answered (fst (handleBFTStatus X vars r sv))"
    "answered (fst (handleGetValidators X vars r sv))" "answered (fst (handleListJailed X vars r sv))"
    "answered (fst (handleLeader X vars r sv))" "answered (fst (handleHealth X vars r sv))"
proof -
  let ?s = "sv_store sv"
  have ht: "healthy ?s" "typed_db (db ?s)" using assms by (simp_all add: serviceable_def)
  show "answered (fst (handleMetrics X vars r sv))" by (simp add: handleMetrics_def Let_def answered_def)
  show "answered (fst (handleJSONRPC X vars r sv))" by (auto simp: handleJSONRPC_def split: prod.split sum.split)
  show "answered (fst (handleGetAccount X vars r sv))"
    by (rule ok_GetAccount [OF ht, of "vars ''address''"]) (simp add: handleGetAccount_def)
  show "answered (fst (handleAccountProof X vars r sv))"
    using ok_ProveAccount [OF ht, of "vars ''address''"] by (auto simp: handleAccountProof_def)
  show "answered (fst (handleSupply X vars r sv))" using ok_ListBuckets [OF ht] by (auto simp: handleSupply_def)
  show "answered (fst (handleEpochScores X vars r sv))"
    using ok_ListEpochScores [OF ht] by (auto simp: handleEpochScores_def split: prod.split option.split sum.split) (metis sum.distinct(1))
  show "answered (fst (handleListJailed X vars r sv))"
    using ok_ListJailed [OF ht, of "ax_now X" 200] by (auto simp: handleListJailed_def)
  show "answered (fst (handleHealth X vars r sv))"
    using assms by (auto simp: handleHealth_def serviceable_def case_prod_beta Let_def)
qed (auto simp: handleStats_def handleLatestBlock_def handleGetBlock_def handleBucket_def handleUptime_def handleMempoolStats_def
    handleMempoolTxs_def handleBFTStatus_def handleGetValidators_def handleLeader_def case_prod_beta Let_def
    split: sum.split option.split)

lemma heartbeat_returns: "CurrentEpochID now secs \<noteq> None \<Longrightarrow> RecordHeartbeat s now' a nid t secs \<noteq> None"
proof -
  assume c: "CurrentEpochID now secs \<noteq> None"
  then have ms: "i64 ((if secs \<le> 0 then 604800 else secs) * 1000) \<noteq> 0"
    unfolding CurrentEpochID_def Let_def by (metis (full_types))
  show ?thesis
  proof (cases "a = []")
    case False
    then show ?thesis unfolding RecordHeartbeat_def Let_def using ms by (simp only: if_False) simp
  qed (simp add: RecordHeartbeat_def)
qed

lemma signed_request_answered: "signed_request X a s m msg = Some out \<Longrightarrow> answered out"
  by (auto simp: signed_request_def split: if_splits sum.splits bool.splits)

lemma answered_writes:
  assumes "serviceable X sv"
  shows "answered (fst (handleHeartbeat X vars r sv))" "answered (fst (handleRegisterValidator X vars r sv))"
    "answered (fst (handleSubmitTx X vars r sv))" "answered (fst (handlePropose X vars r sv))"
    "answered (fst (handleSetValidators X vars r sv))" "answered (fst (handleSeed X vars r sv))"
    "answered (fst (handlePrune X vars r sv))" "answered (fst (handleBackup X vars r sv))"
    "answered (fst (handleGetSnapshot X vars r sv))" "answered (fst (handlePostSnapshot X vars r sv))"
    "answered (fst (handleRestoreAccounts X vars r sv))" "answered (fst (handleUnjail X vars r sv))"
proof -
  let ?s = "sv_store sv"
  have ht: "healthy ?s" "typed_db (db ?s)" and io: "ax_io X = None" "ax_io2 X = None" "\<And>p. is_ok (ax_file X p)"
    and h: "GetLatestHeight ?s \<noteq> Inr (- 1)" and st: "\<And>l. sv_leader sv = Some l \<Longrightarrow> ls_store l"
    and ep: "CurrentEpochID (ax_now X) (ac_EpochSeconds (sv_cfg sv)) \<noteq> None"
    using assms by (auto simp: serviceable_def)
  have "RecordHeartbeat ?s (ax_now X) a nid t (ac_EpochSeconds (sv_cfg sv)) \<noteq> None" for a nid t
    by (rule heartbeat_returns [OF ep])
  then show "answered (fst (handleHeartbeat X vars r sv))"
    by (auto simp: handleHeartbeat_def Let_def split: sum.split option.split dest: signed_request_answered) (metis option.distinct(1))
  have "\<exists>b. IsEligible l ?s a = Inr b" if "sv_leader sv = Some l" for l a
    by (rule ok_GetAccount [OF ht, of a]) (use st [OF that] in \<open>simp add: IsEligible_def\<close>)
  then show "answered (fst (handleRegisterValidator X vars r sv))"
    by (auto simp: handleRegisterValidator_def case_prod_beta Let_def split: sum.split option.split dest: signed_request_answered)
      (metis sum.distinct(1))
  show "answered (fst (handleSeed X vars r sv))"
    using ok_Seed [OF ht] by (auto simp: handleSeed_def Let_def split: sum.split prod.split) (metis Pair_inject sum.distinct(1))+
  show "answered (fst (handlePrune X vars r sv))"
    using ok_Prune [OF ht, of "ac_KeepRecentBlocks (sv_cfg sv)"] by (auto simp: handlePrune_def)
  show "answered (fst (handleBackup X vars r sv))"
    using ok_ExportBackup [OF ht h, of 500 "ax_date X" "ax_now X"] io by (auto simp: handleBackup_def)
  have "query_int r ''max_blocks'' 2000 (\<lambda>n. n > 0) < 2 ^ 63"
    using ParseInt10_range [of "rq_Query r ''max_blocks''"] by (auto simp: query_int_def Let_def in_i64_def split: prod.split option.split)
  from ok_ExportBackup [OF ht h this, of "ax_date X" "ax_now X"] show "answered (fst (handleGetSnapshot X vars r sv))"
    using io by (auto simp: handleGetSnapshot_def ExportSnapshot_def)
  show "answered (fst (handleRestoreAccounts X vars r sv))"
    using ok_Restore [OF ht io(3)] by (auto simp: handleRestoreAccounts_def split: sum.split prod.split) (metis Pair_inject sum.distinct(1))
  show "answered (fst (handleUnjail X vars r sv))"
    using ok_Unjail [OF ht(1)] by (auto simp: handleUnjail_def split: sum.split prod.split) (metis Pair_inject sum.distinct(1))
qed (auto simp: handleSubmitTx_def handlePropose_def handleSetValidators_def handlePostSnapshot_def case_prod_beta Let_def
    split: sum.split option.split prod.split)


lemma ServeHTTP_answer:
  assumes h: "\<And>t hd m vars. (t, hd, m) \<in> set routes \<Longrightarrow> answered (fst (hd X vars (guarded r) sv))"
    and run: "ServeHTTP mux X rl r sv = ((out, sv'), rl')"
  shows "answered out"
proof -
  have rt: "answered (fst (route mux X (guarded r) sv))"
  proof (cases "mux_Match mux routes (req_Path (rq_req (guarded r))) (req_Method (rq_req (guarded r))) False")
    case (Inr a)
    obtain hd vars where a: "a = (hd, vars)" by (cases a)
    with mux_Match_table [OF Inr [unfolded a]] h show ?thesis using Inr by (auto simp: route_def)
  qed (auto simp: route_def answered_def fail_def http_Error_def split: bool.split)
  have out: "out = fst (fst (ServeHTTP mux X rl r sv))" by (simp add: run)
  obtain ok rl1 where a: "allow rl (ax_nanos X) (clientIP (rq_req r)) = (ok, rl1)" by fastforce
  show ?thesis
  proof (cases "ok \<and> req_Method (rq_req r) \<noteq> ''OPTIONS''")
    case True
    then have "\<exists>hs. out = add_headers hs (fst (route mux X (guarded r) sv))"
      unfolding out ServeHTTP_def withPublicGuards_def a guarded_def by (auto simp: case_prod_beta)
    with rt show ?thesis by auto
  next
    case False
    then show ?thesis unfolding out ServeHTTP_def withPublicGuards_def a by (auto simp: answered_def http_Error_def split: bool.split)
  qed
qed


definition files_api :: ApiEnv where
  "files_api = demo_api\<lparr>ax_file := (\<lambda>_. Inr \<lparr>bs_Version = 1, bs_CreatedAt = [], bs_LatestHeight = 0, bs_NumericChainID = 0, bs_TotalMaxSupply = 0,
     bs_ValidatorSet = None, bs_Buckets = [], bs_Accounts = [], bs_RecentBlocks = [], bs_Jailed = []\<rparr>)\<rparr>"


text \<open>The hypothesis on the epoch length is needed: with \<^verbatim>\<open>EPOCH_SECONDS=2305843009213693952\<close> the health check always panics.\<close>

theorem huge_epoch_panics:
  assumes "ac_EpochSeconds (sv_cfg sv) = 2 ^ 61"
  shows "handleHealth X vars r sv = (Panicked, sv)"
  using assms by (simp add: handleHealth_def CurrentEpochID_def i64_def)

end
