(* ===== verification/EngineStore.thy ===== *)
theory EngineStore
  imports Typing BftHandlers
begin

text \<open>
  What the consensus engine of \<^verbatim>\<open>internal/consensus\<close> does to the components it shares with the rest of the node:
  its critical sections keep the entries of the store typed, the pool well-formed and the roster as it is.
\<close>

definition eng_ok :: "BFTEngine \<Rightarrow> bool" where
  "eng_ok e \<longleftrightarrow> typed_db (db (be_store e)) \<and> pred_option mp_wf (be_pool e) \<and> pred_option leader_wf (be_leader e)"

lemma eng_okI:
  "typed_db (db (be_store e')) \<Longrightarrow> be_pool e' = be_pool e \<Longrightarrow> be_leader e' = be_leader e \<Longrightarrow> eng_ok e \<Longrightarrow> eng_ok e'"
  by (simp add: eng_ok_def)

lemma eng_okD: "eng_ok e \<Longrightarrow> typed_db (db (be_store e))"
  by (simp add: eng_ok_def)

section \<open>Sections that only vote\<close>

lemma eng_ok_upd [simp]:
  "eng_ok (e\<lparr>be_step := a\<rparr>) = eng_ok e" "eng_ok (e\<lparr>be_round := b\<rparr>) = eng_ok e" "eng_ok (e\<lparr>be_height := c\<rparr>) = eng_ok e"
  "eng_ok (e\<lparr>be_proposal := d\<rparr>) = eng_ok e" "eng_ok (e\<lparr>be_lockedHash := f\<rparr>) = eng_ok e" "eng_ok (e\<lparr>be_lockedRound := g\<rparr>) = eng_ok e"
  "eng_ok (e\<lparr>be_validHash := h\<rparr>) = eng_ok e" "eng_ok (e\<lparr>be_validRound := i\<rparr>) = eng_ok e" "eng_ok (e\<lparr>be_prevotes := j\<rparr>) = eng_ok e"
  "eng_ok (e\<lparr>be_precommits := k\<rparr>) = eng_ok e" "eng_ok (e\<lparr>be_pendingTxs := l\<rparr>) = eng_ok e" "eng_ok (e\<lparr>be_lastVotes := m\<rparr>) = eng_ok e"
  "eng_ok (e\<lparr>be_lastCommitAt := n\<rparr>) = eng_ok e" "eng_ok (e\<lparr>be_sleeping := q\<rparr>) = eng_ok e" "eng_ok (e\<lparr>be_cast := r\<rparr>) = eng_ok e"
  "eng_ok (e\<lparr>be_commits := t\<rparr>) = eng_ok e" "eng_ok (e\<lparr>be_p2p := u\<rparr>) = eng_ok e"
  by (simp_all add: eng_ok_def)

lemma eng_ok_broadcast [simp]: "eng_ok (broadcastVoteLocked cx ty hash e) = eng_ok e"
  by (simp add: broadcastVoteLocked_def Let_def split: sum.split)

lemma eng_ok_votes [simp]:
  "eng_ok (advanceHeightLocked e) = eng_ok e" "eng_ok (next_round e) = eng_ok e" "eng_ok (adopt_round r e) = eng_ok e"
  "eng_ok (enterPrevoteLocked cx e) = eng_ok e" "eng_ok (tryFinalizePrevotesLocked cx e) = eng_ok e"
  "eng_ok (runPropose_end cx e) = eng_ok e" "eng_ok (runPrevote_timeout cx e) = eng_ok e" "eng_ok (runPrecommit_timeout e) = eng_ok e"
  "eng_ok (markCommitted now e) = eng_ok e"
  by (auto simp: advanceHeightLocked_def next_round_def adopt_round_def enterPrevoteLocked_def tryFinalizePrevotesLocked_def
      runPropose_end_def runPrevote_timeout_def runPrecommit_timeout_def markCommitted_def Let_def split: option.split)

lemma eng_ok_wake: "wake e = Some e' \<Longrightarrow> eng_ok e \<Longrightarrow> eng_ok e'"
  by (auto simp: wake_def split: if_splits)

lemma eng_ok_align: "loop_align e = Some e' \<Longrightarrow> eng_ok e \<Longrightarrow> eng_ok e'"
  by (auto simp: loop_align_def split: sum.splits)

lemma eng_ok_store: "eng_ok e \<Longrightarrow> typed_db (db s) \<Longrightarrow> eng_ok (e\<lparr>be_store := s\<rparr>)"
  by (simp add: eng_ok_def)

section \<open>Reads and writes of the store\<close>

lemma typed_eligible: "typed_db (db s) \<Longrightarrow> typed_db (db (snd (eligible_loop s now m vs)))"
proof (induction vs arbitrary: s)
  case (Cons a vs)
  show ?case unfolding eligible_loop_store by (rule Cons.IH [OF typed_IsJailed [OF Cons.prems]])
qed simp

lemma typed_leader:
  assumes "typed_db (db s)"
  shows "typed_db (db (snd (eligibleValidatorsLocked l s now)))" "typed_db (db (snd (LeaderForHeight l s now h)))"
    "typed_db (db (snd (IsLocalLeader l s now h)))" "typed_db (db (snd (Stats l s now h)))"
proof -
  have el: "typed_db (db (snd (eligibleValidatorsLocked l s now)))" if "typed_db (db s)" for s
    using typed_eligible [OF that] that by (simp add: eligibleValidatorsLocked_def)
  show "typed_db (db (snd (eligibleValidatorsLocked l s now)))" by (rule el [OF assms])
  then show "typed_db (db (snd (LeaderForHeight l s now h)))" "typed_db (db (snd (IsLocalLeader l s now h)))"
    "typed_db (db (snd (Stats l s now h)))"
    by (simp_all add: LeaderForHeight_def IsLocalLeader_def Stats_def Let_def case_prod_beta el)
qed

lemma typed_apply_pending: "apply_pending s ts = Some (applied, s') \<Longrightarrow> typed_db (db s) \<Longrightarrow> typed_db (db s')"
proof (induction s ts arbitrary: applied s' rule: apply_pending.induct)
  case (3 s t ts)
  obtain r s1 where a: "ApplyTx s t = (r, s1)" by (cases "ApplyTx s t")
  then have "typed_db (db s1)" using typed_ApplyTx [OF 3(4), of t] by simp
  with 3 a show ?case by (cases r) auto
qed auto

lemma typed_sealFromProposal:
  assumes "sealFromProposal E s p ts key = Some (r, s')" "typed_db (db s)"
  shows "typed_db (db s')"
proof -
  obtain applied s1 where a: "apply_pending s ts = Some (applied, s1)"
    using assms(1) by (auto simp: sealFromProposal_def split: option.splits)
  have s1: "typed_db (db s1)" by (rule typed_apply_pending [OF a assms(2)])
  have "s' = s1 \<or> (\<exists>h. s' = snd (SaveBlock s1 h))"
    using assms(1) a by (auto simp: sealFromProposal_def Let_def split: option.splits sum.splits prod.splits) (metis snd_conv)+
  then show ?thesis using s1 typed_SaveBlock [OF s1] by auto
qed

lemma eng_ok_commit:
  assumes "commitLocked cx hash votes e = Some e'" "eng_ok e"
  shows "eng_ok e'"
proof -
  have t: "typed_db (db (be_store e))" using assms(2) by (rule eng_okD)
  have k: "eng_ok (e\<lparr>be_store := s\<rparr>)" if "typed_db (db s)" for s using assms(2) that by (rule eng_ok_store)
  show ?thesis
  proof (cases "be_proposal e")
    case (Some p)
    show ?thesis
    proof (cases "p_BlockHash p = hash")
      case True
      then obtain r s1 where sl: "sealFromProposal (cx_geth cx) (be_store e) p (be_pendingTxs e) (be_privKey e) = Some (r, s1)"
        using assms(1) Some by (auto simp: commitLocked_def Let_def split: option.splits)
      have s1: "typed_db (db s1)" by (rule typed_sealFromProposal [OF sl t])
      have "\<exists>s. typed_db (db s) \<and> be_store e' = s \<and> be_pool e' = be_pool e \<and> be_leader e' = be_leader e"
        using assms(1) Some True sl s1 typed_SaveBlock [OF s1]
        by (auto simp: commitLocked_def Let_def advanceHeightLocked_def markCommitted_def split: sum.splits)
      then show ?thesis using assms(2) by (auto intro: eng_okI)
    qed (use assms Some in \<open>auto simp: commitLocked_def Let_def\<close>)
  qed (use assms in \<open>auto simp: commitLocked_def Let_def\<close>)
qed

lemma eng_ok_precommits:
  assumes "tryFinalizePrecommitsLocked cx e = Some e'" "eng_ok e"
  shows "eng_ok e'"
  using assms eng_ok_commit [of cx _ _ "e\<lparr>be_step := StepCommit\<rparr>" e']
  by (auto simp: tryFinalizePrecommitsLocked_def Let_def split: if_splits option.splits)

section \<open>Messages\<close>

lemma eng_ok_accept: "eng_ok e \<Longrightarrow> eng_ok (accept_proposal cx p e)"
  using typed_leader(2) [of "be_store e"]
  by (auto simp: accept_proposal_def Let_def case_prod_beta eng_ok_store eng_okD split: option.split sum.split)

lemma eng_ok_HandleProposal: "HandleProposal cx po e = Some e' \<Longrightarrow> eng_ok e \<Longrightarrow> eng_ok e'"
  by (auto simp: HandleProposal_def Let_def eng_ok_accept split: option.splits sum.splits if_splits)

lemma eng_ok_note: "eng_ok e \<Longrightarrow> eng_ok (note_vote cx v e)"
  using typed_Jail [of "be_store e"]
  by (auto simp: note_vote_def Let_def JailOnEquivocation_def case_prod_beta eng_ok_store eng_okD split: option.split)

lemma eng_ok_record: "record_vote cx v e = Some e' \<Longrightarrow> eng_ok e \<Longrightarrow> eng_ok e'"
  using eng_ok_precommits [of cx "e\<lparr>be_precommits := kv_set (ToLower (v_Voter v)) v (be_precommits e)\<rparr>" e']
  by (auto simp: record_vote_def Let_def split: if_splits)

lemma eng_ok_HandleVote:
  assumes "HandleVote cx vo e = Some e'" "eng_ok e"
  shows "eng_ok e'"
proof (cases vo)
  case (Some v)
  let ?e = "e\<lparr>be_store := snd (Validators.IsJailed (be_store e) (cx_now cx) (v_Voter v))\<rparr>"
  have "eng_ok ?e" using assms(2) typed_IsJailed eng_okD eng_ok_store by blast
  then have "eng_ok (note_vote cx v ?e)" "eng_ok (note_vote cx v (adopt_round r ?e))" for r
    by (auto intro: eng_ok_note)
  with assms \<open>eng_ok ?e\<close> show ?thesis
    by (auto simp: HandleVote_def Some Let_def case_prod_beta split: sum.splits if_splits dest: eng_ok_record)
qed (use assms in \<open>simp add: HandleVote_def\<close>)

section \<open>Proposing and sealing\<close>

lemma wf_put_back: "mp_wf m \<Longrightarrow> mp_wf (put_back E oracle now ord s m ts)"
  by (induction ts arbitrary: m) (simp_all add: mp_wf_Add)

lemma wf_take_txs: "eng_ok e \<Longrightarrow> pred_option mp_wf (snd (take_txs e))"
  by (auto simp: eng_ok_def take_txs_def case_prod_beta mp_wf_Take split: option.split)

lemma wf_return_txs: "pred_option mp_wf p \<Longrightarrow> pred_option mp_wf (return_txs cx s ts p)"
  by (cases p) (simp_all add: return_txs_def wf_put_back)

lemma eng_ok_enter: "runPropose_enter cx h e = (nx, e') \<Longrightarrow> eng_ok e \<Longrightarrow> eng_ok e'"
  using typed_leader(3) [of "be_store e"]
  by (auto simp: runPropose_enter_def Let_def case_prod_beta eng_ok_store eng_okD split: if_splits option.splits)

lemma eng_ok_build: "buildAndBroadcastProposal cx h r e = (res, e') \<Longrightarrow> eng_ok e \<Longrightarrow> eng_ok e'"
  using wf_take_txs [of e] wf_return_txs
  by (auto simp: buildAndBroadcastProposal_def Let_def case_prod_beta eng_ok_def split: if_splits sum.splits prod.splits)

lemma typed_seal_apply: "typed_db (db s) \<Longrightarrow> typed_db (db (snd (seal_apply s ts)))"
proof (induction s ts rule: seal_apply.induct)
  case (2 s t ts)
  obtain r s1 where a: "ApplyTx s t = (r, s1)" by (cases "ApplyTx s t")
  then have "typed_db (db s1)" using typed_ApplyTx [OF 2(3), of t] by simp
  with 2 a show ?case by (cases r) (auto simp: case_prod_beta)
qed simp

lemma typed_Seal: "typed_db (db s) \<Longrightarrow> typed_db (db (snd (SealBlockWithTxs E now s key p ts)))"
  using typed_seal_apply [of s ts] typed_SaveBlockWithTxs [of "snd (seal_apply s ts)"]
  by (auto simp: SealBlockWithTxs_def Let_def case_prod_beta split: sum.split prod.split)

lemma eng_ok_solo: "soloSeal cx e = (b, e') \<Longrightarrow> eng_ok e \<Longrightarrow> eng_ok e'"
  using wf_take_txs [of e] wf_return_txs typed_Seal [of "be_store e"]
  by (auto simp: soloSeal_def Let_def case_prod_beta eng_ok_def markCommitted_def split: sum.splits prod.splits)

end
