(* ===== verification/NodeMain.thy ===== *)
theory NodeMain
  imports Answers EngineStore
begin

text \<open>
  Package \<^verbatim>\<open>cmd/validator\<close>, file \<^verbatim>\<open>main.go\<close>: how a node starts and how its components are wired. The components share
  one store, one roster, one pool and one peer-to-peer node; the server record holds them, and the
  engine works on them through \<open>on_engine\<close>. The callbacks of the gossip topics run on goroutines of their
  own, where a panic ends the process: \<open>None\<close>. libp2p, the HTTP client of the state sync, the content of
  the genesis file and \<^verbatim>\<open>time.ParseDuration\<close> are parameters of the start; signals and the shutdown are in \<open>Shutdown\<close>.
\<close>

record NodeState =
  ns_sv :: ServerState
  ns_rl :: ipRateLimiter
  ns_producer :: "Producer option"
  ns_env :: Env

section \<open>Start\<close>

record BootIO =
  bo_genesis :: "Genesis res option"
  bo_http :: "string \<Rightarrow> string \<Rightarrow> (int \<times> BackupSnapshot res) res"
  bo_libp2p :: Libp2p
  bo_duration :: "string \<Rightarrow> int option"
  bo_geth :: Geth
  bo_now :: int

definition boot_genesis :: "(string \<Rightarrow> string) \<Rightarrow> BootIO \<Rightarrow> Genesis res" where
  "boot_genesis env io =
     (case bo_genesis io of
        Some content \<Rightarrow> LoadFile content
      | None \<Rightarrow>
          let addr = env ''CHAIN_SIGNING_ADDRESS''
          in Inr (if addr \<noteq> [] then (Default (bo_now io))\<lparr>gen_ChainSigningAddress := addr\<rparr> else Default (bo_now io)))"

definition boot_sync :: "(string \<Rightarrow> string) \<Rightarrow> BootIO \<Rightarrow> Store \<Rightarrow> Store" where
  "boot_sync env io s =
     (let u = TrimSpace (env ''STATE_SYNC_URL'') in
      if u \<noteq> [] then
        let force = (env ''STATE_SYNC_FORCE'' = ''true'' \<or> env ''STATE_SYNC_FORCE'' = ''1'')
        in snd (SyncFromURL (bo_http io) (bo_now io) s u (env ''API_SECRET'') force)
      else s)"

definition split_validators :: "string \<Rightarrow> string list" where
  "split_validators raw = filter (\<lambda>p. p \<noteq> []) (map TrimSpace (SplitByte raw (CHR '','')))"

definition boot_roster :: "(string \<Rightarrow> string) \<Rightarrow> BootIO \<Rightarrow> Store \<Rightarrow> LeaderSchedule \<times> Store" where
  "boot_roster env io s =
     (let localAddr = env ''CHAIN_SIGNING_ADDRESS'';
          l = SetStore (NewLeaderSchedule localAddr);
          raw = env ''VALIDATORS''
      in if raw \<noteq> [] then SetValidators l s (bo_now io) (split_validators raw)
         else case LoadFromStore l s of
           (True, l') \<Rightarrow> (l', s)
         | (False, l') \<Rightarrow> if localAddr \<noteq> [] then SetValidators l' s (bo_now io) [localAddr] else (l', s))"

definition override :: "(string \<Rightarrow> string) \<Rightarrow> BootIO \<Rightarrow> string \<Rightarrow> int \<Rightarrow> int" where
  "override env io key dflt =
     (let v = env key in
      if v \<noteq> [] then (case bo_duration io (v @ ''s'') of Some n \<Rightarrow> if n > 0 then n else dflt | None \<Rightarrow> dflt) else dflt)"

definition boot_bft_config :: "(string \<Rightarrow> string) \<Rightarrow> BootIO \<Rightarrow> AppConfig \<Rightarrow> BFTConfig" where
  "boot_bft_config env io cfg =
     DefaultBFTConfig\<lparr>bc_MinBlockInterval := (if ac_BlockInterval cfg \<le> 0 then 120 * 10 ^ 9 else ac_BlockInterval cfg),
       bc_ProposeTimeout := override env io ''BFT_PROPOSE_TIMEOUT_SEC'' (bc_ProposeTimeout DefaultBFTConfig),
       bc_PrevoteTimeout := override env io ''BFT_PREVOTE_TIMEOUT_SEC'' (bc_PrevoteTimeout DefaultBFTConfig),
       bc_PrecommitTimeout := override env io ''BFT_PRECOMMIT_TIMEOUT_SEC'' (bc_PrecommitTimeout DefaultBFTConfig),
       bc_Enabled := True\<rparr>"

definition env_record :: "(string \<Rightarrow> string) \<Rightarrow> Env" where
  "env_record env =
     \<lparr>env_MINING_ORACLE_ADDRESS = env ''MINING_ORACLE_ADDRESS'', env_CHAIN_SIGNING_ADDRESS = env ''CHAIN_SIGNING_ADDRESS'',
      env_CHAIN_SIGNING_PRIVATE_KEY = env ''CHAIN_SIGNING_PRIVATE_KEY''\<rparr>"

text \<open>An error is \<^verbatim>\<open>log.Fatal\<close>, which ends the process; a failed state sync is only logged.\<close>

definition boot :: "(string \<Rightarrow> string) \<Rightarrow> BootIO \<Rightarrow> Store \<Rightarrow> NodeState res" where
  "boot env io s0 =
     (let cfg = Load env;
          bftEnabled = (env ''BFT_ENABLED'' \<noteq> ''false'')
      in case boot_genesis env io of
           Inl e \<Rightarrow> Inl e
         | Inr g \<Rightarrow>
             (case InitGenesis s0 g of
                (Inl e, _) \<Rightarrow> Inl e
              | (Inr _, s1) \<Rightarrow>
                  let s2 = boot_sync env io s1;
                      (leader, s3) = boot_roster env io s2;
                      pool = New DefaultConfig;
                      pcfg = LoadConfigFromEnv env (ac_NodeID cfg)
                  in case fst (New_node (bo_libp2p io) pcfg) of
                       Inl e \<Rightarrow> Inl e
                     | Inr p2p \<Rightarrow>
                         let node = pn_node p2p;
                             bft = (if bftEnabled
                                    then Some (SetP2P (SetMempool (NewBFTEngine (bo_geth io) (env_record env) s3 (Some leader)
                                           (boot_bft_config env io cfg)) pool) node)
                                    else None);
                             producer = (if ac_AutoProduce cfg \<and> \<not> bftEnabled then Some (NewProducer (ac_BlockInterval cfg)) else None);
                             sv = \<lparr>sv_cfg = cfg, sv_store = s3, sv_bft = None, sv_p2p = Some node, sv_pcfg = pn_cfg p2p,
                                   sv_scorer = pn_scorer p2p,
                                   sv_pool = Some pool, sv_leader = Some leader\<rparr>
                         in Inr \<lparr>ns_sv = SetBFT bft sv, ns_rl = newIPRateLimiter 120 (60 * 10 ^ 9),
                                 ns_producer = producer, ns_env = env_record env\<rparr>))"

section \<open>Callbacks\<close>

definition on_engine :: "(BFTEngine \<Rightarrow> BFTEngine option) \<Rightarrow> ServerState \<Rightarrow> ServerState option" where
  "on_engine f sv =
     (case sv_bft sv of
        None \<Rightarrow> Some sv
      | Some e \<Rightarrow>
          (case f (engine_view sv e) of
             None \<Rightarrow> None
           | Some e' \<Rightarrow> Some (sv\<lparr>sv_bft := Some e', sv_store := be_store e', sv_leader := be_leader e',
                                sv_pool := be_pool e', sv_p2p := be_p2p e'\<rparr>)))"

definition onHeartbeat :: "int \<Rightarrow> HeartbeatMsg \<Rightarrow> ServerState \<Rightarrow> ServerState option" where
  "onHeartbeat now m sv =
     (if hm_Address m = [] then Some sv
      else case RecordHeartbeat (sv_store sv) now (hm_Address m) (hm_NodeID m) (tier_text (hm_Tier m)) (ac_EpochSeconds (sv_cfg sv)) of
             None \<Rightarrow> None
           | Some (_, s') \<Rightarrow> Some (sv\<lparr>sv_store := s'\<rparr>))"

definition onConsensus :: "Ctx \<Rightarrow> ConsensusMsg \<Rightarrow> ServerState \<Rightarrow> ServerState option" where
  "onConsensus cx m sv =
     (if cm_Kind m = ConsensusKindProposal then
        (case cm_Proposal m of None \<Rightarrow> Some sv | Some p \<Rightarrow> on_engine (HandleProposal cx (ProposalFromP2P (Some p))) sv)
      else if cm_Kind m = ConsensusKindVote then
        (case cm_Vote m of None \<Rightarrow> Some sv | Some v \<Rightarrow> on_engine (HandleVote cx (VoteFromP2P (Some v))) sv)
      else Some sv)"

definition gossip_input :: "BlockAnnounce \<Rightarrow> string list \<Rightarrow> GossipBlockInput" where
  "gossip_input a vs =
     \<lparr>gb_Height = ba_Height a, gb_Hash = ba_Hash a, gb_PrevHash = ba_PrevHash a, gb_Timestamp = ba_Timestamp a,
      gb_Proposer = ba_Proposer a, gb_Signature = ba_Signature a, gb_Txs = ba_Txs a, gb_AllowedProposers = vs\<rparr>"

definition onBlock :: "(string \<Rightarrow> string option) \<Rightarrow> Ctx \<Rightarrow> int \<Rightarrow> BlockAnnounce \<Rightarrow> NodeState \<Rightarrow> NodeState" where
  "onBlock decode cx nowNs a ns =
     (let sv = ns_sv ns;
          vs = (case sv_leader sv of None \<Rightarrow> [] | Some l \<Rightarrow> ls_validators l)
      in case VerifyAndSaveGossipedBlockStrict (cx_geth cx) (cx_oracle cx) (cx_now cx) (sv_store sv) (gossip_input a vs) of
           (Inl _, s') \<Rightarrow>
             ns\<lparr>ns_sv := sv\<lparr>sv_store := s', sv_scorer := ReportPeer decode (sv_scorer sv) nowNs (ba_FromPeer a) (-10)\<rparr>\<rparr>
         | (Inr _, s') \<Rightarrow>
             ns\<lparr>ns_sv := sv\<lparr>sv_store := s', sv_scorer := ReportPeer decode (sv_scorer sv) nowNs (ba_FromPeer a) 2\<rparr>,
                ns_producer := map_option (\<lambda>p. NotifyExternalProposal p nowNs) (ns_producer ns)\<rparr>)"

section \<open>The running node\<close>

text \<open>The critical sections of the engine loop.\<close>

datatype Section =
    S_align | S_enter uint64 | S_build uint64 int | S_end | S_solo | S_advance
  | S_prevotes | S_prevote_timeout | S_precommits | S_precommit_timeout | S_wake

fun run_section :: "Ctx \<Rightarrow> Section \<Rightarrow> BFTEngine \<Rightarrow> BFTEngine option" where
  "run_section cx S_align e = Some (case loop_align e of None \<Rightarrow> e | Some e' \<Rightarrow> e')"
| "run_section cx (S_enter h) e = Some (snd (runPropose_enter cx h e))"
| "run_section cx (S_build h r) e = Some (snd (buildAndBroadcastProposal cx h r e))"
| "run_section cx S_end e = Some (runPropose_end cx e)"
| "run_section cx S_solo e = Some (snd (soloSeal cx e))"
| "run_section cx S_advance e = Some (advanceHeightLocked e)"
| "run_section cx S_prevotes e = Some (tryFinalizePrevotesLocked cx e)"
| "run_section cx S_prevote_timeout e = Some (runPrevote_timeout cx e)"
| "run_section cx S_precommits e = tryFinalizePrecommitsLocked cx e"
| "run_section cx S_precommit_timeout e = Some (runPrecommit_timeout e)"
| "run_section cx S_wake e = Some (case wake e of None \<Rightarrow> e | Some e' \<Rightarrow> e')"

text \<open>
  What can happen to a running node, in any order; \<open>DiskFaults\<close> changes which accesses to the database fail.
\<close>

datatype NodeEvent =
    Http mux ApiEnv ApiRequest
  | GotBlock Ctx int string BlockAnnounce
  | GotHeartbeat int string HeartbeatMsg
  | GotConsensus Ctx string ConsensusMsg
  | Engine Ctx Section
  | ProducerTick Ctx int
  | LimiterTick int
  | DiskFaults Store
  | PeerUp
  | PeerDown

definition with_sv :: "NodeState \<Rightarrow> ServerState option \<Rightarrow> NodeState option" where
  "with_sv ns r = map_option (\<lambda>sv. ns\<lparr>ns_sv := sv\<rparr>) r"

definition node_of :: "NodeState \<Rightarrow> Node option" where
  "node_of ns = sv_p2p (ns_sv ns)"

fun node_step :: "(string \<Rightarrow> string option) \<Rightarrow> NodeEvent \<Rightarrow> NodeState \<Rightarrow> NodeState option" where
  "node_step decode (Http mux X r) ns =
     (case ServeHTTP mux X (ns_rl ns) r (ns_sv ns) of ((_, sv'), rl') \<Rightarrow> Some (ns\<lparr>ns_sv := sv', ns_rl := rl'\<rparr>))"
| "node_step decode (GotBlock cx nowNs from a) ns =
     (case node_of ns of
        None \<Rightarrow> Some ns
      | Some n \<Rightarrow> (case subscribeBlocks n from a of None \<Rightarrow> Some ns | Some a' \<Rightarrow> Some (onBlock decode cx nowNs a' ns)))"
| "node_step decode (GotHeartbeat now from m) ns =
     (case node_of ns of
        None \<Rightarrow> Some ns
      | Some n \<Rightarrow> (case subscribeHeartbeats n from m of None \<Rightarrow> Some ns | Some m' \<Rightarrow> with_sv ns (onHeartbeat now m' (ns_sv ns))))"
| "node_step decode (GotConsensus cx from m) ns =
     (case node_of ns of
        None \<Rightarrow> Some ns
      | Some n \<Rightarrow> (case subscribeConsensus n from m of None \<Rightarrow> Some ns | Some m' \<Rightarrow> with_sv ns (onConsensus cx m' (ns_sv ns))))"
| "node_step decode (Engine cx sec) ns = with_sv ns (on_engine (run_section cx sec) (ns_sv ns))"
| "node_step decode (ProducerTick cx nowNs) ns =
     (case ns_producer ns of
        None \<Rightarrow> Some ns
      | Some p \<Rightarrow>
          (case trySeal (cx_geth cx) (ns_env ns) (cx_now cx) nowNs (cx_seen cx) p (sv_leader (ns_sv ns)) (sv_pool (ns_sv ns)) (sv_store (ns_sv ns)) of
             (res, pool', s') \<Rightarrow>
               Some (ns\<lparr>ns_sv := (ns_sv ns)\<lparr>sv_store := s', sv_pool := pool',
                 sv_p2p := (case res of None \<Rightarrow> sv_p2p (ns_sv ns)
                            | Some sr \<Rightarrow> map_option (\<lambda>n. PublishBlock n (announce (sr_Header sr) (sr_Txs sr))) (sv_p2p (ns_sv ns)))\<rparr>\<rparr>)))"
| "node_step decode (LimiterTick now) ns = Some (ns\<lparr>ns_rl := clean (ns_rl ns) now\<rparr>)"
| "node_step decode (DiskFaults s) ns = Some (ns\<lparr>ns_sv := (ns_sv ns)\<lparr>sv_store := s\<lparr>db := db (sv_store (ns_sv ns))\<rparr>\<rparr>\<rparr>)"
| "node_step decode PeerUp ns = Some (ns\<lparr>ns_sv := (ns_sv ns)\<lparr>sv_p2p := map_option ConnectedF (sv_p2p (ns_sv ns))\<rparr>\<rparr>)"
| "node_step decode PeerDown ns = Some (ns\<lparr>ns_sv := (ns_sv ns)\<lparr>sv_p2p := map_option DisconnectedF (sv_p2p (ns_sv ns))\<rparr>\<rparr>)"


section \<open>What every node keeps\<close>

text \<open>
  The invariants of the components together: typed entries in the store, a well-formed pool, a
  sorted roster without duplicates, and a ban on record for every peer at the threshold.
\<close>

definition srv_ok :: "ServerState \<Rightarrow> bool" where
  "srv_ok sv \<longleftrightarrow> typed_db (db (sv_store sv)) \<and> pred_option mp_wf (sv_pool sv) \<and> pred_option leader_wf (sv_leader sv)
     \<and> pred_option scorer_ok (sv_scorer sv)"

lemma srv_okD: "srv_ok sv \<Longrightarrow> typed_db (db (sv_store sv))"
  by (simp add: srv_ok_def)

lemma srv_ok_store: "srv_ok sv \<Longrightarrow> typed_db (db s) \<Longrightarrow> srv_ok (sv\<lparr>sv_store := s\<rparr>)"
  by (simp add: srv_ok_def)

lemma srv_ok_p2p [simp]: "srv_ok (sv\<lparr>sv_p2p := n\<rparr>) = srv_ok sv"
  by (simp add: srv_ok_def)

subsection \<open>Requests\<close>

lemma srv_ok_leaderStats: "srv_ok sv \<Longrightarrow> srv_ok (snd (leaderStats X sv))"
  by (auto simp: leaderStats_def case_prod_beta typed_leader srv_okD intro!: srv_ok_store split: option.split)

lemma srv_ok_p2pStats: "srv_ok sv \<Longrightarrow> srv_ok (snd (p2pStats X sv))"
  by (auto simp: p2pStats_def Node_Stats_def Let_def srv_ok_def Scorer_def scorer_ok_new split: option.split)

lemma srv_ok_status:
  assumes "srv_ok sv"
  shows "srv_ok (snd (handleLeader X vars r sv))" "srv_ok (snd (handleHealth X vars r sv))"
  using srv_ok_leaderStats [OF assms, of X] srv_ok_leaderStats [OF srv_ok_p2pStats [OF assms, of X], of X] assms
  by (auto simp: handleLeader_def handleHealth_def case_prod_beta Let_def split: option.split)

text \<open>Handlers that hand the outcome of one store operation on.\<close>

lemma leader_wf_ops:
  "leader_wf (fst (SetValidators l s now addrs))" "leader_wf l \<Longrightarrow> leader_wf (AddValidator l a)"
proof -
  show "leader_wf (fst (SetValidators l s now addrs))" unfolding leader_wf_roster SetValidators_roster by simp
  show "leader_wf l \<Longrightarrow> leader_wf (AddValidator l a)" by (auto simp: leader_wf_def AddValidator_def Let_def norm_eq)
qed

lemma typed_SetValidators: "typed_db (db s) \<Longrightarrow> typed_db (db (snd (SetValidators l s now addrs)))"
  by (simp add: SetValidators_def Let_def typed_SaveValidatorSet)

lemma srv_ok_writes:
  assumes ok: "srv_ok sv"
  shows "srv_ok (snd (handleSubmitTx X vars r sv))" "srv_ok (snd (handleSeed X vars r sv))" "srv_ok (snd (handlePrune X vars r sv))"
    "srv_ok (snd (handlePostSnapshot X vars r sv))" "srv_ok (snd (handleRestoreAccounts X vars r sv))"
    "srv_ok (snd (handleUnjail X vars r sv))"
proof -
  note t = srv_okD [OF ok]
  have "mp_wf m'" if "Add E orc now ord s m t0 = (h, m')" "sv_pool sv = Some m" for E orc now ord s m t0 h m'
    using that ok mp_wf_Add [of m E orc now ord s t0] by (simp add: srv_ok_def)
  moreover have "typed_db (db s')" if "ApplyTx (sv_store sv) x = (y, s')" for x y s' using typed_ApplyTx [OF t, of x] that by simp
  ultimately show "srv_ok (snd (handleSubmitTx X vars r sv))"
    using ok by (auto simp: handleSubmitTx_def srv_ok_def split: sum.split prod.split option.split)
  show "srv_ok (snd (handleSeed X vars r sv))"
    using ok typed_Seed [OF t] by (auto simp: handleSeed_def Let_def srv_ok_def split: sum.split prod.split) (metis snd_conv)+
  show "srv_ok (snd (handlePrune X vars r sv))"
    using ok typed_Prune [OF t] by (auto simp: handlePrune_def srv_ok_def split: sum.split prod.split) (metis snd_conv)+
  show "srv_ok (snd (handlePostSnapshot X vars r sv))"
    using ok typed_Import [OF t] by (auto simp: handlePostSnapshot_def Let_def srv_ok_def split: sum.split prod.split) (metis snd_conv)+
  show "srv_ok (snd (handleRestoreAccounts X vars r sv))"
    using ok typed_RestoreFile [OF t] by (auto simp: handleRestoreAccounts_def srv_ok_def split: sum.split prod.split) (metis snd_conv)+
  show "srv_ok (snd (handleUnjail X vars r sv))"
    using ok typed_Unjail [OF t] by (auto simp: handleUnjail_def srv_ok_def split: sum.split prod.split) (metis snd_conv)+
qed

lemma srv_ok_signed:
  assumes ok: "srv_ok sv"
  shows "srv_ok (snd (handleHeartbeat X vars r sv))" "srv_ok (snd (handleRegisterValidator X vars r sv))"
    "srv_ok (snd (handleSetValidators X vars r sv))"
proof -
  note t = srv_okD [OF ok]
  show "srv_ok (snd (handleHeartbeat X vars r sv))"
    using ok typed_Heartbeat [OF t]
    by (auto simp: handleHeartbeat_def Let_def intro!: srv_ok_store split: sum.split prod.split option.split)
  have l: "leader_wf l" if "sv_leader sv = Some l" for l using ok that by (simp add: srv_ok_def)
  show "srv_ok (snd (handleRegisterValidator X vars r sv))"
    using ok typed_leader(4) [OF t] leader_wf_ops(2) [OF l]
    by (auto simp: handleRegisterValidator_def Let_def case_prod_beta srv_ok_def split: sum.split option.split)
  show "srv_ok (snd (handleSetValidators X vars r sv))"
    using ok typed_leader(4) [OF typed_SetValidators [OF t]] leader_wf_ops(1)
    by (auto simp: handleSetValidators_def case_prod_beta srv_ok_def split: sum.split option.split)
qed

lemma srv_ok_auth: "srv_ok sv \<Longrightarrow> srv_ok (snd (h X vars r sv)) \<Longrightarrow> srv_ok (snd (auth h X vars r sv))"
  by (simp add: auth_def)

lemma srv_ok_ServeHTTP:
  assumes ok: "srv_ok sv" and run: "ServeHTTP mux X rl r sv = ((out, sv'), rl')"
  shows "srv_ok sv'"
proof (rule ServeHTTP_handler [where P = srv_ok, OF _ ok run])
  fix t h m vars
  assume "(t, h, m) \<in> set routes"
  then show "srv_ok (snd (h X vars (guarded r) sv))"
    unfolding routes_def using ok
    by (auto intro!: srv_ok_auth simp: srv_ok_status srv_ok_writes srv_ok_signed)
qed

subsection \<open>Gossip and the engine\<close>

lemma typed_apply_txs: "typed_db (db s) \<Longrightarrow> typed_db (db (snd (apply_txs s ts)))"
proof (induction s ts rule: apply_txs.induct)
  case (2 s t ts)
  then show ?case using typed_ApplyTx [of s t] by (auto split: prod.split sum.split)
qed simp

lemma typed_gossiped: "typed_db (db s) \<Longrightarrow> typed_db (db (snd (apply_gossiped E orc now s inp)))"
  using typed_apply_txs [of s] typed_SaveBlock
  by (auto simp: apply_gossiped_def split: sum.split prod.split) (metis snd_conv)+

lemma typed_VerifyAndSave:
  assumes "typed_db (db s)"
  shows "typed_db (db (snd (VerifyAndSaveGossipedBlockStrict E orc now s inp)))"
proof -
  obtain r s1 where j: "Validators.IsJailed s now (gb_Proposer inp) = (r, s1)" by fastforce
  have "typed_db (db s1)" using typed_IsJailed [OF assms, of now "gb_Proposer inp"] j by simp
  then show ?thesis
    using assms by (auto simp: VerifyAndSaveGossipedBlockStrict_def j typed_gossiped split: sum.split prod.split bool.split)
qed

lemma srv_ok_onBlock: "srv_ok (ns_sv ns) \<Longrightarrow> srv_ok (ns_sv (onBlock decode cx nowNs a ns))"
proof -
  assume ok: "srv_ok (ns_sv ns)"
  have sc: "pred_option scorer_ok (ReportPeer decode (sv_scorer (ns_sv ns)) nowNs (ba_FromPeer a) d)" for d
  proof (cases "sv_scorer (ns_sv ns)")
    case (Some c)
    with ok scorer_ok_Report [of c decode nowNs "ba_FromPeer a" d] show ?thesis by (auto simp: srv_ok_def)
  qed (simp add: ReportPeer_def)
  obtain r s' where v: "VerifyAndSaveGossipedBlockStrict (cx_geth cx) (cx_oracle cx) (cx_now cx) (sv_store (ns_sv ns))
      (gossip_input a (case sv_leader (ns_sv ns) of None \<Rightarrow> [] | Some l \<Rightarrow> ls_validators l)) = (r, s')" by fastforce
  have "typed_db (db s')" using typed_VerifyAndSave [OF srv_okD [OF ok]] v by (metis snd_conv)
  with ok sc show ?thesis by (cases r) (simp_all add: onBlock_def Let_def v srv_ok_def)
qed

lemma srv_ok_onHeartbeat: "onHeartbeat now m sv = Some sv' \<Longrightarrow> srv_ok sv \<Longrightarrow> srv_ok sv'"
  using typed_Heartbeat [OF srv_okD]
  by (auto simp: onHeartbeat_def intro: srv_ok_store split: if_splits option.splits)

lemma srv_ok_on_engine:
  assumes "on_engine f sv = Some sv'" and keep: "\<And>e e'. f e = Some e' \<Longrightarrow> eng_ok e \<Longrightarrow> eng_ok e'" and ok: "srv_ok sv"
  shows "srv_ok sv'"
proof -
  have "eng_ok (engine_view sv e)" for e using ok by (simp add: engine_view_def eng_ok_def srv_ok_def)
  with assms(1) keep ok show ?thesis
    by (fastforce simp: on_engine_def srv_ok_def eng_ok_def split: option.splits)
qed

lemma srv_ok_onConsensus: "onConsensus cx m sv = Some sv' \<Longrightarrow> srv_ok sv \<Longrightarrow> srv_ok sv'"
  by (auto simp: onConsensus_def split: if_splits option.splits
      elim!: srv_ok_on_engine intro: eng_ok_HandleProposal eng_ok_HandleVote)

lemma eng_ok_section: "run_section cx sec e = Some e' \<Longrightarrow> eng_ok e \<Longrightarrow> eng_ok e'"
  by (cases sec) (auto split: option.splits dest: eng_ok_align eng_ok_wake eng_ok_precommits
      intro: eng_ok_enter [OF prod.collapse [symmetric]] eng_ok_build [OF prod.collapse [symmetric]] eng_ok_solo [OF prod.collapse [symmetric]])

lemma ok_trySeal:
  assumes run: "trySeal E env now nowNs ord p leader pool s = (res, pool', s')"
    and ok: "typed_db (db s)" "pred_option mp_wf pool"
  shows "typed_db (db s') \<and> pred_option mp_wf pool'"
proof -
  have s1: "typed_db (db (snd (case leader of None \<Rightarrow> (True, s) | Some l \<Rightarrow> IsLocalLeader l s now (h + 1))))" for h
    using ok(1) typed_leader(3) [OF ok(1)] by (auto split: option.split)
  have tk: "mp_wf m \<Longrightarrow> mp_wf (snd (Take m n))" for m n by (rule mp_wf_Take)
  show ?thesis
    using run ok s1 typed_Seal wf_put_back tk
    by (auto simp: trySeal_def Let_def case_prod_beta split: if_splits sum.splits prod.splits option.splits)
qed

lemma srv_ok_event: "node_step decode ev ns = Some ns' \<Longrightarrow> srv_ok (ns_sv ns) \<Longrightarrow> srv_ok (ns_sv ns')"
proof (induction decode ev ns rule: node_step.induct)
  case (1 decode mux X r ns)
  then show ?case by (auto split: prod.splits intro: srv_ok_ServeHTTP)
next
  case (6 decode cx nowNs ns)
  show ?case
  proof (cases "ns_producer ns")
    case (Some p)
    obtain res pool' s' where run: "trySeal (cx_geth cx) (ns_env ns) (cx_now cx) nowNs (cx_seen cx) p (sv_leader (ns_sv ns))
        (sv_pool (ns_sv ns)) (sv_store (ns_sv ns)) = (res, pool', s')" by (metis surj_pair)
    from ok_trySeal [OF run] 6 Some run show ?thesis by (auto simp: srv_ok_def)
  qed (use 6 in simp)
next
  case (8 decode s ns)
  then show ?case by (auto intro!: srv_ok_store simp: srv_okD)
qed (auto simp: with_sv_def srv_ok_onBlock split: option.splits
    elim: srv_ok_onHeartbeat srv_ok_onConsensus srv_ok_on_engine [OF _ eng_ok_section])

subsection \<open>Start\<close>

lemma typed_boot_sync: "typed_db (db s) \<Longrightarrow> typed_db (db (boot_sync env io s))"
  using typed_Import [of s]
  by (auto simp: boot_sync_def SyncFromURL_def Let_def split: sum.split prod.split) (metis snd_conv)+

lemma stored_roster:
  assumes "typed_db (db s)" "GetValidatorSet s = Inr (Some r)"
  shows "roster (vsr_Addresses r) = vsr_Addresses r"
proof (rule typed_Get [OF assms(1), of validatorSetKey])
  fix v assume "txn_Get s (db s) validatorSetKey = Inr v" "typed_entry validatorSetKey v"
  with assms(2) show ?thesis by (cases v) (auto simp: GetValidatorSet_def)
qed (use assms(2) in \<open>auto simp: GetValidatorSet_def\<close>)

lemma LoadFromStore_wf:
  assumes "typed_db (db s)" "leader_wf l"
  shows "leader_wf (snd (LoadFromStore l s))"
proof -
  have "leader_wf (l\<lparr>ls_validators := sort (vsr_Addresses r)\<rparr>)" if "GetValidatorSet s = Inr (Some r)" for r
    using stored_roster [OF assms(1) that] roster_props(1) [of "vsr_Addresses r"] by (simp add: leader_wf_roster sorted_sort_id)
  with assms(2) show ?thesis by (auto simp: LoadFromStore_def split: sum.split option.split)
qed

lemma boot_roster_ok:
  assumes t: "typed_db (db s)"
  shows "leader_wf (fst (boot_roster env io s)) \<and> typed_db (db (snd (boot_roster env io s)))"
proof -
  let ?l = "SetStore (NewLeaderSchedule (env ''CHAIN_SIGNING_ADDRESS''))"
  have "leader_wf ?l" by (simp add: leader_wf_def SetStore_def NewLeaderSchedule_def)
  from LoadFromStore_wf [OF t this] obtain b l where "LoadFromStore ?l s = (b, l)" "leader_wf l"
    by (cases "LoadFromStore ?l s") auto
  then show ?thesis
    by (auto simp: boot_roster_def Let_def t typed_SetValidators leader_wf_ops(1) split: bool.split)
qed

lemma New_node_scorer: "fst (New_node L cfg) = Inr n \<Longrightarrow> pn_scorer n \<in> {None, Some NewPeerScorer}"
  by (auto simp: New_node_def start_on_host_def Let_def split: sum.splits if_splits)

lemma srv_ok_boot:
  assumes "boot env io s0 = Inr ns" "typed_db (db s0)"
  shows "srv_ok (ns_sv ns)"
proof -
  from assms(1) obtain g s1 l s3 where g: "InitGenesis s0 g = (Inr (), s1)"
    and r: "boot_roster env io (boot_sync env io s1) = (l, s3)"
    and sv: "sv_store (ns_sv ns) = s3" "sv_leader (ns_sv ns) = Some l" "sv_pool (ns_sv ns) = Some (New DefaultConfig)"
      "sv_scorer (ns_sv ns) \<in> {None, Some NewPeerScorer}"
    using New_node_scorer by (auto simp: boot_def Let_def SetBFT_def split: sum.splits prod.splits)
  have "typed_db (db s1)" using typed_InitGenesis [OF assms(2), of g] g by simp
  with boot_roster_ok [OF typed_boot_sync [OF this], of env io env io] r have "leader_wf l" "typed_db (db s3)" by simp_all
  with sv show ?thesis by (auto simp: srv_ok_def scorer_ok_new mp_wf_def New_def DefaultConfig_def)
qed

section \<open>The life of a node\<close>

text \<open>
  A process starts from what is on its disk, runs, and may stop after any step; a later process starts from
  the disk it left behind.
\<close>

inductive lives :: "('d \<Rightarrow> 's \<Rightarrow> bool) \<Rightarrow> ('e \<Rightarrow> 's \<Rightarrow> 's option) \<Rightarrow> ('s \<Rightarrow> 'd) \<Rightarrow> 'd \<Rightarrow> 's \<Rightarrow> bool"
  for start step disk d0 where
  first: "start d0 s \<Longrightarrow> lives start step disk d0 s"
| event: "lives start step disk d0 s \<Longrightarrow> step e s = Some s' \<Longrightarrow> lives start step disk d0 s'"
| again: "lives start step disk d0 s \<Longrightarrow> start (disk s) s' \<Longrightarrow> lives start step disk d0 s'"

locale persistent_process =
  fixes start :: "'d \<Rightarrow> 's \<Rightarrow> bool" and step :: "'e \<Rightarrow> 's \<Rightarrow> 's option" and disk :: "'s \<Rightarrow> 'd"
    and disk_ok :: "'d \<Rightarrow> bool" and ok :: "'s \<Rightarrow> bool"
  assumes start_ok: "disk_ok d \<Longrightarrow> start d s \<Longrightarrow> ok s"
    and step_ok: "ok s \<Longrightarrow> step e s = Some s' \<Longrightarrow> ok s'"
    and left_ok: "ok s \<Longrightarrow> disk_ok (disk s)"
begin

lemma always: "lives start step disk d0 s \<Longrightarrow> disk_ok d0 \<Longrightarrow> ok s"
  by (induction rule: lives.induct) (auto intro: start_ok step_ok left_ok)

end

definition node_start :: "DB \<Rightarrow> NodeState \<Rightarrow> bool" where
  "node_start d ns \<longleftrightarrow> (\<exists>env io s. db s = d \<and> boot env io s = Inr ns)"

definition node_disk :: "NodeState \<Rightarrow> DB" where
  "node_disk ns = db (sv_store (ns_sv ns))"

interpretation node: persistent_process node_start "node_step decode" node_disk typed_db "\<lambda>ns. srv_ok (ns_sv ns)"
  by unfold_locales (auto simp: node_start_def node_disk_def srv_okD dest: srv_ok_boot srv_ok_event)

text \<open>
  C17: from its first start on an empty disk, through any sequence of requests, gossip messages, engine sections,
  sealing ticks, failing disk accesses and restarts, a node keeps the invariants of all its components at once:
  every entry of the store has the type of its key, the pool is well formed, the roster is sorted,
  normalised and free of duplicates, every peer at the threshold has a ban on record, and the
  validator set on disk is the one \<^verbatim>\<open>LoadFromStore\<close> would return unchanged.
\<close>

theorem node_invariant:
  assumes run: "lives node_start (node_step decode) node_disk [] ns"
  shows "typed_db (db (sv_store (ns_sv ns)))
    \<and> (\<forall>m. sv_pool (ns_sv ns) = Some m \<longrightarrow> mp_wf m)
    \<and> (\<forall>l. sv_leader (ns_sv ns) = Some l \<longrightarrow> leader_wf l)
    \<and> (\<forall>c. sv_scorer (ns_sv ns) = Some c \<longrightarrow> scorer_ok c)
    \<and> (\<forall>r. GetValidatorSet (sv_store (ns_sv ns)) = Inr (Some r) \<longrightarrow> roster (vsr_Addresses r) = vsr_Addresses r)"
proof -
  have "srv_ok (ns_sv ns)" by (rule node.always [OF run]) (simp add: typed_db_def)
  then show ?thesis by (auto simp: srv_ok_def stored_roster)
qed

text \<open>A node without configuration starts on any healthy disk.\<close>

definition demo_libp2p :: Libp2p where
  "demo_libp2p =
     \<lparr>lp_UnmarshalPrivateKey = (\<lambda>_. None), lp_GenerateKey = Inr ''key'', lp_NewMultiaddr = (\<lambda>_. Inr ()),
      lp_NewConnManager = (\<lambda>_ _. Inr ()), lp_NewHost = (\<lambda>_ _ _. Inr ''me''), lp_NewGossipSub = Inr (), lp_Join = (\<lambda>_. Inr ()),
      lp_AddrInfo = (\<lambda>_. Inl (Errorf ''no peer id'')), lp_Dht = Inr (), lp_Dial = (\<lambda>_ _. (False, 0)), lp_Subscribe = (\<lambda>_. Inr ())\<rparr>"

lemma demo_New_node: "\<exists>n. fst (New_node demo_libp2p cfg) = Inr n"
proof -
  have "join_topics demo_libp2p ts = Inr ()" "subscribe_topics demo_libp2p ts = Inr ()" for ts
    by (induction ts) (simp_all add: demo_libp2p_def)
  moreover have "lp_NewMultiaddr demo_libp2p a = Inr ()" "lp_NewConnManager demo_libp2p i j = Inr ()"
    "lp_NewHost demo_libp2p b c d = Inr ''me''" "lp_NewGossipSub demo_libp2p = Inr ()" for a i j b c d
    by (simp_all add: demo_libp2p_def)
  moreover obtain k where "loadOrGenerateKey demo_libp2p (pc_PrivateKeyHex cfg) = Inr k"
    by (cases "loadOrGenerateKey demo_libp2p (pc_PrivateKeyHex cfg)")
      (auto simp: loadOrGenerateKey_def demo_libp2p_def split: option.splits sum.splits)
  ultimately show ?thesis by (simp add: New_node_def start_on_host_def Let_def)
qed

definition demo_io :: BootIO where
  "demo_io = \<lparr>bo_genesis = None, bo_http = (\<lambda>_ _. Inl (Errorf ''offline'')), bo_libp2p = demo_libp2p,
     bo_duration = (\<lambda>_. None), bo_geth = toy_geth, bo_now = 0\<rparr>"

lemma InitGenesis_valid:
  assumes "Validate g = (Inr (), g')" "healthy s"
  shows "\<exists>s'. InitGenesis s g = (Inr (), s')"
proof -
  obtain d where "txn_Set_all s (db s) (genesis_writes g') = Inr d" using assms(2) by (simp add: txn_Set_all_Inr)
  with assms show ?thesis by (simp add: InitGenesis_def db_Update_def split: sum.split)
qed

lemma demo_boot: "healthy s \<Longrightarrow> \<exists>ns. boot (\<lambda>_. []) demo_io s = Inr ns"
proof -
  assume h: "healthy s"
  have v: "Validate (Default 0) = (Inr (), Default 0)" by code_simp
  have g: "\<exists>s'. InitGenesis s (Default 0) = (Inr (), s')"
    by (rule InitGenesis_valid [OF v h])
  have n: "TrimSpace [] = []" by (simp add: TrimSpace_def)
  from g n demo_New_node show ?thesis
    by (auto simp: boot_def boot_genesis_def demo_io_def boot_sync_def Let_def split: prod.split sum.split) (metis sum.distinct(1))
qed

theorem node_invariant_witness:
  "\<exists>ns. lives node_start (node_step (\<lambda>_. None)) node_disk [] ns \<and> typed_db (db (sv_store (ns_sv ns)))
    \<and> (\<forall>l. sv_leader (ns_sv ns) = Some l \<longrightarrow> leader_wf l)"
proof -
  let ?lives = "lives node_start (node_step (\<lambda>_. None)) node_disk []"
  obtain ns where ns: "boot (\<lambda>_. []) demo_io empty_store = Inr ns" using demo_boot [of empty_store] by auto
  have "?lives ns" using ns empty_store_simps(1) unfolding node_start_def by (intro lives.first) blast
  then have run: "?lives (ns\<lparr>ns_rl := clean (ns_rl ns) 5\<rparr>)" by (rule lives.event [where e = "LimiterTick 5"]) simp
  let ?d = "empty_store\<lparr>db := db (sv_store (ns_sv ns))\<rparr>"
  obtain ns' where "boot (\<lambda>_. []) demo_io ?d = Inr ns'" using demo_boot [of ?d] by auto
  moreover have "db ?d = node_disk (ns\<lparr>ns_rl := clean (ns_rl ns) 5\<rparr>)" by (simp add: node_disk_def)
  ultimately have "node_start (node_disk (ns\<lparr>ns_rl := clean (ns_rl ns) 5\<rparr>)) ns'" unfolding node_start_def by blast
  from lives.again [OF run this] have l: "?lives ns'" .
  from node_invariant [OF l] l show ?thesis by blast
qed

end
