(* ===== verification/NodeLife.thy ===== *)
theory NodeLife
  imports NodeMain Replay Merkle
begin

text \<open>
  What nodes do over their lives: a restart keeps the ledger, and a block sealed by one node is taken over by another.
\<close>

section \<open>Restart\<close>

lemma SaveValidatorSet_frame:
  "k \<noteq> validatorSetKey \<Longrightarrow> map_of (db (snd (SaveValidatorSet s now addrs))) k = map_of (db s) k"
  by (auto simp: SaveValidatorSet_def Let_def db_Update_def txn_Set_def split: sum.split prod.split)

lemma SetValidators_frame:
  "k \<noteq> validatorSetKey \<Longrightarrow> map_of (db (snd (SetValidators l s now addrs))) k = map_of (db s) k"
  by (simp add: SetValidators_def Let_def SaveValidatorSet_frame)

lemma boot_roster_frame:
  "k \<noteq> validatorSetKey \<Longrightarrow> map_of (db (snd (boot_roster env io s))) k = map_of (db s) k"
  by (simp add: boot_roster_def Let_def SetValidators_frame split: prod.split bool.split)

lemma boot_parts:
  assumes "boot env io s0 = Inr ns"
  obtains g s1 where "InitGenesis s0 g = (Inr (), s1)"
    "sv_store (ns_sv ns) = snd (boot_roster env io (boot_sync env io s1))"
    "sv_leader (ns_sv ns) = Some (fst (boot_roster env io (boot_sync env io s1)))"
    "sv_pool (ns_sv ns) = Some (New DefaultConfig)"
  using assms by (auto simp: boot_def Let_def SetBFT_def split: sum.splits prod.splits)

text \<open>
  C18: a node that starts on a disk which already holds a chain, with no state sync configured, changes no entry but
  the stored validator set: accounts, buckets, blocks, transactions, jail and height are as they were. Without
  \<^verbatim>\<open>VALIDATORS\<close> the roster is the stored one and the disk is not touched at all. The pool starts empty: what
  was pending is lost.
\<close>

theorem restart_keeps_chain:
  assumes run: "boot env io s = Inr ns" and h: "healthy s"
    and old: "map_of (db s) (metaKey ''genesis_hash'') \<noteq> None" and sync: "TrimSpace (env ''STATE_SYNC_URL'') = []"
  shows "(\<forall>k. k \<noteq> validatorSetKey \<longrightarrow> map_of (db (sv_store (ns_sv ns))) k = map_of (db s) k)
    \<and> (\<forall>r. env ''VALIDATORS'' = [] \<and> GetValidatorSet s = Inr (Some r) \<and> vsr_Addresses r \<noteq> [] \<longrightarrow>
         db (sv_store (ns_sv ns)) = db s
       \<and> map_option ls_validators (sv_leader (ns_sv ns)) = Some (sort (vsr_Addresses r)))
    \<and> (\<exists>m. sv_pool (ns_sv ns) = Some m \<and> mp_order m = [])"
proof -
  obtain g s1 where b: "InitGenesis s g = (Inr (), s1)"
    "sv_store (ns_sv ns) = snd (boot_roster env io (boot_sync env io s1))"
    "sv_leader (ns_sv ns) = Some (fst (boot_roster env io (boot_sync env io s1)))" "sv_pool (ns_sv ns) = Some (New DefaultConfig)"
    using boot_parts [OF run] by metis
  obtain v where "txn_Get s (db s) (metaKey ''genesis_hash'') = Inr v" using h old by (auto simp: txn_Get_def)
  then have s1: "db s1 = db s" "getFault s1 = getFault s"
    using b(1) by (auto simp: InitGenesis_def db_Update_def set_params_def split: prod.splits sum.splits if_splits)
  have sy: "boot_sync env io s1 = s1" using sync by (simp add: boot_sync_def)
  have gv: "GetValidatorSet s1 = GetValidatorSet s" by (simp add: GetValidatorSet_def txn_Get_def s1)
  have "map_of (db (sv_store (ns_sv ns))) k = map_of (db s) k" if "k \<noteq> validatorSetKey" for k
    using boot_roster_frame [OF that] s1(1) by (simp add: b(2) sy)
  moreover have "db (sv_store (ns_sv ns)) = db s \<and> map_option ls_validators (sv_leader (ns_sv ns)) = Some (sort (vsr_Addresses r))"
    if "env ''VALIDATORS'' = []" "GetValidatorSet s = Inr (Some r)" "vsr_Addresses r \<noteq> []" for r
    using that s1(1) by (simp add: b(2,3) sy boot_roster_def Let_def LoadFromStore_def gv SetStore_def)
  moreover have "mp_order (New DefaultConfig) = []" by (simp add: New_def DefaultConfig_def)
  ultimately show ?thesis using b(4) by blast
qed

theorem restart_keeps_chain_witness:
  "\<exists>ns. boot (\<lambda>_. []) demo_io (empty_store\<lparr>db := [(metaKey ''genesis_hash'', RawV ''applied'')]\<rparr>) = Inr ns
     \<and> map_of (db (sv_store (ns_sv ns))) (metaKey ''genesis_hash'') = Some (RawV ''applied'')"
proof -
  let ?s = "empty_store\<lparr>db := [(metaKey ''genesis_hash'', RawV ''applied'')]\<rparr>"
  have h: "healthy ?s" by simp
  obtain ns where run: "boot (\<lambda>_. []) demo_io ?s = Inr ns" using demo_boot [OF h] by blast
  have "metaKey ''genesis_hash'' \<noteq> validatorSetKey" by (simp add: validatorSetKey_def metaKey_def)
  with restart_keeps_chain [OF run h] run show ?thesis by (simp add: TrimSpace_def)
qed

section \<open>A block travels\<close>

lemma gossip_input_announce: "gossip_input (announce (sr_Header res) (sr_Txs res)\<lparr>ba_FromPeer := p\<rparr>) vs = announced res vs"
  by (simp add: gossip_input_def announce_def announced_def Let_def)

text \<open>A tick that publishes has sealed a block on the store it found, unless the roster had a jail term to release.\<close>

lemma tick_published:
  assumes run: "node_step decode (ProducerTick cx t) A = Some A'"
    and p2p: "sv_p2p (ns_sv A) = Some n" "sv_p2p (ns_sv A') = Some n'" "nd_blocks n' = nd_blocks n @ [a]"
    and still: "\<And>l h. sv_leader (ns_sv A) = Some l \<Longrightarrow> snd (IsLocalLeader l (sv_store (ns_sv A)) (cx_now cx) h) = sv_store (ns_sv A)"
  obtains res txs where "a = (announce (sr_Header res) (sr_Txs res))\<lparr>ba_FromPeer := PeerID n\<rparr>"
    "SealBlockWithTxs (cx_geth cx) (cx_now cx) (sv_store (ns_sv A)) (env_CHAIN_SIGNING_PRIVATE_KEY (ns_env A))
       (seal_proposer (cx_geth cx) (ns_env A)) txs = (Inr res, sv_store (ns_sv A'))"
proof -
  obtain p where p: "ns_producer A = Some p" using run p2p by (cases "ns_producer A") auto
  obtain res pool' s' where ts: "trySeal (cx_geth cx) (ns_env A) (cx_now cx) t (cx_seen cx) p (sv_leader (ns_sv A))
      (sv_pool (ns_sv A)) (sv_store (ns_sv A)) = (res, pool', s')" by (metis surj_pair)
  obtain sr where sr: "res = Some sr" using run p2p p ts by (cases res) auto
  have A': "sv_store (ns_sv A') = s'" "sv_p2p (ns_sv A') = Some (PublishBlock n (announce (sr_Header sr) (sr_Txs sr)))"
    using run p2p p ts sr by auto
  have a: "a = (announce (sr_Header sr) (sr_Txs sr))\<lparr>ba_FromPeer := PeerID n\<rparr>"
    using p2p A'(2) by (auto simp: PublishBlock_def split: if_splits)
  have "\<exists>txs. SealBlockWithTxs (cx_geth cx) (cx_now cx) (sv_store (ns_sv A)) (env_CHAIN_SIGNING_PRIVATE_KEY (ns_env A))
       (seal_proposer (cx_geth cx) (ns_env A)) txs = (Inr sr, s')"
    using ts [unfolded sr] still
    by (cases "sv_leader (ns_sv A)") (auto simp: trySeal_def Let_def case_prod_beta split: if_splits sum.splits prod.splits, (metis prod.collapse)+)
  then show ?thesis using that a A'(1) by blast
qed


definition demo_peer :: "string \<Rightarrow> LeaderSchedule option \<Rightarrow> NodeState" where
  "demo_peer host sched =
     \<lparr>ns_sv = demo_server\<lparr>sv_pool := None, sv_leader := sched,
        sv_p2p := Some \<lparr>nd_Enabled = True, nd_host = Some host, nd_peerCount = 1, nd_blocks = [], nd_hb = [], nd_cons = []\<rparr>\<rparr>,
      ns_rl = newIPRateLimiter 120 60, ns_producer = Some (NewProducer 0),
      ns_env = \<lparr>env_MINING_ORACLE_ADDRESS = [], env_CHAIN_SIGNING_ADDRESS = ''0xab'', env_CHAIN_SIGNING_PRIVATE_KEY = []\<rparr>\<rparr>"

definition demo_cx :: "int \<Rightarrow> Ctx" where
  "demo_cx now = \<lparr>cx_geth = toy_geth, cx_oracle = [], cx_now = now, cx_order = id, cx_seen = id\<rparr>"


end
