(* ===== verification/BftRound.thy ===== *)
theory BftRound
  imports BftHandlers
begin

text \<open>
  A good round of \<^verbatim>\<open>internal/consensus/bft.go\<close>: what the engines do when the proposal and the votes of a quorum arrive, in
  whatever order and however often.
\<close>

section \<open>Books that hold votes for one block\<close>

definition heard :: "string \<Rightarrow> (string \<times> Vote) list \<Rightarrow> string set \<Rightarrow> bool" where
  "heard hash book A \<longleftrightarrow> kv_sorted book \<and> fst ` set book = A \<and> (\<forall>e \<in> set book. v_BlockHash (snd e) = hash)"

lemma heard_Nil [simp]: "heard hash [] A \<longleftrightarrow> A = {}"
  by (auto simp: heard_def)

lemma heard_set: "heard hash book A \<Longrightarrow> v_BlockHash v = hash \<Longrightarrow> heard hash (kv_set k v book) (insert k A)"
  by (auto simp: heard_def fst_set_kv_set set_kv_set)

lemma heard_lookup: "heard hash book A \<Longrightarrow> map_of book k = None \<longleftrightarrow> k \<notin> A"
  by (auto simp: heard_def map_of_eq_None_iff)

lemma heard_count:
  assumes "heard hash book A"
  shows "count_for hash book = int (card A)" "x \<noteq> hash \<Longrightarrow> count_for x book = 0" "finite A"
proof -
  have "filter (\<lambda>(_, v). v_BlockHash v = hash) book = book" using assms by (auto simp: heard_def intro!: filter_True)
  moreover have "card A = length book"
    using assms distinct_card [OF kv_sorted_distinct, of book] by (auto simp: heard_def)
  ultimately show "count_for hash book = int (card A)" by (simp add: count_for_def)
  show "x \<noteq> hash \<Longrightarrow> count_for x book = 0"
    using assms by (auto simp: heard_def count_for_def filter_empty_conv)
  show "finite A" using assms by (auto simp: heard_def)
qed

lemma heard_hashes: "heard hash book A \<Longrightarrow> set (voted_hashes book) = (if A = {} then {} else {hash})"
  by (cases book) (auto simp: heard_def voted_hashes_def)

text \<open>A search for a hash with a quorum finds the one hash of the book as soon as there are enough votes.\<close>

lemma heard_find:
  assumes h: "heard hash book A" and ord: "\<And>xs. set (f xs) = set xs" and q: "0 < q" and P: "P hash"
  shows "find (\<lambda>x. count_for x book \<ge> q \<and> P x) (f (voted_hashes book)) = (if q \<le> int (card A) then Some hash else None)"
proof -
  let ?r = "find (\<lambda>x. count_for x book \<ge> q \<and> P x) (f (voted_hashes book))"
  have s: "set (f (voted_hashes book)) = (if A = {} then {} else {hash})" using heard_hashes [OF h] ord by simp
  have c: "count_for hash book = int (card A)" by (rule heard_count(1) [OF h])
  show ?thesis
  proof (cases ?r)
    case None
    then have "\<not> (\<exists>x. x \<in> set (f (voted_hashes book)) \<and> (count_for x book \<ge> q \<and> P x))" unfolding find_None_iff .
    then have "\<not> (hash \<in> set (f (voted_hashes book)) \<and> q \<le> int (card A))" unfolding c [symmetric] using P by blast
    then have "\<not> (q \<le> int (card A) \<and> A \<noteq> {})" unfolding s by (cases "A = {}") simp_all
    then have "\<not> q \<le> int (card A)" using q by auto
    then show ?thesis using None by simp
  next
    case (Some x)
    then have x: "x \<in> set (f (voted_hashes book))" "q \<le> count_for x book" by (auto simp: find_Some_iff)
    with s have "x = hash" by (auto split: if_splits)
    with Some x c show ?thesis by simp
  qed
qed

lemmas heard_find1 = heard_find [where P = "\<lambda>x. True", simplified]

section \<open>Votes for the proposal\<close>

text \<open>
  What a vote must be to count for the proposal: for this height, round and block, correctly signed, by a validator of
  the roster that has no jail record. No vote heard so far contradicts the proposal if all the entries the
  engine remembers for this height and round name its hash.
\<close>

definition backs :: "Geth \<Rightarrow> BFTEngine \<Rightarrow> string \<Rightarrow> Vote \<Rightarrow> bool" where
  "backs E e hash v \<longleftrightarrow> VerifyVote E (Some v) = Inr () \<and> v_Height v = be_height e \<and> v_Round v = be_round e
     \<and> v_BlockHash v = hash \<and> known_voter e (v_Voter v) \<and> map_of (db (be_store e)) (jailKey (normalizeAddr (v_Voter v))) = None"

definition agrees :: "string \<Rightarrow> BFTEngine \<Rightarrow> bool" where
  "agrees hash e \<longleftrightarrow> (\<forall>k x. map_of (be_lastVotes e) k = Some x \<longrightarrow> vk_height x = be_height e \<longrightarrow> vk_round x = be_round e \<longrightarrow> vk_hash x = hash)"

definition noted :: "Vote \<Rightarrow> BFTEngine \<Rightarrow> BFTEngine" where
  "noted v e = e\<lparr>be_lastVotes := kv_set (v_Voter v @ ''|'' @ v_Type v)
     \<lparr>vk_height = v_Height v, vk_round = v_Round v, vk_vtype = v_Type v, vk_hash = v_BlockHash v\<rparr> (be_lastVotes e)\<rparr>"

lemma noted_simps [simp]:
  "be_step (noted v e) = be_step e" "be_store (noted v e) = be_store e" "be_height (noted v e) = be_height e"
  "be_round (noted v e) = be_round e" "be_prevotes (noted v e) = be_prevotes e" "be_precommits (noted v e) = be_precommits e"
  "be_cast (noted v e) = be_cast e" "be_leader (noted v e) = be_leader e" "be_proposal (noted v e) = be_proposal e"
  "be_pendingTxs (noted v e) = be_pendingTxs e" "be_privKey (noted v e) = be_privKey e" "be_localAddr (noted v e) = be_localAddr e"
  by (simp_all add: noted_def)

lemma agrees_noted: "agrees (v_BlockHash v) e \<Longrightarrow> agrees (v_BlockHash v) (noted v e)"
  by (auto simp: agrees_def noted_def)

lemma note_vote_agrees:
  assumes "agrees (v_BlockHash v) e" "v_Height v = be_height e" "v_Round v = be_round e"
  shows "note_vote cx v e = noted v e"
  using assms by (auto simp: note_vote_def noted_def agrees_def Let_def split: option.split)

lemma HandleVote_backs:
  assumes "healthy (be_store e)" "backs (cx_geth cx) e hash v" "agrees hash e"
  shows "HandleVote cx (Some v) e = record_vote cx v (noted v e)"
proof -
  have "IsJailed (be_store e) (cx_now cx) (v_Voter v) = (Inr (False, None), be_store e)"
    using assms(1,2) by (simp add: IsJailed_def Let_def norm_eq txn_Get_def backs_def)
  then show ?thesis
    using assms(2) note_vote_agrees [of v e cx] assms(3) by (simp add: HandleVote_def Let_def backs_def)
qed

text \<open>Asking whether a validator is jailed can only delete its jail record.\<close>

lemma IsJailed_blocks:
  "GetBlock (snd (IsJailed s now a)) n = GetBlock s n" "GetLatestHeight (snd (IsJailed s now a)) = GetLatestHeight s"
proof -
  have "snd (IsJailed s now a) = s \<or> (\<exists>k. snd (IsJailed s now a) = s\<lparr>db := kv_del (jailKey k) (db s)\<rparr>)"
    by (auto simp: IsJailed_def Let_def UnjailValidator_def db_Update_def txn_Delete_def split: sum.split error.split)
  then show "GetBlock (snd (IsJailed s now a)) n = GetBlock s n" "GetLatestHeight (snd (IsJailed s now a)) = GetLatestHeight s"
    by (auto simp: GetBlock_def GetLatestHeight_def txn_Get_def map_of_kv_del jailKey_def blockKey_def metaKey_def)
qed


section \<open>The stages of a good round\<close>

definition fair_ctx :: "Geth \<Rightarrow> Ctx \<Rightarrow> bool" where
  "fair_ctx E cx \<longleftrightarrow> cx_geth cx = E \<and> (\<forall>xs. set (cx_order cx xs) = set xs)"

text \<open>An engine that has taken up a proposal and is able to vote for it and to commit it.\<close>

definition able :: "Geth \<Rightarrow> Proposal \<Rightarrow> BFTEngine \<Rightarrow> bool" where
  "able E p e \<longleftrightarrow> healthy (be_store e) \<and> be_proposal e = Some p \<and> p_BlockHash p \<noteq> [] \<and> None \<notin> set (be_pendingTxs e)
     \<and> 0 < QuorumSize (validatorCountLocked e) \<and> be_localAddr e \<noteq> [] \<and> be_privKey e \<noteq> []
     \<and> (\<forall>m. is_ok (SignEIP191 E m (be_privKey e)))"

definition follows :: "BFTEngine \<Rightarrow> BFTEngine \<Rightarrow> bool" where
  "follows e0 e \<longleftrightarrow> be_store e = be_store e0 \<and> be_leader e = be_leader e0 \<and> be_height e = be_height e0 \<and> be_round e = be_round e0
     \<and> be_proposal e = be_proposal e0 \<and> be_pendingTxs e = be_pendingTxs e0 \<and> be_privKey e = be_privKey e0
     \<and> be_localAddr e = be_localAddr e0"

definition stored :: "Proposal \<Rightarrow> BFTEngine \<Rightarrow> BFTEngine \<Rightarrow> bool" where
  "stored p e0 e \<longleftrightarrow> (\<exists>b. GetBlock (be_store e) (p_Height p) = Inr b \<and> hdr_Hash b = p_BlockHash p \<and> hdr_PrevHash b = p_PrevHash p
       \<and> hdr_TxHashes b = p_TxHashes p \<and> hdr_LastCommitRound b = be_round e0
       \<and> QuorumSize (validatorCountLocked e0) \<le> hdr_LastCommitVotes b)
     \<and> GetLatestHeight (be_store e) = Inr (p_Height p)"

definition precommit_cast :: "Geth \<Rightarrow> Proposal \<Rightarrow> BFTEngine \<Rightarrow> BFTEngine \<Rightarrow> bool" where
  "precommit_cast E p e0 e \<longleftrightarrow> (\<exists>now w. SignVote E VotePrecommit (be_height e0) (be_round e0) (p_BlockHash p) (be_localAddr e0) (be_privKey e0) now = Inr w
     \<and> be_cast e = be_cast e0 @ [w])"

definition prevoting :: "Proposal \<Rightarrow> BFTEngine \<Rightarrow> string set \<Rightarrow> string set \<Rightarrow> BFTEngine \<Rightarrow> bool" where
  "prevoting p e0 A B e \<longleftrightarrow> follows e0 e \<and> agrees (p_BlockHash p) e \<and> be_step e = StepPrevote \<and> be_cast e = be_cast e0
     \<and> heard (p_BlockHash p) (be_prevotes e) (insert (be_localAddr e0) A) \<and> heard (p_BlockHash p) (be_precommits e) B"

definition precommitting :: "Geth \<Rightarrow> Proposal \<Rightarrow> BFTEngine \<Rightarrow> string set \<Rightarrow> BFTEngine \<Rightarrow> bool" where
  "precommitting E p e0 B e \<longleftrightarrow> follows e0 e \<and> agrees (p_BlockHash p) e \<and> be_step e = StepPrecommit \<and> precommit_cast E p e0 e
     \<and> heard (p_BlockHash p) (be_precommits e) (insert (be_localAddr e0) B)"

definition committed :: "Geth \<Rightarrow> Proposal \<Rightarrow> BFTEngine \<Rightarrow> BFTEngine \<Rightarrow> bool" where
  "committed E p e0 e \<longleftrightarrow> be_step e = StepCommit \<and> be_height e = be_height e0 \<and> be_round e = be_round e0
     \<and> precommit_cast E p e0 e \<and> stored p e0 e"

lemma able_signs: "able E p e \<Longrightarrow> is_ok (SignEIP191 E m (be_privKey e))"
  unfolding able_def by blast

lemma follows_count: "follows e0 e \<Longrightarrow> validatorCountLocked e = validatorCountLocked e0"
  by (simp add: follows_def validatorCountLocked_def)

lemma backs_follows: "follows e0 e \<Longrightarrow> backs E e hash v \<longleftrightarrow> backs E e0 hash v"
  by (cases "be_leader e0") (simp_all add: follows_def backs_def known_voter_def)

lemma follows_noted [simp]: "follows e0 (noted v e) = follows e0 e"
  by (simp add: follows_def)

lemma broadcast_precommit_run:
  assumes "able E p e0" "follows e0 e" "cx_geth cx = E"
  obtains w where "SignVote E VotePrecommit (be_height e0) (be_round e0) hash (be_localAddr e0) (be_privKey e0) (cx_now cx) = Inr w"
    "v_BlockHash w = hash" "follows e0 (broadcastVoteLocked cx VotePrecommit hash e)"
    "be_precommits (broadcastVoteLocked cx VotePrecommit hash e) = kv_set (be_localAddr e0) w (be_precommits e)"
    "be_cast (broadcastVoteLocked cx VotePrecommit hash e) = be_cast e @ [w]"
    "be_lastVotes (broadcastVoteLocked cx VotePrecommit hash e) = be_lastVotes e"
proof -
  obtain sig where "SignEIP191 E (BuildVoteMessage VotePrecommit (be_height e0) (be_round e0) hash) (be_privKey e0) = Inr sig"
    using able_signs [OF assms(1)] is_okE by blast
  then obtain w where w: "SignVote E VotePrecommit (be_height e0) (be_round e0) hash (be_localAddr e0) (be_privKey e0) (cx_now cx) = Inr w"
    "v_BlockHash w = hash" by (simp add: SignVote_def)
  have f: "be_privKey e \<noteq> []" "be_localAddr e \<noteq> []" "be_height e = be_height e0" "be_round e = be_round e0"
    "be_localAddr e = be_localAddr e0" "be_privKey e = be_privKey e0"
    using assms(1,2) unfolding able_def follows_def by simp_all
  have b: "broadcastVoteLocked cx VotePrecommit hash e = e\<lparr>be_precommits := kv_set (be_localAddr e0) w (be_precommits e),
      be_p2p := be_p2p (broadcastVoteLocked cx VotePrecommit hash e), be_cast := be_cast e @ [w]\<rparr>"
    using f w(1) assms(3) by (simp add: broadcastVoteLocked_def Let_def)
  show thesis
  proof (rule that [OF w])
    show "follows e0 (broadcastVoteLocked cx VotePrecommit hash e)" by (subst b) (use assms(2) in \<open>simp add: follows_def\<close>)
  qed (subst b, simp)+
qed

lemma prevotes_polled:
  assumes a: "able E p e0" and cx: "fair_ctx E cx" and st: "prevoting p e0 A B e"
  shows "if QuorumSize (validatorCountLocked e0) \<le> int (card (insert (be_localAddr e0) A))
    then precommitting E p e0 B (tryFinalizePrevotesLocked cx e) else tryFinalizePrevotesLocked cx e = e"
proof -
  let ?q = "QuorumSize (validatorCountLocked e0)" and ?hash = "p_BlockHash p" and ?V = "insert (be_localAddr e0) A"
  have f: "follows e0 e" and pv: "heard ?hash (be_prevotes e) ?V" and step: "be_step e = StepPrevote" and q: "0 < ?q" "?hash \<noteq> []"
    using st a by (simp_all add: prevoting_def able_def)
  have found: "find (\<lambda>h. count_for h (be_prevotes e) \<ge> ?q) (cx_order cx (voted_hashes (be_prevotes e)))
      = (if ?q \<le> int (card ?V) then Some ?hash else None)"
    using cx by (intro heard_find1 [OF pv _ q(1)]) (simp add: fair_ctx_def)
  show ?thesis
  proof (cases "?q \<le> int (card ?V)")
    case True
    define e1 where "e1 = e\<lparr>be_lockedHash := ?hash, be_lockedRound := be_round e, be_validHash := ?hash, be_validRound := be_round e,
      be_step := StepPrecommit\<rparr>"
    have f1: "follows e0 e1" using f by (simp add: follows_def e1_def)
    have t: "tryFinalizePrevotesLocked cx e = broadcastVoteLocked cx VotePrecommit ?hash e1"
      using found True step follows_count [OF f] q unfolding tryFinalizePrevotesLocked_def by (simp add: e1_def Let_def)
    obtain w where w: "SignVote E VotePrecommit (be_height e0) (be_round e0) ?hash (be_localAddr e0) (be_privKey e0) (cx_now cx) = Inr w"
      "v_BlockHash w = ?hash" "follows e0 (broadcastVoteLocked cx VotePrecommit ?hash e1)"
      "be_precommits (broadcastVoteLocked cx VotePrecommit ?hash e1) = kv_set (be_localAddr e0) w (be_precommits e1)"
      "be_cast (broadcastVoteLocked cx VotePrecommit ?hash e1) = be_cast e1 @ [w]"
      "be_lastVotes (broadcastVoteLocked cx VotePrecommit ?hash e1) = be_lastVotes e1"
      using broadcast_precommit_run [OF a f1] cx unfolding fair_ctx_def by metis
    have fields: "be_precommits e1 = be_precommits e" "be_cast e1 = be_cast e" "be_lastVotes e1 = be_lastVotes e" "be_step e1 = StepPrecommit"
      "be_height e1 = be_height e" "be_round e1 = be_round e"
      by (simp_all add: e1_def)
    show ?thesis
      using True st w fields heard_set [of ?hash "be_precommits e" B w "be_localAddr e0"]
      unfolding t prevoting_def precommitting_def precommit_cast_def agrees_def by auto
  next
    case False
    then show ?thesis
      using found step follows_count [OF f] q heard_count(2) [OF pv, of "[]"] by (simp add: tryFinalizePrevotesLocked_def Let_def)
  qed
qed

lemma precommits_polled:
  assumes a: "able E p e0" and cx: "fair_ctx E cx" and st: "precommitting E p e0 B e" and h: "p_Height p = be_height e0"
  shows "if QuorumSize (validatorCountLocked e0) \<le> int (card (insert (be_localAddr e0) B))
    then \<exists>e'. tryFinalizePrecommitsLocked cx e = Some e' \<and> committed E p e0 e' \<and> agrees (p_BlockHash p) e'
    else tryFinalizePrecommitsLocked cx e = Some e"
proof -
  let ?q = "QuorumSize (validatorCountLocked e0)" and ?hash = "p_BlockHash p" and ?V = "insert (be_localAddr e0) B"
  have f: "follows e0 e" and pc: "heard ?hash (be_precommits e) ?V" and step: "be_step e = StepPrecommit" and q: "0 < ?q" "?hash \<noteq> []"
    and ag: "agrees ?hash e" and cast: "precommit_cast E p e0 e"
    using st a by (simp_all add: precommitting_def able_def)
  have ord: "set (cx_order cx xs) = set xs" and E: "cx_geth cx = E" for xs using cx by (simp_all add: fair_ctx_def)
  have able: "healthy (be_store e0)" "be_proposal e0 = Some p" "None \<notin> set (be_pendingTxs e0)" using a by (simp_all add: able_def)
  have n: "validatorCountLocked e = validatorCountLocked e0" using f by (rule follows_count)
  note c = heard_count(1,2) [OF pc]
  show ?thesis
  proof (cases "?q \<le> int (card ?V)")
    case True
    have "\<exists>e' e'' b. tryFinalizePrecommitsLocked cx e = Some e' \<and> GetBlock (be_store e') (p_Height p) = Inr b
      \<and> hdr_Hash b = p_BlockHash p \<and> hdr_PrevHash b = p_PrevHash p \<and> hdr_TxHashes b = p_TxHashes p
      \<and> hdr_LastCommitRound b = be_round e \<and> hdr_LastCommitVotes b = count_for (p_BlockHash p) (be_precommits e)
      \<and> GetLatestHeight (be_store e') = Inr (p_Height p) \<and> be_step e' = StepCommit
      \<and> wake e' = Some e'' \<and> be_height e'' = be_height e + 1 \<and> be_round e'' = 0 \<and> be_step e'' = StepNewHeight
      \<and> be_lockedRound e'' = -1 \<and> be_store e'' = be_store e'
      \<and> be_height e' = be_height e \<and> be_round e' = be_round e \<and> be_lastVotes e' = be_lastVotes e \<and> be_cast e' = be_cast e"
    proof (rule commit_quorum)
      fix x assume "x \<noteq> []" "QuorumSize (validatorCountLocked e) \<le> count_for x (be_precommits e)"
      then show "x = ?hash" using c(2) [of x] n q by auto
    next
      show "be_privKey e = [] \<or> is_ok (SignEIP191 (cx_geth cx) (BuildChainSigningMessage (p_Height p) ?hash) (be_privKey e))"
        using able_signs [OF a] f unfolding E follows_def by simp
    qed (use able f n step ord True c q in \<open>simp_all add: follows_def\<close>)
    then obtain e' where e': "tryFinalizePrecommitsLocked cx e = Some e'" "be_step e' = StepCommit"
      "\<exists>b. GetBlock (be_store e') (p_Height p) = Inr b \<and> hdr_Hash b = p_BlockHash p \<and> hdr_PrevHash b = p_PrevHash p
         \<and> hdr_TxHashes b = p_TxHashes p \<and> hdr_LastCommitRound b = be_round e \<and> hdr_LastCommitVotes b = count_for ?hash (be_precommits e)"
      "GetLatestHeight (be_store e') = Inr (p_Height p)" "be_height e' = be_height e" "be_round e' = be_round e"
      "be_lastVotes e' = be_lastVotes e" "be_cast e' = be_cast e" by blast
    then have "stored p e0 e'" using True c f by (auto simp: stored_def follows_def)
    with e' f cast ag True show ?thesis by (auto simp: committed_def precommit_cast_def follows_def agrees_def)
  next
    case False
    have "find (\<lambda>h. count_for h (be_precommits e) \<ge> ?q \<and> h \<noteq> []) (cx_order cx (voted_hashes (be_precommits e))) = None"
      using heard_find [OF pc, of "cx_order cx" ?q "\<lambda>x. x \<noteq> []"] False ord q by simp
    then show ?thesis
      using False step n q c(2) [of "[]"] by (simp add: tryFinalizePrecommitsLocked_def Let_def)
  qed
qed

section \<open>Hearing votes in any order\<close>

text \<open>What reaches the engine in a round: votes, and the ticks on which its loop counts them.\<close>

datatype Input = Hear Ctx Vote | PollPrevotes Ctx | PollPrecommits Ctx

fun feed :: "BFTEngine \<Rightarrow> Input list \<Rightarrow> BFTEngine option" where
  "feed e [] = Some e"
| "feed e (Hear cx v # xs) = (case HandleVote cx (Some v) e of None \<Rightarrow> None | Some e' \<Rightarrow> feed e' xs)"
| "feed e (PollPrevotes cx # xs) = feed (tryFinalizePrevotesLocked cx e) xs"
| "feed e (PollPrecommits cx # xs) = (case tryFinalizePrecommitsLocked cx e of None \<Rightarrow> None | Some e' \<Rightarrow> feed e' xs)"

lemma feed_append: "feed e (xs @ ys) = (case feed e xs of None \<Rightarrow> None | Some e' \<Rightarrow> feed e' ys)"
  by (induction e xs rule: feed.induct) (auto split: option.split)

fun good_input :: "Geth \<Rightarrow> Proposal \<Rightarrow> BFTEngine \<Rightarrow> Input \<Rightarrow> bool" where
  "good_input E p e (Hear cx v) \<longleftrightarrow> fair_ctx E cx \<and> backs E e (p_BlockHash p) v"
| "good_input E p e (PollPrevotes cx) \<longleftrightarrow> fair_ctx E cx"
| "good_input E p e (PollPrecommits cx) \<longleftrightarrow> fair_ctx E cx"

definition voters :: "VoteType \<Rightarrow> Input list \<Rightarrow> string set" where
  "voters ty xs = {ToLower (v_Voter v) | cx v. Hear cx v \<in> set xs \<and> v_Type v = ty}"

lemma voters_simps [simp]:
  "voters ty [] = {}" "voters ty (PollPrevotes cx # xs) = voters ty xs" "voters ty (PollPrecommits cx # xs) = voters ty xs"
  "voters ty (Hear cx v # xs) = (if v_Type v = ty then insert (ToLower (v_Voter v)) (voters ty xs) else voters ty xs)"
  by (auto simp: voters_def)

lemma voters_append [simp]: "voters ty (xs @ ys) = voters ty xs \<union> voters ty ys"
  by (auto simp: voters_def)

definition in_round :: "Geth \<Rightarrow> Proposal \<Rightarrow> BFTEngine \<Rightarrow> bool \<Rightarrow> string set \<Rightarrow> string set \<Rightarrow> BFTEngine \<Rightarrow> bool" where
  "in_round E p e0 pv A B e \<longleftrightarrow> pv \<and> prevoting p e0 A B e \<or> precommitting E p e0 B e \<or> committed E p e0 e \<and> agrees (p_BlockHash p) e"

lemma backs_type: "backs E e hash v \<Longrightarrow> v_Type v = VotePrevote \<or> v_Type v = VotePrecommit"
  by (auto simp: backs_def VerifyVote_def split: if_splits)

lemma vote_types_differ [simp]: "VotePrecommit \<noteq> VotePrevote" "VotePrevote \<noteq> VotePrecommit"
  by simp_all

lemma tryFinalize_idle [simp]:
  "be_step e \<noteq> StepPrevote \<Longrightarrow> tryFinalizePrevotesLocked cx e = e"
  "be_step e \<noteq> StepPrecommit \<Longrightarrow> tryFinalizePrecommitsLocked cx e = Some e"
  by (simp_all add: tryFinalizePrevotesLocked_def tryFinalizePrecommitsLocked_def)

lemma poll_in_round:
  assumes able: "able E p e0" and height: "p_Height p = be_height e0" and cx: "fair_ctx E cx" and r: "in_round E p e0 pv A B e"
  shows "in_round E p e0 pv A B (tryFinalizePrevotesLocked cx e)"
    "\<exists>e'. tryFinalizePrecommitsLocked cx e = Some e' \<and> in_round E p e0 pv A B e'"
proof -
  have s: "be_step e = StepPrevote" if "prevoting p e0 A B e" using that by (simp add: prevoting_def)
  have t: "be_step e = StepPrecommit" if "precommitting E p e0 B e" using that by (simp add: precommitting_def)
  have u: "be_step e = StepCommit" if "committed E p e0 e" using that by (simp add: committed_def)
  show "in_round E p e0 pv A B (tryFinalizePrevotesLocked cx e)"
  proof (cases "prevoting p e0 A B e")
    case True
    from prevotes_polled [OF able cx True] True r show ?thesis by (auto simp: in_round_def split: if_splits)
  next
    case False
    then have "be_step e \<noteq> StepPrevote" using r t u by (auto simp: in_round_def)
    then show ?thesis using r by simp
  qed
  show "\<exists>e'. tryFinalizePrecommitsLocked cx e = Some e' \<and> in_round E p e0 pv A B e'"
  proof (cases "precommitting E p e0 B e")
    case True
    from precommits_polled [OF able cx True height] r show ?thesis by (auto simp: in_round_def split: if_splits)
  next
    case False
    then have "be_step e \<noteq> StepPrecommit" using r s u by (auto simp: in_round_def)
    then show ?thesis using r by simp
  qed
qed

lemma with_vote:
  "follows e0 (e\<lparr>be_prevotes := b\<rparr>) = follows e0 e" "follows e0 (e\<lparr>be_precommits := b\<rparr>) = follows e0 e"
  "agrees hash (e\<lparr>be_prevotes := b\<rparr>) = agrees hash e" "agrees hash (e\<lparr>be_precommits := b\<rparr>) = agrees hash e"
  "precommit_cast E p e0 (e\<lparr>be_prevotes := b\<rparr>) = precommit_cast E p e0 e"
  "precommit_cast E p e0 (e\<lparr>be_precommits := b\<rparr>) = precommit_cast E p e0 e" "precommit_cast E p e0 (noted v e) = precommit_cast E p e0 e"
  "stored p e0 (e\<lparr>be_prevotes := b\<rparr>) = stored p e0 e" "stored p e0 (e\<lparr>be_precommits := b\<rparr>) = stored p e0 e"
  "stored p e0 (noted v e) = stored p e0 e"
  by (simp_all add: follows_def agrees_def precommit_cast_def stored_def)

lemma committed_hears:
  assumes c: "committed E p e0 e" "agrees (p_BlockHash p) e" and v: "backs E e0 (p_BlockHash p) v"
  shows "\<exists>e'. HandleVote cx (Some v) e = Some e' \<and> committed E p e0 e' \<and> agrees (p_BlockHash p) e'"
proof -
  obtain jr s1 where j: "IsJailed (be_store e) (cx_now cx) (v_Voter v) = (jr, s1)" by fastforce
  have b: "GetBlock s1 n = GetBlock (be_store e) n" "GetLatestHeight s1 = GetLatestHeight (be_store e)" for n
    using IsJailed_blocks [of "be_store e" "cx_now cx" "v_Voter v"] j by simp_all
  define e1 where "e1 = e\<lparr>be_store := s1\<rparr>"
  have c1: "committed E p e0 e1" "agrees (p_BlockHash p) e1"
    using c b by (simp_all add: e1_def committed_def stored_def precommit_cast_def agrees_def)
  have pos: "v_Height v = be_height e1" "v_Round v = be_round e1" "v_BlockHash v = p_BlockHash p" and step: "be_step e1 = StepCommit"
    using c1 v by (simp_all add: committed_def backs_def)
  have n: "committed E p e0 (noted v e1)" "agrees (p_BlockHash p) (noted v e1)" "note_vote cx v e1 = noted v e1"
    using c1 pos agrees_noted [of v e1] note_vote_agrees [of v e1 cx] by (simp_all add: committed_def with_vote)
  have "\<exists>e'. record_vote cx v (noted v e1) = Some e' \<and> committed E p e0 e' \<and> agrees (p_BlockHash p) e'"
    using n pos step by (simp add: record_vote_def Let_def committed_def with_vote)
  then show ?thesis
    using c c1 n(3) pos by (auto simp: HandleVote_def j e1_def Let_def split: sum.split)
qed

lemma hear_in_round:
  assumes able: "able E p e0" and height: "p_Height p = be_height e0" and cx: "fair_ctx E cx"
    and r: "in_round E p e0 pv A B e" and v: "backs E e0 (p_BlockHash p) v"
  shows "\<exists>e'. HandleVote cx (Some v) e = Some e'
    \<and> in_round E p e0 pv (if v_Type v = VotePrevote then insert (ToLower (v_Voter v)) A else A)
        (if v_Type v = VotePrecommit then insert (ToLower (v_Voter v)) B else B) e'"
proof (cases "committed E p e0 e \<and> agrees (p_BlockHash p) e")
  case True
  then show ?thesis using committed_hears [of E p e0 e v cx] v by (auto simp: in_round_def)
next
  case False
  let ?k = "ToLower (v_Voter v)" and ?hash = "p_BlockHash p"
  let ?A = "if v_Type v = VotePrevote then insert ?k A else A" and ?B = "if v_Type v = VotePrecommit then insert ?k B else B"
  from r False have st: "pv \<and> prevoting p e0 A B e \<or> precommitting E p e0 B e" by (simp add: in_round_def)
  then have f: "follows e0 e" "agrees ?hash e" by (auto simp: prevoting_def precommitting_def)
  have pos: "v_Round v = be_round e" "v_BlockHash v = ?hash" using f v by (simp_all add: follows_def backs_def)
  have "healthy (be_store e)" "backs (cx_geth cx) e ?hash v"
    using able f v cx backs_follows [OF f(1)] by (simp_all add: able_def follows_def fair_ctx_def)
  then have run: "HandleVote cx (Some v) e = record_vote cx v (noted v e)" using f(2) by (rule HandleVote_backs)
  have ag: "agrees ?hash (noted v e)" using agrees_noted [of v e] f pos by simp
  have n: "prevoting p e0 A B e \<Longrightarrow> prevoting p e0 A B (noted v e)" "precommitting E p e0 B e \<Longrightarrow> precommitting E p e0 B (noted v e)"
    using ag by (simp_all add: prevoting_def precommitting_def with_vote)
  show ?thesis
  proof (cases "v_Type v = VotePrevote")
    case pv: True
    show ?thesis
    proof (cases "map_of (be_prevotes e) ?k = None")
      case True
      define e1 where "e1 = noted v e\<lparr>be_prevotes := kv_set ?k v (be_prevotes e)\<rparr>"
      have "prevoting p e0 A B e \<Longrightarrow> prevoting p e0 (insert ?k A) B e1" "precommitting E p e0 B e \<Longrightarrow> precommitting E p e0 B e1"
        using n pos(2) heard_set [of ?hash "be_prevotes e" "insert (be_localAddr e0) A" v ?k]
        by (simp_all add: e1_def prevoting_def precommitting_def with_vote insert_commute)
      then have "in_round E p e0 pv (insert ?k A) B e1" using st by (auto simp: in_round_def)
      from poll_in_round(1) [OF able height cx this] show ?thesis
        using pv True pos by (simp add: run record_vote_def e1_def Let_def)
    next
      case False
      then have "prevoting p e0 A B e \<Longrightarrow> ?k \<in> insert (be_localAddr e0) A"
        using heard_lookup [of ?hash "be_prevotes e" "insert (be_localAddr e0) A" ?k] by (simp add: prevoting_def)
      then have "prevoting p e0 A B e \<Longrightarrow> prevoting p e0 (insert ?k A) B (noted v e)"
        using n(1) by (auto simp: prevoting_def insert_absorb insert_commute)
      then have "in_round E p e0 pv (insert ?k A) B (noted v e)" using st n by (auto simp: in_round_def)
      then show ?thesis using pv False by (simp add: run record_vote_def Let_def)
    qed
  next
    case False
    then have pc: "v_Type v = VotePrecommit" using backs_type [OF v] by simp
    show ?thesis
    proof (cases "map_of (be_precommits e) ?k = None")
      case True
      define e1 where "e1 = noted v e\<lparr>be_precommits := kv_set ?k v (be_precommits e)\<rparr>"
      have "prevoting p e0 A B e \<Longrightarrow> prevoting p e0 A (insert ?k B) e1" "precommitting E p e0 B e \<Longrightarrow> precommitting E p e0 (insert ?k B) e1"
        using n pos(2) heard_set [of ?hash "be_precommits e" B v ?k]
          heard_set [of ?hash "be_precommits e" "insert (be_localAddr e0) B" v ?k]
        by (simp_all add: e1_def prevoting_def precommitting_def with_vote insert_commute)
      then have "in_round E p e0 pv A (insert ?k B) e1" using st by (auto simp: in_round_def)
      from poll_in_round(2) [OF able height cx this] show ?thesis
        using pc True pos by (simp add: run record_vote_def e1_def Let_def)
    next
      case False
      then have "prevoting p e0 A B e \<Longrightarrow> ?k \<in> B" "precommitting E p e0 B e \<Longrightarrow> ?k \<in> insert (be_localAddr e0) B"
        using heard_lookup [of ?hash "be_precommits e" B ?k] heard_lookup [of ?hash "be_precommits e" "insert (be_localAddr e0) B" ?k]
        by (simp_all add: prevoting_def precommitting_def)
      then have "in_round E p e0 pv A (insert ?k B) (noted v e)"
        using st n by (auto simp: in_round_def prevoting_def precommitting_def insert_absorb insert_commute)
      then show ?thesis using pc False by (simp add: run record_vote_def Let_def)
    qed
  qed
qed

lemma feed_in_round:
  assumes "able E p e0" "p_Height p = be_height e0" "list_all (good_input E p e0) xs" "in_round E p e0 pv A B e"
  shows "\<exists>e'. feed e xs = Some e' \<and> in_round E p e0 pv (A \<union> voters VotePrevote xs) (B \<union> voters VotePrecommit xs) e'"
  using assms(3,4)
proof (induction xs arbitrary: e A B)
  case (Cons x xs)
  note IH = Cons.IH [of _ _ _] and prems = Cons.prems
  show ?case
  proof (cases x)
    case (Hear cx v)
    from hear_in_round [OF assms(1,2) _ prems(2), of cx v] prems(1) Hear
    obtain e1 where "HandleVote cx (Some v) e = Some e1" "in_round E p e0 pv (if v_Type v = VotePrevote then insert (ToLower (v_Voter v)) A else A)
        (if v_Type v = VotePrecommit then insert (ToLower (v_Voter v)) B else B) e1" by auto
    with Cons.IH [OF _ this(2)] prems(1) Hear show ?thesis by (auto split: if_splits)
  next
    case (PollPrevotes cx)
    with Cons.IH [OF _ poll_in_round(1) [OF assms(1,2) _ prems(2)], of cx] prems(1) show ?thesis by simp
  next
    case (PollPrecommits cx)
    with poll_in_round(2) [OF assms(1,2) _ prems(2), of cx] prems(1)
    obtain e1 where "tryFinalizePrecommitsLocked cx e = Some e1" "in_round E p e0 pv A B e1" by auto
    with Cons.IH [OF _ this(2)] prems(1) PollPrecommits show ?thesis by simp
  qed
qed simp

section \<open>A quorum of votes commits the proposal\<close>

text \<open>With enough prevotes the next tick ends the prevote stage; with enough precommits the one after commits.\<close>

lemma end_prevotes:
  assumes "able E p e0" "p_Height p = be_height e0" "list_all (good_input E p e0) xs" "fair_ctx E cx" "in_round E p e0 pv A B e"
    and q: "QuorumSize (validatorCountLocked e0) \<le> int (card (insert (be_localAddr e0) (A \<union> voters VotePrevote xs)))"
  shows "\<exists>e'. feed e (xs @ [PollPrevotes cx]) = Some e' \<and> in_round E p e0 False A' (B \<union> voters VotePrecommit xs) e'"
proof -
  let ?A = "A \<union> voters VotePrevote xs" and ?B = "B \<union> voters VotePrecommit xs"
  obtain e1 where e1: "feed e xs = Some e1" "in_round E p e0 pv ?A ?B e1" using feed_in_round [OF assms(1,2,3,5)] by blast
  have "in_round E p e0 False A' ?B (tryFinalizePrevotesLocked cx e1)"
  proof (cases "prevoting p e0 ?A ?B e1")
    case True
    then show ?thesis using prevotes_polled [OF assms(1,4) True] q by (simp add: in_round_def)
  next
    case False
    then have "in_round E p e0 False A' ?B e1" "be_step e1 \<noteq> StepPrevote"
      using e1(2) by (auto simp: in_round_def precommitting_def committed_def)
    then show ?thesis by simp
  qed
  with e1(1) show ?thesis by (simp add: feed_append)
qed

lemma end_precommits:
  assumes "able E p e0" "p_Height p = be_height e0" "list_all (good_input E p e0) xs" "fair_ctx E cx" "in_round E p e0 False A B e"
    and q: "QuorumSize (validatorCountLocked e0) \<le> int (card (insert (be_localAddr e0) (B \<union> voters VotePrecommit xs)))"
  shows "\<exists>e'. feed e (xs @ [PollPrecommits cx]) = Some e' \<and> committed E p e0 e'"
proof -
  let ?B = "B \<union> voters VotePrecommit xs"
  obtain e1 where e1: "feed e xs = Some e1" "in_round E p e0 False (A \<union> voters VotePrevote xs) ?B e1"
    using feed_in_round [OF assms(1,2,3,5)] by blast
  show ?thesis
  proof (cases "precommitting E p e0 ?B e1")
    case True
    then show ?thesis using precommits_polled [OF assms(1,4) True assms(2)] q e1(1) by (auto simp: feed_append)
  next
    case False
    with e1(2) have "committed E p e0 e1" by (auto simp: in_round_def)
    moreover from this have "be_step e1 \<noteq> StepPrecommit" by (simp add: committed_def)
    ultimately show ?thesis using e1(1) by (simp add: feed_append)
  qed
qed

text \<open>
  Within a round only the set of the voters matters. An engine that has taken up the proposal and prevoted it
  commits it as soon as it has heard a quorum of prevotes and a quorum of precommits for it, whatever their
  order, their repetition, the clock and the ticks in between, and the block it stores carries the proposal's fields.
\<close>

theorem quorum_round:
  assumes "able E p e" "p_Height p = be_height e" "prevoting p e {} {} e" and good: "list_all (good_input E p e) xs"
    and q: "QuorumSize (validatorCountLocked e) \<le> int (card (insert (be_localAddr e) (voters VotePrevote xs)))"
      "QuorumSize (validatorCountLocked e) \<le> int (card (insert (be_localAddr e) (voters VotePrecommit xs)))"
    and cx: "fair_ctx E c1" "fair_ctx E c2"
  shows "\<exists>e'. feed e (xs @ [PollPrevotes c1, PollPrecommits c2]) = Some e' \<and> be_step e' = StepCommit \<and> stored p e e'"
proof -
  have "in_round E p e True {} {} e" using assms(3) by (simp add: in_round_def)
  from end_prevotes [OF assms(1,2) good cx(1) this, where A' = "{}"] q(1)
  obtain e1 where e1: "feed e (xs @ [PollPrevotes c1]) = Some e1" "in_round E p e False {} (voters VotePrecommit xs) e1" by auto
  from end_precommits [OF assms(1,2) _ cx(2) e1(2), of "[]"] q(2)
  obtain e2 where "feed e1 [PollPrecommits c2] = Some e2" "committed E p e e2" by auto
  moreover have "feed e (xs @ [PollPrevotes c1, PollPrecommits c2]) = feed e1 [PollPrecommits c2]"
    using e1(1) feed_append [of e "xs @ [PollPrevotes c1]" "[PollPrecommits c2]"] by simp
  ultimately show ?thesis by (auto simp: committed_def)
qed

lemma demo_fair: "fair_ctx keyed_geth demo_ctx"
  by (simp add: fair_ctx_def)

lemma demo_backs:
  assumes "ty \<in> {VotePrevote, VotePrecommit}" "k' \<in> {CHR ''a'', CHR ''b''}" "be_store e = demo_store" "be_height e = 1" "be_round e = 0"
    and "be_leader e = Some \<lparr>ls_validators = [alice, bob], ls_localAddr = a, ls_store = False\<rparr>"
  shows "backs keyed_geth e demo_hash (demo_vote ty k')"
  using assms demo_vote_verifies [OF assms(1)] by (auto simp: backs_def known_voter_def Count_def addr_def demo_store_def jailKey_def)

theorem quorum_round_witness:
  "\<exists>e'. feed (demo_prevoting (CHR ''a'')) [Hear demo_ctx (demo_vote VotePrecommit (CHR ''b'')), Hear demo_ctx (demo_vote VotePrevote (CHR ''b'')),
      PollPrevotes demo_ctx, PollPrecommits demo_ctx] = Some e' \<and> be_step e' = StepCommit \<and> stored demo_prop (demo_prevoting (CHR ''a'')) e'"
proof -
  let ?e = "demo_prevoting (CHR ''a'')"
  let ?xs = "[Hear demo_ctx (demo_vote VotePrecommit (CHR ''b'')), Hear demo_ctx (demo_vote VotePrevote (CHR ''b''))]"
  have p: "p_BlockHash demo_prop = demo_hash" "p_Height demo_prop = 1" by (simp_all add: demo_prop_def)
  have q: "QuorumSize (validatorCountLocked ?e) = 2" by (simp add: validatorCountLocked_def Count_def demo_quorum)
  have n: "be_proposal ?e = Some demo_prop" "be_pendingTxs ?e = []" by (simp_all add: demo_prevoting_def)
  have a: "able keyed_geth demo_prop ?e" by (simp add: able_def q p n demo_healthy addr_def)
  have s: "prevoting demo_prop ?e {} {} ?e"
    by (simp add: prevoting_def follows_def agrees_def heard_def kv_sorted_def p addr_def)
  have g: "list_all (good_input keyed_geth demo_prop ?e) ?xs"
    using demo_backs [of _ "CHR ''b''" ?e "addr (CHR ''a'')"] by (simp add: demo_fair p)
  have v: "insert (be_localAddr ?e) (voters VotePrevote ?xs) = {alice, bob}" "insert (be_localAddr ?e) (voters VotePrecommit ?xs) = {alice, bob}"
    by (auto simp: addr_def)
  show ?thesis using quorum_round [OF a _ s g _ _ demo_fair demo_fair] unfolding v q by (simp add: p)
qed

section \<open>A good round of the network\<close>

text \<open>A validator \<open>a\<close> at the start of the round of proposal \<open>p\<close>, and what its configuration and store must offer.\<close>

definition ready :: "Geth \<Rightarrow> string set \<Rightarrow> Ctx \<Rightarrow> Proposal \<Rightarrow> string \<Rightarrow> BFTEngine \<Rightarrow> bool" where
  "ready E H cx p a e \<longleftrightarrow>
     be_height e = p_Height p \<and> be_round e = p_Round p \<and> be_step e = StepPropose \<and> be_prevotes e = [] \<and> be_precommits e = []
     \<and> be_lockedRound e < 0 \<and> None \<notin> set (be_pendingTxs e) \<and> agrees (p_BlockHash p) e
     \<and> be_localAddr e = a \<and> a \<noteq> [] \<and> ToLower a = a \<and> be_privKey e \<noteq> []
     \<and> (\<exists>b. AddressFromPrivateKey E (be_privKey e) = Inr b \<and> EqualFold b a)
     \<and> (\<forall>m. \<exists>s. SignEIP191 E m (be_privKey e) = Inr s \<and> s \<noteq> [])
     \<and> healthy (be_store e) \<and> validateProposalLocked (be_store e) p = Inr ()
     \<and> (\<exists>x. expected_leader cx (p_Height p) e = (x, be_store e) \<and> (x = [] \<or> EqualFold (p_Proposer p) x))
     \<and> 0 < QuorumSize (validatorCountLocked e) \<and> QuorumSize (validatorCountLocked e) \<le> int (card H)
     \<and> (\<forall>b \<in> H. known_voter e b \<and> map_of (db (be_store e)) (jailKey (normalizeAddr b)) = None)"

definition cast_for :: "Geth \<Rightarrow> Proposal \<Rightarrow> VoteType \<Rightarrow> string \<Rightarrow> Vote \<Rightarrow> bool" where
  "cast_for E p ty a v \<longleftrightarrow> v_Type v = ty \<and> v_Height v = p_Height p \<and> v_Round v = p_Round p \<and> v_BlockHash v = p_BlockHash p
     \<and> v_Voter v = a \<and> VerifyVote E (Some v) = Inr ()"

lemma ready_signs:
  assumes E: "geth_laws E" and r: "ready E H cx p a e" and ty: "ty = VotePrevote \<or> ty = VotePrecommit"
    and v: "SignVote E ty (p_Height p) (p_Round p) (p_BlockHash p) a (be_privKey e) now = Inr v"
  shows "cast_for E p ty a v"
proof -
  obtain b where b: "AddressFromPrivateKey E (be_privKey e) = Inr b" "EqualFold b a" and a: "a \<noteq> []" "ToLower a = a"
    and sg: "\<forall>m. \<exists>s. SignEIP191 E m (be_privKey e) = Inr s \<and> s \<noteq> []"
    using r unfolding ready_def by blast
  obtain s where s: "SignEIP191 E (BuildVoteMessage ty (p_Height p) (p_Round p) (p_BlockHash p)) (be_privKey e) = Inr s" "s \<noteq> []"
    using sg by blast
  have v': "v = \<lparr>v_Type = ty, v_Height = p_Height p, v_Round = p_Round p, v_BlockHash = p_BlockHash p, v_Voter = a,
      v_Timestamp = now, v_Signature = s\<rparr>" using v s(1) a(2) by (simp add: SignVote_def)
  show ?thesis
    using signed_verifies [OF E s(1) b] s(2) a ty by (auto simp: cast_for_def v' VerifyVote_def)
qed

text \<open>What the phases of one validator share: its engine \<open>e1\<close> after the proposal, seen from the state \<open>e\<close> it was ready in.\<close>

definition voted :: "Geth \<Rightarrow> Proposal \<Rightarrow> string \<Rightarrow> BFTEngine \<Rightarrow> BFTEngine \<Rightarrow> bool" where
  "voted E p a e e1 \<longleftrightarrow> able E p e1 \<and> prevoting p e1 {} {} e1 \<and> be_localAddr e1 = a
     \<and> p_Height p = be_height e1 \<and> p_Round p = be_round e1 \<and> be_privKey e1 = be_privKey e \<and> be_store e1 = be_store e
     \<and> be_leader e1 = be_leader e \<and> (\<exists>v. be_cast e1 = be_cast e @ [v] \<and> cast_for E p VotePrevote a v)"

lemma ready_proposal:
  assumes E: "geth_laws E" and r: "ready E H cx p a e" and cx: "cx_geth cx = E"
    and p: "VerifyProposalBFT E (Some p) = Inr ()" "p_BlockHash p \<noteq> []" "None \<notin> set (p_Txs p)"
  shows "\<exists>e'. HandleProposal cx (Some p) e = Some e' \<and> voted E p a e e'"
proof -
  let ?hash = "p_BlockHash p"
  have st: "be_height e = p_Height p" "be_round e = p_Round p" "be_step e = StepPropose" "be_prevotes e = []" "be_precommits e = []"
    "be_lockedRound e < 0" "None \<notin> set (be_pendingTxs e)" "agrees ?hash e" "be_localAddr e = a" "a \<noteq> []" "be_privKey e \<noteq> []"
    "healthy (be_store e)" "validateProposalLocked (be_store e) p = Inr ()" "0 < QuorumSize (validatorCountLocked e)"
    using r unfolding ready_def by blast+
  obtain x where x: "expected_leader cx (p_Height p) e = (x, be_store e)" "x = [] \<or> EqualFold (p_Proposer p) x"
    using r unfolding ready_def by blast
  have sg: "\<exists>s. SignEIP191 E m (be_privKey e) = Inr s" for m using r unfolding ready_def by blast
  then have sgn: "is_ok (SignEIP191 E m (be_privKey e))" for m by (metis is_ok_simps(1))
  obtain v where v: "SignVote E VotePrevote (p_Height p) (p_Round p) ?hash a (be_privKey e) (cx_now cx) = Inr v"
    using sg [of "BuildVoteMessage VotePrevote (p_Height p) (p_Round p) ?hash"] by (auto simp: SignVote_def)
  note c = ready_signs [OF E r _ v]
  define e2 where "e2 = e\<lparr>be_proposal := Some p, be_validHash := ?hash, be_validRound := p_Round p,
    be_pendingTxs := if p_Txs p \<noteq> [] then p_Txs p else be_pendingTxs e\<rparr>"
  have e2: "be_height e2 = p_Height p" "be_round e2 = p_Round p" "be_localAddr e2 = a" "be_privKey e2 = be_privKey e"
    "be_proposal e2 = Some p" "be_lockedRound e2 < 0" "be_prevotes e2 = []" "be_precommits e2 = []" "be_cast e2 = be_cast e"
    "be_step e2 = StepPropose" "be_store e2 = be_store e" "be_leader e2 = be_leader e" "be_lastVotes e2 = be_lastVotes e"
    using st by (simp_all add: e2_def)
  have acc: "HandleProposal cx (Some p) e = Some (enterPrevoteLocked cx e2)"
    using st(1-3,13) x p(1) cx
    by (cases "be_leader e") (auto simp: HandleProposal_def accept_proposal_def expected_leader_def e2_def Let_def split: prod.splits)
  define e' where "e' = enterPrevoteLocked cx e2"
  obtain nd where ent: "e' = e2\<lparr>be_step := StepPrevote, be_prevotes := [(a, v)], be_p2p := nd, be_cast := be_cast e @ [v]\<rparr>"
    using e2 st(10,11) v cx by (simp add: e'_def enterPrevoteLocked_def broadcastVoteLocked_def Let_def)
  have f: "be_proposal e' = Some p" "be_step e' = StepPrevote" "be_prevotes e' = [(a, v)]" "be_precommits e' = []"
    "be_cast e' = be_cast e @ [v]" "be_localAddr e' = a" "be_privKey e' = be_privKey e" "be_height e' = p_Height p"
    "be_round e' = p_Round p" "be_store e' = be_store e" "be_leader e' = be_leader e" "be_lastVotes e' = be_lastVotes e"
    "be_pendingTxs e' = (if p_Txs p \<noteq> [] then p_Txs p else be_pendingTxs e)"
    by (simp_all add: ent e2 e2_def st)
  have n: "validatorCountLocked e' = validatorCountLocked e" by (simp add: validatorCountLocked_def f)
  have "able E p e'" unfolding able_def f n using st p(2,3) sgn by simp
  moreover have "prevoting p e' {} {} e'"
    using c st(1,2,8) unfolding prevoting_def f by (simp add: follows_def agrees_def heard_def kv_sorted_def cast_for_def f)
  ultimately have "voted E p a e e'" unfolding voted_def using f c by simp
  then show ?thesis using acc unfolding e'_def by blast
qed

text \<open>What a list of inputs brings, and the votes the validators of \<open>H\<close> have cast between two states of the network.\<close>

definition hears :: "Input list \<Rightarrow> Vote set" where
  "hears xs = {v. \<exists>cx. Hear cx v \<in> set xs}"

fun input_ctx :: "Input \<Rightarrow> Ctx" where
  "input_ctx (Hear cx v) = cx" | "input_ctx (PollPrevotes cx) = cx" | "input_ctx (PollPrecommits cx) = cx"

definition new_votes :: "string set \<Rightarrow> (string \<Rightarrow> BFTEngine) \<Rightarrow> (string \<Rightarrow> BFTEngine) \<Rightarrow> Vote set" where
  "new_votes H e e' = (\<Union>a \<in> H. set (drop (length (be_cast (e a))) (be_cast (e' a))))"

definition delivered :: "Geth \<Rightarrow> Vote set \<Rightarrow> Vote set \<Rightarrow> Input list \<Rightarrow> bool" where
  "delivered E N M xs \<longleftrightarrow> N \<subseteq> hears xs \<and> hears xs \<subseteq> M \<and> (\<forall>x \<in> set xs. fair_ctx E (input_ctx x))"

lemma finite_voters: "finite (voters ty xs)"
proof -
  have "voters ty xs \<subseteq> (\<lambda>x. case x of Hear cx v \<Rightarrow> ToLower (v_Voter v) | _ \<Rightarrow> []) ` set xs"
    by (force simp: voters_def)
  then show ?thesis by (rule finite_subset) simp
qed

lemma enough_voters:
  assumes "N \<subseteq> hears xs" "\<And>b. b \<in> H \<Longrightarrow> \<exists>v \<in> N. cast_for E p ty b v" "\<And>b. b \<in> H \<Longrightarrow> ToLower b = b" "q \<le> int (card H)" "finite B"
  shows "q \<le> int (card (insert own (B \<union> voters ty xs)))"
proof -
  have "H \<subseteq> voters ty xs"
  proof
    fix b assume b: "b \<in> H"
    with assms(2) obtain v where "v \<in> N" "v_Type v = ty" "v_Voter v = b" by (force simp: cast_for_def)
    moreover from this assms(1) obtain cx where "Hear cx v \<in> set xs" by (auto simp: hears_def)
    ultimately show "b \<in> voters ty xs" using assms(3) [OF b] by (force simp: voters_def)
  qed
  then have "card H \<le> card (insert own (B \<union> voters ty xs))"
    using assms(5) finite_voters by (intro card_mono) auto
  with assms(4) show ?thesis by simp
qed

lemma voted_count: "voted E p a e e1 \<Longrightarrow> validatorCountLocked e1 = validatorCountLocked e"
  by (simp add: voted_def validatorCountLocked_def)

lemma voted_stored: "ready E H cx p a e \<Longrightarrow> voted E p a e e1 \<Longrightarrow> stored p e1 e3 = stored p e e3"
  using voted_count [of E p a e e1] by (simp add: stored_def ready_def voted_def)

lemma voted_backs:
  assumes "ready E H cx p a e" "voted E p a e e1" "b \<in> H" "cast_for E p ty b v"
  shows "backs E e1 (p_BlockHash p) v"
proof -
  have w: "be_store e1 = be_store e" "be_leader e1 = be_leader e" "p_Height p = be_height e1" "p_Round p = be_round e1" "be_localAddr e1 = a"
    using assms(2) by (simp_all add: voted_def)
  have "known_voter e b" "map_of (db (be_store e)) (jailKey (normalizeAddr b)) = None" "be_localAddr e = a"
    using assms(1,3) unfolding ready_def by blast+
  then show ?thesis
    using assms(4) w by (cases "be_leader e") (auto simp: backs_def cast_for_def known_voter_def split: if_splits)
qed

lemma delivered_good:
  assumes "ready E H cx p a e" "voted E p a e e1" "delivered E N M xs"
    and "\<And>v. v \<in> M \<Longrightarrow> \<exists>b \<in> H. \<exists>ty. cast_for E p ty b v"
  shows "list_all (good_input E p e1) xs"
  unfolding list_all_iff
proof
  fix x assume x: "x \<in> set xs"
  then have cx: "fair_ctx E (input_ctx x)" using assms(3) by (simp add: delivered_def)
  show "good_input E p e1 x"
  proof (cases x)
    case (Hear c v)
    with x assms(3) have "v \<in> M" by (auto simp: delivered_def hears_def)
    with assms(4) obtain b ty where "b \<in> H" "cast_for E p ty b v" by blast
    from voted_backs [OF assms(1,2) this] Hear cx show ?thesis by simp
  qed (use cx in simp_all)
qed

text \<open>The prevote phase and the precommit phase of one validator.\<close>

lemma prevote_phase:
  assumes E: "geth_laws E" and r: "ready E H cx p a e" "fair_ctx E cx" and w: "voted E p a e e1" and low: "\<And>b. b \<in> H \<Longrightarrow> ToLower b = b"
    and d: "delivered E N M xs" and M: "\<And>v. v \<in> M \<Longrightarrow> \<exists>b \<in> H. \<exists>ty. cast_for E p ty b v"
    and N: "\<And>b. b \<in> H \<Longrightarrow> \<exists>v \<in> N. cast_for E p VotePrevote b v"
  shows "\<exists>e2 v. feed e1 (xs @ [PollPrevotes cx]) = Some e2 \<and> in_round E p e1 False {} (voters VotePrecommit xs) e2
    \<and> be_cast e2 = be_cast e1 @ [v] \<and> cast_for E p VotePrecommit a v"
proof -
  have q: "QuorumSize (validatorCountLocked e1) \<le> int (card H)"
    using r(1) voted_count [OF w] by (simp add: ready_def)
  have h: "p_Height p = be_height e1" "p_Round p = be_round e1" "able E p e1" "be_privKey e1 = be_privKey e" "be_localAddr e1 = a"
    "in_round E p e1 True {} {} e1" using w by (simp_all add: voted_def in_round_def)
  have "QuorumSize (validatorCountLocked e1) \<le> int (card (insert (be_localAddr e1) ({} \<union> voters VotePrevote xs)))"
    using d by (intro enough_voters [OF _ N low q]) (simp_all add: delivered_def)
  from end_prevotes [OF h(3,1) delivered_good [OF r(1) w d M] r(2) h(6) this, where A' = "{}"]
  obtain e2 where e2: "feed e1 (xs @ [PollPrevotes cx]) = Some e2" "in_round E p e1 False {} (voters VotePrecommit xs) e2" by auto
  then have "precommit_cast E p e1 e2" by (auto simp: in_round_def precommitting_def committed_def)
  then obtain now v where "SignVote E VotePrecommit (p_Height p) (p_Round p) (p_BlockHash p) a (be_privKey e) now = Inr v"
    "be_cast e2 = be_cast e1 @ [v]" using h by (auto simp: precommit_cast_def)
  with ready_signs [OF E r(1) _ this(1)] e2 show ?thesis by blast
qed

lemma precommit_phase:
  assumes r: "ready E H cx p a e" "fair_ctx E cx" and w: "voted E p a e e1" and low: "\<And>b. b \<in> H \<Longrightarrow> ToLower b = b"
    and e2: "in_round E p e1 False {} (voters VotePrecommit ys) e2"
    and d: "delivered E N M xs" and M: "\<And>v. v \<in> M \<Longrightarrow> \<exists>b \<in> H. \<exists>ty. cast_for E p ty b v"
    and N: "\<And>b. b \<in> H \<Longrightarrow> \<exists>v \<in> N. cast_for E p VotePrecommit b v"
  shows "\<exists>e3. feed e2 (xs @ [PollPrecommits cx]) = Some e3 \<and> committed E p e1 e3"
proof -
  have q: "QuorumSize (validatorCountLocked e1) \<le> int (card H)"
    using r(1) voted_count [OF w] by (simp add: ready_def)
  have h: "p_Height p = be_height e1" "able E p e1" using w by (simp_all add: voted_def)
  have "QuorumSize (validatorCountLocked e1) \<le> int (card (insert (be_localAddr e1) (voters VotePrecommit ys \<union> voters VotePrecommit xs)))"
    using d by (intro enough_voters [OF _ N low q]) (simp_all add: delivered_def finite_voters)
  from end_precommits [OF h(2,1) delivered_good [OF r(1) w d M] r(2) e2 this] show ?thesis .
qed

text \<open>
  C7: the protocol makes progress when the network delivers. Take validators \<open>H\<close> that are at least a quorum of everyone's
  roster and start the round of a valid proposal without a lock. Each takes up the proposal and prevotes. If
  then, before the deadline, each hears the prevotes just cast, in any order and repeated at will, each precommits. If
  after that each hears those precommits, among them late prevotes, each has committed: it has the
  proposed block, at its height and with a quorum in its certificate, as the tip of its chain.
\<close>

theorem synchronous_round:
  assumes E: "geth_laws E" and p: "VerifyProposalBFT E (Some p) = Inr ()" "p_BlockHash p \<noteq> []" "None \<notin> set (p_Txs p)"
    and r: "\<And>a. a \<in> H \<Longrightarrow> ready E H (cx a) p a (e a) \<and> fair_ctx E (cx a)"
  shows "\<exists>e1. (\<forall>a \<in> H. HandleProposal (cx a) (Some p) (e a) = Some (e1 a)) \<and>
    (\<forall>in1. (\<forall>a \<in> H. delivered E (new_votes H e e1) (new_votes H e e1) (in1 a)) \<longrightarrow>
      (\<exists>e2. (\<forall>a \<in> H. feed (e1 a) (in1 a @ [PollPrevotes (cx a)]) = Some (e2 a)) \<and>
        (\<forall>in2. (\<forall>a \<in> H. delivered E (new_votes H e1 e2) (new_votes H e e2) (in2 a)) \<longrightarrow>
          (\<exists>e3. \<forall>a \<in> H. feed (e2 a) (in2 a @ [PollPrecommits (cx a)]) = Some (e3 a) \<and> be_step (e3 a) = StepCommit
            \<and> stored p (e a) (e3 a)))))"
proof -
  have low: "\<And>b. b \<in> H \<Longrightarrow> ToLower b = b" using r by (simp add: ready_def)
  have "\<forall>a \<in> H. \<exists>e'. HandleProposal (cx a) (Some p) (e a) = Some e' \<and> voted E p a (e a) e'"
    using ready_proposal [OF E _ _ p] r unfolding fair_ctx_def by blast
  then obtain e1 where e1: "\<And>a. a \<in> H \<Longrightarrow> HandleProposal (cx a) (Some p) (e a) = Some (e1 a) \<and> voted E p a (e a) (e1 a)" by metis
  then have "\<forall>a \<in> H. \<exists>v. be_cast (e1 a) = be_cast (e a) @ [v] \<and> cast_for E p VotePrevote a v" by (simp add: voted_def)
  then obtain pv where pv: "\<And>a. a \<in> H \<Longrightarrow> be_cast (e1 a) = be_cast (e a) @ [pv a] \<and> cast_for E p VotePrevote a (pv a)" by metis
  have N1: "new_votes H e e1 = pv ` H" using pv by (auto simp: new_votes_def)
  show ?thesis
  proof (rule exI [of _ e1], intro conjI ballI allI impI)
    fix a assume "a \<in> H"
    then show "HandleProposal (cx a) (Some p) (e a) = Some (e1 a)" using e1 by simp
  next
    fix in1 assume in1: "\<forall>a \<in> H. delivered E (new_votes H e e1) (new_votes H e e1) (in1 a)"
    have "\<exists>e2 v. feed (e1 a) (in1 a @ [PollPrevotes (cx a)]) = Some e2 \<and> in_round E p (e1 a) False {} (voters VotePrecommit (in1 a)) e2
        \<and> be_cast e2 = be_cast (e1 a) @ [v] \<and> cast_for E p VotePrecommit a v" if a: "a \<in> H" for a
      using in1 a pv unfolding N1 by (intro prevote_phase [OF E _ _ _ low]) (use r [OF a] e1 [OF a] in auto)
    then obtain e2 pc where e2: "\<And>a. a \<in> H \<Longrightarrow> feed (e1 a) (in1 a @ [PollPrevotes (cx a)]) = Some (e2 a)
        \<and> in_round E p (e1 a) False {} (voters VotePrecommit (in1 a)) (e2 a)
        \<and> be_cast (e2 a) = be_cast (e1 a) @ [pc a] \<and> cast_for E p VotePrecommit a (pc a)" by metis
    have casts: "\<exists>b \<in> H. \<exists>ty. cast_for E p ty b v" if "v \<in> pv ` H \<union> pc ` H" for v using pv e2 that by blast
    have N2: "new_votes H e1 e2 = pc ` H" "new_votes H e e2 = pv ` H \<union> pc ` H"
      using e2 pv by (auto simp: new_votes_def)
    show "\<exists>e2. (\<forall>a \<in> H. feed (e1 a) (in1 a @ [PollPrevotes (cx a)]) = Some (e2 a)) \<and>
        (\<forall>in2. (\<forall>a \<in> H. delivered E (new_votes H e1 e2) (new_votes H e e2) (in2 a)) \<longrightarrow>
          (\<exists>e3. \<forall>a \<in> H. feed (e2 a) (in2 a @ [PollPrecommits (cx a)]) = Some (e3 a) \<and> be_step (e3 a) = StepCommit
            \<and> stored p (e a) (e3 a)))"
    proof (rule exI [of _ e2], intro conjI ballI allI impI)
      fix a assume "a \<in> H"
      then show "feed (e1 a) (in1 a @ [PollPrevotes (cx a)]) = Some (e2 a)" using e2 by simp
    next
      fix in2 assume in2: "\<forall>a \<in> H. delivered E (new_votes H e1 e2) (new_votes H e e2) (in2 a)"
      have "\<exists>e3. feed (e2 a) (in2 a @ [PollPrecommits (cx a)]) = Some e3 \<and> committed E p (e1 a) e3" if a: "a \<in> H" for a
        using in2 a e2 casts unfolding N2 by (intro precommit_phase [OF _ _ _ low]) (use r [OF a] e1 [OF a] in auto)
      then obtain e3 where "\<And>a. a \<in> H \<Longrightarrow> feed (e2 a) (in2 a @ [PollPrecommits (cx a)]) = Some (e3 a) \<and> committed E p (e1 a) (e3 a)"
        by metis
      then show "\<exists>e3. \<forall>a \<in> H. feed (e2 a) (in2 a @ [PollPrecommits (cx a)]) = Some (e3 a) \<and> be_step (e3 a) = StepCommit
            \<and> stored p (e a) (e3 a)"
        using voted_stored r e1 by (intro exI [of _ e3] ballI) (metis committed_def)
    qed
  qed
qed

definition demo_start :: "string \<Rightarrow> BFTEngine" where
  "demo_start a = (if a = alice then demo_proposing (CHR ''a'') else demo_proposing (CHR ''b''))"

lemma demo_ready:
  assumes "a \<in> {alice, bob}"
  shows "ready keyed_geth {alice, bob} demo_ctx demo_prop a (demo_start a)"
proof -
  obtain k where k: "k \<in> {CHR ''a'', CHR ''b''}" "a = addr k" "demo_start a = demo_proposing k"
    using assms that [of "CHR ''a''"] that [of "CHR ''b''"] by (auto simp: addr_def demo_start_def)
  have p: "p_BlockHash demo_prop = demo_hash" "p_Height demo_prop = 1" "p_Round demo_prop = 0" "p_Proposer demo_prop = bob"
    by (simp_all add: demo_prop_def)
  have f: "be_height (demo_proposing k) = 1" "be_round (demo_proposing k) = 0" "be_step (demo_proposing k) = StepPropose"
    "be_prevotes (demo_proposing k) = []" "be_precommits (demo_proposing k) = []" "be_lockedRound (demo_proposing k) = -1"
    "be_pendingTxs (demo_proposing k) = []" "be_lastVotes (demo_proposing k) = []" "be_localAddr (demo_proposing k) = addr k"
    "be_privKey (demo_proposing k) = [k]" "be_store (demo_proposing k) = demo_store"
    "be_leader (demo_proposing k) = Some \<lparr>ls_validators = [alice, bob], ls_localAddr = addr k, ls_store = False\<rparr>"
    using k(1) by (simp_all add: demo_proposing_def)
  have q: "QuorumSize (validatorCountLocked (demo_proposing k)) = 2" by (simp add: validatorCountLocked_def Count_def f demo_quorum)
  have key: "AddressFromPrivateKey keyed_geth [k] = Inr (addr k)"
    using k(1) by (auto simp: AddressFromPrivateKey_def keyed_geth_def addr_def TrimPrefix_def)
  have lead: "expected_leader demo_ctx 1 (demo_proposing k) = (bob, demo_store)"
    by (simp add: expected_leader_def f demo_leader)
  have voters: "known_voter (demo_proposing k) b \<and> map_of (db demo_store) (jailKey (normalizeAddr b)) = None" if "b \<in> {alice, bob}" for b
    using that by (auto simp: known_voter_def f Count_def demo_store_def jailKey_def)
  show ?thesis
    unfolding ready_def k(3)
    using k(1) voters demo_addr [OF k(1)] demo_prop_ok(2)
    by (simp add: f p q key lead k(2) agrees_def demo_healthy addr_def)
qed

theorem synchronous_round_witness:
  "\<exists>e1 in1 e2 in2 e3. \<forall>a \<in> {alice, bob}. HandleProposal demo_ctx (Some demo_prop) (demo_start a) = Some (e1 a)
     \<and> feed (e1 a) (in1 @ [PollPrevotes demo_ctx]) = Some (e2 a) \<and> feed (e2 a) (in2 @ [PollPrecommits demo_ctx]) = Some (e3 a)
     \<and> be_step (e3 a) = StepCommit \<and> stored demo_prop (demo_start a) (e3 a)"
proof -
  let ?H = "{alice, bob}" and ?cx = "\<lambda>a :: string. demo_ctx"
  have inputs: "\<exists>xs. delivered keyed_geth N (new_votes ?H x y) xs" if "N \<subseteq> new_votes ?H x y" for N x y
  proof -
    obtain vs where "set vs = new_votes ?H x y" using finite_list [of "new_votes ?H x y"] by (auto simp: new_votes_def)
    then show ?thesis
      using that demo_fair by (intro exI [of _ "map (Hear demo_ctx) vs"]) (auto simp: delivered_def hears_def)
  qed
  have p: "VerifyProposalBFT keyed_geth (Some demo_prop) = Inr ()" "p_BlockHash demo_prop \<noteq> []" "None \<notin> set (p_Txs demo_prop)"
    using demo_prop_ok(1) by (simp_all add: demo_prop_def)
  have r: "\<And>a. a \<in> ?H \<Longrightarrow> ready keyed_geth ?H (?cx a) demo_prop a (demo_start a) \<and> fair_ctx keyed_geth (?cx a)"
    using demo_ready demo_fair by blast
  from synchronous_round [OF keyed_geth_laws p, of ?H ?cx, OF r] obtain e1 where
    e1: "\<forall>a \<in> ?H. HandleProposal demo_ctx (Some demo_prop) (demo_start a) = Some (e1 a)"
    and next1: "\<And>in1. \<forall>a \<in> ?H. delivered keyed_geth (new_votes ?H demo_start e1) (new_votes ?H demo_start e1) (in1 a) \<Longrightarrow>
      \<exists>e2. (\<forall>a \<in> ?H. feed (e1 a) (in1 a @ [PollPrevotes demo_ctx]) = Some (e2 a)) \<and>
        (\<forall>in2. (\<forall>a \<in> ?H. delivered keyed_geth (new_votes ?H e1 e2) (new_votes ?H demo_start e2) (in2 a)) \<longrightarrow>
          (\<exists>e3. \<forall>a \<in> ?H. feed (e2 a) (in2 a @ [PollPrecommits demo_ctx]) = Some (e3 a) \<and> be_step (e3 a) = StepCommit
            \<and> stored demo_prop (demo_start a) (e3 a)))"
    by blast
  obtain in1 where "\<forall>a \<in> ?H. delivered keyed_geth (new_votes ?H demo_start e1) (new_votes ?H demo_start e1) in1"
    using inputs [OF order_refl] by metis
  from next1 [of "\<lambda>_. in1", OF this] obtain e2 where
    e2: "\<forall>a \<in> ?H. feed (e1 a) (in1 @ [PollPrevotes demo_ctx]) = Some (e2 a)"
    and next2: "\<And>in2. \<forall>a \<in> ?H. delivered keyed_geth (new_votes ?H e1 e2) (new_votes ?H demo_start e2) (in2 a) \<Longrightarrow>
      \<exists>e3. \<forall>a \<in> ?H. feed (e2 a) (in2 a @ [PollPrecommits demo_ctx]) = Some (e3 a) \<and> be_step (e3 a) = StepCommit
        \<and> stored demo_prop (demo_start a) (e3 a)"
    by blast
  have sub: "new_votes ?H e1 e2 \<subseteq> new_votes ?H demo_start e2"
    unfolding new_votes_def by (intro UN_mono set_drop_subset_set_drop) (auto simp: demo_start_def demo_proposing_def)
  obtain in2 where "\<forall>a \<in> ?H. delivered keyed_geth (new_votes ?H e1 e2) (new_votes ?H demo_start e2) in2"
    using inputs [OF sub] by metis
  from next2 [of "\<lambda>_. in2", OF this] obtain e3 where
    "\<forall>a \<in> ?H. feed (e2 a) (in2 @ [PollPrecommits demo_ctx]) = Some (e3 a) \<and> be_step (e3 a) = StepCommit
      \<and> stored demo_prop (demo_start a) (e3 a)" by blast
  with e1 e2 show ?thesis by (intro exI [of _ e1] exI [of _ in1] exI [of _ e2] exI [of _ in2] exI [of _ e3]) blast
qed

section \<open>Early proposals\<close>

text \<open>
  A proposal for the current round that reaches an engine before its loop has entered the propose phase is taken up without
  a vote, and then thrown away together with the votes heard so far, because \<^verbatim>\<open>runPropose\<close> clears the round
  when it starts. Nobody sends it again, so this engine waits for the deadline and prevotes nil.
\<close>

theorem early_proposal_dropped:
  assumes "be_step e = StepNewHeight" "p_Round p \<le> be_round e" "HandleProposal cx (Some p) e = Some e1"
  shows "be_cast e1 = be_cast e \<and> be_step e1 = StepNewHeight
    \<and> (let e2 = snd (runPropose_enter cx2 h e1) in
        be_step e2 = StepPropose \<and> be_proposal e2 = None \<and> be_pendingTxs e2 = [] \<and> be_prevotes e2 = [] \<and> be_precommits e2 = [])"
proof -
  have "be_step e1 = StepNewHeight \<and> be_cast e1 = be_cast e"
    using assms by (auto simp: HandleProposal_def accept_proposal_def Let_def split: sum.splits if_splits prod.splits)
  then show ?thesis by (simp add: runPropose_enter_def Let_def split: prod.split)
qed

theorem early_proposal_dropped_witness:
  "\<exists>e1. HandleProposal demo_ctx (Some demo_prop) (demo_engine (CHR ''a'')) = Some e1 \<and> be_proposal e1 = Some demo_prop
     \<and> be_proposal (snd (runPropose_enter demo_ctx 1 e1)) = None"
proof -
  have p: "p_Height demo_prop = 1" "p_Round demo_prop = 0" "p_Proposer demo_prop = bob" "p_Txs demo_prop = []"
    by (simp_all add: demo_prop_def)
  obtain e1 where e1: "HandleProposal demo_ctx (Some demo_prop) (demo_engine (CHR ''a'')) = Some e1" "be_proposal e1 = Some demo_prop"
    using demo_prop_ok demo_leader by (simp add: HandleProposal_def accept_proposal_def less_RoundStep_def p Let_def)
  from early_proposal_dropped [OF _ _ e1(1), of demo_ctx 1] e1 show ?thesis by (simp add: p Let_def)
qed

end
