(* ===== verification/EngineLoop.thy ===== *)
theory EngineLoop
  imports BftHandlers
begin

text \<open>
  The goroutine of the consensus engine in \<^verbatim>\<open>internal/consensus/bft.go\<close> as a program in time: its waits, the deadlines
  of the three phases, the pacing of blocks, \<^verbatim>\<open>Start\<close> and \<^verbatim>\<open>Stop\<close>. Time is in nanoseconds.

  \<^item> What the rest of the process does is a \<open>World\<close>: it is asked once per wake-up. Entry \<open>i\<close> says how late the
    \<open>i\<close>-th sleep ends, whether the stop channel is found closed and how long before a tick it was, what handlers and other goroutines
    do to the engine while the mutex is free between two critical sections (\<open>tk_mid\<close>) and during the
    sleep (\<open>tk_asleep\<close>), and the context of the section.
  \<^item> A \<open>Moment\<close> is the number of the next wake-up, the clock and the engine.
  \<^item> \<open>None\<close> is a panic, as in \<open>Bft\<close>. Running code takes no time of its own; whatever it takes is lateness of the next sleep.
\<close>

record Tick =
  tk_cx :: Ctx
  tk_late :: nat
  tk_early :: nat
  tk_stop :: bool
  tk_mid :: "BFTEngine \<Rightarrow> BFTEngine"
  tk_asleep :: "BFTEngine \<Rightarrow> BFTEngine"

type_synonym World = "nat \<Rightarrow> Tick"
type_synonym Moment = "nat \<times> int \<times> BFTEngine"

datatype Waited = Stopped | Ready | TimedOut

definition poll_ns :: int where "poll_ns = 50 * 10 ^ 6"
definition pace_ns :: int where "pace_ns = 500 * 10 ^ 6"

definition nap :: "World \<Rightarrow> int \<Rightarrow> Moment \<Rightarrow> Moment" where
  "nap W d m = (case m of (i, now, e) \<Rightarrow> (i + 1, now + d + int (tk_late (W i)), tk_asleep (W i) e))"

text \<open>The parts of a moment.\<close>

definition clock :: "Moment \<Rightarrow> int" where "clock m = fst (snd m)"
definition engine :: "Moment \<Rightarrow> BFTEngine" where "engine m = snd (snd m)"

section \<open>Pacing\<close>

text \<open>The intervals of \<^verbatim>\<open>waitBlockInterval\<close>: with an empty pool, and with transactions waiting.\<close>

definition emptyInterval :: "BFTConfig \<Rightarrow> int" where
  "emptyInterval cfg = (if bc_MinBlockInterval cfg \<le> 0 then 120 * 10 ^ 9 else bc_MinBlockInterval cfg)"

definition fastInterval :: "int option \<Rightarrow> int" where
  "fastInterval fast = (case fast of Some n \<Rightarrow> if n \<ge> 500 * 10 ^ 6 then n else 3 * 10 ^ 9 | None \<Rightarrow> 3 * 10 ^ 9)"

definition longest_pace :: "BFTConfig \<Rightarrow> int option \<Rightarrow> int" where
  "longest_pace cfg fast = max (emptyInterval cfg) (fastInterval fast)"

definition pace_need :: "BFTConfig \<Rightarrow> int option \<Rightarrow> BFTEngine \<Rightarrow> int" where
  "pace_need cfg fast e =
     (let mempoolN = (case be_pool e of None \<Rightarrow> 0 | Some m \<Rightarrow> Size m)
      in if mempoolN > 0 then fastInterval fast else emptyInterval cfg)"

lemma pace_need_le: "pace_need cfg fast e \<le> longest_pace cfg fast"
  by (simp add: pace_need_def longest_pace_def Let_def)

text \<open>
  The loop over the ticker, which fires at fixed times after its start \<open>t0\<close>; a tick may be received late. A
  closed stop channel ends the wait at once, without waiting for the tick.
  \<open>k\<close> counts the ticks. The last commit time and the intervals are read before the loop, the pool at each tick.
\<close>

function pace_loop :: "World \<Rightarrow> BFTConfig \<Rightarrow> int option \<Rightarrow> int \<Rightarrow> int \<Rightarrow> nat \<Rightarrow> nat \<Rightarrow> BFTEngine \<Rightarrow> Moment" where
  "pace_loop W cfg fast lastAt t0 k i e =
     (let now = t0 + pace_ns * (int k + 1) + int (tk_late (W i));
          e' = tk_asleep (W i) e
      in if tk_stop (W i) then (i + 1, max (t0 + pace_ns * int k) (now - int (tk_early (W i))), e')
         else if now - lastAt \<ge> pace_need cfg fast e' then (i + 1, now, e')
         else pace_loop W cfg fast lastAt t0 (k + 1) (i + 1) e')"
  by pat_completeness auto

termination
proof (relation "measure (\<lambda>(W, cfg, fast, lastAt, t0, k, i, e). nat (lastAt + longest_pace cfg fast - t0 - pace_ns * int k))", goal_cases)
  case (2 W cfg fast lastAt t0 k i e now e')
  then have "t0 + pace_ns * (int k + 1) - lastAt < longest_pace cfg fast"
    using pace_need_le [of cfg fast e'] by simp
  then show ?case by (simp add: algebra_simps pace_ns_def)
qed simp

declare pace_loop.simps [simp del]

definition waitBlockInterval :: "World \<Rightarrow> int option \<Rightarrow> Moment \<Rightarrow> Moment" where
  "waitBlockInterval W fast m =
     (case m of (i, now, e) \<Rightarrow>
        case be_lastCommitAt e of
          None \<Rightarrow> m
        | Some ms \<Rightarrow> pace_loop W (be_cfg e) fast (ms * 10 ^ 6) now 0 i e)"

section \<open>Waiting for a phase to end\<close>

function poll_loop :: "(BFTEngine \<Rightarrow> bool) \<Rightarrow> (Moment \<Rightarrow> Moment option) \<Rightarrow> World \<Rightarrow> int \<Rightarrow> Moment \<Rightarrow> (Waited \<times> Moment) option" where
  "poll_loop ready act W deadline (i, now, e) =
     (if now \<ge> deadline then Some (TimedOut, i, now, e)
      else if tk_stop (W i) then Some (Stopped, i, now, e)
      else if ready e then Some (Ready, i, now, e)
      else case act (i, now, tk_mid (W i) e) of
             None \<Rightarrow> None
           | Some (j, t, e') \<Rightarrow> poll_loop ready act W deadline (nap W poll_ns (j, max now t, e')))"
  by pat_completeness auto

termination
  by (relation "measure (\<lambda>(ready, act, W, deadline, m). nat (deadline - clock m))")
    (auto simp: nap_def clock_def poll_ns_def)

declare poll_loop.simps [simp del]

definition deadline_of :: "int \<Rightarrow> BFTConfig \<Rightarrow> int \<Rightarrow> int \<Rightarrow> int" where
  "deadline_of base cfg round now = now + round_timeout base cfg round"

text \<open>\<^verbatim>\<open>runPropose\<close>, with the height and the round the loop has read.\<close>

definition runPropose :: "World \<Rightarrow> int option \<Rightarrow> uint64 \<Rightarrow> int \<Rightarrow> Moment \<Rightarrow> Moment option" where
  "runPropose W fast height round m =
     (case waitBlockInterval W fast m of (i, now, e) \<Rightarrow>
        let cx = tk_cx (W i) in
        case runPropose_enter cx height (tk_mid (W i) e) of
          (ProposeReturn, e1) \<Rightarrow> Some (i, now, e1)
        | (ProposeSolo, e1) \<Rightarrow>
            (case soloSeal cx e1 of
               (False, e2) \<Rightarrow> Some (nap W (10 ^ 9) (i, now, e2))
             | (True, e2) \<Rightarrow> Some (i, now, advanceHeightLocked (tk_mid (W i) e2)))
        | (ProposeWait leads, e1) \<Rightarrow>
            let e2 = (if leads then snd (buildAndBroadcastProposal cx height round e1) else e1)
            in case poll_loop (\<lambda>e. be_proposal e \<noteq> None) Some W (deadline_of (bc_ProposeTimeout (be_cfg e2)) (be_cfg e2) round now) (i, now, e2) of
                 None \<Rightarrow> None
               | Some (Stopped, m') \<Rightarrow> Some m'
               | Some (_, j, t, e3) \<Rightarrow> Some (j, t, runPropose_end (tk_cx (W j)) (tk_mid (W j) e3)))"

definition poll_prevotes :: "World \<Rightarrow> Moment \<Rightarrow> Moment option" where
  "poll_prevotes W m = (case m of (i, now, e) \<Rightarrow> Some (i, now, tryFinalizePrevotesLocked (tk_cx (W i)) e))"

definition runPrevote :: "World \<Rightarrow> int \<Rightarrow> Moment \<Rightarrow> Moment option" where
  "runPrevote W round m =
     (case m of (i, now, e) \<Rightarrow>
        case poll_loop (\<lambda>e. be_step e \<noteq> StepPrevote) (poll_prevotes W) W
               (deadline_of (bc_PrevoteTimeout (be_cfg e)) (be_cfg e) round now) m of
          None \<Rightarrow> None
        | Some (TimedOut, j, t, e') \<Rightarrow> Some (j, t, runPrevote_timeout (tk_cx (W j)) (tk_mid (W j) e'))
        | Some (_, m') \<Rightarrow> Some m')"

text \<open>A poll that commits sleeps inside \<^verbatim>\<open>commitLocked\<close> and then advances the height, all before it returns.\<close>

definition poll_precommits :: "World \<Rightarrow> int option \<Rightarrow> Moment \<Rightarrow> Moment option" where
  "poll_precommits W fast m =
     (case m of (i, now, e) \<Rightarrow>
        case tryFinalizePrecommitsLocked (tk_cx (W i)) e of
          None \<Rightarrow> None
        | Some e' \<Rightarrow>
            if be_sleeping e' > be_sleeping e
            then (case waitBlockInterval W fast (i, now, e') of (j, t, e2) \<Rightarrow>
                    Some (j, t, case wake e2 of None \<Rightarrow> e2 | Some e3 \<Rightarrow> e3))
            else Some (i, now, e'))"

definition runPrecommit :: "World \<Rightarrow> int option \<Rightarrow> int \<Rightarrow> Moment \<Rightarrow> Moment option" where
  "runPrecommit W fast round m =
     (case m of (i, now, e) \<Rightarrow>
        case poll_loop (\<lambda>e. be_step e \<noteq> StepPrecommit) (poll_precommits W fast) W
               (deadline_of (bc_PrecommitTimeout (be_cfg e)) (be_cfg e) round now) m of
          None \<Rightarrow> None
        | Some (TimedOut, j, t, e') \<Rightarrow> Some (j, t, runPrecommit_timeout (tk_mid (W j) e'))
        | Some (_, m') \<Rightarrow> Some m')"

section \<open>The loop\<close>

definition run_phase :: "World \<Rightarrow> int option \<Rightarrow> Moment \<Rightarrow> Moment option" where
  "run_phase W fast m =
     (let e = engine m in
      case be_step e of
        StepNewHeight \<Rightarrow> runPropose W fast (be_height e) (be_round e) m
      | StepPropose \<Rightarrow> runPropose W fast (be_height e) (be_round e) m
      | StepPrevote \<Rightarrow> runPrevote W (be_round e) m
      | StepPrecommit \<Rightarrow> runPrecommit W fast (be_round e) m
      | StepCommit \<Rightarrow> Some (waitBlockInterval W fast m))"

definition loop_pass :: "World \<Rightarrow> int option \<Rightarrow> Moment \<Rightarrow> Moment option" where
  "loop_pass W fast m = map_option (nap W poll_ns) (run_phase W fast m)"

datatype LoopState = Panicked | Returned Moment | Running Moment

text \<open>\<open>n\<close> passes of the loop; the first thing in each is to look at the stop channel.\<close>

fun engine_loop :: "nat \<Rightarrow> World \<Rightarrow> int option \<Rightarrow> Moment \<Rightarrow> LoopState" where
  "engine_loop 0 W fast m = Running m"
| "engine_loop (Suc n) W fast m =
     (if tk_stop (W (fst m)) then Returned m
      else case loop_pass W fast m of None \<Rightarrow> Panicked | Some m' \<Rightarrow> engine_loop n W fast m')"

text \<open>\<^verbatim>\<open>Start\<close>: the goroutine aligns itself with the chain, sleeps two seconds and enters the loop.\<close>

definition Start :: "nat \<Rightarrow> World \<Rightarrow> int option \<Rightarrow> Moment \<Rightarrow> LoopState option" where
  "Start n W fast m =
     (case m of (i, now, e) \<Rightarrow>
        if \<not> bc_Enabled (be_cfg e) then None
        else Some (case loop_align e of
               None \<Rightarrow> Returned m
             | Some e' \<Rightarrow> engine_loop n W fast (nap W (2 * 10 ^ 9) (i, now, e'))))"

section \<open>How long the waits take\<close>

lemma moment_simps [simp]:
  "clock (i, now, e) = now" "engine (i, now, e) = e"
  "nap W d (i, now, e) = (i + 1, now + d + int (tk_late (W i)), tk_asleep (W i) e)"
  by (simp_all add: clock_def engine_def nap_def)

definition late_by :: "World \<Rightarrow> nat \<Rightarrow> bool" where
  "late_by W L \<longleftrightarrow> (\<forall>k. tk_late (W k) \<le> L)"

lemma late_byD: "late_by W L \<Longrightarrow> int (tk_late (W k)) \<le> int L"
  by (simp add: late_by_def)

lemma pace_loop_bounds:
  assumes "late_by W L"
  shows "i < fst (pace_loop W cfg fast lastAt t0 k i e)
    \<and> t0 + pace_ns * int k \<le> clock (pace_loop W cfg fast lastAt t0 k i e)
    \<and> clock (pace_loop W cfg fast lastAt t0 k i e) \<le> max (t0 + pace_ns * (int k + 1)) (lastAt + longest_pace cfg fast + pace_ns) + int L"
  using assms
proof (induction W cfg fast lastAt t0 k i e rule: pace_loop.induct)
  case (1 W cfg fast lastAt t0 k i e)
  define now where "now = t0 + pace_ns * (int k + 1) + int (tk_late (W i))"
  define e' where "e' = tk_asleep (W i) e"
  note l = late_byD [OF 1(2), of i]
  show ?case
  proof (cases "tk_stop (W i) \<or> now - lastAt \<ge> pace_need cfg fast e'")
    case True
    then have "pace_loop W cfg fast lastAt t0 k i e = (i + 1, if tk_stop (W i) then max (t0 + pace_ns * int k) (now - int (tk_early (W i))) else now, e')"
      by (subst pace_loop.simps) (auto simp: Let_def now_def e'_def)
    then show ?thesis using l by (auto simp: now_def pace_ns_def)
  next
    case False
    then have r: "pace_loop W cfg fast lastAt t0 k i e = pace_loop W cfg fast lastAt t0 (k + 1) (i + 1) e'"
      by (subst pace_loop.simps) (auto simp: Let_def now_def e'_def)
    have IH: "i + 1 < fst (pace_loop W cfg fast lastAt t0 (k + 1) (i + 1) e')
      \<and> t0 + pace_ns * int (k + 1) \<le> clock (pace_loop W cfg fast lastAt t0 (k + 1) (i + 1) e')
      \<and> clock (pace_loop W cfg fast lastAt t0 (k + 1) (i + 1) e') \<le> max (t0 + pace_ns * (int (k + 1) + 1)) (lastAt + longest_pace cfg fast + pace_ns) + int L"
      using 1 False by (simp add: now_def e'_def)
    have "t0 + pace_ns * (int k + 1) < lastAt + longest_pace cfg fast"
      using False pace_need_le [of cfg fast e'] by (simp add: now_def)
    then show ?thesis using IH unfolding r by (simp add: algebra_simps pace_ns_def)
  qed
qed

text \<open>The latest time at which a pause that begins at \<open>now\<close> ends, but for the lateness of one tick.\<close>

definition pace_end :: "int option \<Rightarrow> int \<Rightarrow> BFTEngine \<Rightarrow> int" where
  "pace_end fast now e =
     (case be_lastCommitAt e of None \<Rightarrow> now
      | Some ms \<Rightarrow> max now (ms * 10 ^ 6 + longest_pace (be_cfg e) fast) + pace_ns)"

lemma waitBlockInterval_bounds:
  assumes "late_by W L" "waitBlockInterval W fast (i, now, e) = (j, t, e')"
  shows "i \<le> j" "now \<le> t" "t \<le> pace_end fast now e + int L"
proof -
  have "i \<le> j \<and> now \<le> t \<and> t \<le> pace_end fast now e + int L"
  proof (cases "be_lastCommitAt e")
    case (Some ms)
    with assms(2) have p: "pace_loop W (be_cfg e) fast (ms * 10 ^ 6) now 0 i e = (j, t, e')" by (simp add: waitBlockInterval_def)
    show ?thesis
      using pace_loop_bounds [OF assms(1), of i "be_cfg e" fast "ms * 10 ^ 6" now 0 e] Some unfolding p
      by (auto simp: pace_end_def pace_ns_def max_def split: if_splits)
  qed (use assms(2) in \<open>simp add: waitBlockInterval_def pace_end_def\<close>)
  then show "i \<le> j" "now \<le> t" "t \<le> pace_end fast now e + int L" by auto
qed

text \<open>A poll that does its work at once: it neither sleeps nor consumes a wake-up, and does not panic.\<close>

locale prompt_poll =
  fixes act :: "Moment \<Rightarrow> Moment option" and work :: "Tick \<Rightarrow> BFTEngine \<Rightarrow> BFTEngine" and W :: World
  assumes prompt: "act (i, now, e) = Some (i, now, work (W i) e)"
begin

lemma ends:
  assumes "late_by W L"
  shows "\<exists>r j t e'. poll_loop ready act W dl (i, now, e) = Some (r, j, t, e') \<and> i \<le> j \<and> now \<le> t \<and> t \<le> max now (dl + poll_ns + int L)
    \<and> poll_ns * (int j - int i) \<le> t - now \<and> (r = TimedOut \<longrightarrow> dl \<le> t) \<and> (r = Stopped \<longrightarrow> tk_stop (W j)) \<and> (r = Ready \<longrightarrow> ready e')"
proof (induction "nat (dl - now)" arbitrary: i now e rule: less_induct)
  case less
  show ?case
  proof (cases "now \<ge> dl \<or> tk_stop (W i) \<or> ready e")
    case True
    then show ?thesis by (subst poll_loop.simps) (auto simp: poll_ns_def)
  next
    case False
    let ?now = "now + poll_ns + int (tk_late (W i))" and ?e = "tk_asleep (W i) (work (W i) (tk_mid (W i) e))"
    have r: "poll_loop ready act W dl (i, now, e) = poll_loop ready act W dl (i + 1, ?now, ?e)"
      using False by (subst poll_loop.simps) (simp add: prompt)
    have "nat (dl - ?now) < nat (dl - now)" using False by (simp add: poll_ns_def)
    from less [OF this, of "i + 1" ?e] late_byD [OF assms, of i] False show ?thesis
      unfolding r by (fastforce simp: poll_ns_def algebra_simps)
  qed
qed

end

interpretation proposal_wait: prompt_poll Some "\<lambda>_ e. e" W
  by unfold_locales simp

interpretation prevote_wait: prompt_poll "poll_prevotes W" "\<lambda>k. tryFinalizePrevotesLocked (tk_cx k)" W
  by unfold_locales (simp add: poll_prevotes_def)

lemma timeouts_leave [simp]:
  "be_step (runPrevote_timeout cx e) \<noteq> StepPrevote" "be_step (runPrecommit_timeout e) \<noteq> StepPrecommit"
  "be_step (runPropose_end cx e) \<noteq> StepPropose"
  by (simp_all add: runPrevote_timeout_def runPrecommit_timeout_def runPropose_end_def next_round_def)

text \<open>The latest moment a phase that waits until \<open>dl\<close> can end at.\<close>

definition over_by :: "nat \<Rightarrow> int \<Rightarrow> int \<Rightarrow> int" where
  "over_by L now dl = max now (dl + poll_ns + int L)"

lemma runPrevote_ends:
  assumes "late_by W L"
  shows "\<exists>j t e'. runPrevote W round (i, now, e) = Some (j, t, e') \<and> i \<le> j \<and> now \<le> t
    \<and> t \<le> over_by L now (deadline_of (bc_PrevoteTimeout (be_cfg e)) (be_cfg e) round now)
    \<and> (be_step e' = StepPrevote \<longrightarrow> tk_stop (W j))"
proof -
  let ?dl = "deadline_of (bc_PrevoteTimeout (be_cfg e)) (be_cfg e) round now"
  obtain r j t e' where p: "poll_loop (\<lambda>e. be_step e \<noteq> StepPrevote) (poll_prevotes W) W ?dl (i, now, e) = Some (r, j, t, e')" "i \<le> j" "now \<le> t"
    "t \<le> over_by L now ?dl" "r = Stopped \<longrightarrow> tk_stop (W j)" "r = Ready \<longrightarrow> be_step e' \<noteq> StepPrevote"
    using prevote_wait.ends [OF assms, of "\<lambda>e. be_step e \<noteq> StepPrevote" ?dl i now e] by (auto simp: over_by_def)
  then show ?thesis by (cases r) (simp_all add: runPrevote_def)
qed

lemma poll_loop_leaves:
  "poll_loop ready act W dl m = Some (r, j, t, e') \<Longrightarrow> (r = Stopped \<longrightarrow> tk_stop (W j)) \<and> (r = Ready \<longrightarrow> ready e') \<and> (r = TimedOut \<longrightarrow> dl \<le> t)"
proof (induction ready act W dl m rule: poll_loop.induct)
  case (1 ready act W dl i now e)
  show ?case
  proof (cases "now \<ge> dl \<or> tk_stop (W i) \<or> ready e")
    case True
    with 1(2) show ?thesis by (auto simp: poll_loop.simps [of ready act W dl i now e] split: if_splits)
  next
    case False
    with 1(2) obtain a t' b where a: "act (i, now, tk_mid (W i) e) = Some (a, t', b)"
      "poll_loop ready act W dl (nap W poll_ns (a, max now t', b)) = Some (r, j, t, e')"
      by (auto simp: poll_loop.simps [of ready act W dl i now e] split: option.splits)
    show ?thesis by (rule 1(1) [OF _ _ _ a(1) refl refl a(2)]) (use False in auto)
  qed
qed

lemma runPrecommit_leaves:
  assumes "runPrecommit W fast round (i, now, e) = Some (j, t, e')" "be_step e' = StepPrecommit"
  shows "tk_stop (W j)"
  using assms poll_loop_leaves
  by (auto simp: runPrecommit_def split: option.splits prod.splits Waited.splits) blast+

text \<open>Nothing changes the configuration of a running engine.\<close>

definition keeps_cfg :: "World \<Rightarrow> bool" where
  "keeps_cfg W \<longleftrightarrow> (\<forall>k e. be_cfg (tk_mid (W k) e) = be_cfg e \<and> be_cfg (tk_asleep (W k) e) = be_cfg e)"

lemma cfg_kept [simp]:
  "be_cfg (snd (runPropose_enter cx h e)) = be_cfg e" "be_cfg (snd (buildAndBroadcastProposal cx h r e)) = be_cfg e"
  by (simp_all add: runPropose_enter_def buildAndBroadcastProposal_def Let_def split: prod.split sum.split)

lemma pace_loop_cfg: "keeps_cfg W \<Longrightarrow> be_cfg (engine (pace_loop W cfg fast lastAt t0 k i e)) = be_cfg e"
proof (induction W cfg fast lastAt t0 k i e rule: pace_loop.induct)
  case (1 W cfg fast lastAt t0 k i e)
  then show ?case by (subst pace_loop.simps) (simp add: Let_def keeps_cfg_def)
qed

lemma waitBlockInterval_cfg:
  assumes "keeps_cfg W" "waitBlockInterval W fast (i, now, e) = (j, t, e')"
  shows "be_cfg e' = be_cfg e"
  using assms pace_loop_cfg [OF assms(1)]
  by (auto simp: waitBlockInterval_def split: option.splits) (metis moment_simps(2))

lemma runPropose_ends:
  assumes W: "late_by W L" "keeps_cfg W" and p: "p = pace_end fast now e + int L"
  shows "\<exists>j t e'. runPropose W fast h round (i, now, e) = Some (j, t, e') \<and> i \<le> j \<and> now \<le> t
    \<and> t \<le> max (p + 10 ^ 9 + int L) (over_by L p (deadline_of (bc_ProposeTimeout (be_cfg e)) (be_cfg e) round p))"
proof -
  let ?cfg = "be_cfg e"
  obtain i1 now1 e1 where w: "waitBlockInterval W fast (i, now, e) = (i1, now1, e1)" by (metis surj_pair)
  have w1: "i \<le> i1" "now \<le> now1" "now1 \<le> p" "be_cfg e1 = ?cfg"
    using waitBlockInterval_bounds [OF W(1) w] waitBlockInterval_cfg [OF W(2) w] p by auto
  obtain nx e2 where en: "runPropose_enter (tk_cx (W i1)) h (tk_mid (W i1) e1) = (nx, e2)" by fastforce
  then have e2: "be_cfg e2 = ?cfg" using w1(4) W(2) cfg_kept(1) [of "tk_cx (W i1)" h "tk_mid (W i1) e1"] by (simp add: keeps_cfg_def)
  note l = late_byD [OF W(1), of i1]
  show ?thesis
  proof (cases nx)
    case (ProposeWait leads)
    define e3 where "e3 = (if leads then snd (buildAndBroadcastProposal (tk_cx (W i1)) h round e2) else e2)"
    have e3: "be_cfg e3 = ?cfg" by (simp add: e3_def e2)
    let ?dl = "deadline_of (bc_ProposeTimeout ?cfg) ?cfg round now1"
    obtain r j t e' where q: "poll_loop (\<lambda>e. be_proposal e \<noteq> None) Some W ?dl (i1, now1, e3) = Some (r, j, t, e')" "i1 \<le> j" "now1 \<le> t"
      "t \<le> over_by L now1 ?dl"
      using proposal_wait.ends [OF W(1), of "\<lambda>e. be_proposal e \<noteq> None" ?dl i1 now1 e3] by (auto simp: over_by_def)
    have "over_by L now1 ?dl \<le> over_by L p (deadline_of (bc_ProposeTimeout ?cfg) ?cfg round p)"
      using w1(3) by (auto simp: over_by_def deadline_of_def)
    moreover have "\<exists>e4. runPropose W fast h round (i, now, e) = Some (j, t, e4)"
      using q(1) by (cases r) (simp_all add: runPropose_def w en ProposeWait e3_def [symmetric] e3)
    ultimately show ?thesis using q w1 by fastforce
  next
    case ProposeReturn
    then show ?thesis using w1 by (simp add: runPropose_def w en)
  next
    case ProposeSolo
    obtain b e3 where "soloSeal (tk_cx (W i1)) e2 = (b, e3)" by fastforce
    then show ?thesis using w1 l by (cases b) (simp_all add: runPropose_def w en ProposeSolo)
  qed
qed

text \<open>
  C9: no phase of the consensus engine waits for ever. Whatever the other goroutines do to the engine and however late sleeps
  end, proposing and prevoting return, no later than one poll after the end of the pause and the
  deadline, and prevoting and precommitting are over when they return, unless the engine was told to stop.
\<close>

theorem phases_end:
  assumes "late_by W L" "keeps_cfg W"
  shows "(\<exists>j t e'. runPropose W fast h round (i, now, e) = Some (j, t, e') \<and> now \<le> t
      \<and> (let p = pace_end fast now e + int L in
          t \<le> max (p + 10 ^ 9 + int L) (over_by L p (deadline_of (bc_ProposeTimeout (be_cfg e)) (be_cfg e) round p))))
    \<and> (\<exists>j t e'. runPrevote W round (i, now, e) = Some (j, t, e') \<and> now \<le> t
      \<and> t \<le> over_by L now (deadline_of (bc_PrevoteTimeout (be_cfg e)) (be_cfg e) round now)
      \<and> (be_step e' = StepPrevote \<longrightarrow> tk_stop (W j)))
    \<and> (\<forall>j t e'. runPrecommit W fast round (i, now, e) = Some (j, t, e') \<longrightarrow> be_step e' = StepPrecommit \<longrightarrow> tk_stop (W j))"
  using runPropose_ends [OF assms refl, of fast h round i now e] runPrevote_ends [OF assms(1), of round i now e]
    runPrecommit_leaves by (auto simp: Let_def)

definition demo_world :: "nat \<Rightarrow> World" where
  "demo_world s = (\<lambda>k. \<lparr>tk_cx = demo_ctx, tk_late = 0, tk_early = 0, tk_stop = (s \<le> k), tk_mid = (\<lambda>e. e), tk_asleep = (\<lambda>e. e)\<rparr>)"

theorem phases_end_witness:
  "\<exists>j t e'. runPrevote (demo_world 100) 0 (0, 0, demo_prevoting (CHR ''a'')) = Some (j, t, e') \<and> t \<le> 5 * 10 ^ 9 + 50 * 10 ^ 6"
proof -
  have W: "late_by (demo_world 100) 0" "keeps_cfg (demo_world 100)" by (simp_all add: demo_world_def late_by_def keeps_cfg_def)
  have c: "be_cfg (demo_prevoting (CHR ''a'')) = DefaultBFTConfig"
    by (simp add: demo_prevoting_def demo_engine_def NewBFTEngine_def Let_def)
  show ?thesis
    using phases_end [OF W, of None 0 0 0 0 "demo_prevoting (CHR ''a'')"]
    by (auto simp: c over_by_def deadline_of_def round_timeout_def i64_def DefaultBFTConfig_def poll_ns_def)
qed

section \<open>Stopping\<close>

text \<open>\<^verbatim>\<open>Stop\<close> closes the channel: every look at it from wake-up \<open>s\<close> on finds it closed.\<close>

definition stopped_from :: "World \<Rightarrow> nat \<Rightarrow> bool" where
  "stopped_from W s \<longleftrightarrow> (\<forall>k \<ge> s. tk_stop (W k))"

lemma pace_loop_stop: "stopped_from W s \<Longrightarrow> i < fst (pace_loop W cfg fast lastAt t0 k i e) \<and> fst (pace_loop W cfg fast lastAt t0 k i e) \<le> max i s + 1"
proof (induction W cfg fast lastAt t0 k i e rule: pace_loop.induct)
  case (1 W cfg fast lastAt t0 k i e)
  show ?case
  proof (cases "tk_stop (W i) \<or> t0 + pace_ns * (int k + 1) + int (tk_late (W i)) - lastAt \<ge> pace_need cfg fast (tk_asleep (W i) e)")
    case True
    then have "fst (pace_loop W cfg fast lastAt t0 k i e) = i + 1" by (subst pace_loop.simps) (auto simp: Let_def)
    then show ?thesis by simp
  next
    case False
    moreover have "i < s" using False 1(2) by (auto simp: stopped_from_def not_le [symmetric])
    ultimately show ?thesis using 1 by (subst pace_loop.simps, subst (2) pace_loop.simps) (force simp: Let_def)
  qed
qed

lemma waitBlockInterval_stop:
  assumes "stopped_from W s" "waitBlockInterval W fast (i, now, e) = (j, t, e')"
  shows "i \<le> j \<and> j \<le> max i s + 1"
  using assms(2) pace_loop_stop [OF assms(1), of i]
  by (auto simp: waitBlockInterval_def split: option.splits) (metis fst_conv le_max_iff_disj less_imp_le max.commute)+

lemma poll_loop_stop:
  assumes "stopped_from W s" "\<And>m m'. act m = Some m' \<Longrightarrow> fst m \<le> fst m' \<and> fst m' \<le> max (fst m) s + 1"
    and "poll_loop ready act W dl (i, now, e) = Some (r, j, t, e')"
  shows "i \<le> j \<and> j \<le> max i (s + 2)"
  using assms(3)
proof (induction "nat (dl - now)" arbitrary: i now e rule: less_induct)
  case less
  show ?case
  proof (cases "now \<ge> dl \<or> tk_stop (W i) \<or> ready e")
    case True
    with less(2) show ?thesis by (auto simp: poll_loop.simps [of ready act W dl i now e] split: if_splits)
  next
    case False
    with less(2) obtain a t' b where a: "act (i, now, tk_mid (W i) e) = Some (a, t', b)"
      "poll_loop ready act W dl (a + 1, max now t' + poll_ns + int (tk_late (W a)), tk_asleep (W a) b) = Some (r, j, t, e')"
      by (auto simp: poll_loop.simps [of ready act W dl i now e] split: option.splits)
    have "i < s" using False assms(1) by (auto simp: stopped_from_def not_le [symmetric])
    moreover have "nat (dl - (max now t' + poll_ns + int (tk_late (W a)))) < nat (dl - now)" using False by (simp add: poll_ns_def)
    ultimately show ?thesis using less(1) [OF _ a(2)] assms(2) [OF a(1)] by auto
  qed
qed

lemma poll_precommits_stop:
  assumes "stopped_from W s" "poll_precommits W fast m = Some m'"
  shows "fst m \<le> fst m' \<and> fst m' \<le> max (fst m) s + 1"
proof -
  obtain i now e where m: "m = (i, now, e)" by (metis surj_pair)
  obtain e1 where e1: "tryFinalizePrecommitsLocked (tk_cx (W i)) e = Some e1"
    using assms(2) by (auto simp: poll_precommits_def m split: option.splits)
  obtain j t e2 where w: "waitBlockInterval W fast (i, now, e1) = (j, t, e2)" by (metis surj_pair)
  show ?thesis
    using assms(2) waitBlockInterval_stop [OF assms(1) w] by (auto simp: poll_precommits_def m e1 w split: if_splits)
qed

lemma runPropose_stop:
  assumes s: "stopped_from W s" "i < s" and run: "runPropose W fast h round (i, now, e) = Some m'"
  shows "i \<le> fst m' \<and> fst m' \<le> s + 2"
proof -
  obtain i1 now1 e1 where w: "waitBlockInterval W fast (i, now, e) = (i1, now1, e1)" by (metis surj_pair)
  have i1: "i \<le> i1" "i1 \<le> s + 1" using waitBlockInterval_stop [OF s(1) w] s(2) by auto
  have p: "i1 \<le> j \<and> j \<le> s + 2" if "poll_loop ready Some W dl (i1, now1, e3) = Some (r, j, t, e')" for ready dl e3 r j t e'
    using poll_loop_stop [OF s(1) _ that] i1 by auto
  show ?thesis
    using run i1 by (auto simp: runPropose_def w Let_def split: prod.splits ProposeNext.splits option.splits bool.splits Waited.splits dest!: p)
qed

lemma loop_pass_stop:
  assumes s: "stopped_from W s" "fst m < s" and run: "loop_pass W fast m = Some m'"
  shows "fst m < fst m' \<and> fst m' \<le> s + 3"
proof -
  obtain i now e where m: "m = (i, now, e)" by (metis surj_pair)
  have i: "i < s" using s(2) m by simp
  obtain j t e' where ph: "run_phase W fast (i, now, e) = Some (j, t, e')" and m': "m' = nap W poll_ns (j, t, e')"
    using run by (auto simp: loop_pass_def m simp del: moment_simps(3))
  have pv: "i \<le> j' \<and> j' \<le> s + 2" if "poll_loop ready (poll_prevotes W) W dl (i, now, e) = Some (r, j', t', e1)" for ready dl r j' t' e1
    using poll_loop_stop [OF s(1) _ that] i by (auto simp: poll_prevotes_def)
  have pc: "i \<le> j' \<and> j' \<le> s + 2" if "poll_loop ready (poll_precommits W fast) W dl (i, now, e) = Some (r, j', t', e1)" for ready dl r j' t' e1
    using poll_loop_stop [OF s(1) poll_precommits_stop [OF s(1)] that] i by auto
  have "i \<le> j \<and> j \<le> s + 2"
  proof (cases "be_step e")
    case StepPrevote
    with ph show ?thesis by (auto simp: run_phase_def runPrevote_def split: option.splits Waited.splits dest!: pv)
  next
    case StepPrecommit
    with ph show ?thesis by (auto simp: run_phase_def runPrecommit_def split: option.splits Waited.splits dest!: pc)
  next
    case StepCommit
    with ph waitBlockInterval_stop [OF s(1), of fast i now e j t e'] i show ?thesis by (simp add: run_phase_def)
  qed (use ph runPropose_stop [OF s(1) i] in \<open>force simp: run_phase_def\<close>)+
  then show ?thesis by (simp add: m m')
qed

text \<open>
  C10: the engine can be stopped. However the loop is waiting when the channel is closed, it ends within three wake-ups, after at
  most as many passes as there are wake-ups before that, unless it panics first.
\<close>

theorem engine_stops:
  assumes s: "stopped_from W s" and n: "s - fst m < n"
  shows "engine_loop n W fast m = Panicked \<or> (\<exists>m'. engine_loop n W fast m = Returned m' \<and> fst m' \<le> max (fst m) (s + 3))"
  using n
proof (induction n arbitrary: m)
  case (Suc n)
  show ?case
  proof (cases "tk_stop (W (fst m))")
    case False
    then have i: "fst m < s" using s by (auto simp: stopped_from_def not_le [symmetric])
    show ?thesis
    proof (cases "loop_pass W fast m")
      case (Some m')
      with loop_pass_stop [OF s i] have m': "fst m < fst m'" "fst m' \<le> s + 3" by auto
      then have "s - fst m' < n" using Suc.prems i by auto
      from Suc.IH [OF this] m' Some False show ?thesis by auto
    qed (use False in simp)
  qed simp
qed simp

theorem engine_stops_witness:
  "engine_loop 4 (demo_world 3) None (0, 0, demo_engine (CHR ''a'')) = Panicked
   \<or> (\<exists>m. engine_loop 4 (demo_world 3) None (0, 0, demo_engine (CHR ''a'')) = Returned m \<and> fst m \<le> 6)"
  using engine_stops [of "demo_world 3" 3 "(0, 0, demo_engine (CHR ''a''))" 4 None] by (simp add: stopped_from_def demo_world_def)

section \<open>A silent network\<close>

definition quiet :: "World \<Rightarrow> nat \<Rightarrow> bool" where
  "quiet W L \<longleftrightarrow> late_by W L \<and> (\<forall>k. \<not> tk_stop (W k) \<and> tk_mid (W k) = id \<and> tk_asleep (W k) = id)"

lemma quietD: "quiet W L \<Longrightarrow> \<not> tk_stop (W k)" "quiet W L \<Longrightarrow> tk_mid (W k) = id" "quiet W L \<Longrightarrow> tk_asleep (W k) = id"
  "quiet W L \<Longrightarrow> late_by W L"
  by (simp_all add: quiet_def)

lemma pace_loop_quiet: "quiet W L \<Longrightarrow> engine (pace_loop W cfg fast lastAt t0 k i e) = e"
proof (induction W cfg fast lastAt t0 k i e rule: pace_loop.induct)
  case (1 W cfg fast lastAt t0 k i e)
  then show ?case by (subst pace_loop.simps) (simp add: Let_def quietD)
qed

lemma waitBlockInterval_quiet:
  assumes "quiet W L"
  obtains j t where "waitBlockInterval W fast (i, now, e) = (j, t, e)" "now \<le> t" "t \<le> pace_end fast now e + int L"
proof -
  obtain j t e' where w: "waitBlockInterval W fast (i, now, e) = (j, t, e')" by (metis surj_pair)
  have "e' = e"
    using w pace_loop_quiet [OF assms] by (auto simp: waitBlockInterval_def split: option.splits) (metis moment_simps(2))
  with waitBlockInterval_bounds [OF quietD(4) [OF assms] w] w show thesis by (intro that) auto
qed

text \<open>A wait in which no poll finds anything to do lasts until the deadline and no longer than a poll beyond it.\<close>

lemma poll_idle:
  assumes W: "quiet W L" and "\<not> ready e" "\<And>i now. act (i, now, e) = Some (i, now, e)"
  shows "\<exists>j t. poll_loop ready act W dl (i, now, e) = Some (TimedOut, j, t, e) \<and> now \<le> t \<and> dl \<le> t \<and> t \<le> over_by L now dl"
proof (induction "nat (dl - now)" arbitrary: i now rule: less_induct)
  case less
  show ?case
  proof (cases "now \<ge> dl")
    case True
    then show ?thesis by (subst poll_loop.simps) (simp add: over_by_def)
  next
    case False
    let ?now = "now + poll_ns + int (tk_late (W i))"
    have r: "poll_loop ready act W dl (i, now, e) = poll_loop ready act W dl (i + 1, ?now, e)"
      using False assms(2,3) by (subst poll_loop.simps) (simp add: quietD [OF W])
    have "nat (dl - ?now) < nat (dl - now)" using False by (simp add: poll_ns_def)
    from less [OF this, of "i + 1"] late_byD [OF quietD(4) [OF W], of i] False show ?thesis
      unfolding r by (fastforce simp: over_by_def poll_ns_def)
  qed
qed

lemma poll_ready:
  "\<not> tk_stop (W i) \<Longrightarrow> ready e \<Longrightarrow>
     poll_loop ready act W dl (i, now, e) = Some (if now \<ge> dl then TimedOut else Ready, i, now, e)"
  by (subst poll_loop.simps) simp

text \<open>One vote is no quorum among two or more.\<close>

lemma few_votes: "length votes \<le> 1 \<Longrightarrow> 2 \<le> q \<Longrightarrow> \<not> q \<le> count_for h votes"
proof -
  assume "length votes \<le> 1" "2 \<le> q"
  moreover have "count_for h votes \<le> int (length votes)" by (simp add: count_for_def)
  ultimately show ?thesis by linarith
qed

lemma idle_polls:
  assumes q: "2 \<le> QuorumSize (validatorCountLocked e)"
  shows "length (be_prevotes e) \<le> 1 \<Longrightarrow> tryFinalizePrevotesLocked cx e = e"
    "length (be_precommits e) \<le> 1 \<Longrightarrow> tryFinalizePrecommitsLocked cx e = Some e"
proof -
  have none: "find (\<lambda>h. count_for h votes \<ge> QuorumSize (validatorCountLocked e) \<and> P h) xs = None" if "length votes \<le> 1" for votes P xs
    using few_votes [OF that q] by (simp add: find_None_iff)
  show "length (be_prevotes e) \<le> 1 \<Longrightarrow> tryFinalizePrevotesLocked cx e = e"
    using none [of "be_prevotes e" "\<lambda>_. True"] few_votes [of "be_prevotes e", OF _ q, of "[]"]
    by (simp add: tryFinalizePrevotesLocked_def Let_def)
  show "length (be_precommits e) \<le> 1 \<Longrightarrow> tryFinalizePrecommitsLocked cx e = Some e"
    using none [of "be_precommits e" "\<lambda>h. h \<noteq> []"] few_votes [of "be_precommits e", OF _ q, of "[]"]
    by (simp add: tryFinalizePrecommitsLocked_def Let_def)
qed

text \<open>What a silent round leaves as it was.\<close>

definition same_seat :: "BFTEngine \<Rightarrow> BFTEngine \<Rightarrow> bool" where
  "same_seat e e' \<longleftrightarrow> be_height e' = be_height e \<and> be_leader e' = be_leader e \<and> be_cfg e' = be_cfg e
     \<and> be_lockedHash e' = be_lockedHash e \<and> be_lockedRound e' = be_lockedRound e \<and> be_lastCommitAt e' = be_lastCommitAt e
     \<and> be_commits e' = be_commits e"

lemma same_seat_trans: "same_seat a b \<Longrightarrow> same_seat b c \<Longrightarrow> same_seat a c"
  by (simp add: same_seat_def)

lemma same_seat_count: "same_seat e e' \<Longrightarrow> validatorCountLocked e' = validatorCountLocked e"
  by (simp add: same_seat_def validatorCountLocked_def)

lemma broadcast_seat:
  "same_seat e (broadcastVoteLocked cx ty h e)"
  "length (be_prevotes e) = 0 \<Longrightarrow> length (be_prevotes (broadcastVoteLocked cx ty h e)) \<le> 1"
  "length (be_precommits e) = 0 \<Longrightarrow> length (be_precommits (broadcastVoteLocked cx ty h e)) \<le> 1"
  "ty = VotePrevote \<Longrightarrow> be_precommits (broadcastVoteLocked cx ty h e) = be_precommits e"
  by (auto simp: broadcastVoteLocked_def same_seat_def Let_def split: sum.split)

lemma enter_seat:
  assumes n: "2 \<le> validatorCountLocked e" and st: "be_step e = StepNewHeight \<or> be_step e = StepPropose"
  obtains b e' where "runPropose_enter cx h e = (ProposeWait b, e')" "same_seat e e'" "be_round e' = be_round e"
    "be_step e' = StepPropose" "be_prevotes e' = []" "be_precommits e' = []" "be_proposal e' = None"
proof -
  obtain l where l: "be_leader e = Some l" "2 \<le> length (ls_validators l)"
    using n by (auto simp: validatorCountLocked_def Count_def Let_def split: option.splits if_splits)
  obtain x s1 where x: "IsLocalLeader l (be_store e) (cx_now cx) h = (x, s1)" by fastforce
  show thesis
    by (rule that [of "x \<and> be_privKey e \<noteq> []" "e\<lparr>be_step := StepPropose, be_proposal := None, be_prevotes := [], be_precommits := [],
        be_pendingTxs := [], be_store := s1\<rparr>"])
      (use l st x in \<open>auto simp: runPropose_enter_def Count_def same_seat_def Let_def\<close>)
qed

lemma build_seat:
  "same_seat e (snd (buildAndBroadcastProposal cx h r e))"
  "be_round (snd (buildAndBroadcastProposal cx h r e)) = be_round e" "be_step (snd (buildAndBroadcastProposal cx h r e)) = be_step e"
  "be_prevotes (snd (buildAndBroadcastProposal cx h r e)) = be_prevotes e"
  "be_precommits (snd (buildAndBroadcastProposal cx h r e)) = be_precommits e"
  by (simp_all add: buildAndBroadcastProposal_def same_seat_def Let_def split: prod.split sum.split)

text \<open>The three phases when nothing is heard.\<close>

lemma silent_propose:
  assumes W: "quiet W L" and n: "2 \<le> validatorCountLocked e" and st: "be_step e = StepNewHeight \<or> be_step e = StepPropose"
    and p: "p = pace_end fast now e + int L"
  shows "\<exists>j t e'. runPropose W fast h r (i, now, e) = Some (j, t, e') \<and> now \<le> t
    \<and> t \<le> over_by L p (deadline_of (bc_ProposeTimeout (be_cfg e)) (be_cfg e) r p)
    \<and> same_seat e e' \<and> be_round e' = be_round e \<and> be_step e' = StepPrevote \<and> length (be_prevotes e') \<le> 1 \<and> be_precommits e' = []"
proof -
  obtain i1 now1 where w: "waitBlockInterval W fast (i, now, e) = (i1, now1, e)" "now \<le> now1" "now1 \<le> p"
    using waitBlockInterval_quiet [OF W] p by metis
  let ?cx = "tk_cx (W i1)"
  obtain b e1 where e1: "runPropose_enter ?cx h e = (ProposeWait b, e1)" "same_seat e e1" "be_round e1 = be_round e"
    "be_step e1 = StepPropose" "be_prevotes e1 = []" "be_precommits e1 = []"
    by (rule enter_seat [OF n st])
  define e2 where "e2 = (if b then snd (buildAndBroadcastProposal ?cx h r e1) else e1)"
  have e2: "same_seat e e2" "be_round e2 = be_round e" "be_step e2 = StepPropose" "be_prevotes e2 = []" "be_precommits e2 = []"
    using e1 build_seat [where e = e1 and cx = ?cx and h = h and r = r] same_seat_trans [OF e1(2), of e2]
    unfolding e2_def by (cases b; simp)+
  let ?cfg = "be_cfg e" and ?ready = "\<lambda>e. be_proposal e \<noteq> None"
  let ?dl = "deadline_of (bc_ProposeTimeout ?cfg) ?cfg r now1"
  have cfg: "be_cfg e2 = ?cfg" using e2(1) by (simp add: same_seat_def)
  obtain x j t where q: "poll_loop ?ready Some W ?dl (i1, now1, e2) = Some (x, j, t, e2)" "x \<noteq> Stopped" "now1 \<le> t" "t \<le> over_by L now1 ?dl"
  proof (cases "?ready e2")
    case True
    show thesis
      by (rule that [OF poll_ready [of W i1 ?ready e2 Some ?dl now1, OF quietD(1) [OF W] True]]) (simp_all add: over_by_def)
  next
    case False
    from poll_idle [OF W, of ?ready, OF this, of Some ?dl i1 now1] that show thesis by blast
  qed
  define e3 where "e3 = runPropose_end (tk_cx (W j)) e2"
  have run: "runPropose W fast h r (i, now, e) = Some (j, t, e3)"
    using q(1,2) by (cases x) (simp_all add: runPropose_def w(1) quietD [OF W] e1(1) e2_def [symmetric] cfg e3_def)
  have "over_by L now1 ?dl \<le> over_by L p (deadline_of (bc_ProposeTimeout ?cfg) ?cfg r p)"
    using w(3) by (auto simp: over_by_def deadline_of_def)
  then have t: "now \<le> t" "t \<le> over_by L p (deadline_of (bc_ProposeTimeout ?cfg) ?cfg r p)" using q(3,4) w(2) by linarith+
  obtain hash where e3: "e3 = broadcastVoteLocked (tk_cx (W j)) VotePrevote hash (e2\<lparr>be_step := StepPrevote\<rparr>)"
    using e2(3) by (auto simp: e3_def runPropose_end_def enterPrevoteLocked_def Let_def)
  have "same_seat e (e2\<lparr>be_step := StepPrevote\<rparr>)" using e2(1) by (simp add: same_seat_def)
  then have "same_seat e e3" unfolding e3 by (rule same_seat_trans [OF _ broadcast_seat(1)])
  moreover have "be_round e3 = be_round e" "be_step e3 = StepPrevote" by (simp_all add: e3 e2)
  moreover have "length (be_prevotes e3) \<le> 1" "be_precommits e3 = []"
    using broadcast_seat(2,4) [where e = "e2\<lparr>be_step := StepPrevote\<rparr>"] e2(4,5) by (simp_all add: e3)
  ultimately show ?thesis using run t by blast
qed

lemma silent_prevote:
  assumes W: "quiet W L" and q: "2 \<le> QuorumSize (validatorCountLocked e)" and st: "be_step e = StepPrevote"
    and votes: "length (be_prevotes e) \<le> 1" "be_precommits e = []"
    and dl: "dl = deadline_of (bc_PrevoteTimeout (be_cfg e)) (be_cfg e) r now"
  shows "\<exists>j t e'. runPrevote W r (i, now, e) = Some (j, t, e') \<and> now \<le> t \<and> dl \<le> t \<and> t \<le> over_by L now dl
    \<and> same_seat e e' \<and> be_round e' = be_round e \<and> be_step e' = StepPrecommit \<and> length (be_precommits e') \<le> 1"
proof -
  have act: "poll_prevotes W (i, now, e) = Some (i, now, e)" for i now
    using idle_polls(1) [OF q votes(1)] by (simp add: poll_prevotes_def)
  obtain j t where p: "poll_loop (\<lambda>e. be_step e \<noteq> StepPrevote) (poll_prevotes W) W dl (i, now, e) = Some (TimedOut, j, t, e)"
    "now \<le> t" "dl \<le> t" "t \<le> over_by L now dl"
    using poll_idle [OF W _ act, of "\<lambda>e. be_step e \<noteq> StepPrevote" dl i now] st by auto
  let ?e = "e\<lparr>be_step := StepPrecommit\<rparr>"
  have run: "runPrevote W r (i, now, e) = Some (j, t, broadcastVoteLocked (tk_cx (W j)) VotePrecommit [] ?e)"
    using p(1) st by (simp add: runPrevote_def dl quietD [OF W] runPrevote_timeout_def)
  have "same_seat e ?e" by (simp add: same_seat_def)
  then have "same_seat e (broadcastVoteLocked (tk_cx (W j)) VotePrecommit [] ?e)" by (rule same_seat_trans [OF _ broadcast_seat(1)])
  moreover have "length (be_precommits (broadcastVoteLocked (tk_cx (W j)) VotePrecommit [] ?e)) \<le> 1"
    using broadcast_seat(3) [where e = ?e] votes(2) by simp
  ultimately show ?thesis using run p by auto
qed

lemma silent_precommit:
  assumes W: "quiet W L" and q: "2 \<le> QuorumSize (validatorCountLocked e)" and st: "be_step e = StepPrecommit"
    and votes: "length (be_precommits e) \<le> 1" and r: "in_i32 (be_round e + 1)"
    and dl: "dl = deadline_of (bc_PrecommitTimeout (be_cfg e)) (be_cfg e) r now"
  shows "\<exists>j t e'. runPrecommit W fast r (i, now, e) = Some (j, t, e') \<and> now \<le> t \<and> dl \<le> t \<and> t \<le> over_by L now dl
    \<and> same_seat e e' \<and> be_round e' = be_round e + 1 \<and> be_step e' = StepNewHeight"
proof -
  have act: "poll_precommits W fast (i, now, e) = Some (i, now, e)" for i now
    using idle_polls(2) [OF q votes(1)] by (simp add: poll_precommits_def)
  obtain j t where p: "poll_loop (\<lambda>e. be_step e \<noteq> StepPrecommit) (poll_precommits W fast) W dl (i, now, e) = Some (TimedOut, j, t, e)"
    "now \<le> t" "dl \<le> t" "t \<le> over_by L now dl"
    using poll_idle [OF W _ act, of "\<lambda>e. be_step e \<noteq> StepPrecommit" dl i now] st by auto
  have run: "runPrecommit W fast r (i, now, e) = Some (j, t, next_round e)"
    using p(1) st by (simp add: runPrecommit_def dl quietD [OF W] runPrecommit_timeout_def)
  have "same_seat e (next_round e) \<and> be_round (next_round e) = be_round e + 1 \<and> be_step (next_round e) = StepNewHeight"
    using r by (simp add: same_seat_def next_round_def i32_id)
  with run p show ?thesis by auto
qed

definition phase_ns :: "(BFTConfig \<Rightarrow> int) \<Rightarrow> BFTConfig \<Rightarrow> int \<Rightarrow> int" where
  "phase_ns base cfg r = max 0 (round_timeout (base cfg) cfg r)"

lemma over_by_deadline: "over_by L p (deadline_of (base cfg) cfg r p) \<le> p + phase_ns base cfg r + poll_ns + int L"
  by (auto simp: over_by_def deadline_of_def phase_ns_def poll_ns_def)

lemma over_by_ge: "now \<le> t \<Longrightarrow> deadline_of (base cfg) cfg r now \<le> t \<Longrightarrow> now + phase_ns base cfg r \<le> t"
  by (simp add: deadline_of_def phase_ns_def)

lemma loop_three:
  assumes "\<not> tk_stop (W i)" "run_phase W fast (i, now, e) = Some ma" "nap W poll_ns ma = mx" "\<not> tk_stop (W (fst mx))"
    "run_phase W fast mx = Some mb" "nap W poll_ns mb = my" "\<not> tk_stop (W (fst my))" "run_phase W fast my = Some mc"
  shows "engine_loop 3 W fast (i, now, e) = Running (nap W poll_ns mc)"
  using assms by (simp add: numeral_3_eq_3 loop_pass_def)

text \<open>
  C8: a silent network costs a round and no more. An engine of two or more validators at the start of a round that hears
  nothing, leader or not, is three passes of its loop later at the start of the next round of the same
  height, with the same lock and nothing committed: not before its prevote and precommit deadlines, and not
  later than the end of the pause, the three deadlines, and six polls with their lateness.
\<close>

theorem silent_round:
  assumes W: "quiet W L" and n: "2 \<le> validatorCountLocked e" "validatorCountLocked e < 2 ^ 62"
    and st: "be_step e = StepNewHeight" and r: "r = be_round e" "in_i32 (r + 1)" and cfg: "cfg = be_cfg e"
  shows "\<exists>j t e'. engine_loop 3 W fast (i, now, e) = Running (j, t, e') \<and> same_seat e e' \<and> be_step e' = StepNewHeight \<and> be_round e' = r + 1
    \<and> now + phase_ns bc_PrevoteTimeout cfg r + phase_ns bc_PrecommitTimeout cfg r \<le> t
    \<and> t \<le> pace_end fast now e + phase_ns bc_ProposeTimeout cfg r + phase_ns bc_PrevoteTimeout cfg r
          + phase_ns bc_PrecommitTimeout cfg r + 6 * (poll_ns + int L) + int L"
proof -
  have q: "2 \<le> QuorumSize (validatorCountLocked e)" using n by (simp add: QuorumSize_eq)
  define p where "p = pace_end fast now e + int L"
  obtain j1 t1 e1 where 1: "runPropose W fast (be_height e) r (i, now, e) = Some (j1, t1, e1)" "now \<le> t1"
    "t1 \<le> over_by L p (deadline_of (bc_ProposeTimeout cfg) cfg r p)"
    "same_seat e e1" "be_round e1 = r" "be_step e1 = StepPrevote" "length (be_prevotes e1) \<le> 1" "be_precommits e1 = []"
    using silent_propose [OF W n(1) disjI1 [OF st] p_def, of "be_height e" r i] r(1) cfg by blast
  let ?t1 = "t1 + poll_ns + int (tk_late (W j1))"
  have q1: "2 \<le> QuorumSize (validatorCountLocked e1)" using q same_seat_count [OF 1(4)] by simp
  have c1: "be_cfg e1 = cfg" using 1(4) cfg by (simp add: same_seat_def)
  obtain j2 t2 e2 where 2: "runPrevote W r (j1 + 1, ?t1, e1) = Some (j2, t2, e2)" "?t1 \<le> t2"
    "deadline_of (bc_PrevoteTimeout cfg) cfg r ?t1 \<le> t2" "t2 \<le> over_by L ?t1 (deadline_of (bc_PrevoteTimeout cfg) cfg r ?t1)"
    "same_seat e1 e2" "be_round e2 = r" "be_step e2 = StepPrecommit" "length (be_precommits e2) \<le> 1"
    using silent_prevote [OF W q1 1(6-8) refl, of r "j1 + 1" ?t1] 1(5) c1 by auto
  let ?t2 = "t2 + poll_ns + int (tk_late (W j2))"
  have s2: "same_seat e e2" by (rule same_seat_trans [OF 1(4) 2(5)])
  have q2: "2 \<le> QuorumSize (validatorCountLocked e2)" using q same_seat_count [OF s2] by simp
  have c2: "be_cfg e2 = cfg" using s2 cfg by (simp add: same_seat_def)
  have r2: "in_i32 (be_round e2 + 1)" using r 2(6) by simp
  obtain j3 t3 e3 where 3: "runPrecommit W fast r (j2 + 1, ?t2, e2) = Some (j3, t3, e3)" "?t2 \<le> t3"
    "deadline_of (bc_PrecommitTimeout cfg) cfg r ?t2 \<le> t3" "t3 \<le> over_by L ?t2 (deadline_of (bc_PrecommitTimeout cfg) cfg r ?t2)"
    "same_seat e2 e3" "be_round e3 = r + 1" "be_step e3 = StepNewHeight"
    using silent_precommit [OF W q2 2(7,8) r2 refl, of fast r "j2 + 1" ?t2] 2(6) c2 by auto
  have run: "engine_loop 3 W fast (i, now, e) = Running (nap W poll_ns (j3, t3, e3))"
    by (rule loop_three [where ma = "(j1, t1, e1)" and mb = "(j2, t2, e2)", OF _ _ refl _ _ refl])
      (use 2(1) 3(1) in \<open>simp_all add: run_phase_def quietD [OF W] st 1 2(6,7) r(1) [symmetric]\<close>)
  note late = late_byD [OF quietD(4) [OF W]]
  note over = over_by_deadline [where L = L and cfg = cfg and r = r] over_by_ge [where cfg = cfg and r = r]
  have "t3 \<le> ?t2 + phase_ns bc_PrecommitTimeout cfg r + poll_ns + int L" "t2 \<le> ?t1 + phase_ns bc_PrevoteTimeout cfg r + poll_ns + int L"
    "t1 \<le> p + phase_ns bc_ProposeTimeout cfg r + poll_ns + int L"
    using over_by_deadline [of L _ bc_PrecommitTimeout cfg r] over_by_deadline [of L _ bc_PrevoteTimeout cfg r]
      over_by_deadline [of L p bc_ProposeTimeout cfg r] 1(3) 2(4) 3(4) order_trans by blast+
  moreover have "?t1 + phase_ns bc_PrevoteTimeout cfg r \<le> t2" "?t2 + phase_ns bc_PrecommitTimeout cfg r \<le> t3"
    using 2(2,3) 3(2,3) by (intro over_by_ge; simp)+
  moreover have "0 \<le> poll_ns" by (simp add: poll_ns_def)
  moreover have "same_seat e e3" by (rule same_seat_trans [OF s2 3(5)])
  ultimately show ?thesis
    using 1(2) 3(6,7) late [of j1] late [of j2] late [of j3] unfolding run moment_simps quietD(3) [OF W] id_apply p_def by auto
qed

theorem silent_round_witness:
  "\<exists>j t e'. engine_loop 3 (\<lambda>k. \<lparr>tk_cx = demo_ctx, tk_late = 0, tk_early = 0, tk_stop = False, tk_mid = id, tk_asleep = id\<rparr>) None
       (0, 0, demo_engine (CHR ''a'')) = Running (j, t, e')
     \<and> be_round e' = 1 \<and> be_height e' = 1 \<and> 10 * 10 ^ 9 \<le> t \<and> t \<le> 15 * 10 ^ 9 + 300 * 10 ^ 6"
proof -
  let ?W = "\<lambda>k :: nat. \<lparr>tk_cx = demo_ctx, tk_late = 0, tk_early = 0, tk_stop = False, tk_mid = id, tk_asleep = id\<rparr>" and ?e = "demo_engine (CHR ''a'')"
  have W: "quiet ?W 0" by (simp add: quiet_def late_by_def)
  have n: "validatorCountLocked ?e = 2" by (simp add: validatorCountLocked_def Count_def)
  have c: "be_cfg ?e = DefaultBFTConfig" "be_lastCommitAt ?e = None"
    by (simp_all add: demo_engine_def NewBFTEngine_def Let_def)
  show ?thesis
    using silent_round [OF W _ _ _ refl _ refl, of ?e None 0 0]
    by (auto simp: n c same_seat_def in_i32_def pace_end_def phase_ns_def round_timeout_def i64_def DefaultBFTConfig_def poll_ns_def)
qed

end
