(* ===== verification/LedgerSpec.thy ===== *)
theory LedgerSpec
  imports Producer
begin

text \<open>
  What the transactions of \<^verbatim>\<open>internal/state/state.go\<close> promise, without a store: accounts and buckets as functions, amounts as
  plain integers, no keys, no encodings, no disk. \<open>ApplyTx\<close> implements this specification on every
  healthy store that satisfies the ledger invariant, and with it whole blocks do.
\<close>

section \<open>The abstract ledger\<close>

record LedgerState =
  lg_acct :: "string \<Rightarrow> Account"
  lg_bucket :: "string \<Rightarrow> Bucket option"

text \<open>One account under every spelling of its address.\<close>

definition put :: "string \<Rightarrow> Account \<Rightarrow> LedgerState \<Rightarrow> LedgerState" where
  "put a x L = L\<lparr>lg_acct := (\<lambda>b. if normalizeAddr b = normalizeAddr a then x else lg_acct L b)\<rparr>"

definition mint :: "string \<Rightarrow> int \<Rightarrow> LedgerState \<Rightarrow> LedgerState option" where
  "mint n amount L =
     (case lg_bucket L n of
        None \<Rightarrow> None
      | Some b \<Rightarrow> if bkt_Minted b + amount > bkt_Cap b then None
                  else Some (L\<lparr>lg_bucket := (lg_bucket L)(n \<mapsto> b\<lparr>bkt_Minted := bkt_Minted b + amount\<rparr>)\<rparr>))"

text \<open>The specification of one transaction; \<open>pay\<close> writes the sender's account and records the nonce.\<close>

definition spec_tx :: "Transaction \<Rightarrow> LedgerState \<Rightarrow> LedgerState option" where
  "spec_tx t L =
     (let a = tx_Amount t;
          f = lg_acct L (tx_From t);
          pay = (\<lambda>x. put (tx_From t) (x\<lparr>acc_Nonce := tx_Nonce t\<rparr>))
      in if tx_Nonce t \<noteq> 0 \<and> tx_Nonce t \<le> acc_Nonce f then None
         else if tx_Type t = TxTransfer then
           let r = lg_acct L (tx_To t)
           in if acc_Balance f < a then None
              else Some (put (tx_To t) (r\<lparr>acc_Balance := acc_Balance r + a\<rparr>) (pay (f\<lparr>acc_Balance := acc_Balance f - a\<rparr>) L))
         else if tx_Type t = TxStake then
           if acc_Balance f < a then None
           else Some (pay (f\<lparr>acc_Balance := acc_Balance f - a, acc_Staked := acc_Staked f + a\<rparr>) L)
         else if tx_Type t = TxRequestUnstake then
           if acc_Staked f < a then None
           else Some (pay (f\<lparr>acc_Staked := acc_Staked f - a, acc_PendingUnstake := acc_PendingUnstake f + a\<rparr>) L)
         else if tx_Type t = TxClaimUnstake then
           if acc_PendingUnstake f < a then None
           else Some (pay (f\<lparr>acc_PendingUnstake := acc_PendingUnstake f - a, acc_Balance := acc_Balance f + a\<rparr>) L)
         else if tx_Type t = TxClaimMining then
           (case ParseClaimMiningPayload t of
              Inl _ \<Rightarrow> None
            | Inr p \<Rightarrow> map_option (pay (f\<lparr>acc_Balance := acc_Balance f + a * SubunitsPerEAST\<rparr>)) (mint (cmp_Bucket p) a L))
         else None)"

text \<open>
  A received block runs up to the first transaction that is refused, and what ran before stays; the answer is whether all
  ran. A sealed block keeps what can be applied.
\<close>

fun spec_all :: "Transaction list \<Rightarrow> LedgerState \<Rightarrow> bool \<times> LedgerState" where
  "spec_all [] L = (True, L)"
| "spec_all (t # ts) L = (case spec_tx t L of None \<Rightarrow> (False, L) | Some L' \<Rightarrow> spec_all ts L')"

fun spec_some :: "Transaction list \<Rightarrow> LedgerState \<Rightarrow> Transaction list \<times> LedgerState" where
  "spec_some [] L = ([], L)"
| "spec_some (t # ts) L =
     (case spec_tx t L of
        None \<Rightarrow> spec_some ts L
      | Some L' \<Rightarrow> (case spec_some ts L' of (us, L'') \<Rightarrow> (t # us, L'')))"

section \<open>The ledger a store holds\<close>

definition ledger_of :: "DB \<Rightarrow> LedgerState" where
  "ledger_of d = \<lparr>lg_acct = acct d,
     lg_bucket = (\<lambda>n. case map_of d (bucketKey n) of Some (BucketV b) \<Rightarrow> Some b | _ \<Rightarrow> None)\<rparr>"

lemma ledger_of_simps [simp]:
  "lg_acct (ledger_of d) = acct d"
  "lg_bucket (ledger_of d) n = Some b \<longleftrightarrow> map_of d (bucketKey n) = Some (BucketV b)"
  by (auto simp: ledger_of_def split: option.splits Value.splits)

lemma ledger_of_account: "ledger_of (kv_set (accountKey a) (AccountV x) d) = put a x (ledger_of d)"
  by (auto simp: ledger_of_def put_def)

lemma ledger_of_bucket:
  "ledger_of (kv_set (bucketKey n) (BucketV b) d) = (ledger_of d)\<lparr>lg_bucket := (lg_bucket (ledger_of d))(n \<mapsto> b)\<rparr>"
  by (rule LedgerState.equality) (auto simp: ledger_of_def fun_eq_iff bucketKey_def [symmetric])

text \<open>What the body of a transaction must do to implement the specification.\<close>

definition implements :: "DB \<Rightarrow> DB res \<Rightarrow> LedgerState option \<Rightarrow> bool" where
  "implements d r L \<longleftrightarrow> (case L of None \<Rightarrow> \<exists>e. r = Inl e | Some L' \<Rightarrow> \<exists>d'. r = Inr d' \<and> ledger_of d' = L')"

lemma setAccount_ok: "healthy s \<Longrightarrow> setAccountTxn s d a x = Inr (kv_set (accountKey a) (AccountV x) d)"
  by (simp add: setAccountTxn_def txn_Set_def)

lemma implements_put: "healthy s \<Longrightarrow> implements d (setAccountTxn s d a x) (Some (put a x (ledger_of d)))"
  by (simp add: implements_def setAccount_ok ledger_of_account)

text \<open>Within the invariant no sum of the account fields and no difference that was checked leaves the range.\<close>

lemma exact:
  assumes "ledger_inv G d" "0 < n" "in_i64 n"
  shows "n \<le> acc_Balance (acct d a) \<Longrightarrow> i64 (acc_Balance (acct d a) - n) = acc_Balance (acct d a) - n"
    "n \<le> acc_Staked (acct d a) \<Longrightarrow> i64 (acc_Staked (acct d a) - n) = acc_Staked (acct d a) - n"
    "n \<le> acc_PendingUnstake (acct d a) \<Longrightarrow> i64 (acc_PendingUnstake (acct d a) - n) = acc_PendingUnstake (acct d a) - n"
    "n \<le> acc_Balance (acct d a) \<Longrightarrow> i64 (acc_Staked (acct d a) + n) = acc_Staked (acct d a) + n"
    "n \<le> acc_Staked (acct d a) \<Longrightarrow> i64 (acc_PendingUnstake (acct d a) + n) = acc_PendingUnstake (acct d a) + n"
    "n \<le> acc_PendingUnstake (acct d a) \<Longrightarrow> i64 (acc_Balance (acct d a) + n) = acc_Balance (acct d a) + n"
  using acct_range [OF assms(1), of a] assms(2) by (auto simp: i64_id in_i64_def)

lemma transfer_exact:
  assumes inv: "ledger_inv G d" and pos: "0 < tx_Amount t" and ne: "normalizeAddr (tx_From t) \<noteq> normalizeAddr (tx_To t)"
    and run: "applyTransfer s d (acct d (tx_From t)) t = Inr d'"
  shows "i64 (acc_Balance (acct d (tx_To t)) + tx_Amount t) = acc_Balance (acct d (tx_To t)) + tx_Amount t"
proof -
  note wf = ledger_inv_wf [OF inv]
  have "acc_ok (acct d' (tx_To t))" using ledger_inv_transfer [OF inv pos ne run] by (auto intro: acct_ok ledger_inv_wf)
  then have "0 \<le> i64 (acc_Balance (acct d (tx_To t)) + tx_Amount t)"
    using applyTransfer_Inr(2) [OF wf run] by (simp add: acc_ok_def)
  moreover have "tx_Amount t < 2 ^ 63"
    using applyTransfer_Inr(1) [OF wf run] acct_range [OF inv, of "tx_From t"] by linarith
  ultimately show ?thesis
    using acct_range [OF inv, of "tx_To t"] pos by (intro i64_sum_nonneg) linarith+
qed

lemma implements_transfer:
  assumes inv: "ledger_inv G d" and h: "healthy s" and pos: "0 < tx_Amount t" "in_i64 (tx_Amount t)"
    and ne: "normalizeAddr (tx_From t) \<noteq> normalizeAddr (tx_To t)" and ty: "tx_Type t = TxTransfer"
    and non: "tx_Nonce t = 0 \<or> acc_Nonce (acct d (tx_From t)) < tx_Nonce t"
  shows "implements d (applyTransfer s d (acct d (tx_From t)) t) (spec_tx t (ledger_of d))"
proof (cases "acc_Balance (acct d (tx_From t)) < tx_Amount t")
  case True
  then show ?thesis using ty by (simp add: implements_def spec_tx_def applyTransfer_def Let_def)
next
  case False
  let ?f = "acct d (tx_From t)"
  note run = applyTransfer_healthy [OF ledger_inv_wf [OF inv] h, of t ?f]
  have le: "tx_Amount t \<le> acc_Balance ?f" using False by simp
  have nn: "\<not> (tx_Nonce t \<noteq> 0 \<and> tx_Nonce t \<le> acc_Nonce ?f)" using non by auto
  note e = exact(1) [OF inv pos le] transfer_exact [OF inv pos(1) ne run [OF le]]
  show ?thesis
    using nn ty False unfolding run [OF le]
    by (simp add: implements_def spec_tx_def e ledger_of_account Let_def)
qed

lemma implements_own:
  assumes inv: "ledger_inv G d" and h: "healthy s" and pos: "0 < tx_Amount t" "in_i64 (tx_Amount t)"
    and non: "tx_Nonce t = 0 \<or> acc_Nonce (acct d (tx_From t)) < tx_Nonce t"
  shows "tx_Type t = TxStake \<Longrightarrow> implements d (applyStake s d (acct d (tx_From t)) t) (spec_tx t (ledger_of d))"
    and "tx_Type t = TxRequestUnstake \<Longrightarrow> implements d (applyRequestUnstake s d (acct d (tx_From t)) t) (spec_tx t (ledger_of d))"
    and "tx_Type t = TxClaimUnstake \<Longrightarrow> implements d (applyClaimUnstake s d (acct d (tx_From t)) t) (spec_tx t (ledger_of d))"
proof -
  let ?f = "acct d (tx_From t)"
  have nn: "\<not> (tx_Nonce t \<noteq> 0 \<and> tx_Nonce t \<le> acc_Nonce ?f)" using non by auto
  note e = exact [OF inv pos, of "tx_From t"]
  note defs = implements_def spec_tx_def applyStake_def applyRequestUnstake_def applyClaimUnstake_def setAccount_ok [OF h]
    ledger_of_account Let_def
  show "tx_Type t = TxStake \<Longrightarrow> implements d (applyStake s d ?f t) (spec_tx t (ledger_of d))"
    using nn e(1,4) by (cases "acc_Balance ?f < tx_Amount t") (simp_all add: defs)
  show "tx_Type t = TxRequestUnstake \<Longrightarrow> implements d (applyRequestUnstake s d ?f t) (spec_tx t (ledger_of d))"
    using nn e(2,5) by (cases "acc_Staked ?f < tx_Amount t") (simp_all add: defs)
  show "tx_Type t = TxClaimUnstake \<Longrightarrow> implements d (applyClaimUnstake s d ?f t) (spec_tx t (ledger_of d))"
    using nn e(3,6) by (cases "acc_PendingUnstake ?f < tx_Amount t") (simp_all add: defs)
qed

text \<open>A claim that would pass the cap fails even where the sum wraps: then the credit overflows too.\<close>

lemma claim_Inr:
  assumes inv: "ledger_inv G d" and pos: "0 < tx_Amount t" "in_i64 (tx_Amount t)" and p: "ParseClaimMiningPayload t = Inr p"
    and run: "applyClaimMining s d (acct d (tx_From t)) t = Inr d'"
  obtains b where "map_of d (bucketKey (cmp_Bucket p)) = Some (BucketV b)" "bkt_Minted b + tx_Amount t \<le> bkt_Cap b"
    "d' = kv_set (accountKey (tx_From t)) (AccountV ((acct d (tx_From t))
        \<lparr>acc_Balance := acc_Balance (acct d (tx_From t)) + tx_Amount t * SubunitsPerEAST, acc_Nonce := tx_Nonce t\<rparr>))
      (kv_set (bucketKey (cmp_Bucket p)) (BucketV (b\<lparr>bkt_Minted := bkt_Minted b + tx_Amount t\<rparr>)) d)"
proof -
  have wf: "wf_db d" and caps: "caps d = TotalMaxSupply" using inv by (auto simp: ledger_inv_def)
  let ?a = "tx_Amount t" and ?f = "acct d (tx_From t)"
  let ?f' = "?f\<lparr>acc_Balance := i64 (acc_Balance ?f + i64 (?a * SubunitsPerEAST)), acc_Nonce := tx_Nonce t\<rparr>"
  from run p obtain d1 where mint: "mintFromBucketTxn s d (cmp_Bucket p) ?a = Inr d1"
    by (auto simp: applyClaimMining_def split: sum.splits)
  from run p mint pos have chk: "go_div (i64 (?a * SubunitsPerEAST)) ?a = SubunitsPerEAST"
    and d': "d' = kv_set (accountKey (tx_From t)) (AccountV ?f') d1"
    by (auto simp: applyClaimMining_def Let_def setAccountTxn_Inr split: if_splits)
  have cr: "in_i64 (?a * SubunitsPerEAST)"
    using mul_overflow_check [OF pos, of SubunitsPerEAST] chk by (simp add: SubunitsPerEAST_def)
  from mintFromBucketTxn_Inr [OF wf caps cr mint] obtain b where
    b: "map_of d (bucketKey (cmp_Bucket p)) = Some (BucketV b)" "bkt_Minted b + ?a \<le> bkt_Cap b"
      "d1 = kv_set (bucketKey (cmp_Bucket p)) (BucketV (b\<lparr>bkt_Minted := bkt_Minted b + ?a\<rparr>)) d" .
  have "acc_ok (acct d' (tx_From t))"
    using ledger_inv_claim_mining [OF inv pos run] by (auto intro: acct_ok ledger_inv_wf)
  then have "0 \<le> i64 (acc_Balance ?f + ?a * SubunitsPerEAST)" using cr by (simp add: d' acc_ok_def i64_id)
  then have "i64 (acc_Balance ?f + ?a * SubunitsPerEAST) = acc_Balance ?f + ?a * SubunitsPerEAST"
    using acct_range [OF inv, of "tx_From t"] pos cr by (intro i64_sum_nonneg) (auto simp: in_i64_def SubunitsPerEAST_def)
  with b d' cr show thesis by (intro that) (simp_all add: i64_id)
qed

lemma claim_ok:
  assumes inv: "ledger_inv G d" and h: "healthy s" and pos: "0 < tx_Amount t" and p: "ParseClaimMiningPayload t = Inr p"
    and b: "map_of d (bucketKey (cmp_Bucket p)) = Some (BucketV b)" "bkt_Minted b + tx_Amount t \<le> bkt_Cap b"
  shows "\<exists>d'. applyClaimMining s d f t = Inr d'"
proof -
  have wf: "wf_db d" and caps: "caps d = TotalMaxSupply" using inv by (auto simp: ledger_inv_def)
  let ?a = "tx_Amount t"
  have small: "0 \<le> bkt_Minted b" "?a \<le> 1000000000"
    using wf_db_lookup [OF wf b(1)] bucket_cap_le_caps [OF wf b(1)] caps b(2) by (auto simp: bucket_ok_def TotalMaxSupply_def)
  then have i: "i64 (bkt_Minted b + ?a) = bkt_Minted b + ?a"
    using b(2) bucket_cap_le_caps [OF wf b(1)] caps pos by (intro i64_id) (auto simp: in_i64_def TotalMaxSupply_def)
  have "in_i64 (?a * SubunitsPerEAST)" using small pos by (simp add: in_i64_def SubunitsPerEAST_def)
  moreover have "in_i64 ?a" using small pos by (simp add: in_i64_def)
  ultimately have "go_div (i64 (?a * SubunitsPerEAST)) ?a = SubunitsPerEAST"
    using mul_overflow_check [OF pos, of SubunitsPerEAST] by (simp add: SubunitsPerEAST_def)
  then show ?thesis
    using h p b pos i by (simp add: applyClaimMining_def mintFromBucketTxn_def txn_Get_def txn_Set_def setAccountTxn_def Let_def)
qed

lemma implements_claim:
  assumes inv: "ledger_inv G d" and h: "healthy s" and pos: "0 < tx_Amount t" "in_i64 (tx_Amount t)"
    and non: "tx_Nonce t = 0 \<or> acc_Nonce (acct d (tx_From t)) < tx_Nonce t" and ty: "tx_Type t = TxClaimMining"
  shows "implements d (applyClaimMining s d (acct d (tx_From t)) t) (spec_tx t (ledger_of d))"
proof (cases "ParseClaimMiningPayload t")
  case (Inl e)
  then show ?thesis using ty by (simp add: implements_def spec_tx_def applyClaimMining_def Let_def)
next
  case p: (Inr p)
  let ?r = "applyClaimMining s d (acct d (tx_From t)) t" and ?n = "cmp_Bucket p"
  have nn: "\<not> (tx_Nonce t \<noteq> 0 \<and> tx_Nonce t \<le> acc_Nonce (acct d (tx_From t)))" using non by auto
  show ?thesis
  proof (cases "\<exists>b. map_of d (bucketKey ?n) = Some (BucketV b) \<and> bkt_Minted b + tx_Amount t \<le> bkt_Cap b")
    case True
    then obtain b d' where b: "map_of d (bucketKey ?n) = Some (BucketV b)" "bkt_Minted b + tx_Amount t \<le> bkt_Cap b" and run: "?r = Inr d'"
      using claim_ok [OF inv h pos(1) p] by blast
    from claim_Inr [OF inv pos p run] b obtain
      d': "d' = kv_set (accountKey (tx_From t)) (AccountV ((acct d (tx_From t))
          \<lparr>acc_Balance := acc_Balance (acct d (tx_From t)) + tx_Amount t * SubunitsPerEAST, acc_Nonce := tx_Nonce t\<rparr>))
        (kv_set (bucketKey ?n) (BucketV (b\<lparr>bkt_Minted := bkt_Minted b + tx_Amount t\<rparr>)) d)" by auto
    have lb: "lg_bucket (ledger_of d) ?n = Some b" using b(1) by simp
    have "mint ?n (tx_Amount t) (ledger_of d) = Some (ledger_of (kv_set (bucketKey ?n) (BucketV (b\<lparr>bkt_Minted := bkt_Minted b + tx_Amount t\<rparr>)) d))"
      unfolding mint_def lb ledger_of_bucket using b(2) by simp
    then show ?thesis
      using nn ty p run by (simp add: implements_def spec_tx_def ledger_of_account d' Let_def)
  next
    case False
    then have "mint ?n (tx_Amount t) (ledger_of d) = None" by (auto simp: mint_def not_le split: option.split)
    moreover have "\<exists>e. ?r = Inl e"
      using False claim_Inr [OF inv pos p] by (cases ?r) auto
    ultimately show ?thesis using nn ty p by (simp add: implements_def spec_tx_def Let_def)
  qed
qed

lemma implements_body:
  assumes inv: "ledger_inv G d" and h: "healthy s" and t: "sound_tx t"
  shows "implements d (applyTxBody s t d) (spec_tx t (ledger_of d))"
proof -
  note wf = ledger_inv_wf [OF inv]
  have pos: "0 < tx_Amount t" "in_i64 (tx_Amount t)" and ns: "\<not> self_transfer t" using t by (simp_all add: sound_tx_def)
  show ?thesis
  proof (cases "nonce_ok d t")
    case False
    then show ?thesis
      using wf h by (auto simp: implements_def spec_tx_def applyTxBody_def getAccountTxn_healthy nonce_ok_def word_gt_0 Let_def)
  next
    case True
    then have non: "tx_Nonce t = 0 \<or> acc_Nonce (acct d (tx_From t)) < tx_Nonce t" by (simp add: nonce_ok_def)
    note body = applyTxBody_healthy [OF wf h True]
    consider "tx_Type t = TxTransfer" | "tx_Type t = TxStake" | "tx_Type t = TxRequestUnstake"
      | "tx_Type t = TxClaimUnstake" | "tx_Type t = TxClaimMining" | "\<not> known_type t" by (auto simp: known_type_def)
    then show ?thesis
    proof cases
      case 1
      then have "normalizeAddr (tx_From t) \<noteq> normalizeAddr (tx_To t)" using ns by (simp add: self_transfer_def)
      from implements_transfer [OF inv h pos this 1 non] show ?thesis by (simp add: body(1) [OF 1])
    next
      case 2
      from implements_own(1) [OF inv h pos non 2] show ?thesis by (simp add: body(2) [OF 2])
    next
      case 3
      from implements_own(2) [OF inv h pos non 3] show ?thesis by (simp add: body(3) [OF 3])
    next
      case 4
      from implements_own(3) [OF inv h pos non 4] show ?thesis by (simp add: body(4) [OF 4])
    next
      case 5
      from implements_claim [OF inv h pos non 5] show ?thesis by (simp add: body(5) [OF 5])
    next
      case 6
      then show ?thesis
        using True wf h
        by (auto simp: implements_def spec_tx_def applyTxBody_def getAccountTxn_healthy known_type_def Let_def)
    qed
  qed
qed

section \<open>Refinement\<close>

lemma ApplyTx_refines:
  assumes inv: "ledger_inv G (db s)" and h: "healthy s" and t: "sound_tx t"
  shows "case spec_tx t (ledger_of (db s)) of
      None \<Rightarrow> \<exists>e. ApplyTx s t = (Inl e, s)
    | Some L \<Rightarrow> \<exists>s'. ApplyTx s t = (Inr (), s') \<and> ledger_of (db s') = L \<and> ledger_inv G (db s') \<and> healthy s'
        \<and> (\<forall>k. \<not> ledger_key k \<longrightarrow> map_of (db s') k = map_of (db s) k)"
proof (cases "spec_tx t (ledger_of (db s))")
  case None
  with implements_body [OF inv h t] obtain e where "applyTxBody s t (db s) = Inl e" by (auto simp: implements_def)
  with None show ?thesis by (simp add: ApplyTx_def db_Update_def)
next
  case (Some L)
  with implements_body [OF inv h t] obtain d where d: "applyTxBody s t (db s) = Inr d" "ledger_of d = L" by (auto simp: implements_def)
  have run: "ApplyTx s t = (Inr (), s\<lparr>db := d\<rparr>)" using d(1) h by (simp add: ApplyTx_Inr)
  from ApplyTx_sound [OF inv t run] Some d(2) run h show ?thesis by auto
qed

text \<open>
  C2: blocks implement the abstract ledger. Take a healthy store within the ledger invariant and transactions with positive
  amounts, none a transfer to oneself. The transactions of a received block succeed exactly when the specification accepts
  them all, and when one is refused the ledger is left where the specification stopped; the transactions of a sealed
  block are exactly those the specification accepts one after the other. In every case the store
  then holds the ledger of the specification and is unchanged outside accounts and buckets.
\<close>

theorem blocks_refine:
  assumes "ledger_inv G (db s)" "healthy s" "list_all sound_tx ts"
  shows "(\<exists>r s'. apply_txs s ts = (r, s') \<and> (r = Inr () \<longleftrightarrow> fst (spec_all ts (ledger_of (db s))))
        \<and> ledger_of (db s') = snd (spec_all ts (ledger_of (db s)))
        \<and> (\<forall>k. \<not> ledger_key k \<longrightarrow> map_of (db s') k = map_of (db s) k))
    \<and> (\<exists>s'. seal_apply s ts = (fst (spec_some ts (ledger_of (db s))), s')
        \<and> ledger_of (db s') = snd (spec_some ts (ledger_of (db s)))
        \<and> (\<forall>k. \<not> ledger_key k \<longrightarrow> map_of (db s') k = map_of (db s) k))"
  using assms
proof (induction ts arbitrary: s)
  case (Cons t ts)
  have t: "sound_tx t" "list_all sound_tx ts" using Cons.prems(3) by simp_all
  note r = ApplyTx_refines [OF Cons.prems(1,2) t(1)]
  show ?case
  proof (cases "spec_tx t (ledger_of (db s))")
    case None
    with r obtain e where e: "ApplyTx s t = (Inl e, s)" by auto
    from Cons.IH [OF Cons.prems(1,2) t(2)] None e show ?thesis by simp
  next
    case (Some L)
    with r obtain s1 where s1: "ApplyTx s t = (Inr (), s1)" "ledger_of (db s1) = L" "ledger_inv G (db s1)" "healthy s1"
      "\<And>k. \<not> ledger_key k \<Longrightarrow> map_of (db s1) k = map_of (db s) k" by auto
    from Cons.IH [OF s1(3,4) t(2)] Some s1(1,2,5) show ?thesis
      by (auto split: prod.splits)
  qed
qed simp

theorem blocks_refine_witness:
  "fst (seal_apply demo_store [demo_tx TxTransfer ''0xcd'' 10 4, demo_tx TxTransfer ''0xcd'' 10 4]) = [demo_tx TxTransfer ''0xcd'' 10 4]
   \<and> acc_Balance (acct (db (snd (seal_apply demo_store [demo_tx TxTransfer ''0xcd'' 10 4, demo_tx TxTransfer ''0xcd'' 10 4]))) ''0xcd'') = 10"
proof -
  let ?t = "demo_tx TxTransfer ''0xcd'' 10 4"
  have t: "list_all sound_tx [?t, ?t]" by (simp add: sound_tx_def demo_tx_def self_transfer_def in_i64_def)
  have s: "spec_some [?t, ?t] (ledger_of (db demo_store)) = ([?t], put ''0xcd'' ((acct (db demo_store) ''0xcd'')\<lparr>acc_Balance := 10\<rparr>)
      (put (tx_From ?t) ((acct (db demo_store) (tx_From ?t))\<lparr>acc_Balance := acc_Balance (acct (db demo_store) (tx_From ?t)) - 10, acc_Nonce := 4\<rparr>)
        (ledger_of (db demo_store))))"
    by (simp add: spec_tx_def demo_tx_def demo_account_def put_def zero_account_def Let_def)
  obtain s' where "seal_apply demo_store [?t, ?t] = ([?t], s')" "acct (db s') = lg_acct (snd (spec_some [?t, ?t] (ledger_of (db demo_store))))"
    using blocks_refine [OF demo_ledger_inv demo_healthy t] unfolding s by (metis fst_conv ledger_of_simps(1) snd_conv)
  then show ?thesis unfolding s by (simp add: put_def)
qed

end
