(* ===== verification/ProducerLoop.thy ===== *)
theory ProducerLoop
  imports Producer
begin

text \<open>
  The goroutine of the automatic producer in \<^verbatim>\<open>internal/consensus/producer.go\<close>: one attempt to seal when the node has
  booted, then one at each tick of its interval until the stop channel is closed. A tick carries what is read
  at its time what the rest of the process did to the pool and the store since the last one,
  and when it last told the producer of an external proposal.
\<close>

record PTick =
  pt_now :: int
  pt_nowNs :: int
  pt_stop :: bool
  pt_notified :: "int option"
  pt_others :: "Mempool option \<times> Store \<Rightarrow> Mempool option \<times> Store"

record ProducerEnv =
  pe_geth :: Geth
  pe_env :: Env
  pe_order :: "(string \<times> int) list \<Rightarrow> (string \<times> int) list"
  pe_producer :: Producer
  pe_leader :: "LeaderSchedule option"

definition producer_at :: "ProducerEnv \<Rightarrow> PTick \<Rightarrow> Producer" where
  "producer_at P k = (case pt_notified k of None \<Rightarrow> pe_producer P | Some t \<Rightarrow> NotifyExternalProposal (pe_producer P) t)"

definition tick_seal :: "ProducerEnv \<Rightarrow> PTick \<Rightarrow> Mempool option \<times> Store \<Rightarrow> SealResult option \<times> Mempool option \<times> Store" where
  "tick_seal P k ps =
     (case pt_others k ps of (pool, s) \<Rightarrow>
        trySeal (pe_geth P) (pe_env P) (pt_now k) (pt_nowNs k) (pe_order P) (producer_at P k) (pe_leader P) pool s)"

fun producer_ticks :: "ProducerEnv \<Rightarrow> PTick list \<Rightarrow> Mempool option \<times> Store \<Rightarrow> SealResult option list \<times> Mempool option \<times> Store" where
  "producer_ticks P [] ps = ([], ps)"
| "producer_ticks P (k # ks) ps =
     (if pt_stop k then ([], ps)
      else case tick_seal P k ps of (res, ps') \<Rightarrow>
        (case producer_ticks P ks ps' of (rs, ps'') \<Rightarrow> (res # rs, ps'')))"

text \<open>The whole loop: the first attempt, two seconds after the start, does not look at the stop channel.\<close>

definition producer_loop :: "ProducerEnv \<Rightarrow> PTick \<Rightarrow> PTick list \<Rightarrow> Mempool option \<times> Store \<Rightarrow> SealResult option list \<times> Mempool option \<times> Store" where
  "producer_loop P boot ks ps =
     (case tick_seal P boot ps of (res, ps') \<Rightarrow>
        (case producer_ticks P ks ps' of (rs, ps'') \<Rightarrow> (res # rs, ps'')))"

section \<open>What sealing leaves of the chain\<close>

text \<open>Applying transactions and asking for jail terms changes accounts, buckets and jail records only.\<close>

definition same_chain :: "Store \<Rightarrow> Store \<Rightarrow> bool" where
  "same_chain s s' \<longleftrightarrow> s' = s\<lparr>db := db s'\<rparr> \<and> (\<forall>k. \<not> ledger_key k \<longrightarrow> \<not> prefix ''jail:'' k \<longrightarrow> map_of (db s') k = map_of (db s) k)"

lemma same_chain_refl [simp]: "same_chain s s"
  by (simp add: same_chain_def)

lemma same_chain_trans: "same_chain a b \<Longrightarrow> same_chain b c \<Longrightarrow> same_chain a c"
  unfolding same_chain_def by (metis Store.surjective Store.update_convs(1))

lemma same_chain_get:
  assumes "same_chain s s'"
  shows "map_of (db s') (blockKey n) = map_of (db s) (blockKey n)" "map_of (db s') (metaKey m) = map_of (db s) (metaKey m)"
proof -
  have "\<not> prefix ''jail:'' (blockKey n)" "\<not> prefix ''jail:'' (metaKey m)" by (simp_all add: blockKey_def metaKey_def)
  then show "map_of (db s') (blockKey n) = map_of (db s) (blockKey n)" "map_of (db s') (metaKey m) = map_of (db s) (metaKey m)"
    using assms ledger_key_simps(1,2) unfolding same_chain_def by blast+
qed

lemma same_chain_faults:
  assumes "same_chain s s'"
  shows "getFault s' = getFault s" "setFault s' = setFault s" "commitFault s' = commitFault s"
proof -
  have "s' = s\<lparr>db := db s'\<rparr>" using assms by (simp add: same_chain_def)
  then obtain d where "s' = s\<lparr>db := d\<rparr>" by blast
  then show "getFault s' = getFault s" "setFault s' = setFault s" "commitFault s' = commitFault s" by simp_all
qed

lemma same_chain_reads:
  assumes "same_chain s s'"
  shows "healthy s' = healthy s" "GetLatestHeight s' = GetLatestHeight s" "GetBlock s' n = GetBlock s n"
    "expected_prev s' l = expected_prev s l"
proof -
  note k = same_chain_get [OF assms] same_chain_faults [OF assms]
  show "healthy s' = healthy s" by (simp only: healthy_def k)
  show "GetLatestHeight s' = GetLatestHeight s" by (simp add: GetLatestHeight_def txn_Get_def k)
  have b: "GetBlock s' n = GetBlock s n" for n by (simp add: GetBlock_def txn_Get_def k)
  then show "GetBlock s' n = GetBlock s n" .
  show "expected_prev s' l = expected_prev s l" by (simp add: expected_prev_def b)
qed

lemma ApplyTx_same_chain: "same_chain s (snd (ApplyTx s t))"
proof -
  obtain r s' where run: "ApplyTx s t = (r, s')" by fastforce
  from ApplyTx_other [OF run] show ?thesis by (simp add: same_chain_def run)
qed

lemma seal_apply_same_chain: "seal_apply s ts = (applied, s') \<Longrightarrow> same_chain s s'"
proof (induction ts arbitrary: s applied)
  case (Cons t ts)
  obtain r s1 where run: "ApplyTx s t = (r, s1)" by fastforce
  then have "same_chain s s1" using ApplyTx_same_chain [of s t] by simp
  with Cons run show ?case by (auto split: sum.splits prod.splits intro: same_chain_trans)
qed simp

lemma IsJailed_same_chain: "same_chain s (snd (IsJailed s now a))"
  by (auto simp: IsJailed_def UnjailValidator_def db_Update_def txn_Delete_def same_chain_def map_of_kv_del jailKey_def Let_def
      split: sum.split error.split)

lemma eligible_same_chain: "same_chain s (snd (eligible_loop s now m as)) \<and> set (fst (eligible_loop s now m as)) \<subseteq> set as"
proof (induction "as" arbitrary: s)
  case (Cons a "as")
  obtain r s1 where run: "IsJailed s now a = (r, s1)" by fastforce
  have "same_chain s s1" using IsJailed_same_chain [of s now a] run by simp
  with Cons [of s1] run show ?case
    by (auto split: sum.split prod.split bool.split intro: same_chain_trans)
qed simp

text \<open>A node that is its own roster, or has none, leads every height.\<close>

definition leads_alone :: "LeaderSchedule option \<Rightarrow> bool" where
  "leads_alone lo \<longleftrightarrow> (\<forall>l. lo = Some l \<longrightarrow> ls_localAddr l \<noteq> [] \<and> length (ls_validators l) \<le> 1
     \<and> (\<forall>v \<in> set (ls_validators l). EqualFold v (ls_localAddr l)))"

lemma eligible_length: "length (fst (eligible_loop s now m vs)) \<le> length vs"
proof (induction vs arbitrary: s)
  case (Cons v vs)
  obtain r s1 where "IsJailed s now v = (r, s1)" by fastforce
  with Cons [of s1] show ?case by (auto split: sum.split bool.split prod.splits intro: le_SucI)
qed simp

lemma leads_alone_leads:
  assumes "leads_alone (Some l)"
  shows "fst (IsLocalLeader l s now h) \<and> same_chain s (snd (IsLocalLeader l s now h))"
proof -
  let ?el = "\<lambda>s. eligibleValidatorsLocked l s now"
  have el: "same_chain s (snd (?el s)) \<and> set (fst (?el s)) \<subseteq> set (ls_validators l) \<and> length (fst (?el s)) \<le> length (ls_validators l)" for s
    using eligible_same_chain [of s now] eligible_length by (simp add: eligibleValidatorsLocked_def)
  have "length (fst (?el s)) \<le> 1" using assms el [of s] by (auto simp: leads_alone_def)
  then have "EqualFold (pick_leader (ls_localAddr l) (fst (?el s)) h) (ls_localAddr l)"
    using assms el [of s] by (cases "fst (?el s)") (auto simp: pick_leader_def leads_alone_def)
  then show ?thesis
    using el [of s] el [of "snd (?el s)"] assms
    by (auto simp: IsLocalLeader_def LeaderForHeight_def leads_alone_def split: prod.split intro: same_chain_trans)
qed

section \<open>The chain a producer grows\<close>

definition can_sign :: "Geth \<Rightarrow> string \<Rightarrow> bool" where
  "can_sign E key \<longleftrightarrow> key = [] \<or> (\<forall>m. \<exists>sig. SignEIP191 E m key = Inr sig)"

lemma can_sign_seal: "can_sign E key \<Longrightarrow> \<exists>sig. seal_sign E key h x = Inr sig"
  by (auto simp: can_sign_def seal_sign_def) (metis sum.simps(6))

text \<open>On a working store with a readable tip sealing always succeeds: what cannot be applied is left out.\<close>

lemma seal_succeeds:
  assumes h: "healthy s" and l: "GetLatestHeight s = Inr n" "expected_prev s n = Inr prev" and key: "can_sign E key"
  shows "\<exists>b s'. SealBlockWithTxs E now s key addr txs = (Inr b, s') \<and> healthy s' \<and> hdr_Height (sr_Header b) = n + 1
    \<and> hdr_PrevHash (sr_Header b) = prev \<and> GetLatestHeight s' = Inr (n + 1) \<and> GetBlock s' (n + 1) = Inr (sr_Header b)
    \<and> (\<forall>m. m \<noteq> n + 1 \<longrightarrow> GetBlock s' m = GetBlock s m)"
proof -
  obtain applied s1 where ap: "seal_apply s txs = (applied, s1)" by fastforce
  note same = seal_apply_same_chain [OF ap]
  have h1: "healthy s1" using h same_chain_reads(1) [OF same] by simp
  let ?h = "RecomputeBlockHash (n + 1) prev (RecomputeMerkleRoot (tx_hashes applied)) now addr"
  obtain sig where "seal_sign E key (n + 1) ?h = Inr sig" using can_sign_seal [OF key] by blast
  then obtain b s' where run: "SealBlockWithTxs E now s key addr txs = (Inr b, s')"
    using l ap SaveBlockWithTxs_run [OF h1] by (simp add: SealBlockWithTxs_def Let_def)
  from SealBlockWithTxs_run [OF run] l ap have
    sv: "SaveBlockWithTxs s1 (sr_Header b) (map Some applied) = (Inr (), s')" and hd: "hdr_Height (sr_Header b) = n + 1" "hdr_PrevHash (sr_Header b) = prev"
    by (metis (no_types, lifting) Pair_inject sum.inject(2))+
  have s': "s' = s1\<lparr>db := fold (\<lambda>(k, v). kv_set k v) (block_writes (sr_Header b) (map Some applied)) (db s1)\<rparr>"
    using sv SaveBlockWithTxs_run [OF h1] by simp
  have "GetBlock s' m = GetBlock s m" if "m \<noteq> n + 1" for m
  proof -
    have "map_of (rev (block_writes (sr_Header b) (map Some applied))) (blockKey m) = None"
      by (rule block_writes_other) (use that hd in \<open>simp, simp_all add: key_defs\<close>)
    then have "GetBlock s' m = GetBlock s1 m" by (simp add: s' GetBlock_def txn_Get_def kvl.get_after_sets)
    then show ?thesis using same_chain_reads(3) [OF same] by simp
  qed
  then show ?thesis using run hd saved_block [OF h1 sv] h1 by (auto simp: s')
qed

text \<open>What lets a producer seal at a tick: its turn, its key, no external proposal, and no other block maker.\<close>

definition can_seal :: "ProducerEnv \<Rightarrow> bool" where
  "can_seal P \<longleftrightarrow> leads_alone (pe_leader P) \<and> can_sign (pe_geth P) (env_CHAIN_SIGNING_PRIVATE_KEY (pe_env P))"

definition free_tick :: "ProducerEnv \<Rightarrow> PTick \<Rightarrow> bool" where
  "free_tick P k \<longleftrightarrow> \<not> recent_external (producer_at P k) (pt_nowNs k) \<and> (\<forall>ps. same_chain (snd ps) (snd (pt_others k ps)))"

fun chained :: "string \<Rightarrow> uint64 \<Rightarrow> SealResult list \<Rightarrow> bool" where
  "chained prev n [] \<longleftrightarrow> True"
| "chained prev n (b # bs) \<longleftrightarrow> hdr_Height (sr_Header b) = n + 1 \<and> hdr_PrevHash (sr_Header b) = prev
     \<and> chained (hdr_Hash (sr_Header b)) (n + 1) bs"

lemma tick_grows:
  assumes P: "can_seal P" "free_tick P k" and h: "healthy s" and l: "GetLatestHeight s = Inr n" "expected_prev s n = Inr prev"
  shows "\<exists>b pool' s'. tick_seal P k (pool, s) = (Some b, pool', s') \<and> healthy s' \<and> hdr_Height (sr_Header b) = n + 1
    \<and> hdr_PrevHash (sr_Header b) = prev \<and> GetLatestHeight s' = Inr (n + 1) \<and> GetBlock s' (n + 1) = Inr (sr_Header b)
    \<and> (\<forall>m. m \<noteq> n + 1 \<longrightarrow> GetBlock s' m = GetBlock s m)"
proof -
  obtain pool0 s0 where o: "pt_others k (pool, s) = (pool0, s0)" by fastforce
  have c0: "same_chain s s0" using P(2) o unfolding free_tick_def by (metis snd_conv)
  define L where "L = (case pe_leader P of None \<Rightarrow> (True, s0) | Some l \<Rightarrow> IsLocalLeader l s0 (pt_now k) (n + 1))"
  obtain s1 where L: "L = (True, s1)" and c1: "same_chain s0 s1"
    using leads_alone_leads [of _ s0 "pt_now k" "n + 1"] P(1)
    by (cases "pe_leader P") (auto simp: L_def can_seal_def intro: that simp del: split_paired_Ex, metis prod.collapse)
  note c = same_chain_trans [OF c0 c1]
  obtain txs pool1 where t: "(case pool0 of None \<Rightarrow> ([], None)
      | Some m \<Rightarrow> (let (ts, m') = Take m (pr_maxTxs (producer_at P k)) in (ts, Some m'))) = (txs, pool1)" by fastforce
  have ok: "healthy s1" "GetLatestHeight s1 = Inr n" "expected_prev s1 n = Inr prev" using h l same_chain_reads [OF c] by simp_all
  have l0: "GetLatestHeight s0 = Inr n" using l same_chain_reads [OF c0] by simp
  from P(1) have key: "can_sign (pe_geth P) (env_CHAIN_SIGNING_PRIVATE_KEY (pe_env P))" by (simp add: can_seal_def)
  from seal_succeeds [OF ok key, of "pt_now k" "seal_proposer (pe_geth P) (pe_env P)" txs] obtain b s2 where
    b: "SealBlockWithTxs (pe_geth P) (pt_now k) s1 (env_CHAIN_SIGNING_PRIVATE_KEY (pe_env P)) (seal_proposer (pe_geth P) (pe_env P)) txs = (Inr b, s2)"
    "healthy s2" "hdr_Height (sr_Header b) = n + 1" "hdr_PrevHash (sr_Header b) = prev" "GetLatestHeight s2 = Inr (n + 1)"
    "GetBlock s2 (n + 1) = Inr (sr_Header b)" "\<forall>m. m \<noteq> n + 1 \<longrightarrow> GetBlock s2 m = GetBlock s1 m" by blast
  have "tick_seal P k (pool, s) = (Some b, pool1, s2)"
    using P(2) b(1) by (simp add: tick_seal_def o trySeal_def free_tick_def l0 Let_def L_def [symmetric] L t)
  then show ?thesis using b same_chain_reads(3) [OF c] by auto
qed

lemma ticks_grow:
  assumes "can_seal P" "\<forall>k \<in> set ks. free_tick P k" "healthy s" "GetLatestHeight s = Inr n" "expected_prev s n = Inr prev"
    and "unat n + length ks < 2 ^ 64"
  shows "\<exists>bs pool' s'. producer_ticks P ks (pool, s) = (map Some bs, pool', s') \<and> length bs = length (takeWhile (\<lambda>k. \<not> pt_stop k) ks)
    \<and> chained prev n bs \<and> GetLatestHeight s' = Inr (n + of_nat (length bs))
    \<and> (\<forall>b \<in> set bs. GetBlock s' (hdr_Height (sr_Header b)) = Inr (sr_Header b))
    \<and> (\<forall>m. unat m \<le> unat n \<longrightarrow> GetBlock s' m = GetBlock s m)"
  using assms(2-)
proof (induction ks arbitrary: pool s n prev)
  case (Cons k ks)
  show ?case
  proof (cases "pt_stop k")
    case True
    then show ?thesis using Cons.prems by (auto intro!: exI [of _ "[]"])
  next
    case False
    obtain b pool1 s1 where b: "tick_seal P k (pool, s) = (Some b, pool1, s1)" "healthy s1" "hdr_Height (sr_Header b) = n + 1"
      "hdr_PrevHash (sr_Header b) = prev" "GetLatestHeight s1 = Inr (n + 1)" "GetBlock s1 (n + 1) = Inr (sr_Header b)"
      "\<And>m. m \<noteq> n + 1 \<Longrightarrow> GetBlock s1 m = GetBlock s m"
      using tick_grows [OF assms(1) _ Cons.prems(2,3,4), of k pool] Cons.prems(1) by auto
    have u: "unat (n + 1) = unat n + 1" using Cons.prems(5) by (subst unat_add_lem [THEN iffD1]) simp_all
    then have "n + 1 \<noteq> 0" by (metis Suc_eq_plus1 nat.simps(3) unat_0)
    then have e: "expected_prev s1 (n + 1) = Inr (hdr_Hash (sr_Header b))" by (simp add: expected_prev_def b(6))
    from Cons.IH [OF _ b(2,5) e, of pool1] Cons.prems(1,5) u obtain bs pool2 s2 where
      r: "producer_ticks P ks (pool1, s1) = (map Some bs, pool2, s2)" "length bs = length (takeWhile (\<lambda>k. \<not> pt_stop k) ks)"
        "chained (hdr_Hash (sr_Header b)) (n + 1) bs" "GetLatestHeight s2 = Inr (n + 1 + of_nat (length bs))"
        "\<And>b. b \<in> set bs \<Longrightarrow> GetBlock s2 (hdr_Height (sr_Header b)) = Inr (sr_Header b)"
        "\<And>m. unat m \<le> unat n + 1 \<Longrightarrow> GetBlock s2 m = GetBlock s1 m" by auto
    have "GetBlock s2 m = GetBlock s m" if "unat m \<le> unat n" for m
    proof -
      have "m \<noteq> n + 1" using that u by auto
      then show ?thesis using r(6) [of m] b(7) that by simp
    qed
    moreover have "GetBlock s2 (n + 1) = Inr (sr_Header b)" using r(6) [of "n + 1"] b(6) u by simp
    ultimately show ?thesis
      using False b(1,3,4) r by (intro exI [of _ "b # bs"] exI [of _ pool2] exI [of _ s2]) (auto simp: add.assoc)
  qed
qed (auto intro!: exI [of _ "[]"])

text \<open>
  C14: a node that produces alone keeps the chain growing. If it is the only validator of its roster or has none, its key can
  sign, the disk works, and nobody else makes blocks or announced a proposal, then it seals one block
  when it has booted and one at every tick until it is stopped, whatever the pool holds and however requests
  change the ledger in between. The blocks are numbered from the tip on, each links to the one before, all
  are stored, the last is the new tip, and the older blocks are untouched.
\<close>

theorem producer_grows:
  assumes P: "can_seal P" "\<forall>k \<in> set (boot # ks). free_tick P k" and s: "healthy s" "GetLatestHeight s = Inr n" "expected_prev s n = Inr prev"
    and n: "unat n + length ks + 1 < 2 ^ 64"
  shows "\<exists>bs pool' s'. producer_loop P boot ks (pool, s) = (map Some bs, pool', s') \<and> length bs = 1 + length (takeWhile (\<lambda>k. \<not> pt_stop k) ks)
    \<and> chained prev n bs \<and> GetLatestHeight s' = Inr (n + of_nat (length bs))
    \<and> (\<forall>b \<in> set bs. GetBlock s' (hdr_Height (sr_Header b)) = Inr (sr_Header b))
    \<and> (\<forall>m. unat m \<le> unat n \<longrightarrow> GetBlock s' m = GetBlock s m)"
proof -
  let ?boot = "boot\<lparr>pt_stop := False\<rparr>"
  have "producer_loop P boot ks ps = producer_ticks P (?boot # ks) ps" for ps by (simp add: producer_loop_def tick_seal_def producer_at_def)
  moreover have "\<forall>k \<in> set (?boot # ks). free_tick P k" using P(2) by (simp add: free_tick_def producer_at_def)
  ultimately show ?thesis using ticks_grow [OF P(1) _ s, of "?boot # ks" pool] n by simp
qed

theorem producer_grows_witness:
  "\<exists>bs s'. producer_loop \<lparr>pe_geth = toy_geth, pe_env = \<lparr>env_MINING_ORACLE_ADDRESS = [], env_CHAIN_SIGNING_ADDRESS = ''0xab'', env_CHAIN_SIGNING_PRIVATE_KEY = []\<rparr>,
       pe_order = id, pe_producer = NewProducer 0, pe_leader = None\<rparr> \<lparr>pt_now = 2, pt_nowNs = 0, pt_stop = False, pt_notified = None, pt_others = id\<rparr>
       [\<lparr>pt_now = 7, pt_nowNs = 0, pt_stop = False, pt_notified = None, pt_others = id\<rparr>, \<lparr>pt_now = 9, pt_nowNs = 0, pt_stop = True, pt_notified = None, pt_others = id\<rparr>] (None, demo_store)
     = (bs, s') \<and> length bs = 2 \<and> None \<notin> set bs \<and> GetLatestHeight (snd s') = Inr 2"
proof -
  let ?P = "\<lparr>pe_geth = toy_geth, pe_env = \<lparr>env_MINING_ORACLE_ADDRESS = [], env_CHAIN_SIGNING_ADDRESS = ''0xab'', env_CHAIN_SIGNING_PRIVATE_KEY = []\<rparr>,
    pe_order = id, pe_producer = NewProducer 0, pe_leader = None\<rparr>"
  let ?k = "\<lambda>t b. \<lparr>pt_now = t, pt_nowNs = 0, pt_stop = b, pt_notified = None, pt_others = id\<rparr>"
  have P: "can_seal ?P" "\<forall>k \<in> set [?k 2 False, ?k 7 False, ?k 9 True]. free_tick ?P k"
    by (auto simp: can_seal_def leads_alone_def can_sign_def free_tick_def recent_external_def NewProducer_def producer_at_def)
  have e: "expected_prev demo_store 0 = Inr ''GENESIS''" by (simp add: expected_prev_def)
  show ?thesis
    using producer_grows [OF P demo_healthy demo_height e, of None] by auto
qed

end
