(* ===== verification/Shutdown.thy ===== *)
theory Shutdown
  imports NodeMain
begin

text \<open>
  How the process of \<^verbatim>\<open>cmd/validator/main.go\<close> ends. After a signal one goroutine stops the parts of the node in
  order and calls \<^verbatim>\<open>os.Exit\<close>; closing the HTTP server makes \<^verbatim>\<open>main\<close> return from \<^verbatim>\<open>srv.Start\<close> and run its deferred calls
  at the same time. Both call \<^verbatim>\<open>Stop\<close>, which looks at the stop channel, closes it if it is open, and waits
  for the goroutine of the loop. A step runs one action of one of the goroutines; requests and gossip
  callbacks that are still being served when the listeners close are not tracked.
\<close>

datatype Loop = TheEngine | TheProducer
datatype Act = Look Loop | Shut Loop | Await Loop | CloseNode | CloseServer | CloseStore | ExitOk
datatype ExitKind = ExitedOk | ExitedFatal | ExitedPanic | DoubleClose

record Proc =
  pc_signal :: "Act list option"
  pc_main :: "Act list option"
  pc_loops :: "Loop set"
  pc_stop :: "Loop set"
  pc_live :: "Loop set"
  pc_node :: bool
  pc_server :: bool
  pc_store :: bool
  pc_exit :: "ExitKind option"

text \<open>A node that serves: no signal yet, \<^verbatim>\<open>main\<close> inside \<^verbatim>\<open>srv.Start\<close>, its loops running.\<close>

definition serving :: "NodeState \<Rightarrow> Proc" where
  "serving ns =
     (let loops = (if sv_bft (ns_sv ns) \<noteq> None then {TheEngine} else {}) \<union> (if ns_producer ns \<noteq> None then {TheProducer} else {})
      in \<lparr>pc_signal = None, pc_main = None, pc_loops = loops, pc_stop = {}, pc_live = loops, pc_node = True, pc_server = True,
          pc_store = True, pc_exit = None\<rparr>)"

definition Stop :: "Loop \<Rightarrow> Loop set \<Rightarrow> Act list" where
  "Stop l loops = (if l \<in> loops then [Look l, Await l] else [])"

definition signal_acts :: "Loop set \<Rightarrow> Act list" where
  "signal_acts loops = Stop TheEngine loops @ Stop TheProducer loops @ [CloseNode, CloseServer, CloseStore, ExitOk]"

text \<open>The deferred calls, last one first; then \<^verbatim>\<open>main\<close> returns.\<close>

definition deferred :: "Loop set \<Rightarrow> Act list" where
  "deferred loops = Stop TheProducer loops @ Stop TheEngine loops @ [CloseNode, CloseStore, ExitOk]"

text \<open>One action: what is to be done in its place, and the process; \<open>None\<close> is waiting. Closing a closed channel panics.\<close>

fun act :: "Act \<Rightarrow> Proc \<Rightarrow> (Act list \<times> Proc) option" where
  "act (Look l) p = Some (if l \<in> pc_stop p then [] else [Shut l], p)"
| "act (Shut l) p = Some ([], if l \<in> pc_stop p then p\<lparr>pc_exit := Some DoubleClose\<rparr> else p\<lparr>pc_stop := insert l (pc_stop p)\<rparr>)"
| "act (Await l) p = (if l \<in> pc_live p then None else Some ([], p))"
| "act CloseNode p = Some ([], p\<lparr>pc_node := False\<rparr>)"
| "act CloseServer p = Some ([], p\<lparr>pc_server := False\<rparr>)"
| "act CloseStore p = Some ([], p\<lparr>pc_store := False\<rparr>)"
| "act ExitOk p = Some ([], p\<lparr>pc_exit := Some ExitedOk\<rparr>)"

datatype ProcEvent = Signal | ServerFails | LoopEnds Loop | LoopPanics | SignalRuns | MainRuns

text \<open>
  A loop ends when it finds its channel closed; the engine's also when it cannot read the tip at its start. A server that
  fails for another reason than being closed is \<^verbatim>\<open>log.Fatal\<close>. Further signals are dropped.
\<close>

fun proc_event :: "ProcEvent \<Rightarrow> Proc \<Rightarrow> Proc option" where
  "proc_event Signal p = (if pc_signal p = None then Some (p\<lparr>pc_signal := Some (signal_acts (pc_loops p))\<rparr>) else None)"
| "proc_event ServerFails p = (if pc_main p = None \<and> pc_server p then Some (p\<lparr>pc_exit := Some ExitedFatal\<rparr>) else None)"
| "proc_event (LoopEnds l) p =
     (if l \<in> pc_live p \<and> (l \<in> pc_stop p \<or> l = TheEngine) then Some (p\<lparr>pc_live := pc_live p - {l}\<rparr>) else None)"
| "proc_event LoopPanics p = (if pc_live p \<noteq> {} then Some (p\<lparr>pc_exit := Some ExitedPanic\<rparr>) else None)"
| "proc_event SignalRuns p =
     (case pc_signal p of
        Some (a # as) \<Rightarrow> map_option (\<lambda>(bs, p'). p'\<lparr>pc_signal := Some (bs @ as)\<rparr>) (act a p)
      | _ \<Rightarrow> None)"
| "proc_event MainRuns p =
     (case pc_main p of
        None \<Rightarrow> if pc_server p then None else Some (p\<lparr>pc_main := Some (deferred (pc_loops p))\<rparr>)
      | Some (a # as) \<Rightarrow> map_option (\<lambda>(bs, p'). p'\<lparr>pc_main := Some (bs @ as)\<rparr>) (act a p)
      | Some [] \<Rightarrow> None)"

definition proc_step :: "ProcEvent \<Rightarrow> Proc \<Rightarrow> Proc option" where
  "proc_step ev p = (if pc_exit p = None then proc_event ev p else None)"

fun proc_run :: "ProcEvent list \<Rightarrow> Proc \<Rightarrow> Proc option" where
  "proc_run [] p = Some p"
| "proc_run (ev # evs) p = (case proc_step ev p of None \<Rightarrow> None | Some p' \<Rightarrow> proc_run evs p')"

section \<open>The order of closing\<close>

text \<open>
  What is left to do is in order, from what is known to be stopped (\<open>S\<close>), ended (\<open>D\<close>) and closed: loops are stopped before
  they are awaited, all have ended before the server closes, node and server before the store, and the store before the exit.
\<close>

fun in_order :: "Loop set \<Rightarrow> Loop set \<Rightarrow> Loop set \<Rightarrow> bool \<Rightarrow> bool \<Rightarrow> bool \<Rightarrow> Act list \<Rightarrow> bool" where
  "in_order L S D n h c [] \<longleftrightarrow> False"
| "in_order L S D n h c (Look l # as) \<longleftrightarrow> l \<in> L \<and> in_order L (insert l S) D n h c as"
| "in_order L S D n h c (Shut l # as) \<longleftrightarrow> l \<in> L \<and> l \<notin> S \<and> in_order L (insert l S) D n h c as"
| "in_order L S D n h c (Await l # as) \<longleftrightarrow> l \<in> S \<and> in_order L S (insert l D) n h c as"
| "in_order L S D n h c (CloseNode # as) \<longleftrightarrow> in_order L S D True h c as"
| "in_order L S D n h c (CloseServer # as) \<longleftrightarrow> L \<subseteq> S \<and> L \<subseteq> D \<and> in_order L S D n True c as"
| "in_order L S D n h c (CloseStore # as) \<longleftrightarrow> n \<and> h \<and> in_order L S D n h True as"
| "in_order L S D n h c (ExitOk # as) \<longleftrightarrow> c \<and> as = []"

lemma in_order_mono:
  "in_order L S D n h c as \<Longrightarrow> D \<subseteq> D' \<Longrightarrow> n \<le> n' \<Longrightarrow> h \<le> h' \<Longrightarrow> c \<le> c' \<Longrightarrow> in_order L S D' n' h' c' as"
proof (induction L S D n h c "as" arbitrary: D' n' h' c' rule: in_order.induct)
  case (4 L S D n h c l "as")
  then have "in_order L S (insert l D) n h c as" "insert l D \<subseteq> insert l D'" by auto
  from 4(1) [OF this 4(4-6)] 4(2) show ?case by simp
next
  case (6 L S D n h c "as")
  then have "in_order L S D n True c as" by simp
  from 6(1) [OF this 6(3,4) _ 6(6)] 6(2,3) show ?case by auto
qed auto

abbreviation fits :: "Proc \<Rightarrow> Act list \<Rightarrow> bool" where
  "fits p as \<equiv> in_order (pc_loops p) (pc_stop p) (- pc_live p) (\<not> pc_node p) (\<not> pc_server p) (\<not> pc_store p) as"

definition orderly :: "Proc \<Rightarrow> bool" where
  "orderly p \<longleftrightarrow> pc_exit p \<noteq> Some DoubleClose
     \<and> (pc_exit p = Some ExitedOk \<longrightarrow> \<not> pc_store p)
     \<and> (pc_signal p = None \<longrightarrow> pc_server p \<and> pc_node p \<and> pc_store p)
     \<and> (pc_server p \<longrightarrow> pc_main p = None)
     \<and> (\<not> pc_server p \<longrightarrow> pc_loops p \<subseteq> pc_stop p \<and> pc_live p = {})
     \<and> (\<not> pc_store p \<longrightarrow> \<not> pc_server p \<and> \<not> pc_node p)
     \<and> pc_live p \<subseteq> pc_loops p
     \<and> (pc_exit p = None \<longrightarrow> (\<forall>as. pc_signal p = Some as \<longrightarrow> fits p as) \<and> (\<forall>as. pc_main p = Some as \<longrightarrow> fits p as))"

lemma orderly_serving: "orderly (serving ns)"
  by (simp add: orderly_def serving_def Let_def)

lemma signal_in_order: "in_order L S D n h c (signal_acts L)" if "L \<subseteq> {TheEngine, TheProducer}"
  using that by (auto simp: signal_acts_def Stop_def)

lemma deferred_in_order: "L \<subseteq> S \<Longrightarrow> L \<subseteq> D \<Longrightarrow> in_order L S D n True c (deferred L)"
  by (auto simp: deferred_def Stop_def)

text \<open>An action that fits keeps the order for what is left to do, and for the other goroutine unless it closes a channel.\<close>

lemma act_fits:
  assumes fit: "fits p (a # as)" and run: "act a p = Some (bs, p')"
  shows "pc_exit p' = None \<Longrightarrow> fits p' (bs @ as)"
    and "\<forall>l. a \<noteq> Shut l \<Longrightarrow> fits p other \<Longrightarrow> fits p' other"
    and "pc_signal p' = pc_signal p" "pc_main p' = pc_main p" "pc_loops p' = pc_loops p" "pc_live p' = pc_live p"
    and "pc_exit p = None \<Longrightarrow> pc_exit p' \<noteq> Some DoubleClose \<and> (pc_exit p' = Some ExitedOk \<longrightarrow> \<not> pc_store p')"
proof -
  have 1: "pc_exit p' = None \<Longrightarrow> fits p' (bs @ as)"
  proof (cases a)
    case (Await l)
    with run have "l \<notin> pc_live p" "bs = []" "p' = p" by (auto split: if_splits)
    moreover from this(1) have "insert l (- pc_live p) = - pc_live p" by auto
    ultimately show ?thesis using fit Await by simp
  qed (use fit run in \<open>auto split: if_splits simp: insert_absorb\<close>)
  then show "pc_exit p' = None \<Longrightarrow> fits p' (bs @ as)" .
  show "\<forall>l. a \<noteq> Shut l \<Longrightarrow> fits p other \<Longrightarrow> fits p' other"
    using run by (cases a) (auto split: if_splits intro: in_order_mono)
  show "pc_signal p' = pc_signal p" "pc_main p' = pc_main p" "pc_loops p' = pc_loops p" "pc_live p' = pc_live p"
    using run by (cases a; auto split: if_splits)+
  show "pc_exit p = None \<Longrightarrow> pc_exit p' \<noteq> Some DoubleClose \<and> (pc_exit p' = Some ExitedOk \<longrightarrow> \<not> pc_store p')"
    using fit run by (cases a) (auto split: if_splits)
qed

lemma act_orderly:
  assumes o: "orderly p" "pc_exit p = None" and fit: "fits p (a # as)" and run: "act a p = Some (bs, p')"
    and who: "pc_signal p \<noteq> None"
  shows "(pc_server p' \<longrightarrow> pc_main p' = None) \<and> (\<not> pc_server p' \<longrightarrow> pc_loops p' \<subseteq> pc_stop p' \<and> pc_live p' = {})
     \<and> (\<not> pc_store p' \<longrightarrow> \<not> pc_server p' \<and> \<not> pc_node p') \<and> pc_live p' \<subseteq> pc_loops p'
     \<and> (\<forall>l. a = Shut l \<longrightarrow> pc_main p = None)"
  using o fit run who unfolding orderly_def by (cases a) (auto split: if_splits, blast)

lemma step_orderly:
  assumes "orderly p" "proc_step ev p = Some p'" "pc_loops p \<subseteq> {TheEngine, TheProducer}"
  shows "orderly p' \<and> pc_loops p' = pc_loops p"
proof (cases ev)
  case Signal
  then show ?thesis
    using assms signal_in_order [OF assms(3)] by (auto simp: proc_step_def orderly_def split: if_splits)
next
  case (LoopEnds l)
  then have p': "p' = p\<lparr>pc_live := pc_live p - {l}\<rparr>" using assms(2) by (auto simp: proc_step_def split: if_splits)
  have "fits p' as" if "fits p as" for "as" using that by (auto simp: p' elim: in_order_mono)
  then show ?thesis using assms(1) by (auto simp: orderly_def p')
next
  case SignalRuns
  then obtain a "as" bs q where q: "pc_exit p = None" "pc_signal p = Some (a # as)" "act a p = Some (bs, q)" "p' = q\<lparr>pc_signal := Some (bs @ as)\<rparr>"
    using assms(2) by (auto simp: proc_step_def split: if_splits option.splits list.splits)
  have fit: "fits p (a # as)" and main: "\<And>ms. pc_main p = Some ms \<Longrightarrow> fits p ms" using assms(1) q(1,2) by (auto simp: orderly_def)
  note f = act_fits [OF fit q(3)] and o = act_orderly [OF assms(1) q(1) fit q(3)]
  have "fits q ms" if "pc_main q = Some ms" for ms
    using f(2) [of ms] main [of ms] that o q(2) unfolding f(4) by auto
  then show ?thesis using f o q by (auto simp: orderly_def)
next
  case MainRuns
  show ?thesis
  proof (cases "pc_main p")
    case None
    with MainRuns assms(2) have q: "pc_exit p = None" "\<not> pc_server p" "p' = p\<lparr>pc_main := Some (deferred (pc_loops p))\<rparr>"
      by (auto simp: proc_step_def split: if_splits)
    then show ?thesis using assms(1) deferred_in_order [of "pc_loops p" "pc_stop p" "- pc_live p"] by (auto simp: orderly_def)
  next
    case (Some ms)
    with MainRuns obtain a "as" bs q where q: "pc_exit p = None" "pc_main p = Some (a # as)" "act a p = Some (bs, q)" "p' = q\<lparr>pc_main := Some (bs @ as)\<rparr>"
      using assms(2) by (auto simp: proc_step_def split: if_splits option.splits list.splits)
    have fit: "fits p (a # as)" and sg: "\<And>ms. pc_signal p = Some ms \<Longrightarrow> fits p ms" and s: "pc_signal p \<noteq> None" "\<not> pc_server p"
      using assms(1) q(1,2) by (auto simp: orderly_def)
    note f = act_fits [OF fit q(3)] and o = act_orderly [OF assms(1) q(1) fit q(3) s(1)]
    have "fits q ms" if "pc_signal q = Some ms" for ms
      using f(2) [of ms] sg [of ms] that o q(2) unfolding f(3) by auto
    moreover have "\<not> pc_server q" using q(3) s(2) by (cases a) (auto split: if_splits)
    ultimately show ?thesis using f o q s by (auto simp: orderly_def)
  qed
qed (use assms in \<open>auto simp: proc_step_def orderly_def split: if_splits\<close>)

section \<open>The process ends\<close>

lemma step_loops: "proc_step ev p = Some p' \<Longrightarrow> pc_loops p' = pc_loops p"
proof -
  have act: "act a p = Some (bs, q) \<Longrightarrow> pc_loops q = pc_loops p" for a bs q by (cases a) (auto split: if_splits)
  show "proc_step ev p = Some p' \<Longrightarrow> pc_loops p' = pc_loops p"
    by (cases ev) (auto simp: proc_step_def split: if_splits option.splits list.splits dest: act)
qed

lemma run_orderly:
  assumes "orderly p" "proc_run evs p = Some p'" "pc_loops p \<subseteq> {TheEngine, TheProducer}"
  shows "orderly p' \<and> pc_loops p' = pc_loops p"
  using assms
proof (induction evs arbitrary: p)
  case (Cons ev evs)
  then obtain q where "proc_step ev p = Some q" "proc_run evs q = Some p'" by (auto split: option.splits)
  with Cons step_orderly [OF Cons.prems(1) _ Cons.prems(3)] show ?case by metis
qed simp

text \<open>The steps still to come, at most.\<close>

fun act_size :: "Act \<Rightarrow> nat" where
  "act_size (Look l) = 2" | "act_size a = 1"

definition todo :: "Act list option \<Rightarrow> nat" where
  "todo x = (case x of None \<Rightarrow> 11 | Some as \<Rightarrow> sum_list (map act_size as))"

definition steps_left :: "Proc \<Rightarrow> nat" where
  "steps_left p = todo (pc_signal p) + todo (pc_main p) + card (pc_live p) + (if pc_exit p = None then 1 else 0)"

lemma todo_lists: "todo (Some (signal_acts L)) < 11" "todo (Some (deferred L)) < 11"
  by (simp_all add: todo_def signal_acts_def deferred_def Stop_def)

lemma act_todo:
  assumes "act a p = Some (bs, p')" "pc_exit p = None"
  shows "sum_list (map act_size bs) < act_size a" "pc_live p' = pc_live p" "pc_signal p' = pc_signal p" "pc_main p' = pc_main p"
  using assms by (cases a; auto split: if_splits)+

lemma step_decreases:
  assumes "finite (pc_live p)" "proc_step ev p = Some p'"
  shows "finite (pc_live p') \<and> steps_left p' < steps_left p"
proof -
  have ex: "pc_exit p = None" using assms(2) by (auto simp: proc_step_def split: if_splits)
  have e: "proc_event ev p = Some p'" using assms(2) ex by (simp add: proc_step_def)
  show ?thesis
  proof (cases ev)
    case Signal
    then show ?thesis using e assms(1) todo_lists(1) [of "pc_loops p"] by (auto simp: steps_left_def todo_def split: if_splits)
  next
    case (LoopEnds l)
    then have "l \<in> pc_live p" "p' = p\<lparr>pc_live := pc_live p - {l}\<rparr>" using e by (auto split: if_splits)
    then show ?thesis using assms(1) card_Diff1_less [of "pc_live p" l] by (simp add: steps_left_def)
  next
    case SignalRuns
    then obtain a "as" bs q where "pc_signal p = Some (a # as)" "act a p = Some (bs, q)" "p' = q\<lparr>pc_signal := Some (bs @ as)\<rparr>"
      using e by (auto split: option.splits list.splits)
    then show ?thesis using act_todo [of a p bs q] ex assms(1) by (simp add: steps_left_def todo_def)
  next
    case MainRuns
    show ?thesis
    proof (cases "pc_main p")
      case None
      then show ?thesis using e MainRuns assms(1) todo_lists(2) [of "pc_loops p"] by (auto simp: steps_left_def todo_def split: if_splits)
    next
      case (Some ms)
      then obtain a "as" bs q where "pc_main p = Some (a # as)" "act a p = Some (bs, q)" "p' = q\<lparr>pc_main := Some (bs @ as)\<rparr>"
        using e MainRuns by (auto split: option.splits list.splits)
      then show ?thesis using act_todo [of a p bs q] ex assms(1) by (simp add: steps_left_def todo_def)
    qed
  qed (use e ex assms(1) in \<open>auto simp: steps_left_def split: if_splits\<close>)
qed

lemma run_bounded: "finite (pc_live p) \<Longrightarrow> proc_run evs p = Some p' \<Longrightarrow> length evs + steps_left p' \<le> steps_left p"
proof (induction evs arbitrary: p)
  case (Cons ev evs)
  then obtain q where "proc_step ev p = Some q" "proc_run evs q = Some p'" by (auto split: option.splits)
  with Cons step_decreases [OF Cons.prems(1)] show ?case by fastforce
qed simp

text \<open>After a signal some goroutine can always go on, until the process has ended.\<close>

lemma not_stuck:
  assumes "orderly p" "pc_signal p \<noteq> None" "pc_exit p = None"
  shows "\<exists>ev p'. proc_step ev p = Some p'"
proof -
  obtain "as" where sg: "pc_signal p = Some as" "fits p as" using assms by (auto simp: orderly_def)
  then obtain a bs where "as": "as = a # bs" by (cases "as") auto
  show ?thesis
  proof (cases "act a p")
    case None
    then obtain l where "l \<in> pc_live p" "a = Await l" by (cases a) (auto split: if_splits)
    then show ?thesis using sg(2) "as" assms(3) by (intro exI [of _ "LoopEnds l"]) (simp add: proc_step_def)
  next
    case (Some r)
    then show ?thesis using sg(1) "as" assms(3) by (intro exI [of _ SignalRuns]) (auto simp: proc_step_def)
  qed
qed

text \<open>
  C19: an orderly shutdown. However the signal handler, the returning \<^verbatim>\<open>main\<close> and the loops interleave, no stop channel is
  closed twice, the store is closed only when the engine and the producer have ended and the node and the
  server are closed, and an exit with code 0 leaves the store closed. A run has at most 25 steps, and after
  a signal something can always go on until the process has exited.
\<close>

theorem orderly_shutdown:
  assumes "proc_run evs (serving ns) = Some p"
  shows "pc_exit p \<noteq> Some DoubleClose
    \<and> (\<not> pc_store p \<longrightarrow> pc_live p = {} \<and> \<not> pc_node p \<and> \<not> pc_server p)
    \<and> (pc_exit p = Some ExitedOk \<longrightarrow> \<not> pc_store p)
    \<and> length evs \<le> 25
    \<and> (pc_signal p \<noteq> None \<and> pc_exit p = None \<longrightarrow> (\<exists>ev p'. proc_step ev p = Some p'))"
proof -
  have L: "pc_loops (serving ns) \<subseteq> {TheEngine, TheProducer}" "finite (pc_live (serving ns))" "steps_left (serving ns) \<le> 25"
    by (auto simp: serving_def steps_left_def todo_def Let_def)
  have o: "orderly p" using run_orderly [OF orderly_serving assms L(1)] by simp
  have "length evs \<le> 25" using run_bounded [OF L(2) assms] L(3) by simp
  with o not_stuck [OF o] show ?thesis by (auto simp: orderly_def)
qed

definition demo_shutdown :: "ProcEvent list" where
  "demo_shutdown = [Signal, SignalRuns, SignalRuns, LoopEnds TheProducer, SignalRuns, SignalRuns, SignalRuns, MainRuns, MainRuns,
     SignalRuns, MainRuns, MainRuns, MainRuns, SignalRuns]"

theorem orderly_shutdown_witness:
  "\<exists>ns p. proc_run demo_shutdown (serving ns) = Some p \<and> pc_exit p = Some ExitedOk \<and> \<not> pc_store p \<and> \<not> pc_node p"
proof -
  obtain ns0 :: NodeState where ns0: "True" by simp
  let ?ns = "ns0\<lparr>ns_sv := (ns_sv ns0)\<lparr>sv_bft := None\<rparr>, ns_producer := Some (NewProducer 0)\<rparr>"
  obtain p where p: "proc_run demo_shutdown (serving ?ns) = Some p" "pc_exit p = Some ExitedOk"
    by (simp add: demo_shutdown_def serving_def proc_step_def signal_acts_def deferred_def Stop_def Let_def)
  from orderly_shutdown [OF p(1)] p show ?thesis by blast
qed

text \<open>A server that cannot listen ends the process by \<^verbatim>\<open>log.Fatal\<close>: no deferred call runs, the store is not closed.\<close>

lemma failed_server_leaves_store:
  "proc_run [ServerFails] (serving ns) = Some p \<Longrightarrow> pc_exit p = Some ExitedFatal \<and> pc_store p \<and> pc_live p = pc_loops p \<and> proc_step ev p = None"
  by (auto simp: serving_def proc_step_def Let_def)

end
