(* ===== verification/Spec2Isabelle.thy ===== *)
theory Spec2Isabelle
  imports Supply Replay Blocks Leader Vote Seal Mempool Merkle Producer BftDemo BftHandlers Uptime PeerAddr Middleware Scoring
    Archive StateSync Typing NodeLife BftRound EngineLoop LedgerSpec ProducerLoop Shutdown
begin

text \<open>
  East-validator is the validator node of EASTCHAIN: one Go process that keeps a ledger in a key-value store, agrees
  with its peers on blocks and serves an HTTP interface. This development models the node from the hash functions up to
  the running process and proves what makes its parts correct; where the code does not do what it
  says, a theorem shows it on the model.

  \<^bold>\<open>The program.\<close> \<^verbatim>\<open>cmd/validator/main.go\<close> opens the store, applies the genesis document, may import a snapshot, builds the
  roster, the pool and the peer-to-peer node, and starts either the consensus engine or the automatic producer
  and the HTTP server. All of them share the store; the engine, the producer and the handlers share the
  roster and the pool. Gossip messages and timers call into the engine, which commits blocks through the store.

  \<^bold>\<open>Conventions.\<close> A Go struct is a record with a prefix per struct, an error is the left side of \<open>'a res\<close>, \<^verbatim>\<open>uint64\<close> is a
  64-bit word, \<^verbatim>\<open>int64\<close> and \<^verbatim>\<open>int\<close> are integers with their wrap-around written out (\<open>i64\<close>, \<open>i32\<close>), a string is the list of its
  bytes, a Go map is a sorted association list, so that two equal maps are equal values. Ranging over a Go map takes
  the order as an argument. A panic is \<open>None\<close>, or \<open>Panicked\<close> for a request. The clock is an argument, read
  twice where the code reads it twice. A mutex makes the section it guards one step. The store carries
  predicates that say which reads, writes and commits fail, so that every error path is a branch.

  \<^bold>\<open>Theories and sources.\<close>
  \<^item> \<open>Prelude\<close>, \<open>GoLib\<close>, \<open>GoConv\<close>, \<open>GoNet\<close>: results, sorted maps and the interface of key-value stores; the functions of
    Go's \<^verbatim>\<open>strings\<close>, \<^verbatim>\<open>strconv\<close>, \<^verbatim>\<open>fmt\<close> and \<^verbatim>\<open>net\<close> that the code uses.
  \<^item> \<open>Hashing\<close>, \<open>Crypto\<close>, \<open>Tx\<close>, \<open>Genesis\<close>: hashing and hexadecimal, EIP-191 signatures (\<^verbatim>\<open>internal/crypto\<close>, over the
    record \<open>Geth\<close> of go-ethereum functions), transactions (\<^verbatim>\<open>internal/tx\<close>), the genesis document (\<^verbatim>\<open>internal/genesis\<close>).
  \<^item> \<open>State\<close>, \<open>Ledger\<close>, \<open>Supply\<close>, \<open>Replay\<close>, \<open>Blocks\<close>, \<open>Validators\<close>, \<open>Merkle\<close>, \<open>Uptime\<close>, \<open>Backup\<close>, \<open>Typing\<close>: \<^verbatim>\<open>internal/state\<close>. \<open>State\<close> has the
    operations; \<open>Ledger\<close> and \<open>Supply\<close> the ledger invariant and the conservation of supply; \<open>Replay\<close> that no
    transaction is applied twice; \<open>Blocks\<close> genesis and block round trips; \<open>Typing\<close> that every entry keeps the type of its key.
  \<^item> \<open>LedgerSpec\<close>: what the ledger promises without keys, codecs or transactions of the database: pure functions on balances, nonces,
    stakes and buckets, and the refinement of them by applying one transaction, a block, or what sealing can apply.
  \<^item> \<open>Mempool\<close>, \<open>Leader\<close>, \<open>Vote\<close>, \<open>Seal\<close>, \<open>Producer\<close>: \<^verbatim>\<open>internal/mempool\<close> and the files of \<^verbatim>\<open>internal/consensus\<close> of these names.
    \<open>ProducerLoop\<close> is the goroutine of the producer, and that a node which produces alone keeps its chain growing.
  \<^item> \<open>Bft\<close>, \<open>BftSpec\<close>, \<open>BftLoop\<close>, \<open>Agreement\<close>, \<open>BftHandlers\<close>, \<open>BftDemo\<close>, \<open>EngineStore\<close>: \<^verbatim>\<open>consensus/bft.go\<close>. \<open>Bft\<close> has a definition per
    critical section; \<open>BftSpec\<close> an abstract voting machine; \<open>BftLoop\<close> the engine's goroutines as a step relation over
    the sections and its refinement of the machine; \<open>Agreement\<close> a network of engines; \<open>BftHandlers\<close> commits, jailing,
    progress and panics; \<open>EngineStore\<close> what the sections do to store, pool and roster; \<open>BftDemo\<close> a concrete run of two nodes.
  \<^item> \<open>BftRound\<close>, \<open>EngineLoop\<close>: the same file in time. \<open>BftRound\<close> shows that a round in which a quorum of engines follows a
    proposal and hears of each other commits it; \<open>EngineLoop\<close> is the goroutine itself with its waits, deadlines, pacing, \<^verbatim>\<open>Start\<close>
    and \<^verbatim>\<open>Stop\<close>: phases end, a silent round costs its timeouts, a closed stop channel ends the loop.
  \<^item> \<open>Wire\<close>, \<open>BlockSync\<close>, \<open>PeerAddr\<close>, \<open>Scoring\<close>, \<open>Discovery\<close>, \<open>NodeStart\<close>: \<^verbatim>\<open>internal/p2p\<close>; messages and gossip, block ranges, peer addresses,
    bans, the peers a node has met, and starting and closing a node.
  \<^item> \<open>Archive\<close>, \<open>StateSync\<close>: \<^verbatim>\<open>internal/sync\<close>, the catch-up loops and the snapshot download.
  \<^item> \<open>ConfigLoad\<close>, \<open>Middleware\<close>, \<open>Server\<close>, \<open>JsonRpc\<close>, \<open>Router\<close>, \<open>Answers\<close>: \<^verbatim>\<open>internal/config\<close> and \<^verbatim>\<open>internal/api\<close>. Every handler is a function of the server's
    state and the request; \<open>Router\<close> has the table of routes, the guards and what a caller without the secret can
    do; \<open>Answers\<close> that every request is answered.
  \<^item> \<open>NodeMain\<close>: \<^verbatim>\<open>cmd/validator/main.go\<close>, the start, the callbacks, and the running node as a step function over events,
    with restarts from what it left on disk; \<open>NodeLife\<close>, what a restart keeps and how a block sealed by one node reaches another;
    \<open>Shutdown\<close>, how the process ends: the signal handler, the deferred calls and the loops as interleaved steps.

  \<^bold>\<open>Interfaces.\<close> \<open>kv_store\<close> (\<open>Prelude\<close>) states what a sorted map promises and is interpreted on the lists that stand for Go
  maps; \<open>quorum_rule\<close> (\<open>Vote\<close>) what the voting argument needs of a quorum size, interpreted on \<^verbatim>\<open>QuorumSize\<close>; \<open>voting_system\<close>
  (\<open>Agreement\<close>) extends it by the rules of honest voters and is interpreted on the network of engines; \<open>fifo_source\<close>
  (\<open>Mempool\<close>) is the queue that batches drain, interpreted on \<^verbatim>\<open>Take\<close>; \<open>persistent_process\<close> (\<open>NodeMain\<close>) is a process that
  starts from its disk, interpreted on the node; \<open>prompt_poll\<close> (\<open>EngineLoop\<close>) a poll that neither sleeps nor panics, interpreted
  on those of proposing and prevoting.

  \<^bold>\<open>Bounds and loops.\<close> Loops are recursions over their data or carry a measure. The archive loop, the peer loop and the
  block-range server may run on and are partial functions, with theorems on when they end. The agreement theorem assumes that
  heights and rounds do not wrap; round \<open>2 ^ 31\<close> does, which a theorem shows. The quorum formula is exact for up to
  \<open>2 ^ 62\<close> validators.

  \<^bold>\<open>Not modelled.\<close> Logging, metrics of the Go runtime beyond their place on the metrics page, opening and closing the
  database files but for their order at the shutdown, requests still being served when the listeners close, the JSON
  texts themselves (a codec is a parameter), the path matching of the router, the sockets, and libp2p, whose
  constructors and streams are parameters. A store write that panics half-way is not followed by a restart.
\<close>

end
